(* ===== verification/Prelude.thy ===== *)
theory Prelude
  imports Complex_Main "HOL-Library.Word" "HOL-Library.AList" "HOL-Library.Log_Nat"
begin

text \<open>
  What every component shares: the value types of the program (UTF-16 strings, byte
  arrays, JSON values, 64-bit counters), the hash tables, the parameters that stand for
  library code the repository does not contain, and the list lemmas the components use.
\<close>

named_theorems guard_defs "definitions that unfold the guards of a handler"
named_theorems inv_intros "rules that establish a component's invariant"

section \<open>Strings and bytes\<close>

text \<open>
  A \<open>QString\<close> is a sequence of UTF-16 code units (\<open>QString::length\<close> counts those), a
  \<open>QByteArray\<close> a sequence of bytes. A literal of the source, \<open>QStringLiteral("alias")\<close>,
  is \<open>qs ''alias''\<close>.
\<close>

type_synonym qchar = "16 word"
type_synonym qstring = "qchar list"
type_synonym bytes = "8 word list"

definition qc :: "char \<Rightarrow> qchar" where
  "qc c = of_nat (of_char c)"

definition qs :: "string \<Rightarrow> qstring" where
  "qs s = map qc s"

definition bs :: "string \<Rightarrow> bytes" where
  "bs s = map (\<lambda>c. of_nat (of_char c)) s"

lemma unat_qc: "unat (qc c) = of_char c"
proof -
  have "(of_char c :: nat) < 2 ^ 16"
    by (rule less_trans [OF nat_of_char_less_256]) simp
  then show ?thesis by (simp add: qc_def unat_of_nat)
qed

lemma qc_eq_iff [simp]: "qc c = qc d \<longleftrightarrow> c = d"
  by (metis unat_qc of_char_eq_iff)

lemma qs_eq_iff [simp]: "qs s = qs t \<longleftrightarrow> s = t"
  unfolding qs_def by (rule inj_map_eq_map) (simp add: inj_on_def)

lemma qs_Nil_iff [simp]: "qs s = [] \<longleftrightarrow> s = []" "[] = qs s \<longleftrightarrow> s = []"
  by (simp_all add: qs_def)

lemma qs_Nil [simp]: "qs [] = []"
  by (simp add: qs_def)

lemma length_qs [simp]: "length (qs s) = length s"
  by (simp add: qs_def)

lemma qs_append: "qs (s @ t) = qs s @ qs t"
  by (simp add: qs_def)

text \<open>\<open>QString::trimmed\<close>, given the library's \<open>QChar::isSpace\<close>.\<close>

definition trimmed :: "(qchar \<Rightarrow> bool) \<Rightarrow> qstring \<Rightarrow> qstring" where
  "trimmed sp s = rev (dropWhile sp (rev (dropWhile sp s)))"

lemma trimmed_Nil [simp]: "trimmed sp [] = []"
  by (simp add: trimmed_def)

lemma set_trimmed: "set (trimmed sp s) \<subseteq> set s"
proof
  fix x assume "x \<in> set (trimmed sp s)"
  then have "x \<in> set (dropWhile sp (rev (dropWhile sp s)))" by (simp add: trimmed_def)
  then have "x \<in> set (dropWhile sp s)" using set_dropWhileD by fastforce
  then show "x \<in> set s" using set_dropWhileD by fastforce
qed

lemma length_trimmed: "length (trimmed sp s) \<le> length s"
  unfolding trimmed_def by (metis length_dropWhile_le length_rev le_trans)

lemma hd_dropWhile_not: "dropWhile p xs \<noteq> [] \<Longrightarrow> \<not> p (hd (dropWhile p xs))"
  by (rule hd_dropWhile)

lemma dropWhile_id: "xs = [] \<or> \<not> p (hd xs) \<Longrightarrow> dropWhile p xs = xs"
  by (cases xs) auto

lemma trimmed_hd: "trimmed sp s \<noteq> [] \<Longrightarrow> \<not> sp (hd (trimmed sp s))"
proof -
  let ?m = "dropWhile sp s"
  assume ne: "trimmed sp s \<noteq> []"
  then have m: "?m \<noteq> []" unfolding trimmed_def by (metis dropWhile.simps(1) rev.simps(1))
  have "\<exists>k. trimmed sp s = take k ?m"
  proof -
    have "dropWhile sp (rev ?m) = drop (length (takeWhile sp (rev ?m))) (rev ?m)"
      by (rule dropWhile_eq_drop)
    then show ?thesis unfolding trimmed_def by (metis rev_drop rev_rev_ident)
  qed
  then obtain k where k: "trimmed sp s = take k ?m" by blast
  with ne m have "hd (trimmed sp s) = hd ?m" by (cases ?m; cases k) auto
  then show ?thesis using hd_dropWhile [OF m] by simp
qed

lemma trimmed_last: "trimmed sp s \<noteq> [] \<Longrightarrow> \<not> sp (last (trimmed sp s))"
  unfolding trimmed_def by (simp add: last_rev hd_dropWhile)

lemma trimmed_id:
  assumes "s = [] \<or> \<not> sp (hd s) \<and> \<not> sp (last s)"
  shows "trimmed sp s = s"
proof (cases "s = []")
  case False
  with assms have "dropWhile sp s = s" "dropWhile sp (rev s) = rev s"
    by (auto intro!: dropWhile_id simp: hd_rev)
  then show ?thesis by (simp add: trimmed_def)
qed simp

lemma trimmed_idem [simp]: "trimmed sp (trimmed sp s) = trimmed sp s"
  by (rule trimmed_id) (use trimmed_hd trimmed_last in blast)


section \<open>Lists addressed by row\<close>

text \<open>
  \<open>QList::insert\<close>, \<open>QList::removeAt\<close> and the linear searches of the models. The searches
  return \<open>-1\<close> in the source when nothing matches; here that is \<open>None\<close>.
\<close>

definition insert_at :: "nat \<Rightarrow> 'a \<Rightarrow> 'a list \<Rightarrow> 'a list" where
  "insert_at i x xs = take i xs @ x # drop i xs"

definition remove_at :: "nat \<Rightarrow> 'a list \<Rightarrow> 'a list" where
  "remove_at i xs = take i xs @ drop (Suc i) xs"

fun index_where :: "('a \<Rightarrow> bool) \<Rightarrow> 'a list \<Rightarrow> nat option" where
  "index_where p [] = None"
| "index_where p (x # xs) = (if p x then Some 0 else map_option Suc (index_where p xs))"

lemma index_where_SomeD:
  "index_where p xs = Some i \<Longrightarrow> i < length xs \<and> p (xs ! i) \<and> (\<forall>j < i. \<not> p (xs ! j))"
proof (induction xs arbitrary: i)
  case (Cons x xs)
  show ?case
  proof (cases "p x")
    case False
    with Cons.prems obtain k where k: "index_where p xs = Some k" and i: "i = Suc k" by auto
    from Cons.IH [OF k] i False show ?thesis by (auto simp: less_Suc_eq_0_disj)
  qed (use Cons.prems in auto)
qed simp

lemma index_where_None [simp]: "index_where p xs = None \<longleftrightarrow> (\<forall>x \<in> set xs. \<not> p x)"
  by (induction xs) auto

lemma set_insert_at [simp]: "set (insert_at i x xs) = insert x (set xs)"
  unfolding insert_at_def using append_take_drop_id [of i xs]
  by (metis Un_insert_right list.simps(15) set_append)

lemma length_insert_at [simp]: "length (insert_at i x xs) = Suc (length xs)"
  by (simp add: insert_at_def)

lemma mset_insert_at_map: "map f (insert_at i x xs) = insert_at i (f x) (map f xs)"
  by (simp add: insert_at_def take_map drop_map)

lemma mset_remove_at_map: "map f (remove_at i xs) = remove_at i (map f xs)"
  by (simp add: remove_at_def take_map drop_map)

lemma set_remove_at_subset: "set (remove_at i xs) \<subseteq> set xs"
  unfolding remove_at_def using set_take_subset set_drop_subset by fastforce

lemma length_remove_at: "i < length xs \<Longrightarrow> length (remove_at i xs) = length xs - 1"
  by (simp add: remove_at_def)

lemma length_remove_at_le: "length (remove_at i xs) \<le> length xs"
  by (simp add: remove_at_def)

lemma distinct_insert_at [simp]: "distinct (insert_at i x xs) \<longleftrightarrow> x \<notin> set xs \<and> distinct xs"
proof -
  have "distinct (insert_at i x xs) \<longleftrightarrow> distinct (x # (take i xs @ drop i xs))"
    unfolding insert_at_def by (simp only: distinct_append distinct.simps set_append list.set) blast
  then show ?thesis by simp
qed

lemma remove_at_split: "i < length xs \<Longrightarrow> xs = take i xs @ xs ! i # drop (Suc i) xs"
  by (rule id_take_nth_drop)

lemma distinct_remove_at:
  assumes "distinct xs"
  shows "distinct (remove_at i xs)"
proof (cases "i < length xs")
  case True
  then have "xs = take i xs @ xs ! i # drop (Suc i) xs" by (rule id_take_nth_drop)
  with assms have "distinct (take i xs @ xs ! i # drop (Suc i) xs)" by simp
  then show ?thesis by (auto simp: remove_at_def)
next
  case False
  with assms show ?thesis by (simp add: remove_at_def)
qed

lemma set_remove_at_distinct:
  assumes "distinct xs" and "i < length xs"
  shows "set (remove_at i xs) = set xs - {xs ! i}"
proof -
  have xs: "xs = take i xs @ xs ! i # drop (Suc i) xs" using assms(2) by (rule id_take_nth_drop)
  with assms(1) have "distinct (take i xs @ xs ! i # drop (Suc i) xs)" by simp
  then have "xs ! i \<notin> set (take i xs)" "xs ! i \<notin> set (drop (Suc i) xs)" by auto
  moreover have "set xs = set (take i xs) \<union> {xs ! i} \<union> set (drop (Suc i) xs)"
    by (subst xs) auto
  ultimately show ?thesis by (auto simp: remove_at_def)
qed

section \<open>Hash tables\<close>

text \<open>
  A \<open>QHash\<close> is an association list with distinct keys. Its iteration order is unspecified
  in the library; nothing proved below depends on the order of the list. The laws a client
  of such a table relies on are the locale; \<open>map_of\<close>, \<open>AList.update\<close> and \<open>AList.delete\<close>
  provide them.
\<close>

locale keyed_table =
  fixes find :: "'t \<Rightarrow> 'k \<Rightarrow> 'v option"
    and put :: "'k \<Rightarrow> 'v \<Rightarrow> 't \<Rightarrow> 't"
    and del :: "'k \<Rightarrow> 't \<Rightarrow> 't"
    and count :: "'t \<Rightarrow> nat"
    and wf :: "'t \<Rightarrow> bool"
  assumes find_put: "find (put k v t) = (find t)(k \<mapsto> v)"
    and find_del: "find (del k t) = (find t)(k := None)"
    and wf_put: "wf t \<Longrightarrow> wf (put k v t)"
    and wf_del: "wf t \<Longrightarrow> wf (del k t)"
    and count_put: "count (put k v t) = (if find t k = None then Suc (count t) else count t)"
    and count_del: "count (del k t) \<le> count t"
begin

lemma find_put_same: "find (put k v t) k = Some v"
  by (simp add: find_put)

lemma find_put_other: "k' \<noteq> k \<Longrightarrow> find (put k v t) k' = find t k'"
  by (simp add: find_put)

lemma find_del_same: "find (del k t) k = None"
  by (simp add: find_del)

lemma find_del_other: "k' \<noteq> k \<Longrightarrow> find (del k t) k' = find t k'"
  by (simp add: find_del)

lemma capped_put: "count t \<le> n \<Longrightarrow> find t k \<noteq> None \<or> count t < n \<Longrightarrow> count (put k v t) \<le> n"
  by (auto simp: count_put)

lemma capped_del: "count t \<le> n \<Longrightarrow> count (del k t) \<le> n"
  using count_del [of k t] by simp

end

type_synonym ('k, 'v) qhash = "('k \<times> 'v) list"

definition qhash_wf :: "('k, 'v) qhash \<Rightarrow> bool" where
  "qhash_wf t \<longleftrightarrow> distinct (map fst t)"

lemma length_alist_update:
  "length (AList.update k v t) = (if map_of t k = None then Suc (length t) else length t)"
  by (induction t) auto

interpretation qhash: keyed_table map_of AList.update AList.delete length qhash_wf
proof (unfold_locales, goal_cases)
  case (1 k v t) show ?case by (rule update_conv')
next
  case (2 k t) show ?case by (rule delete_conv')
next
  case (3 t k v) then show ?case by (simp add: qhash_wf_def distinct_update)
next
  case (4 t k) then show ?case by (simp add: qhash_wf_def distinct_delete)
next
  case (5 k v t) show ?case by (rule length_alist_update)
next
  case (6 k t) show ?case by (rule length_delete_le)
qed

lemmas qhash_find [simp] = qhash.find_put_same qhash.find_put_other
  qhash.find_del_same qhash.find_del_other

lemma set_alist_update: "set (AList.update k v t) \<subseteq> insert (k, v) (set t)"
  by (induction t) auto

lemma set_alist_delete: "set (AList.delete k t) \<subseteq> set t"
  by (auto simp: AList.delete_eq)

lemma fold_update_new:
  "distinct (map (\<lambda>x. f x) xs) \<Longrightarrow> \<forall>x \<in> set xs. f x \<notin> fst ` set acc
    \<Longrightarrow> fold (\<lambda>x. AList.update (f x) (g x)) xs acc = acc @ map (\<lambda>x. (f x, g x)) xs"
proof (induction xs arbitrary: acc)
  case (Cons x xs)
  have "AList.update k v acc = acc @ [(k, v)]" if "k \<notin> fst ` set acc" for k v
    using that by (induction acc) auto
  then have first: "AList.update (f x) (g x) acc = acc @ [(f x, g x)]"
    using Cons.prems(2) by simp
  have "fold (\<lambda>x. AList.update (f x) (g x)) xs (acc @ [(f x, g x)])
      = (acc @ [(f x, g x)]) @ map (\<lambda>x. (f x, g x)) xs"
  proof (rule Cons.IH)
    show "distinct (map f xs)" using Cons.prems(1) by simp
    have "f y \<noteq> f x" if "y \<in> set xs" for y
      using Cons.prems(1) that by (metis distinct.simps(2) image_eqI list.simps(9) set_map)
    then show "\<forall>y \<in> set xs. f y \<notin> fst ` set (acc @ [(f x, g x)])"
      using Cons.prems(2) by auto
  qed
  then show ?case by (simp add: first)
qed simp

lemma map_of_filter_keys:
  assumes "qhash_wf t"
  shows "map_of (filter p t) k = (case map_of t k of None \<Rightarrow> None | Some v \<Rightarrow> if p (k, v) then Some v else None)"
  using assms
  by (induction t) (auto simp: qhash_wf_def split: option.splits dest: map_of_SomeD intro: rev_image_eqI)

lemma qhash_wf_filter [simp]: "qhash_wf t \<Longrightarrow> qhash_wf (filter p t)"
  unfolding qhash_wf_def by (rule distinct_map_filter)

end
