(* ===== verification/Platform.thy ===== *)
theory Platform
  imports Prelude
begin

text \<open>
  The values and library calls the program stands on: 64-bit counters, JSON documents as
  \<open>QJsonValue\<close> presents them, and a record of the Qt and OpenSSL functions whose code is not
  in the repository. Those functions are parameters; what the program relies on of them is
  the predicate \<open>qt_ok\<close>, which an ASCII instance satisfies that every witness uses.
\<close>

section \<open>64-bit counters\<close>

text \<open>
  \<open>qint64\<close> sums wrap in two's complement on every platform the app is built for (the C++
  standard leaves the overflow undefined).
\<close>

definition wrap64 :: "int \<Rightarrow> int" where
  "wrap64 x = (x + 2 ^ 63) mod 2 ^ 64 - 2 ^ 63"

definition in_int64 :: "int \<Rightarrow> bool" where
  "in_int64 x \<longleftrightarrow> - (2 ^ 63) \<le> x \<and> x < 2 ^ 63"

lemma wrap64_id [simp]: "in_int64 x \<Longrightarrow> wrap64 x = x"
  by (simp add: wrap64_def in_int64_def)

lemma wrap64_range: "in_int64 (wrap64 x)"
  unfolding in_int64_def wrap64_def
  using pos_mod_bound [of "2 ^ 64" "x + 2 ^ 63"] pos_mod_sign [of "2 ^ 64" "x + 2 ^ 63"] by simp

lemma wrap64_add_left: "wrap64 (wrap64 x + y) = wrap64 (x + y)"
proof -
  have "wrap64 x + y + 2 ^ 63 = (x + 2 ^ 63) mod 2 ^ 64 + y"
    by (simp add: wrap64_def)
  then have "(wrap64 x + y + 2 ^ 63) mod 2 ^ 64 = (x + 2 ^ 63 + y) mod 2 ^ 64"
    by (simp only: mod_add_left_eq)
  then show ?thesis by (simp add: wrap64_def algebra_simps)
qed

section \<open>JSON values\<close>

text \<open>
  \<open>QJsonObject\<close> is a list of members with distinct keys, in the library's (sorted) key order.
  A number is a double; every finite double is a rational. A missing member converts like
  \<open>null\<close>, so both are \<open>JNull\<close>.
\<close>

datatype json =
    JNull
  | JBool bool
  | JDouble rat
  | JString qstring
  | JArray "json list"
  | JObject "(qstring \<times> json) list"

type_synonym jobject = "(qstring \<times> json) list"

definition jvalue :: "jobject \<Rightarrow> string \<Rightarrow> json" where
  "jvalue ob key = (case map_of ob (qs key) of None \<Rightarrow> JNull | Some v \<Rightarrow> v)"

definition jvalue_at :: "jobject \<Rightarrow> qstring \<Rightarrow> json" where
  "jvalue_at ob key = (case map_of ob key of None \<Rightarrow> JNull | Some v \<Rightarrow> v)"

fun to_string_or :: "qstring \<Rightarrow> json \<Rightarrow> qstring" where
  "to_string_or d (JString s) = s"
| "to_string_or d _ = d"

abbreviation to_string :: "json \<Rightarrow> qstring" where
  "to_string \<equiv> to_string_or []"

fun to_bool :: "bool \<Rightarrow> json \<Rightarrow> bool" where
  "to_bool d (JBool b) = b"
| "to_bool d _ = d"

fun is_double :: "json \<Rightarrow> bool" where
  "is_double (JDouble _) = True"
| "is_double _ = False"

fun to_double :: "json \<Rightarrow> rat" where
  "to_double (JDouble r) = r"
| "to_double _ = 0"

fun to_int :: "int \<Rightarrow> json \<Rightarrow> int" where
  "to_int d (JDouble r) = (if r = of_int \<lfloor>r\<rfloor> \<and> - (2 ^ 31) \<le> \<lfloor>r\<rfloor> \<and> \<lfloor>r\<rfloor> < 2 ^ 31 then \<lfloor>r\<rfloor> else d)"
| "to_int d _ = d"

fun to_object :: "json \<Rightarrow> jobject" where
  "to_object (JObject ob) = ob"
| "to_object _ = []"

fun to_array :: "json \<Rightarrow> json list" where
  "to_array (JArray xs) = xs"
| "to_array _ = []"

fun is_object :: "json \<Rightarrow> bool" where
  "is_object (JObject _) = True"
| "is_object _ = False"

text \<open>
  \<open>QJsonObject::insert\<close>: a new member goes to its place in the order of the keys, which compares code
  units, and a key that is there gets the new value.
\<close>

fun q_before :: "qstring \<Rightarrow> qstring \<Rightarrow> bool" where
  "q_before s [] = False"
| "q_before [] (d # t) = True"
| "q_before (c # s) (d # t) = (c < d \<or> c = d \<and> q_before s t)"

fun json_put :: "qstring \<Rightarrow> json \<Rightarrow> jobject \<Rightarrow> jobject" where
  "json_put k v [] = [(k, v)]"
| "json_put k v ((k', v') # ob) =
     (if k = k' then (k, v) # ob else if q_before k k' then (k, v) # (k', v') # ob else (k', v') # json_put k v ob)"

definition jinsert :: "string \<Rightarrow> json \<Rightarrow> jobject \<Rightarrow> jobject" where
  "jinsert key v ob = json_put (qs key) v ob"

definition in_key_order :: "jobject \<Rightarrow> bool" where
  "in_key_order ob \<longleftrightarrow> sorted_wrt q_before (map fst ob)"

lemma q_before_irrefl [simp]: "\<not> q_before s s"
  by (induction s) simp_all

lemma q_before_trans: "q_before s t \<Longrightarrow> q_before t u \<Longrightarrow> q_before s u"
proof (induction s t arbitrary: u rule: q_before.induct)
  case (2 d t)
  then show ?case by (cases u) simp_all
next
  case (3 c s d t)
  then show ?case by (cases u) (auto dest: less_trans)
qed simp

lemma q_before_total: "s \<noteq> t \<Longrightarrow> q_before s t \<or> q_before t s"
  by (induction s t rule: q_before.induct) (auto simp: neq_Nil_conv)

lemma map_of_json_put [simp]: "map_of (json_put k v ob) = (map_of ob)(k \<mapsto> v)"
  by (induction k v ob rule: json_put.induct) auto

lemma json_put_keys [simp]: "fst ` set (json_put k v ob) = insert k (fst ` set ob)"
  by (induction k v ob rule: json_put.induct) auto

lemma json_put_new: "k \<notin> fst ` set ob \<Longrightarrow> set (json_put k v ob) = insert (k, v) (set ob)"
  by (induction k v ob rule: json_put.induct) auto

lemma json_put_order: "in_key_order ob \<Longrightarrow> in_key_order (json_put k v ob)"
proof (induction k v ob rule: json_put.induct)
  case (2 k v k' v' ob)
  have "\<forall>x \<in> fst ` set (json_put k v ob). q_before k' x" if "\<not> q_before k k'" "k \<noteq> k'"
    using that q_before_total 2(2) by (auto simp: in_key_order_def)
  with 2 show ?case by (auto simp: in_key_order_def dest: q_before_trans)
qed (simp add: in_key_order_def)

lemma in_key_order_distinct: "in_key_order ob \<Longrightarrow> distinct (map fst ob)"
  unfolding in_key_order_def by (induction ob) auto

text \<open>An object built from members under different keys has exactly these members, in order.\<close>

lemma json_put_fold:
  assumes "distinct (map f xs)" "in_key_order ob" "\<forall>x \<in> set xs. f x \<notin> fst ` set ob"
  shows "in_key_order (fold (\<lambda>x. json_put (f x) (g x)) xs ob)
    \<and> set (fold (\<lambda>x. json_put (f x) (g x)) xs ob) = set ob \<union> (\<lambda>x. (f x, g x)) ` set xs"
  using assms
proof (induction xs arbitrary: ob)
  case (Cons x xs)
  have "in_key_order (json_put (f x) (g x) ob)" by (rule json_put_order [OF Cons.prems(2)])
  moreover have "\<forall>y \<in> set xs. f y \<notin> fst ` set (json_put (f x) (g x) ob)"
  proof
    fix y assume "y \<in> set xs"
    then have "f y \<noteq> f x" "f y \<notin> fst ` set ob" using Cons.prems(1,3) by (auto simp: image_iff)
    then show "f y \<notin> fst ` set (json_put (f x) (g x) ob)" by simp
  qed
  ultimately show ?case using Cons.IH [of "json_put (f x) (g x) ob"] Cons.prems json_put_new [of "f x" ob "g x"] by simp
qed simp

lemma jvalue_jinsert [simp]:
  "jvalue (jinsert k v ob) k' = (if k = k' then v else jvalue ob k')"
  by (simp add: jvalue_def jinsert_def)

lemma jvalue_Nil [simp]: "jvalue [] k = JNull"
  by (simp add: jvalue_def)

lemma to_int_of_int [simp]:
  "- (2 ^ 31) \<le> n \<Longrightarrow> n < 2 ^ 31 \<Longrightarrow> to_int d (JDouble (of_int n)) = n"
  by simp

section \<open>Integers through doubles\<close>

text \<open>
  \<open>double(n)\<close> for a 64-bit \<open>n\<close> rounds to 53 significant bits, ties to even.
\<close>

definition round_half_even :: "int \<Rightarrow> int \<Rightarrow> int" where
  "round_half_even n d =
     (let q = n div d; r = n mod d
      in if 2 * r < d then q else if 2 * r > d then q + 1 else if even q then q else q + 1)"

definition double_of_int :: "int \<Rightarrow> rat" where
  "double_of_int x =
     (if \<bar>x\<bar> \<le> 2 ^ 53 then of_int x
      else let d = 2 ^ (nat (floorlog 2 (nat \<bar>x\<bar>)) - 53)
           in of_int (sgn x * (round_half_even \<bar>x\<bar> d * d)))"

lemma double_of_int_exact [simp]: "\<bar>x\<bar> \<le> 2 ^ 53 \<Longrightarrow> double_of_int x = of_int x"
  by (simp add: double_of_int_def)

lemma double_of_int_pos:
  assumes "0 < x"
  shows "0 < double_of_int x"
proof (cases "\<bar>x\<bar> \<le> 2 ^ 53")
  case True
  with assms show ?thesis by simp
next
  case False
  let ?n = "nat \<bar>x\<bar>" and ?d = "2 ^ (nat (floorlog 2 (nat \<bar>x\<bar>)) - 53) :: int"
  have "2 ^ (floorlog 2 ?n - 1) \<le> ?n" using assms floorlog_bounds [of ?n 2] by simp
  then have "(2::nat) ^ (floorlog 2 ?n - 53) \<le> ?n"
    by (rule order_trans [rotated]) (rule power_increasing, simp_all)
  then have "?d \<le> \<bar>x\<bar>" using assms by (simp add: nat_le_iff flip: of_nat_le_iff)
  then have "1 \<le> \<bar>x\<bar> div ?d" using div_le_mono2 zdiv_mono1 [of ?d "\<bar>x\<bar>" ?d] by simp
  then have "1 \<le> round_half_even \<bar>x\<bar> ?d" by (auto simp: round_half_even_def Let_def)
  with False assms show ?thesis by (simp add: double_of_int_def Let_def)
qed

section \<open>Library code\<close>

text \<open>
  \<open>q_toUpper\<close>, \<open>q_isSpace\<close> and \<open>q_compareCI\<close> are Qt's Unicode tables (\<open>QString::toUpper\<close>,
  \<open>QChar::isSpace\<close>, \<open>QString::compare\<close> with \<open>Qt::CaseInsensitive\<close>), \<open>q_toUtf8\<close> is
  \<open>QString::toUtf8\<close>, \<open>q_memcmp\<close> is \<open>CRYPTO_memcmp\<close> on two arrays of one length,
  \<open>q_castOverflow\<close> is what the platform makes of \<open>qint64(d)\<close> when \<open>d\<close> does not fit,
  \<open>q_sha256\<close> the SHA-256 digest.
\<close>

record qtlib =
  q_toUpper :: "qstring \<Rightarrow> qstring"
  q_isSpace :: "qchar \<Rightarrow> bool"
  q_compareCI :: "qstring \<Rightarrow> qstring \<Rightarrow> int"
  q_toUtf8 :: "qstring \<Rightarrow> bytes"
  q_memcmp :: "bytes \<Rightarrow> bytes \<Rightarrow> int"
  q_castOverflow :: "rat \<Rightarrow> int"
  q_sha256 :: "bytes \<Rightarrow> bytes"

definition plain_ascii :: "qstring \<Rightarrow> bool" where
  "plain_ascii s \<longleftrightarrow> (\<forall>c \<in> set s. c < 128 \<and> c \<noteq> qc (CHR ''?''))"

definition qint64_of_double :: "qtlib \<Rightarrow> rat \<Rightarrow> int" where
  "qint64_of_double lib r =
     (let t = (if 0 \<le> r then \<lfloor>r\<rfloor> else \<lceil>r\<rceil>)
      in if - (2 ^ 63) \<le> t \<and> t < 2 ^ 63 then t else q_castOverflow lib r)"

text \<open>
  The documented behaviour the program relies on. \<open>toUpper\<close> is idempotent and keeps only the
  empty string empty; a string that encodes to the same UTF-8 as a plain ASCII one is that
  string (an unpaired surrogate encodes as \<open>?\<close>, so \<open>?\<close> is left out); \<open>CRYPTO_memcmp\<close> is zero
  exactly on equal arrays; no printable ASCII character is a space; the case-insensitive comparison is a total preorder.
\<close>

definition qt_ok :: "qtlib \<Rightarrow> bool" where
  "qt_ok lib \<longleftrightarrow>
     (\<forall>s. q_toUpper lib (q_toUpper lib s) = q_toUpper lib s) \<and>
     (\<forall>s. q_toUpper lib s = [] \<longleftrightarrow> s = []) \<and>
     (\<forall>s t. plain_ascii t \<longrightarrow> q_toUtf8 lib s = q_toUtf8 lib t \<longrightarrow> s = t) \<and>
     (\<forall>a b. length a = length b \<longrightarrow> (q_memcmp lib a b = 0 \<longleftrightarrow> a = b)) \<and>
     (\<forall>c. 33 \<le> c \<and> c < 127 \<longrightarrow> \<not> q_isSpace lib c) \<and>
     (\<forall>s. q_compareCI lib s s = 0) \<and>
     (\<forall>s t. q_compareCI lib s t > 0 \<longleftrightarrow> q_compareCI lib t s < 0) \<and>
     (\<forall>s t u. q_compareCI lib s t \<le> 0 \<longrightarrow> q_compareCI lib t u \<le> 0 \<longrightarrow> q_compareCI lib s u \<le> 0) \<and>
     (\<forall>r. in_int64 (q_castOverflow lib r))"

lemma qt_okD:
  assumes "qt_ok lib"
  shows toUpper_idem: "q_toUpper lib (q_toUpper lib s) = q_toUpper lib s"
    and toUpper_empty: "q_toUpper lib s = [] \<longleftrightarrow> s = []"
    and toUtf8_plain: "plain_ascii t \<Longrightarrow> q_toUtf8 lib s = q_toUtf8 lib t \<Longrightarrow> s = t"
    and memcmp_eq: "length a = length b \<Longrightarrow> q_memcmp lib a b = 0 \<longleftrightarrow> a = b"
    and isSpace_graph: "33 \<le> c \<Longrightarrow> c < 127 \<Longrightarrow> \<not> q_isSpace lib c"
    and compareCI_refl: "q_compareCI lib s s = 0"
    and compareCI_sym: "q_compareCI lib s t > 0 \<longleftrightarrow> q_compareCI lib t s < 0"
    and compareCI_trans:
      "q_compareCI lib s t \<le> 0 \<Longrightarrow> q_compareCI lib t u \<le> 0 \<Longrightarrow> q_compareCI lib s u \<le> 0"
    and castOverflow_range: "in_int64 (q_castOverflow lib r)"
  using assms unfolding qt_ok_def by blast+

lemma qint64_of_double_range: "qt_ok lib \<Longrightarrow> in_int64 (qint64_of_double lib r)"
  using castOverflow_range [of lib r] by (auto simp: qint64_of_double_def Let_def in_int64_def)

lemma compareCI_eq_sym: "qt_ok lib \<Longrightarrow> q_compareCI lib s t = 0 \<longleftrightarrow> q_compareCI lib t s = 0"
  using compareCI_sym [of lib s t] compareCI_sym [of lib t s] by linarith

lemma qint64_of_double_int [simp]:
  "in_int64 n \<Longrightarrow> qint64_of_double lib (of_int n) = n"
  by (simp add: qint64_of_double_def in_int64_def Let_def)

text \<open>An instance that is right on ASCII text, for the witnesses.\<close>

definition ascii_upper_char :: "qchar \<Rightarrow> qchar" where
  "ascii_upper_char c = (if 97 \<le> c \<and> c \<le> 122 then c - 32 else c)"

definition ascii_space :: "qchar \<Rightarrow> bool" where
  "ascii_space c \<longleftrightarrow> c = 32 \<or> (9 \<le> c \<and> c \<le> 13)"

fun ascii_compare :: "qstring \<Rightarrow> qstring \<Rightarrow> int" where
  "ascii_compare [] [] = 0"
| "ascii_compare [] (c # cs) = -1"
| "ascii_compare (c # cs) [] = 1"
| "ascii_compare (c # cs) (d # ds) =
     (if ascii_upper_char c < ascii_upper_char d then -1
      else if ascii_upper_char d < ascii_upper_char c then 1 else ascii_compare cs ds)"

definition ascii_byte :: "qchar \<Rightarrow> 8 word" where
  "ascii_byte c = (if c < 128 then ucast c else 63)"

definition ascii_utf8 :: "qstring \<Rightarrow> bytes" where
  "ascii_utf8 s = map ascii_byte s"

definition ascii_qt :: qtlib where
  "ascii_qt = \<lparr>q_toUpper = map ascii_upper_char, q_isSpace = ascii_space,
     q_compareCI = ascii_compare, q_toUtf8 = ascii_utf8,
     q_memcmp = (\<lambda>a b. if a = b then 0 else 1), q_castOverflow = (\<lambda>_. - (2 ^ 63)),
     q_sha256 = (\<lambda>b. take 32 (b @ replicate 32 0))\<rparr>"


lemma ascii_upper_char_idem [simp]: "ascii_upper_char (ascii_upper_char c) = ascii_upper_char c"
proof (cases "97 \<le> c \<and> c \<le> 122")
  case True
  then have "unat (c - 32) = unat c - 32" by (simp add: unat_sub word_le_nat_alt)
  with True have "\<not> 97 \<le> c - 32" by (auto simp: word_le_nat_alt)
  with True show ?thesis by (simp add: ascii_upper_char_def)
next
  case False
  then show ?thesis by (simp add: ascii_upper_char_def)
qed

lemma ascii_compare_refl: "ascii_compare s s = 0"
  by (induction s) auto

lemma ascii_compare_sym: "ascii_compare s t > 0 \<longleftrightarrow> ascii_compare t s < 0"
  by (induction s t rule: ascii_compare.induct) auto

lemma ascii_compare_trans:
  "ascii_compare s t \<le> 0 \<Longrightarrow> ascii_compare t u \<le> 0 \<Longrightarrow> ascii_compare s u \<le> 0"
proof (induction s t arbitrary: u rule: ascii_compare.induct)
  case (2 c cs)
  then show ?case by (cases u) auto
next
  case (4 c cs d ds)
  then show ?case
    by (cases u) (auto split: if_splits)
qed (auto split: if_splits)

lemma ascii_unit_inj:
  fixes c d :: qchar
  assumes "d < 128" "d \<noteq> 63" "ascii_byte c = ascii_byte d"
  shows "c = d"
proof (cases "c < 128")
  case True
  with assms have "unat (ucast c :: 8 word) = unat (ucast d :: 8 word)" by (simp add: ascii_byte_def)
  with True assms(1) have "unat c = unat d" by (simp add: unsigned_ucast_eq take_bit_nat_eq_self word_less_nat_alt)
  then show ?thesis by (simp add: word_unat_eq_iff)
next
  case False
  with assms have "unat (ucast d :: 8 word) = 63" by (simp add: ascii_byte_def)
  with assms(1) have "unat d = unat (63 :: qchar)" by (simp add: unsigned_ucast_eq take_bit_nat_eq_self word_less_nat_alt)
  then have "d = 63" by (simp only: word_unat_eq_iff)
  with assms(2) show ?thesis by simp
qed

lemma ascii_utf8_plain:
  assumes "plain_ascii t" and "ascii_utf8 s = ascii_utf8 t"
  shows "s = t"
proof -
  from assms(2) have len: "length s = length t"
    unfolding ascii_utf8_def by (metis length_map)
  from len assms show ?thesis
  proof (induction s t rule: list_induct2)
    case (Cons c cs d ds)
    from Cons.prems(1) have d: "d < 128" "d \<noteq> qc (CHR ''?'')" and ds: "plain_ascii ds"
      by (simp_all add: plain_ascii_def)
    from d(2) have "d \<noteq> 63" by (simp add: qc_def)
    moreover from Cons.prems(2) have "ascii_byte c = ascii_byte d" "ascii_utf8 cs = ascii_utf8 ds"
      by (simp_all add: ascii_utf8_def)
    ultimately show ?case using ascii_unit_inj d(1) Cons.IH ds by simp
  qed simp
qed

lemma ascii_qt_simps [simp]:
  "q_toUpper ascii_qt = map ascii_upper_char"
  "q_isSpace ascii_qt = ascii_space"
  "q_compareCI ascii_qt = ascii_compare"
  "q_toUtf8 ascii_qt = ascii_utf8"
  "q_memcmp ascii_qt a b = (if a = b then 0 else 1)"
  "q_castOverflow ascii_qt r = - (2 ^ 63)"
  by (simp_all add: ascii_qt_def)

lemma ascii_qt_ok: "qt_ok ascii_qt"
proof -
  have "q_toUpper ascii_qt (q_toUpper ascii_qt s) = q_toUpper ascii_qt s" for s
    by (simp add: o_def)
  moreover have "q_compareCI ascii_qt s u \<le> 0"
    if "q_compareCI ascii_qt s t \<le> 0" "q_compareCI ascii_qt t u \<le> 0" for s t u
    using that by (simp add: ascii_compare_trans [of s t u])
  moreover have "s = t" if "plain_ascii t" "q_toUtf8 ascii_qt s = q_toUtf8 ascii_qt t" for s t
    using that by (simp add: ascii_utf8_plain)
  moreover have "\<not> q_isSpace ascii_qt c" if "33 \<le> c" "c < 127" for c
    using that by (auto simp: ascii_space_def word_le_nat_alt word_less_nat_alt)
  ultimately show ?thesis
    unfolding qt_ok_def
    by (simp add: ascii_compare_refl ascii_compare_sym in_int64_def)
qed

end
