(* ===== verification/Crypto.thy ===== *)
theory Crypto
  imports Platform
begin

text \<open>
  \<open>src/src/crypto.cpp\<close>: the random source, comparisons, key derivation and the AES-GCM blob
  format. OpenSSL is a parameter: the random source is an explicit state that records which
  draw comes next, the cipher and the key derivation are the fields of \<open>evp\<close>.
\<close>

section \<open>The random source\<close>

text \<open>
  \<open>r_source i n\<close> is what the \<open>i\<close>-th call of \<open>RAND_bytes\<close> answers for \<open>n\<close> bytes, \<open>None\<close>
  for a return value other than 1. \<open>r_seen\<close> is the latch \<open>s_seen\<close>.
\<close>

record rng =
  r_source :: "nat \<Rightarrow> nat \<Rightarrow> bytes option"
  r_calls :: nat
  r_seen :: bool

definition rand_bytes :: "nat \<Rightarrow> rng \<Rightarrow> bytes option \<times> rng" where
  "rand_bytes n r = (r_source r (r_calls r) n, r\<lparr>r_calls := Suc (r_calls r)\<rparr>)"

definition rng_ok :: "rng \<Rightarrow> bool" where
  "rng_ok r \<longleftrightarrow> (\<forall>i n b. r_source r i n = Some b \<longrightarrow> length b = n)"

definition isAvailable :: "rng \<Rightarrow> bool \<times> rng" where
  "isAvailable r =
     (if r_seen r then (True, r)
      else case rand_bytes 1 r of
        (Some _, r') \<Rightarrow> (True, r'\<lparr>r_seen := True\<rparr>)
      | (None, r') \<Rightarrow> (r_seen r', r'))"

definition randomBytes :: "int \<Rightarrow> rng \<Rightarrow> bytes \<times> rng" where
  "randomBytes count r =
     (if count \<le> 0 then ([], r)
      else case rand_bytes (nat count) r of
        (Some b, r') \<Rightarrow> (b, r'\<lparr>r_seen := True\<rparr>)
      | (None, r') \<Rightarrow> ([], r'))"

definition hex_digit :: "nat \<Rightarrow> qchar" where
  "hex_digit n = qs ''0123456789abcdef'' ! n"

definition to_hex :: "bytes \<Rightarrow> qstring" where
  "to_hex b = concat (map (\<lambda>x. [hex_digit (unat x div 16), hex_digit (unat x mod 16)]) b)"

definition randomHex :: "int \<Rightarrow> rng \<Rightarrow> qstring \<times> rng" where
  "randomHex byteCount r = (let (b, r') = randomBytes byteCount r in (to_hex b, r'))"

lemma to_hex_Nil [simp]: "to_hex [] = []"
  by (simp add: to_hex_def)

lemma length_to_hex [simp]: "length (to_hex b) = 2 * length b"
  by (induction b) (simp_all add: to_hex_def)

lemma hex_digit_range: "n < 16 \<Longrightarrow> hex_digit n \<in> set (qs ''0123456789abcdef'')"
  unfolding hex_digit_def by (rule nth_mem) simp

lemma set_to_hex: "set (to_hex b) \<subseteq> set (qs ''0123456789abcdef'')"
proof -
  have "unat x div 16 < 16" for x :: "8 word"
  proof -
    have "unat x < 2 ^ LENGTH(8)" by (rule unsigned_less)
    then show ?thesis by (simp add: less_mult_imp_div_less)
  qed
  then have "hex_digit (unat x div 16) \<in> set (qs ''0123456789abcdef'')"
    and "hex_digit (unat x mod 16) \<in> set (qs ''0123456789abcdef'')" for x :: "8 word"
    by (simp_all add: hex_digit_range)
  then show ?thesis by (induction b) (auto simp: to_hex_def)
qed

lemma hex_plain_ascii: "set s \<subseteq> set (qs ''0123456789abcdef'') \<Longrightarrow> plain_ascii s"
proof -
  have "list_all (\<lambda>c. c < 128 \<and> c \<noteq> qc (CHR ''?'')) (qs ''0123456789abcdef'')"
    by (simp add: qs_def qc_def)
  moreover assume "set s \<subseteq> set (qs ''0123456789abcdef'')"
  ultimately show ?thesis unfolding plain_ascii_def list_all_iff by blast
qed

lemma randomBytes_length:
  "rng_ok r \<Longrightarrow> randomBytes n r = (b, r') \<Longrightarrow> length b = nat n \<or> b = []"
  by (auto simp: randomBytes_def rand_bytes_def rng_ok_def split: if_splits option.splits)

lemma randomBytes_source: "randomBytes n r = (b, r') \<Longrightarrow> r_source r' = r_source r"
  by (auto simp: randomBytes_def rand_bytes_def split: if_splits option.splits)

lemma randomHex_shape:
  assumes "randomHex n r = (s, r')"
  shows "set s \<subseteq> set (qs ''0123456789abcdef'')" and "plain_ascii s"
proof -
  show *: "set s \<subseteq> set (qs ''0123456789abcdef'')"
    using assms set_to_hex by (auto simp: randomHex_def split: prod.splits)
  show "plain_ascii s" by (rule hex_plain_ascii [OF *])
qed

section \<open>Comparison\<close>

definition equals_bytes :: "qtlib \<Rightarrow> bytes \<Rightarrow> bytes \<Rightarrow> bool" where
  "equals_bytes lib left right =
     (if length left \<noteq> length right then False
      else if left = [] then True
      else q_memcmp lib left right = 0)"

definition equals_q :: "qtlib \<Rightarrow> qstring \<Rightarrow> qstring \<Rightarrow> bool" where
  "equals_q lib left right = equals_bytes lib (q_toUtf8 lib left) (q_toUtf8 lib right)"

definition equalsFold :: "qtlib \<Rightarrow> qstring \<Rightarrow> qstring \<Rightarrow> bool" where
  "equalsFold lib left right = equals_q lib (q_toUpper lib left) (q_toUpper lib right)"

lemma equals_bytes_iff [simp]: "qt_ok lib \<Longrightarrow> equals_bytes lib a b \<longleftrightarrow> a = b"
  by (auto simp: equals_bytes_def memcmp_eq)

lemma equals_q_plain: "qt_ok lib \<Longrightarrow> plain_ascii t \<Longrightarrow> equals_q lib s t \<longleftrightarrow> s = t"
  by (auto simp: equals_q_def dest: toUtf8_plain)

lemma equals_q_refl [simp]: "qt_ok lib \<Longrightarrow> equals_q lib s s"
  by (simp add: equals_q_def)

lemma equals_q_sym: "qt_ok lib \<Longrightarrow> equals_q lib s t \<Longrightarrow> equals_q lib t s"
  by (simp add: equals_q_def)

lemma equalsFold_plain:
  "qt_ok lib \<Longrightarrow> plain_ascii (q_toUpper lib t)
    \<Longrightarrow> equalsFold lib s t \<longleftrightarrow> q_toUpper lib s = q_toUpper lib t"
  by (simp add: equalsFold_def equals_q_plain)

lemma equalsFold_refl [simp]: "qt_ok lib \<Longrightarrow> equalsFold lib s s"
  by (simp add: equalsFold_def)

section \<open>Key derivation, digests and the sealed blob\<close>

text \<open>
  \<open>e_pbkdf2 password salt iterations length\<close> is \<open>PKCS5_PBKDF2_HMAC\<close>. \<open>e_seal key nonce plain\<close>
  is the cipher text followed by the 16-byte tag, \<open>None\<close> when any EVP call fails;
  \<open>e_open key nonce body tag\<close> is the plain text when the tag verifies.
\<close>

record evp =
  e_pbkdf2 :: "bytes \<Rightarrow> bytes \<Rightarrow> nat \<Rightarrow> nat \<Rightarrow> bytes option"
  e_seal :: "bytes \<Rightarrow> bytes \<Rightarrow> bytes \<Rightarrow> bytes option"
  e_open :: "bytes \<Rightarrow> bytes \<Rightarrow> bytes \<Rightarrow> bytes \<Rightarrow> bytes option"

abbreviation (input) "KeyBytes \<equiv> (32::nat)"
abbreviation (input) "NonceBytes \<equiv> (12::nat)"
abbreviation (input) "TagBytes \<equiv> (16::nat)"

definition deriveKey :: "qtlib \<Rightarrow> evp \<Rightarrow> qstring \<Rightarrow> bytes \<Rightarrow> int \<Rightarrow> int \<Rightarrow> bytes" where
  "deriveKey lib ev secret salt iterations len =
     (if len \<le> 0 \<or> iterations \<le> 0 then []
      else case e_pbkdf2 ev (q_toUtf8 lib secret) salt (nat iterations) (nat len) of
        Some key \<Rightarrow> key | None \<Rightarrow> [])"

definition encrypt :: "evp \<Rightarrow> bytes \<Rightarrow> bytes \<Rightarrow> rng \<Rightarrow> bytes \<times> rng" where
  "encrypt ev plaintext key r =
     (if length key \<noteq> KeyBytes then ([], r)
      else let (nonce, r') = randomBytes (int NonceBytes) r in
        if nonce = [] then ([], r')
        else case e_seal ev key nonce plaintext of
          None \<Rightarrow> ([], r') | Some body \<Rightarrow> (nonce @ body, r'))"

definition decrypt :: "evp \<Rightarrow> bytes \<Rightarrow> bytes \<Rightarrow> bytes" where
  "decrypt ev blob key =
     (if length key \<noteq> KeyBytes \<or> length blob < NonceBytes + TagBytes then []
      else let nonce = take NonceBytes blob;
               bodySize = length blob - NonceBytes - TagBytes;
               body = take bodySize (drop NonceBytes blob);
               tag = drop (NonceBytes + bodySize) blob
           in case e_open ev key nonce body tag of None \<Rightarrow> [] | Some plaintext \<Rightarrow> plaintext)"

definition sha256Hex :: "qtlib \<Rightarrow> bytes \<Rightarrow> qstring" where
  "sha256Hex lib data = q_toUpper lib (to_hex (q_sha256 lib data))"

text \<open>What AES-256-GCM promises of the two calls.\<close>

definition gcm_ok :: "evp \<Rightarrow> bool" where
  "gcm_ok ev \<longleftrightarrow>
     (\<forall>key nonce plain body. e_seal ev key nonce plain = Some body
        \<longrightarrow> length body = length plain + TagBytes) \<and>
     (\<forall>key nonce plain body tag. length tag = TagBytes
        \<longrightarrow> (e_open ev key nonce body tag = Some plain \<longleftrightarrow> e_seal ev key nonce plain = Some (body @ tag)))"

lemma gcm_okD:
  assumes "gcm_ok ev"
  shows seal_length: "e_seal ev key nonce plain = Some body \<Longrightarrow> length body = length plain + TagBytes"
    and open_iff_seal: "length tag = TagBytes \<Longrightarrow>
      e_open ev key nonce body tag = Some plain \<longleftrightarrow> e_seal ev key nonce plain = Some (body @ tag)"
  using assms unfolding gcm_ok_def by blast+

lemma decrypt_blob:
  assumes gcm: "gcm_ok ev"
    and seal: "e_seal ev key nonce plain = Some body"
    and len: "length key = KeyBytes" "length nonce = NonceBytes"
  shows "decrypt ev (nonce @ body) key = plain"
proof -
  have lb: "length body = length plain + TagBytes" by (rule seal_length [OF gcm seal])
  then have n: "length (nonce @ body) - NonceBytes - TagBytes = length plain"
    using len(2) by simp
  have "body = take (length plain) body @ drop (length plain) body" by simp
  with seal lb have "e_open ev key nonce (take (length plain) body) (drop (length plain) body) = Some plain"
    using gcm by (simp add: open_iff_seal)
  moreover have "drop (NonceBytes + length plain) (nonce @ body) = drop (length plain) body"
    using len(2) by simp
  ultimately show ?thesis
    using len lb n by (simp add: decrypt_def Let_def)
qed

lemma decrypt_encrypt:
  assumes "encrypt ev plain key r = (blob, r')" and "blob \<noteq> []" and "rng_ok r" and "gcm_ok ev"
  shows "decrypt ev blob key = plain"
proof -
  from assms(1,2) obtain nonce r1 body where
    key: "length key = KeyBytes" and nonce: "randomBytes (int NonceBytes) r = (nonce, r1)" "nonce \<noteq> []"
    and seal: "e_seal ev key nonce plain = Some body" and blob: "blob = nonce @ body"
    by (auto simp: encrypt_def split: if_splits option.splits prod.splits)
  from randomBytes_length [OF assms(3) nonce(1)] nonce(2) have "length nonce = NonceBytes" by simp
  with seal key blob assms(4) show ?thesis by (simp add: decrypt_blob)
qed

lemma decrypt_authentic:
  assumes "decrypt ev blob key = plain" and "plain \<noteq> []" and "gcm_ok ev"
  shows "\<exists>nonce body. blob = nonce @ body \<and> length nonce = NonceBytes
    \<and> e_seal ev key nonce plain = Some body"
proof -
  let ?n = "length blob - NonceBytes - TagBytes"
  let ?body = "take ?n (drop NonceBytes blob)" and ?tag = "drop (NonceBytes + ?n) blob"
  from assms have op: "e_open ev key (take NonceBytes blob) ?body ?tag = Some plain"
    and l: "NonceBytes + TagBytes \<le> length blob"
    by (auto simp: decrypt_def Let_def split: if_splits option.splits)
  have "length ?tag = TagBytes" using l by simp
  moreover have "?body @ ?tag = drop NonceBytes blob"
    using append_take_drop_id [of ?n "drop NonceBytes blob"] by (simp only: drop_drop add.commute)
  ultimately have "e_seal ev key (take NonceBytes blob) plain = Some (drop NonceBytes blob)"
    using op open_iff_seal [OF assms(3), of ?tag key "take NonceBytes blob" ?body plain]
    by (simp only: simp_thms)
  moreover have "length (take NonceBytes blob) = NonceBytes" using l by simp
  moreover have "blob = take NonceBytes blob @ drop NonceBytes blob" by simp
  ultimately show ?thesis by blast
qed

text \<open>A cipher that satisfies the two laws, for the witnesses.\<close>

definition null_cipher :: evp where
  "null_cipher = \<lparr>e_pbkdf2 = (\<lambda>pw salt n len. Some (take len (pw @ salt @ replicate len 0))),
     e_seal = (\<lambda>key nonce plain. Some (plain @ replicate TagBytes 7)),
     e_open = (\<lambda>key nonce body tag. if tag = replicate TagBytes 7 then Some body else None)\<rparr>"

lemma null_cipher_ok: "gcm_ok null_cipher"
  unfolding gcm_ok_def null_cipher_def by auto

end
