(* ===== verification/Secure_Store.thy ===== *)
theory Secure_Store
  imports Crypto "HOL-Library.Sublist"
begin

text \<open>
  \<open>src/src/securestore.cpp\<close>, \<open>src/src/certificate.cpp\<close> and \<open>src/src/tlsclient.cpp\<close>: the app's own
  files, encrypted when the platform keeps a key; the TLS identity kept in two of them; the
  decision about a peer's certificate. A disk is a table of paths; the Sailfish Secrets daemon
  and OpenSSL's key generation are parameters, given by what they answer.
\<close>

type_synonym disk = "(qstring, bytes) qhash"

section \<open>The store\<close>

record SecureStore =
  ss_key :: bytes
  ss_testKey :: bytes
  ss_lastError :: qstring

definition new_SecureStore :: SecureStore where
  "new_SecureStore = \<lparr>ss_key = [], ss_testKey = [], ss_lastError = []\<rparr>"

text \<open>
  What the daemon answers: the stored secret when the read succeeded, and whether storing a new
  one succeeds (\<open>Inl\<close> its error message). \<open>NoKeystore\<close> is a build without the client library.
\<close>

datatype keystore = NoKeystore | Keystore "bytes option" "qstring + unit"

definition isEncrypting :: "SecureStore \<Rightarrow> bool" where
  "isEncrypting s \<longleftrightarrow> length (ss_key s) = KeyBytes"

definition setMasterKeyForTesting :: "bytes \<Rightarrow> SecureStore \<Rightarrow> SecureStore" where
  "setMasterKeyForTesting key s = s\<lparr>ss_testKey := key, ss_key := []\<rparr>"

definition store_fresh_key :: "qstring + unit \<Rightarrow> SecureStore \<Rightarrow> rng \<Rightarrow> bool \<times> SecureStore \<times> rng" where
  "store_fresh_key storing s r =
     (let (fresh, r') = randomBytes (int KeyBytes) r
      in if fresh = [] then (False, s\<lparr>ss_lastError := qs ''no secure random source''\<rparr>, r')
         else case storing of
           Inl message \<Rightarrow> (False, s\<lparr>ss_lastError := message\<rparr>, r')
         | Inr _ \<Rightarrow> (True, s\<lparr>ss_key := fresh, ss_lastError := []\<rparr>, r'))"

definition fetchKey :: "keystore \<Rightarrow> SecureStore \<Rightarrow> rng \<Rightarrow> bool \<times> SecureStore \<times> rng" where
  "fetchKey ks s r =
     (case ks of
        NoKeystore \<Rightarrow> (False, s\<lparr>ss_lastError := qs ''no keystore in this build''\<rparr>, r)
      | Keystore stored storing \<Rightarrow>
          (case stored of
             Some data \<Rightarrow>
               if length data = KeyBytes then (True, s\<lparr>ss_key := data, ss_lastError := []\<rparr>, r)
               else store_fresh_key storing s r
           | None \<Rightarrow> store_fresh_key storing s r))"

definition store_open :: "keystore \<Rightarrow> SecureStore \<Rightarrow> rng \<Rightarrow> bool \<times> SecureStore \<times> rng" where
  "store_open ks s r =
     (if isEncrypting s then (True, s, r)
      else if ss_testKey s \<noteq> [] then
        let s' = s\<lparr>ss_key := ss_testKey s\<rparr> in (isEncrypting s', s', r)
      else fetchKey ks s r)"

definition Magic :: bytes where
  "Magic = bs ''LSENC1''"

text \<open>A path that is not in the table is a file that cannot be opened.\<close>

definition store_read :: "evp \<Rightarrow> SecureStore \<Rightarrow> disk \<Rightarrow> qstring \<Rightarrow> bytes" where
  "store_read ev s disk path =
     (case map_of disk path of
        None \<Rightarrow> []
      | Some contents \<Rightarrow>
          if take (length Magic) contents \<noteq> Magic then contents
          else if \<not> isEncrypting s then []
          else decrypt ev (drop (length Magic) contents) (ss_key s))"

text \<open>How far \<open>QSaveFile\<close> gets; only a commit replaces the file.\<close>

datatype save_outcome = OpenFails | WriteFallsShort | CommitFails | Committed

definition store_write ::
    "evp \<Rightarrow> save_outcome \<Rightarrow> SecureStore \<Rightarrow> qstring \<Rightarrow> bytes \<Rightarrow> disk \<times> rng \<Rightarrow> bool \<times> disk \<times> rng" where
  "store_write ev outcome s path data dr =
     (let (disk, r) = dr;
          (payload, r') = (if isEncrypting s
             then let (sealed, r1) = encrypt ev data (ss_key s) r
                  in (if sealed = [] then None else Some (Magic @ sealed), r1)
             else (Some data, r))
      in case payload of
           None \<Rightarrow> (False, disk, r')
         | Some p \<Rightarrow> (case outcome of
             Committed \<Rightarrow> (True, AList.update path p disk, r')
           | _ \<Rightarrow> (False, disk, r')))"

section \<open>The identity\<close>

text \<open>
  A certificate is its DER encoding and a key its encoding, empty for null. \<open>pem\<close> reads the two
  PEM files the way \<open>QSslCertificate\<close> and \<open>QSslKey\<close> do, \<open>issue\<close> is what the OpenSSL calls of
  \<open>generate\<close> produce for a serial as PEM,
  \<open>None\<close> when one of them fails.
\<close>

record Certificate =
  c_certificate :: bytes
  c_key :: bytes
  c_fingerprint :: qstring
  c_lastError :: qstring

definition new_Certificate :: Certificate where
  "new_Certificate = \<lparr>c_certificate = [], c_key = [], c_fingerprint = [], c_lastError = []\<rparr>"

record pemlib =
  p_certificate :: "bytes \<Rightarrow> bytes"
  p_key :: "bytes \<Rightarrow> bytes"
  p_issue :: "bytes \<Rightarrow> (bytes \<times> bytes) option"

definition identity_valid :: "Certificate \<Rightarrow> bool" where
  "identity_valid c \<longleftrightarrow> c_certificate c \<noteq> [] \<and> c_key c \<noteq> [] \<and> c_fingerprint c \<noteq> []"

definition fingerprintOf :: "qtlib \<Rightarrow> bytes \<Rightarrow> qstring" where
  "fingerprintOf lib der = (if der = [] then [] else sha256Hex lib der)"

definition load_identity ::
    "qtlib \<Rightarrow> evp \<Rightarrow> pemlib \<Rightarrow> SecureStore \<Rightarrow> disk \<Rightarrow> qstring \<Rightarrow> qstring \<Rightarrow> Certificate \<Rightarrow> bool \<times> Certificate" where
  "load_identity lib ev pem s disk certPath keyPath c =
     (let certPem = store_read ev s disk certPath; keyPem = store_read ev s disk keyPath
      in if certPem = [] \<or> keyPem = [] then (False, c\<lparr>c_lastError := qs ''stored identity is unreadable''\<rparr>)
         else
           let cert = p_certificate pem certPem; key = p_key pem keyPem
           in if cert = [] \<or> key = []
              then (False, c\<lparr>c_lastError := qs ''stored identity is not a usable key pair''\<rparr>)
              else (True, c\<lparr>c_certificate := cert, c_key := key, c_fingerprint := fingerprintOf lib cert,
                        c_lastError := []\<rparr>))"

definition generate_identity ::
    "qtlib \<Rightarrow> evp \<Rightarrow> pemlib \<Rightarrow> save_outcome \<times> save_outcome \<Rightarrow> SecureStore \<Rightarrow> qstring \<Rightarrow> qstring
      \<Rightarrow> Certificate \<Rightarrow> disk \<times> rng \<Rightarrow> bool \<times> Certificate \<times> disk \<times> rng" where
  "generate_identity lib ev pem saves s certPath keyPath c dr =
     (let (disk, r) = dr; c0 = c\<lparr>c_lastError := qs ''unknown failure''\<rparr>;
          (serialBytes, r1) = randomBytes 16 r
      in if serialBytes = [] then (False, c0\<lparr>c_lastError := qs ''no secure random source''\<rparr>, disk, r1)
         else case p_issue pem serialBytes of
           None \<Rightarrow> (False, c0, disk, r1)
         | Some (certPem, keyPem) \<Rightarrow>
             let cert = p_certificate pem certPem; key = p_key pem keyPem
             in if cert = [] \<or> key = []
                then (False, c0\<lparr>c_lastError := qs ''Qt rejected the generated key pair''\<rparr>, disk, r1)
                else
                  let (ok1, disk1, r2) = store_write ev (fst saves) s keyPath keyPem (disk, r1);
                      (ok2, disk2, r3) = (if ok1 then store_write ev (snd saves) s certPath certPem (disk1, r2)
                                          else (False, disk1, r2))
                  in if \<not> ok1 \<or> \<not> ok2
                     then (False, c0\<lparr>c_lastError := qs ''cannot store the identity''\<rparr>, disk2, r3)
                     else (True, c0\<lparr>c_certificate := cert, c_key := key,
                             c_fingerprint := fingerprintOf lib cert, c_lastError := []\<rparr>, disk2, r3))"

definition ensure_identity ::
    "qtlib \<Rightarrow> evp \<Rightarrow> pemlib \<Rightarrow> bool \<Rightarrow> save_outcome \<times> save_outcome \<Rightarrow> SecureStore \<Rightarrow> qstring
      \<Rightarrow> Certificate \<Rightarrow> disk \<times> rng \<Rightarrow> bool \<times> Certificate \<times> disk \<times> rng" where
  "ensure_identity lib ev pem made saves s directory c dr =
     (let (disk, r) = dr in
      if identity_valid c then (True, c, disk, r)
      else if \<not> made then (False, c\<lparr>c_lastError := qs ''cannot create '' @ directory\<rparr>, disk, r)
      else
        let certPath = directory @ qs ''/identity-cert.pem''; keyPath = directory @ qs ''/identity-key.pem''
        in if map_of disk certPath \<noteq> None \<and> map_of disk keyPath \<noteq> None then
             let (ok, c1) = load_identity lib ev pem s disk certPath keyPath c
             in if ok then (True, c1, disk, r)
                else generate_identity lib ev pem saves s certPath keyPath c1
                       (AList.delete keyPath (AList.delete certPath disk), r)
           else generate_identity lib ev pem saves s certPath keyPath c (disk, r))"

section \<open>The peer's certificate\<close>

text \<open>
  The slot \<open>pin\<close> connects to \<open>sslErrors\<close>: whether it ignores the errors, which under \<open>VerifyPeer\<close> is
  whether the connection goes on. \<open>configured\<close> is the certificate the reply's configuration
  carries, \<open>blamed\<close> those the errors name, all as DER.
\<close>

definition presentedCertificate :: "bytes \<Rightarrow> bytes list \<Rightarrow> bytes" where
  "presentedCertificate configured blamed =
     (if configured \<noteq> [] then configured
      else case List.find (\<lambda>c. c \<noteq> []) blamed of Some c \<Rightarrow> c | None \<Rightarrow> [])"

definition pin_allows :: "qtlib \<Rightarrow> qstring \<Rightarrow> bytes \<Rightarrow> bytes list \<Rightarrow> bool" where
  "pin_allows lib expected configured blamed =
     (if expected = [] then False
      else
        let presented = presentedCertificate configured blamed
        in if presented = [] then False
           else equalsFold lib (fingerprintOf lib presented) expected)"

definition observedFingerprint :: "qtlib \<Rightarrow> bytes option \<Rightarrow> qstring" where
  "observedFingerprint lib peer = (case peer of None \<Rightarrow> [] | Some der \<Rightarrow> fingerprintOf lib der)"

section \<open>What the store keeps\<close>

lemma length_Magic [simp]: "length Magic = 6"
  by (simp add: Magic_def bs_def)

lemma write_failed:
  "store_write ev outcome s path data (disk, r) = (False, disk', r') \<Longrightarrow> disk' = disk"
  by (auto simp: store_write_def Let_def split: if_splits option.splits prod.splits save_outcome.splits)

lemma write_done:
  "store_write ev outcome s path data (disk, r) = (True, disk', r') \<Longrightarrow>
     outcome = Committed \<and> (if isEncrypting s then \<exists>sealed. encrypt ev data (ss_key s) r = (sealed, r')
         \<and> sealed \<noteq> [] \<and> disk' = AList.update path (Magic @ sealed) disk
       else disk' = AList.update path data disk)"
  by (auto simp: store_write_def Let_def split: if_splits option.splits prod.splits save_outcome.splits)

text \<open>
  C27. What the store wrote it reads back: after a write that reported success the file reads as
  the data, whether the store encrypts (then whatever the data) or not (then unless the data
  itself begins with the marker of an encrypted file, which it would be taken for); and a write
  that reported failure, at whatever stage, has left every file as it was.
\<close>

theorem store_roundtrip:
  assumes "gcm_ok ev" "rng_ok r" and "store_write ev outcome s path data (disk, r) = (ok, disk', r')"
    and "isEncrypting s \<or> take 6 data \<noteq> Magic"
  shows "if ok then store_read ev s disk' path = data else disk' = disk"
proof (cases ok)
  case True
  with assms(3) have "store_write ev outcome s path data (disk, r) = (True, disk', r')" by simp
  note wd = write_done [OF this]
  show ?thesis
  proof (cases "isEncrypting s")
    case enc: True
    with wd obtain sealed where "encrypt ev data (ss_key s) r = (sealed, r')" "sealed \<noteq> []"
      and d: "disk' = AList.update path (Magic @ sealed) disk" by auto
    then have "decrypt ev sealed (ss_key s) = data" using assms(1,2) by (intro decrypt_encrypt)
    with enc d True show ?thesis by (simp add: store_read_def)
  next
    case False
    with wd assms(4) True show ?thesis by (simp add: store_read_def)
  qed
next
  case False
  with assms(3) write_failed show ?thesis by simp
qed

theorem store_roundtrip_witness:
  "\<exists>disk' r'. store_write null_cipher Committed (new_SecureStore\<lparr>ss_key := replicate 32 1\<rparr>) (qs ''f'') (bs ''LSENC1'')
      ([], \<lparr>r_source = \<lambda>_ n. Some (replicate n 9), r_calls = 0, r_seen = False\<rparr>) = (True, disk', r')
    \<and> store_read null_cipher (new_SecureStore\<lparr>ss_key := replicate 32 1\<rparr>) disk' (qs ''f'') = bs ''LSENC1''"
proof -
  let ?s = "new_SecureStore\<lparr>ss_key := replicate 32 1\<rparr>"
  let ?r = "\<lparr>r_source = \<lambda>_ n. Some (replicate n 9), r_calls = 0, r_seen = False\<rparr>"
  obtain ok disk' r' where w: "store_write null_cipher Committed ?s (qs ''f'') (bs ''LSENC1'') ([], ?r) = (ok, disk', r')"
    by (rule prod_cases3)
  have "fst (store_write null_cipher Committed ?s (qs ''f'') (bs ''LSENC1'') ([], ?r))" by code_simp
  then have ok: ok by (simp only: w fst_conv)
  have "rng_ok ?r" by (simp add: rng_ok_def)
  moreover have "isEncrypting ?s" by (simp add: isEncrypting_def)
  ultimately have "store_read null_cipher ?s disk' (qs ''f'') = bs ''LSENC1''"
    using store_roundtrip [OF null_cipher_ok _ w] ok by simp
  moreover have "store_write null_cipher Committed ?s (qs ''f'') (bs ''LSENC1'') ([], ?r) = (True, disk', r')"
    using w ok by simp
  ultimately show ?thesis by blast
qed

text \<open>
  What a non-empty read proves while the store encrypts. A file that carries the marker reads
  as something only if that something was sealed under the store's own key, for exactly these
  bytes. A file without the marker proves nothing: it is returned as it stands, so whoever can
  replace the file can choose its contents even though every file is written encrypted.
\<close>

theorem store_read_trust:
  assumes "gcm_ok ev" "isEncrypting s" "map_of disk path = Some contents" "contents \<noteq> []"
  shows "if take 6 contents = Magic
    then store_read ev s disk path = [] \<or>
      (\<exists>nonce body. contents = Magic @ nonce @ body \<and> length nonce = NonceBytes
         \<and> e_seal ev (ss_key s) nonce (store_read ev s disk path) = Some body)
    else store_read ev s disk path = contents"
proof (cases "take 6 contents = Magic")
  case True
  then have read: "store_read ev s disk path = decrypt ev (drop 6 contents) (ss_key s)"
    using assms(2,3) by (simp add: store_read_def)
  have contents: "contents = Magic @ drop 6 contents" using True by (metis append_take_drop_id)
  show ?thesis
  proof (cases "store_read ev s disk path = []")
    case False
    from decrypt_authentic [OF read [symmetric] False assms(1)] obtain nonce body where
      "drop 6 contents = nonce @ body" "length nonce = NonceBytes"
      "e_seal ev (ss_key s) nonce (store_read ev s disk path) = Some body" by blast
    with contents True show ?thesis by metis
  qed (simp add: True)
next
  case False
  with assms(2,3) show ?thesis by (simp add: store_read_def)
qed

theorem store_read_trust_witness:
  "store_read null_cipher (new_SecureStore\<lparr>ss_key := replicate 32 1\<rparr>) [(qs ''known.json'', bs ''{}'')] (qs ''known.json'')
    = bs ''{}''"
proof -
  have "isEncrypting (new_SecureStore\<lparr>ss_key := replicate 32 1\<rparr>)" by (simp add: isEncrypting_def)
  from store_read_trust [OF null_cipher_ok this, of "[(qs ''known.json'', bs ''{}'')]" "qs ''known.json''" "bs ''{}''"]
  show ?thesis by (simp add: Magic_def bs_def)
qed

section \<open>The identity on disk\<close>

text \<open>The PEM text of a certificate and of a key reads back as itself and is not an encrypted file.\<close>

definition pem_ok :: "pemlib \<Rightarrow> bool" where
  "pem_ok pem \<longleftrightarrow> (\<forall>serial c k. p_issue pem serial = Some (c, k) \<longrightarrow>
     c \<noteq> [] \<and> k \<noteq> [] \<and> take 6 c \<noteq> Magic \<and> take 6 k \<noteq> Magic)"

lemma store_read_written:
  assumes "gcm_ok ev" "rng_ok r" "store_write ev outcome s path data (disk, r) = (True, disk', r')"
    and "take 6 data \<noteq> Magic"
  shows "store_read ev s disk' path = data" "map_of disk' path \<noteq> None"
    "q \<noteq> path \<Longrightarrow> store_read ev s disk' q = store_read ev s disk q \<and> map_of disk' q = map_of disk q"
proof -
  note wd = write_done [OF assms(3)]
  obtain payload where d: "disk' = AList.update path payload disk"
    and p: "store_read ev s [(path, payload)] path = data"
  proof (cases "isEncrypting s")
    case True
    with wd obtain sealed where "encrypt ev data (ss_key s) r = (sealed, r')" "sealed \<noteq> []"
      and "disk' = AList.update path (Magic @ sealed) disk" by auto
    moreover from this(1,2) assms(1,2) have "decrypt ev sealed (ss_key s) = data" by (intro decrypt_encrypt)
    ultimately show ?thesis using True that [of "Magic @ sealed"] by (simp add: store_read_def)
  next
    case False
    with wd assms(4) that [of data] show ?thesis by (simp add: store_read_def)
  qed
  show "store_read ev s disk' path = data" using p by (simp add: d store_read_def)
  show "map_of disk' path \<noteq> None" by (simp add: d)
  show "store_read ev s disk' q = store_read ev s disk q \<and> map_of disk' q = map_of disk q" if "q \<noteq> path"
    using that by (simp add: d store_read_def)
qed

lemma store_write_rng: "rng_ok r \<Longrightarrow> store_write ev outcome s path data (disk, r) = (ok, disk', r') \<Longrightarrow> rng_ok r'"
proof -
  assume "rng_ok r" and w: "store_write ev outcome s path data (disk, r) = (ok, disk', r')"
  have enc: "r_source (snd (encrypt ev data k r)) = r_source r" for k
    by (auto simp: encrypt_def Let_def split: option.split prod.split dest: randomBytes_source)
  have "r' = r \<or> r' = snd (encrypt ev data (ss_key s) r)"
    using w by (auto simp: store_write_def Let_def split: if_splits option.splits prod.splits save_outcome.splits)
  with enc have "r_source r' = r_source r" by metis
  with \<open>rng_ok r\<close> show "rng_ok r'" by (simp add: rng_ok_def)
qed

lemma generate_identity_stores:
  assumes "gcm_ok ev" "rng_ok r" "pem_ok pem" "certPath \<noteq> keyPath"
    and "generate_identity lib ev pem saves s certPath keyPath c (disk, r) = (True, c', disk', r')"
  shows "load_identity lib ev pem s disk' certPath keyPath c0 = (True, c')"
    and "map_of disk' certPath \<noteq> None" and "map_of disk' keyPath \<noteq> None"
proof -
  obtain serialBytes r1 where sb: "randomBytes 16 r = (serialBytes, r1)" by fastforce
  with assms(5) obtain certPem keyPem where ne: "serialBytes \<noteq> []"
    and issue: "p_issue pem serialBytes = Some (certPem, keyPem)"
    by (auto simp: generate_identity_def Let_def split: if_splits option.splits)
  obtain ok1 disk1 r2 where w1: "store_write ev (fst saves) s keyPath keyPem (disk, r1) = (ok1, disk1, r2)"
    by (metis prod.exhaust)
  obtain ok2 disk2 r3 where w2: "store_write ev (snd saves) s certPath certPem (disk1, r2) = (ok2, disk2, r3)"
    by (metis prod.exhaust)
  have usable: "p_certificate pem certPem \<noteq> []" "p_key pem keyPem \<noteq> []" and oks: "ok1" "ok2"
    and d: "disk' = disk2" and c': "c' = \<lparr>c_certificate = p_certificate pem certPem, c_key = p_key pem keyPem,
      c_fingerprint = fingerprintOf lib (p_certificate pem certPem), c_lastError = []\<rparr>"
    using assms(5) sb ne issue w1 w2
    by (cases c; auto simp: generate_identity_def Let_def split: if_splits)+
  have texts: "certPem \<noteq> []" "keyPem \<noteq> []" "take 6 certPem \<noteq> Magic" "take 6 keyPem \<noteq> Magic"
    using assms(3) issue unfolding pem_ok_def by blast+
  have r1: "rng_ok r1" using assms(2) randomBytes_source [OF sb] by (simp add: rng_ok_def)
  note k = store_read_written [OF assms(1) r1 w1 [unfolded eqTrueI [OF oks(1)]] texts(4)]
  note w2' = store_read_written [OF assms(1) store_write_rng [OF r1 w1] w2 [unfolded eqTrueI [OF oks(2)]] texts(3)]
  have reads: "store_read ev s disk' certPath = certPem" "store_read ev s disk' keyPath = keyPem"
    using k(1) w2'(1,3) assms(4) by (auto simp: d)
  show "map_of disk' certPath \<noteq> None" "map_of disk' keyPath \<noteq> None"
    using k(2) w2'(2) w2'(3) [of keyPath] assms(4) by (auto simp: d)
  show "load_identity lib ev pem s disk' certPath keyPath c0 = (True, c')"
    using reads usable texts by (cases c0) (simp add: load_identity_def Let_def c')
qed

lemma identity_paths_differ: "directory @ qs ''/identity-cert.pem'' \<noteq> directory @ qs ''/identity-key.pem''"
  by simp



section \<open>Pinning\<close>

text \<open>
  What the handler of \<open>sslErrors\<close> decides: it goes on exactly when the peer presented a certificate
  whose fingerprint is the announced one, case aside; as far as the digest tells certificates apart,
  that is the holder of the announced certificate.
\<close>

lemma pin_allows_iff:
  assumes "qt_ok lib" "der \<noteq> []" "q_toUpper lib expected = q_toUpper lib (fingerprintOf lib der)"
    and "\<And>s. set s \<subseteq> set (qs ''0123456789abcdef'') \<Longrightarrow> plain_ascii (q_toUpper lib s)"
    and "\<And>other. sha256Hex lib other = sha256Hex lib der \<Longrightarrow> other = der"
    and "sha256Hex lib der \<noteq> []"
  shows "pin_allows lib expected configured blamed \<longleftrightarrow> presentedCertificate configured blamed = der"
proof -
  have up: "q_toUpper lib (sha256Hex lib d) = sha256Hex lib d" for d
    by (simp add: sha256Hex_def toUpper_idem [OF assms(1)])
  have plain: "plain_ascii (q_toUpper lib expected)"
    using assms(2,3) assms(4) [OF set_to_hex] by (simp add: fingerprintOf_def up) (simp add: sha256Hex_def)
  have "expected \<noteq> []"
    using assms(2,3,6) toUpper_empty [OF assms(1), of expected] by (auto simp: fingerprintOf_def up)
  then show ?thesis
    using assms(2,3,5) equalsFold_plain [OF assms(1) plain]
    by (auto simp: pin_allows_def Let_def fingerprintOf_def up)
qed

text \<open>A digest that tells one certificate from all others, for the witness.\<close>

definition one_hash_qt :: qtlib where
  "one_hash_qt = ascii_qt\<lparr>q_sha256 := \<lambda>b. if b = [1] then [1] else [2, 2]\<rparr>"

lemma one_hash_qt_ok: "qt_ok one_hash_qt"
  using ascii_qt_ok by (simp add: qt_ok_def one_hash_qt_def)

lemma ascii_upper_hex: "set s \<subseteq> set (qs ''0123456789abcdef'') \<Longrightarrow> plain_ascii (map ascii_upper_char s)"
proof -
  have "list_all (\<lambda>c. ascii_upper_char c < 128 \<and> ascii_upper_char c \<noteq> qc (CHR ''?'')) (qs ''0123456789abcdef'')"
    by (simp add: qs_def qc_def ascii_upper_char_def)
  moreover assume "set s \<subseteq> set (qs ''0123456789abcdef'')"
  ultimately show ?thesis unfolding plain_ascii_def list_all_iff by auto
qed

lemma pin_allows_no_fingerprint [simp]: "\<not> pin_allows lib [] configured blamed"
  by (simp add: pin_allows_def)

end
