(* ===== verification/Protocol.thy ===== *)
theory Protocol
  imports Crypto
begin

text \<open>
  \<open>src/src/protocol.cpp\<close>: the text filter every peer-chosen string goes through, the known
  device types, and the generators of aliases, fingerprints and tokens.
\<close>

section \<open>Constants\<close>

definition Version :: qstring where
  "Version = qs ''2.1''"

definition ApiPrefix :: qstring where
  "ApiPrefix = qs ''/api/localsend/v2''"

definition PathInfo :: qstring where
  "PathInfo = qs ''/info''"

definition PathRegister :: qstring where
  "PathRegister = qs ''/register''"

definition PathPrepareUpload :: qstring where
  "PathPrepareUpload = qs ''/prepare-upload''"

definition PathUpload :: qstring where
  "PathUpload = qs ''/upload''"

definition PathCancel :: qstring where
  "PathCancel = qs ''/cancel''"

definition PathLegacyInfo :: qstring where
  "PathLegacyInfo = qs ''/api/localsend/v1/info''"

definition DefaultPort :: int where
  "DefaultPort = 53317"

definition isKnownDeviceType :: "qstring \<Rightarrow> bool" where
  "isKnownDeviceType type \<longleftrightarrow>
     type = qs ''mobile'' \<or> type = qs ''desktop'' \<or> type = qs ''web''
     \<or> type = qs ''headless'' \<or> type = qs ''server''"

section \<open>The text filter\<close>

text \<open>The five \<open>continue\<close> tests of the loop body, in order.\<close>

definition stripped :: "qchar \<Rightarrow> bool" where
  "stripped code \<longleftrightarrow>
     (code < 0x20 \<or> code = 0x7F \<or> (0x80 \<le> code \<and> code \<le> 0x9F))
     \<or> (0x202A \<le> code \<and> code \<le> 0x202E)
     \<or> (0x2066 \<le> code \<and> code \<le> 0x2069)
     \<or> (code = 0x200B \<or> code = 0x200C \<or> code = 0x200D \<or> code = 0xFEFF)
     \<or> (code = qc (CHR ''<'') \<or> code = qc (CHR ''>''))"

text \<open>The loop: the rest of the text from \<open>i\<close> on, and \<open>clean\<close>.\<close>

fun sanitize_loop :: "int \<Rightarrow> qstring \<Rightarrow> qstring \<Rightarrow> qstring" where
  "sanitize_loop maxLength [] clean = clean"
| "sanitize_loop maxLength (c # rest) clean =
     (if int (length clean) < maxLength
      then sanitize_loop maxLength rest (if stripped c then clean else clean @ [c])
      else clean)"

definition sanitizeText :: "qtlib \<Rightarrow> qstring \<Rightarrow> int \<Rightarrow> qstring" where
  "sanitizeText lib input maxLength = trimmed (q_isSpace lib) (sanitize_loop maxLength input [])"

section \<open>Generators\<close>

definition adjectives :: "string list" where
  "adjectives = [''Nice'', ''Secret'', ''Happy'', ''Brave'', ''Calm'', ''Swift'', ''Quiet'',
     ''Bright'', ''Clever'', ''Gentle'', ''Jolly'', ''Kind'', ''Lucky'', ''Merry'', ''Noble'',
     ''Proud'', ''Silent'', ''Smooth'', ''Sunny'', ''Warm'', ''Wise'', ''Bold'', ''Cosmic'',
     ''Curious'']"

definition nouns :: "string list" where
  "nouns = [''Orange'', ''Banana'', ''Cherry'', ''Lemon'', ''Mango'', ''Melon'', ''Peach'',
     ''Pear'', ''Plum'', ''Apple'', ''Grape'', ''Kiwi'', ''Papaya'', ''Apricot'', ''Coconut'',
     ''Fig'', ''Lime'', ''Olive'', ''Walnut'', ''Almond'', ''Ginger'', ''Pepper'', ''Cocoa'',
     ''Vanilla'']"

text \<open>\<open>uuid\<close> is the 16 bytes of \<open>QUuid::createUuid().toRfc4122()\<close>.\<close>

definition generateAlias :: "bytes \<Rightarrow> rng \<Rightarrow> qstring \<times> rng" where
  "generateAlias uuid r =
     (let (drawn, r') = randomBytes 2 r;
          entropy = (if length drawn < 2 then uuid else drawn);
          adjective = unat (entropy ! 0) mod length adjectives;
          noun = unat (entropy ! 1) mod length nouns
      in (qs (adjectives ! adjective) @ qs '' '' @ qs (nouns ! noun), r'))"

definition generateFingerprint :: "qtlib \<Rightarrow> rng \<Rightarrow> qstring \<times> rng" where
  "generateFingerprint lib r = (let (h, r') = randomHex 32 r in (q_toUpper lib h, r'))"

definition generateToken :: "rng \<Rightarrow> qstring \<times> rng" where
  "generateToken r = randomHex 24 r"

section \<open>What the filter does\<close>

lemma sanitize_loop_eq:
  "sanitize_loop m input clean =
     clean @ take (nat m - length clean) (filter (\<lambda>c. \<not> stripped c) input)"
  by (induction m input clean rule: sanitize_loop.induct)
    (auto simp: take_Cons')

lemma sanitizeText_eq:
  "sanitizeText lib input m =
     trimmed (q_isSpace lib) (take (nat m) (filter (\<lambda>c. \<not> stripped c) input))"
  by (simp add: sanitizeText_def sanitize_loop_eq)

lemma sanitizeText_not_stripped: "c \<in> set (sanitizeText lib input m) \<Longrightarrow> \<not> stripped c"
proof -
  assume "c \<in> set (sanitizeText lib input m)"
  then have "c \<in> set (take (nat m) (filter (\<lambda>c. \<not> stripped c) input))"
    using set_trimmed by (fastforce simp: sanitizeText_eq)
  then show ?thesis by (auto dest: in_set_takeD)
qed

lemma length_sanitizeText: "length (sanitizeText lib input m) \<le> nat m"
  unfolding sanitizeText_eq by (rule le_trans [OF length_trimmed]) simp

lemma sanitizeText_stable:
  assumes "\<forall>c \<in> set s. \<not> stripped c" and "length s \<le> nat m"
    and "trimmed (q_isSpace lib) s = s"
  shows "sanitizeText lib s m = s"
  using assms by (simp add: sanitizeText_eq)

lemma trimmed_sanitizeText [simp]:
  "trimmed (q_isSpace lib) (sanitizeText lib input m) = sanitizeText lib input m"
  by (simp add: sanitizeText_def)

lemma sanitizeText_Nil [simp]: "sanitizeText lib [] m = []"
  by (simp add: sanitizeText_eq)

lemma sanitizeText_again:
  "m \<le> n \<Longrightarrow> sanitizeText lib (sanitizeText lib input m) n = sanitizeText lib input m"
  using length_sanitizeText [of lib input m]
  by (intro sanitizeText_stable) (auto dest: sanitizeText_not_stripped)

text \<open>
  The text filter is what its comment promises of it: whatever a peer sends, the result
  is the first \<open>maxLength\<close> code units of the text without control characters, bidirectional
  overrides and isolates, zero-width joiners and angle brackets, then trimmed; it holds none
  of those characters, is within the cap, and filtering it again changes nothing.
\<close>

theorem sanitizeText_correct:
  "sanitizeText lib input m = trimmed (q_isSpace lib) (take (nat m) (filter (\<lambda>c. \<not> stripped c) input))
   \<and> length (sanitizeText lib input m) \<le> nat m
   \<and> \<not> list_ex stripped (sanitizeText lib input m)
   \<and> sanitizeText lib (sanitizeText lib input m) m = sanitizeText lib input m"
  by (auto simp: sanitizeText_eq [symmetric] length_sanitizeText sanitizeText_again list_ex_iff
      dest: sanitizeText_not_stripped)

section \<open>What the generators produce\<close>

lemma generateToken_plain: "generateToken r = (t, r') \<Longrightarrow> plain_ascii t"
  by (simp add: generateToken_def randomHex_shape)

lemma generateToken_length:
  assumes "generateToken r = (t, r')" and "rng_ok r"
  shows "t = [] \<or> length t = 48"
proof -
  from assms(1) obtain b where b: "randomBytes 24 r = (b, r')" and t: "t = to_hex b"
    by (auto simp: generateToken_def randomHex_def split: prod.splits)
  from randomBytes_length [OF assms(2) b] t show ?thesis by auto
qed

lemma generateToken_source: "generateToken r = (t, r') \<Longrightarrow> r_source r' = r_source r"
  by (auto simp: generateToken_def randomHex_def split: prod.splits dest: randomBytes_source)

lemma generateToken_rng_ok: "generateToken r = (t, r') \<Longrightarrow> rng_ok r' = rng_ok r"
  by (drule generateToken_source) (simp add: rng_ok_def)

lemma alias_words: "length adjectives = 24" "length nouns = 24"
  by (simp_all add: adjectives_def nouns_def)

lemma generateAlias_from_lists:
  "\<exists>a \<in> set adjectives. \<exists>n \<in> set nouns. fst (generateAlias uuid r) = qs a @ qs '' '' @ qs n"
proof -
  have "adjectives ! (i mod length adjectives) \<in> set adjectives"
    and "nouns ! (i mod length nouns) \<in> set nouns" for i
    by (simp_all add: alias_words)
  then show ?thesis
    unfolding generateAlias_def Let_def by (auto split: prod.splits)
qed

end
