(* ===== verification/Device_Info.thy ===== *)
theory Device_Info
  imports Protocol
begin

text \<open>
  \<open>src/src/deviceinfo.cpp\<close>: one device as the handshake payloads describe it, and the
  payloads. \<open>lastSeen\<close> is milliseconds since the epoch, \<open>None\<close> for an invalid \<open>QDateTime\<close>.
\<close>

section \<open>The record\<close>

record DeviceInfo =
  dev_alias :: qstring
  version :: qstring
  deviceModel :: qstring
  deviceType :: qstring
  fingerprint :: qstring
  port :: int
  protocol :: qstring
  download :: bool
  address :: qstring
  lastSeen :: "int option"

definition new_DeviceInfo :: DeviceInfo where
  "new_DeviceInfo = \<lparr>dev_alias = [], version = [], deviceModel = [], deviceType = [],
     fingerprint = [], port = DefaultPort, protocol = qs ''http'', download = False,
     address = [], lastSeen = None\<rparr>"

definition isValid :: "DeviceInfo \<Rightarrow> bool" where
  "isValid d \<longleftrightarrow> fingerprint d \<noteq> []"

text \<open>Decimal digits, as \<open>QString::number\<close> and \<open>arg(int)\<close> write them.\<close>

fun nat_digits :: "nat \<Rightarrow> string" where
  "nat_digits n = (if n < 10 then [char_of (48 + n)]
     else nat_digits (n div 10) @ [char_of (48 + n mod 10)])"

declare nat_digits.simps [simp del]

definition number :: "int \<Rightarrow> qstring" where
  "number n = (if n < 0 then qs (CHR ''-'' # nat_digits (nat (- n))) else qs (nat_digits (nat n)))"

definition apiBase :: "DeviceInfo \<Rightarrow> qstring" where
  "apiBase d = (if protocol d = [] then qs ''http'' else protocol d) @ qs ''://'' @ address d
     @ qs '':'' @ number (port d) @ ApiPrefix"

section \<open>Payloads\<close>

definition basePayload :: "DeviceInfo \<Rightarrow> jobject" where
  "basePayload d =
     jinsert ''download'' (JBool (download d))
     (jinsert ''fingerprint'' (JString (fingerprint d))
     (jinsert ''deviceType'' (JString (deviceType d))
     (jinsert ''deviceModel'' (JString (deviceModel d))
     (jinsert ''version'' (JString (version d))
     (jinsert ''alias'' (JString (dev_alias d)) [])))))"

definition toRegisterBody :: "DeviceInfo \<Rightarrow> jobject" where
  "toRegisterBody d =
     jinsert ''protocol'' (JString (protocol d))
     (jinsert ''port'' (JDouble (of_int (port d))) (basePayload d))"

definition toAnnouncement :: "bool \<Rightarrow> DeviceInfo \<Rightarrow> jobject" where
  "toAnnouncement announcing d = jinsert ''announce'' (JBool announcing) (toRegisterBody d)"

definition toInfoResponse :: "DeviceInfo \<Rightarrow> jobject" where
  "toInfoResponse d = toRegisterBody d"

definition fromPayload :: "qtlib \<Rightarrow> jobject \<Rightarrow> DeviceInfo" where
  "fromPayload lib ob =
     (let text_of = (\<lambda>key cap. sanitizeText lib (to_string (jvalue ob key)) cap);
          portValue = jvalue ob ''port'';
          proto = to_string (jvalue ob ''protocol'');
          d = new_DeviceInfo\<lparr>
            dev_alias := text_of ''alias'' 64,
            version := text_of ''version'' 16,
            deviceModel := text_of ''deviceModel'' 64,
            deviceType := text_of ''deviceType'' 16,
            fingerprint := text_of ''fingerprint'' 128,
            download := to_bool False (jvalue ob ''download''),
            port := (if is_double portValue then to_int DefaultPort portValue else DefaultPort),
            protocol := (if proto = qs ''https'' then proto else qs ''http'')\<rparr>;
          d1 = (if dev_alias d = [] then d\<lparr>dev_alias := qs ''Unknown device''\<rparr> else d)
      in if deviceType d1 = [] then d1\<lparr>deviceType := qs ''desktop''\<rparr> else d1)"

section \<open>Facts\<close>

lemma jvalue_basePayload [simp]:
  "jvalue (basePayload d) ''alias'' = JString (dev_alias d)"
  "jvalue (basePayload d) ''version'' = JString (version d)"
  "jvalue (basePayload d) ''deviceModel'' = JString (deviceModel d)"
  "jvalue (basePayload d) ''deviceType'' = JString (deviceType d)"
  "jvalue (basePayload d) ''fingerprint'' = JString (fingerprint d)"
  "jvalue (basePayload d) ''download'' = JBool (download d)"
  by (simp_all add: basePayload_def)

text \<open>What a payload can hold without loss.\<close>

definition clean_text :: "qtlib \<Rightarrow> nat \<Rightarrow> qstring \<Rightarrow> bool" where
  "clean_text lib cap s \<longleftrightarrow> list_all (\<lambda>c. \<not> stripped c) s \<and> length s \<le> cap
     \<and> trimmed (q_isSpace lib) s = s"

definition presentable :: "qtlib \<Rightarrow> DeviceInfo \<Rightarrow> bool" where
  "presentable lib d \<longleftrightarrow>
     clean_text lib 64 (dev_alias d) \<and> dev_alias d \<noteq> [] \<and> clean_text lib 16 (version d)
     \<and> clean_text lib 64 (deviceModel d) \<and> clean_text lib 16 (deviceType d) \<and> deviceType d \<noteq> []
     \<and> clean_text lib 128 (fingerprint d)
     \<and> - (2 ^ 31) \<le> port d \<and> port d < 2 ^ 31
     \<and> (protocol d = qs ''http'' \<or> protocol d = qs ''https'')"

lemma sanitize_clean [simp]: "clean_text lib (nat m) s \<Longrightarrow> sanitizeText lib s m = s"
  by (intro sanitizeText_stable) (auto simp: clean_text_def list_all_iff)

lemma clean_text_sanitize: "clean_text lib (nat m) (sanitizeText lib s m)"
  by (auto simp: clean_text_def list_all_iff length_sanitizeText dest: sanitizeText_not_stripped)

lemma clean_text_mono: "clean_text lib m s \<Longrightarrow> m \<le> n \<Longrightarrow> clean_text lib n s"
  by (auto simp: clean_text_def)

lemma fromPayload_fields:
  shows "fingerprint (fromPayload lib ob) = sanitizeText lib (to_string (jvalue ob ''fingerprint'')) 128"
    and "address (fromPayload lib ob) = []"
    and "lastSeen (fromPayload lib ob) = None"
    and "port (fromPayload lib ob) =
      (if is_double (jvalue ob ''port'') then to_int DefaultPort (jvalue ob ''port'') else DefaultPort)"
  by (simp_all add: fromPayload_def Let_def new_DeviceInfo_def)

lemma clean_text_qs:
  "\<not> list_ex stripped (qs s) \<Longrightarrow> length s \<le> n \<Longrightarrow>
   trimmed (q_isSpace lib) (qs s) = qs s \<Longrightarrow> clean_text lib n (qs s)"
  by (auto simp: clean_text_def list_all_iff list_ex_iff)

lemma payload_roundtrip:
  assumes "presentable lib d"
  shows "fromPayload lib (toAnnouncement b d) = d\<lparr>address := [], lastSeen := None\<rparr>"
    and "fromPayload lib (toRegisterBody d) = d\<lparr>address := [], lastSeen := None\<rparr>"
proof -
  have *: "sanitizeText lib (dev_alias d) 64 = dev_alias d" "sanitizeText lib (version d) 16 = version d"
    "sanitizeText lib (deviceModel d) 64 = deviceModel d"
    "sanitizeText lib (deviceType d) 16 = deviceType d"
    "sanitizeText lib (fingerprint d) 128 = fingerprint d"
    using assms by (simp_all add: presentable_def)
  show "fromPayload lib (toAnnouncement b d) = d\<lparr>address := [], lastSeen := None\<rparr>"
    and "fromPayload lib (toRegisterBody d) = d\<lparr>address := [], lastSeen := None\<rparr>"
    using assms
    by (auto simp: fromPayload_def toAnnouncement_def toRegisterBody_def new_DeviceInfo_def
        presentable_def Let_def *)
qed

text \<open>
  A device survives the wire: whatever another instance announces or registers as is read
  back field for field, apart from the address and the time it was seen, which never travel;
  the announcement flag travels with it.
\<close>

theorem announcement_roundtrip:
  assumes "presentable lib d"
  shows "fromPayload lib (toAnnouncement b d) = d\<lparr>address := [], lastSeen := None\<rparr>
     \<and> fromPayload lib (toRegisterBody d) = d\<lparr>address := [], lastSeen := None\<rparr>
     \<and> to_bool False (jvalue (toAnnouncement b d) ''announce'') = b"
  using assms by (simp add: payload_roundtrip) (simp add: toAnnouncement_def)

theorem announcement_roundtrip_witness:
  "let d = new_DeviceInfo\<lparr>dev_alias := qs ''Nice Orange'', version := Version,
     deviceModel := qs ''Xperia 10 III'', deviceType := qs ''mobile'', fingerprint := qs ''9F86D081''\<rparr>
   in fromPayload ascii_qt (toAnnouncement True d) = d"
proof -
  let ?d = "new_DeviceInfo\<lparr>dev_alias := qs ''Nice Orange'', version := Version,
     deviceModel := qs ''Xperia 10 III'', deviceType := qs ''mobile'', fingerprint := qs ''9F86D081''\<rparr>"
  have "presentable ascii_qt ?d" by code_simp
  from announcement_roundtrip [OF this, of True] show ?thesis
    by (simp add: new_DeviceInfo_def)
qed

lemma clean_default:
  assumes "qt_ok lib"
  shows "clean_text lib 64 (qs ''Unknown device'')" and "clean_text lib 16 (qs ''desktop'')"
proof -
  have "\<not> list_ex stripped (qs ''Unknown device'')" "\<not> list_ex stripped (qs ''desktop'')"
    by (simp_all add: stripped_def qs_def qc_def)
  moreover have "trimmed (q_isSpace lib) (qs ''Unknown device'') = qs ''Unknown device''"
    and "trimmed (q_isSpace lib) (qs ''desktop'') = qs ''desktop''"
    by (rule trimmed_id; simp add: qs_def qc_def isSpace_graph [OF assms])+
  ultimately show "clean_text lib 64 (qs ''Unknown device'')" and "clean_text lib 16 (qs ''desktop'')"
    by (simp_all add: clean_text_qs)
qed

lemma to_int_range: "- (2 ^ 31) \<le> d \<Longrightarrow> d < 2 ^ 31 \<Longrightarrow> - (2 ^ 31) \<le> to_int d v \<and> to_int d v < 2 ^ 31"
  by (cases v) auto

text \<open>
  Nothing a peer writes into a payload reaches the device list unfiltered: whatever the
  object holds, of whatever types, every text field of the result is free of the stripped
  characters and within its cap, the alias and the type are never empty, the port is a C++
  \<open>int\<close>, the transport is one of the two, and reading the result back changes nothing.
\<close>

theorem fromPayload_presentable:
  assumes "qt_ok lib"
  shows "presentable lib (fromPayload lib ob)
    \<and> fromPayload lib (toRegisterBody (fromPayload lib ob)) = fromPayload lib ob"
proof -
  have "presentable lib (fromPayload lib ob)"
    using clean_default [OF assms] to_int_range [of DefaultPort "jvalue ob ''port''"]
      clean_text_sanitize [of lib 64] clean_text_sanitize [of lib 16] clean_text_sanitize [of lib 128]
    by (auto simp: fromPayload_def presentable_def Let_def new_DeviceInfo_def DefaultPort_def)
  then show ?thesis
    using payload_roundtrip(2) [of lib "fromPayload lib ob" ] by (simp add: fromPayload_fields)
qed


theorem fromPayload_presentable_witness:
  "presentable ascii_qt (fromPayload ascii_qt
     [(qs ''alias'', JString [0x202E, 60, 65]), (qs ''port'', JDouble (7 / 2))])"
  using fromPayload_presentable [OF ascii_qt_ok] by blast

end
