(* ===== verification/App_Settings.thy ===== *)
theory App_Settings
  imports Secure_Store Device_Info
begin

text \<open>
  \<open>src/src/appsettings.cpp\<close>: the preferences, kept in a \<open>QSettings\<close> file, here a table from keys
  to variants; the receive PIN; the identity this device announces. The directories of the
  platform and the name of the handset are the parameters of \<open>sysenv\<close>; the default arguments of
  \<open>value()\<close> stand where the source has them.
\<close>

section \<open>Variants\<close>

datatype variant = VString qstring | VBool bool | VInt int | VStringList "qstring list"

fun v_toString :: "variant option \<Rightarrow> qstring" where
  "v_toString (Some (VString s)) = s"
| "v_toString (Some (VBool b)) = (if b then qs ''true'' else qs ''false'')"
| "v_toString (Some (VInt n)) = number n"
| "v_toString (Some (VStringList [s])) = s"
| "v_toString _ = []"

definition ascii_lower :: "qstring \<Rightarrow> qstring" where
  "ascii_lower s = map (\<lambda>c. if 65 \<le> c \<and> c \<le> 90 then c + 32 else c) s"

fun v_toBool :: "variant \<Rightarrow> bool" where
  "v_toBool (VString s) = (s \<noteq> [] \<and> s \<noteq> qs ''0'' \<and> ascii_lower s \<noteq> qs ''false'')"
| "v_toBool (VBool b) = b"
| "v_toBool (VInt n) = (n \<noteq> 0)"
| "v_toBool (VStringList _) = False"

fun decimal :: "nat \<Rightarrow> qstring \<Rightarrow> nat option" where
  "decimal acc [] = Some acc"
| "decimal acc (c # cs) = (if 48 \<le> c \<and> c \<le> 57 then decimal (acc * 10 + (unat c - 48)) cs else None)"

text \<open>The strings a settings file holds where an \<open>int\<close> was stored are what \<open>QString::number\<close> wrote.\<close>

fun v_toInt :: "variant \<Rightarrow> int" where
  "v_toInt (VInt n) = n"
| "v_toInt (VBool b) = (if b then 1 else 0)"
| "v_toInt (VString s) = (let neg = (s \<noteq> [] \<and> hd s = qc (CHR ''-'')); d = (if neg then tl s else s)
     in case (if d = [] then None else decimal 0 d) of
          Some n \<Rightarrow> let v = (if neg then - int n else int n) in if - (2 ^ 31) \<le> v \<and> v < 2 ^ 31 then v else 0
        | None \<Rightarrow> 0)"
| "v_toInt (VStringList _) = 0"

fun v_toStringList :: "variant option \<Rightarrow> qstring list" where
  "v_toStringList (Some (VStringList l)) = l"
| "v_toStringList (Some (VString s)) = [s]"
| "v_toStringList _ = []"

section \<open>State\<close>

datatype settings_signal =
    AliasChanged | PortChanged | SettingsDestinationChanged | FolderPerSenderChanged | ReceiveEnabledChanged
  | QuickSaveChanged | PinEnabledChanged | PinChanged | SecureTransportChanged | NotificationsEnabledChanged
  | KeepAwakeChanged | HistoryEnabledChanged | LanguageChanged | ManualDevicesChanged

record AppSettings =
  as_values :: "(string, variant) qhash"
  as_deviceModel :: qstring
  as_randomFingerprint :: qstring
  as_identity :: Certificate
  as_transportError :: qstring
  as_signals :: "settings_signal list"

definition KeyAlias :: string where "KeyAlias = ''device/alias''"
definition KeyFingerprint :: string where "KeyFingerprint = ''device/fingerprint''"
definition KeyPort :: string where "KeyPort = ''network/port''"
definition KeyDestination :: string where "KeyDestination = ''storage/destination''"
definition KeyFolderPerSender :: string where "KeyFolderPerSender = ''storage/folderPerSender''"
definition KeyReceiveEnabled :: string where "KeyReceiveEnabled = ''network/receiveEnabled''"
definition KeyQuickSave :: string where "KeyQuickSave = ''transfer/quickSave''"
definition KeyPinEnabled :: string where "KeyPinEnabled = ''security/pinEnabled''"
definition KeyPinSalt :: string where "KeyPinSalt = ''security/pinSalt''"
definition KeyPinHash :: string where "KeyPinHash = ''security/pinHash''"
definition KeySecureTransport :: string where "KeySecureTransport = ''security/encrypt''"
definition KeyLegacyPin :: string where "KeyLegacyPin = ''security/pin''"
definition KeyNotifications :: string where "KeyNotifications = ''ui/notifications''"
definition KeyKeepAwake :: string where "KeyKeepAwake = ''transfer/keepAwake''"
definition KeyHistoryEnabled :: string where "KeyHistoryEnabled = ''ui/history''"
definition KeyLanguage :: string where "KeyLanguage = ''ui/language''"
definition KeyManualDevices :: string where "KeyManualDevices = ''network/manualDevices''"

lemmas settings_keys = KeyAlias_def KeyFingerprint_def KeyPort_def KeyDestination_def KeyFolderPerSender_def
  KeyReceiveEnabled_def KeyQuickSave_def KeyPinEnabled_def KeyPinSalt_def KeyPinHash_def KeySecureTransport_def
  KeyLegacyPin_def KeyNotifications_def KeyKeepAwake_def KeyHistoryEnabled_def KeyLanguage_def KeyManualDevices_def

definition PinIterations :: int where "PinIterations = 120000"

definition setting :: "string \<Rightarrow> AppSettings \<Rightarrow> variant option" where
  "setting k st = map_of (as_values st) k"

definition setValue :: "string \<Rightarrow> variant \<Rightarrow> AppSettings \<Rightarrow> AppSettings" where
  "setValue k v st = st\<lparr>as_values := AList.update k v (as_values st)\<rparr>"

definition removeValue :: "string \<Rightarrow> AppSettings \<Rightarrow> AppSettings" where
  "removeValue k st = st\<lparr>as_values := AList.delete k (as_values st)\<rparr>"

definition tell :: "settings_signal \<Rightarrow> AppSettings \<Rightarrow> AppSettings" where
  "tell s st = st\<lparr>as_signals := as_signals st @ [s]\<rparr>"

definition flag :: "string \<Rightarrow> bool \<Rightarrow> AppSettings \<Rightarrow> bool" where
  "flag k d st = (case setting k st of None \<Rightarrow> d | Some v \<Rightarrow> v_toBool v)"

definition set_flag :: "string \<Rightarrow> bool \<Rightarrow> settings_signal \<Rightarrow> bool \<Rightarrow> AppSettings \<Rightarrow> AppSettings" where
  "set_flag k d s enabled st =
     (if enabled = flag k d st then st else tell s (setValue k (VBool enabled) st))"

record sysenv =
  s_downloads :: qstring
  s_home :: qstring
  s_appData :: qstring
  s_hwRelease :: "qstring list option"
  s_productName :: qstring
  s_toLocalFile :: "qstring \<Rightarrow> qstring"

section \<open>Readers\<close>

definition startsWith :: "qstring \<Rightarrow> qstring \<Rightarrow> bool" where
  "startsWith p s \<longleftrightarrow> take (length p) s = p"

definition endsWith :: "qstring \<Rightarrow> qstring \<Rightarrow> bool" where
  "endsWith p s \<longleftrightarrow> length p \<le> length s \<and> drop (length s - length p) s = p"

text \<open>\<open>value.mid(1, length - 2)\<close>; a negative length means the rest of the string.\<close>

definition unquote :: "qstring \<Rightarrow> qstring" where
  "unquote v = (if length v < 2 then drop 1 v else take (length v - 2) (drop 1 v))"

definition hw_name :: "qtlib \<Rightarrow> qstring \<Rightarrow> qstring option" where
  "hw_name lib raw =
     (let line = trimmed (q_isSpace lib) raw
      in if \<not> startsWith (qs ''NAME='') line then None
         else
           let v = trimmed (q_isSpace lib) (drop 5 line);
               v' = (if startsWith [qc (CHR 0x22)] v \<and> endsWith [qc (CHR 0x22)] v then unquote v else v)
           in if v' = [] then None else Some v')"

fun first_name :: "qtlib \<Rightarrow> qstring list \<Rightarrow> qstring option" where
  "first_name lib [] = None"
| "first_name lib (l # ls) = (case hw_name lib l of Some v \<Rightarrow> Some v | None \<Rightarrow> first_name lib ls)"

definition detectDeviceModel :: "qtlib \<Rightarrow> sysenv \<Rightarrow> qstring" where
  "detectDeviceModel lib sys =
     (case (case s_hwRelease sys of None \<Rightarrow> None | Some ls \<Rightarrow> first_name lib ls) of
        Some v \<Rightarrow> v
      | None \<Rightarrow> if s_productName sys = [] then qs ''Sailfish OS'' else s_productName sys)"

definition defaultDestination :: "sysenv \<Rightarrow> qstring" where
  "defaultDestination sys = (if s_downloads sys = [] then s_home sys @ qs ''/Downloads'' else s_downloads sys)"

definition settings_alias :: "AppSettings \<Rightarrow> qstring" where
  "settings_alias st = v_toString (setting KeyAlias st)"

definition settings_port :: "AppSettings \<Rightarrow> int" where
  "settings_port st = (case setting KeyPort st of None \<Rightarrow> DefaultPort | Some v \<Rightarrow> v_toInt v)"

definition settings_destination :: "sysenv \<Rightarrow> AppSettings \<Rightarrow> qstring" where
  "settings_destination sys st =
     (let path = v_toString (setting KeyDestination st) in if path = [] then defaultDestination sys else path)"

definition folderPerSender :: "AppSettings \<Rightarrow> bool" where "folderPerSender st = flag KeyFolderPerSender False st"
definition receiveEnabled :: "AppSettings \<Rightarrow> bool" where "receiveEnabled st = flag KeyReceiveEnabled True st"
definition quickSave :: "AppSettings \<Rightarrow> bool" where "quickSave st = flag KeyQuickSave False st"
definition pinEnabled :: "AppSettings \<Rightarrow> bool" where "pinEnabled st = flag KeyPinEnabled False st"
definition secureTransport :: "AppSettings \<Rightarrow> bool" where "secureTransport st = flag KeySecureTransport True st"
definition notificationsEnabled :: "AppSettings \<Rightarrow> bool" where "notificationsEnabled st = flag KeyNotifications True st"
definition keepAwake :: "AppSettings \<Rightarrow> bool" where "keepAwake st = flag KeyKeepAwake True st"
definition historyEnabled :: "AppSettings \<Rightarrow> bool" where "historyEnabled st = flag KeyHistoryEnabled True st"

definition language :: "AppSettings \<Rightarrow> qstring" where
  "language st = (case setting KeyLanguage st of None \<Rightarrow> qs ''en'' | Some v \<Rightarrow> v_toString (Some v))"

definition manualDevices :: "AppSettings \<Rightarrow> qstring list" where
  "manualDevices st = v_toStringList (setting KeyManualDevices st)"

definition pinIsSet :: "AppSettings \<Rightarrow> bool" where
  "pinIsSet st \<longleftrightarrow> v_toString (setting KeyPinHash st) \<noteq> []"

definition isEncrypted :: "AppSettings \<Rightarrow> bool" where
  "isEncrypted st \<longleftrightarrow> secureTransport st \<and> identity_valid (as_identity st)"

definition settings_fingerprint :: "AppSettings \<Rightarrow> qstring" where
  "settings_fingerprint st = (if isEncrypted st then c_fingerprint (as_identity st) else as_randomFingerprint st)"

definition self_info :: "AppSettings \<Rightarrow> DeviceInfo" where
  "self_info st = new_DeviceInfo\<lparr>dev_alias := settings_alias st, version := Version,
     deviceModel := as_deviceModel st, deviceType := qs ''mobile'', fingerprint := settings_fingerprint st,
     port := settings_port st, protocol := (if isEncrypted st then qs ''https'' else qs ''http''),
     download := False\<rparr>"

section \<open>Setters\<close>

definition setAlias :: "qtlib \<Rightarrow> qstring \<Rightarrow> AppSettings \<Rightarrow> AppSettings" where
  "setAlias lib name st =
     (let s = trimmed (q_isSpace lib) name
      in if s = [] \<or> s = settings_alias st then st else tell AliasChanged (setValue KeyAlias (VString s) st))"

definition setPort :: "int \<Rightarrow> AppSettings \<Rightarrow> AppSettings" where
  "setPort p st = (if p < 1024 \<or> p > 65535 \<or> p = settings_port st then st
     else tell PortChanged (setValue KeyPort (VInt p) st))"

definition set_destination :: "sysenv \<Rightarrow> qstring \<Rightarrow> AppSettings \<Rightarrow> AppSettings" where
  "set_destination sys path st =
     (let local = (if startsWith (qs ''file://'') path then s_toLocalFile sys path else path)
      in if local = [] \<or> local = settings_destination sys st then st
         else tell SettingsDestinationChanged (setValue KeyDestination (VString local) st))"

definition setFolderPerSender :: "bool \<Rightarrow> AppSettings \<Rightarrow> AppSettings" where
  "setFolderPerSender = set_flag KeyFolderPerSender False FolderPerSenderChanged"
definition setReceiveEnabled :: "bool \<Rightarrow> AppSettings \<Rightarrow> AppSettings" where
  "setReceiveEnabled = set_flag KeyReceiveEnabled True ReceiveEnabledChanged"
definition setQuickSave :: "bool \<Rightarrow> AppSettings \<Rightarrow> AppSettings" where
  "setQuickSave = set_flag KeyQuickSave False QuickSaveChanged"
definition setPinEnabled :: "bool \<Rightarrow> AppSettings \<Rightarrow> AppSettings" where
  "setPinEnabled = set_flag KeyPinEnabled False PinEnabledChanged"
definition setNotificationsEnabled :: "bool \<Rightarrow> AppSettings \<Rightarrow> AppSettings" where
  "setNotificationsEnabled = set_flag KeyNotifications True NotificationsEnabledChanged"
definition setKeepAwake :: "bool \<Rightarrow> AppSettings \<Rightarrow> AppSettings" where
  "setKeepAwake = set_flag KeyKeepAwake True KeepAwakeChanged"
definition setHistoryEnabled :: "bool \<Rightarrow> AppSettings \<Rightarrow> AppSettings" where
  "setHistoryEnabled = set_flag KeyHistoryEnabled True HistoryEnabledChanged"

definition setLanguage :: "qstring \<Rightarrow> AppSettings \<Rightarrow> AppSettings" where
  "setLanguage l st = (if l = [] \<or> l = language st then st
     else tell LanguageChanged (setValue KeyLanguage (VString l) st))"

definition addManualDevice :: "qtlib \<Rightarrow> qstring \<Rightarrow> AppSettings \<Rightarrow> AppSettings" where
  "addManualDevice lib endpoint st =
     (let s = trimmed (q_isSpace lib) endpoint; ds = manualDevices st
      in if s = [] then st else if s \<in> set ds then st
         else tell ManualDevicesChanged (setValue KeyManualDevices (VStringList (ds @ [s])) st))"

definition removeManualDevice :: "qstring \<Rightarrow> AppSettings \<Rightarrow> AppSettings" where
  "removeManualDevice endpoint st =
     (let ds = manualDevices st
      in if endpoint \<notin> set ds then st
         else tell ManualDevicesChanged (setValue KeyManualDevices (VStringList (filter (\<lambda>d. d \<noteq> endpoint) ds)) st))"

definition rerollAlias :: "qtlib \<Rightarrow> bytes \<Rightarrow> AppSettings \<Rightarrow> rng \<Rightarrow> AppSettings \<times> rng" where
  "rerollAlias lib uuid st r = (let (a, r') = generateAlias uuid r in (setAlias lib a st, r'))"

section \<open>The PIN\<close>

text \<open>\<open>QByteArray::fromHex\<close> skips what is no hex digit and reads the pairs from the right.\<close>

definition nibble :: "qchar \<Rightarrow> nat option" where
  "nibble c = (if 48 \<le> c \<and> c \<le> 57 then Some (unat c - 48)
     else if 97 \<le> c \<and> c \<le> 102 then Some (unat c - 87)
     else if 65 \<le> c \<and> c \<le> 70 then Some (unat c - 55) else None)"

fun pair_up :: "nat list \<Rightarrow> bytes" where
  "pair_up (a # b # r) = of_nat (16 * a + b) # pair_up r"
| "pair_up _ = []"

definition from_hex :: "qstring \<Rightarrow> bytes" where
  "from_hex s = (let ds = List.map_filter nibble s
     in pair_up (if even (length ds) then ds else 0 # ds))"

definition setPin :: "qtlib \<Rightarrow> evp \<Rightarrow> qstring \<Rightarrow> AppSettings \<Rightarrow> rng \<Rightarrow> AppSettings \<times> rng" where
  "setPin lib ev pin st r =
     (if pin = [] then
        (tell PinChanged (removeValue KeyLegacyPin (removeValue KeyPinHash (removeValue KeyPinSalt st))), r)
      else
        let (salt, r') = randomBytes 16 r
        in if salt = [] then (st, r')
           else
             let hash = deriveKey lib ev pin salt PinIterations 32
             in if hash = [] then (st, r')
                else (tell PinChanged (removeValue KeyLegacyPin
                        (setValue KeyPinHash (VString (to_hex hash))
                          (setValue KeyPinSalt (VString (to_hex salt)) st))), r'))"

definition checkPin :: "qtlib \<Rightarrow> evp \<Rightarrow> qstring \<Rightarrow> AppSettings \<Rightarrow> bool" where
  "checkPin lib ev candidate st =
     (if \<not> pinEnabled st then True
      else
        let salt = from_hex (v_toString (setting KeyPinSalt st));
            expected = from_hex (v_toString (setting KeyPinHash st))
        in if salt = [] \<or> expected = [] then True
           else
             let derived = deriveKey lib ev candidate salt PinIterations (int (length expected))
             in if derived = [] then False else equals_bytes lib derived expected)"

section \<open>The identity, and start-up\<close>

definition ensureIdentity ::
    "qtlib \<Rightarrow> evp \<Rightarrow> pemlib \<Rightarrow> sysenv \<Rightarrow> bool \<Rightarrow> save_outcome \<times> save_outcome \<Rightarrow> SecureStore
      \<Rightarrow> AppSettings \<Rightarrow> disk \<times> rng \<Rightarrow> AppSettings \<times> disk \<times> rng" where
  "ensureIdentity lib ev pem sys made saves store st dr =
     (if identity_valid (as_identity st) then (st\<lparr>as_transportError := []\<rparr>, dr)
      else
        let (ok, c, dr') = ensure_identity lib ev pem made saves store (s_appData sys) (as_identity st) dr
        in if ok then (st\<lparr>as_identity := c, as_transportError := []\<rparr>, dr')
           else (st\<lparr>as_identity := c, as_transportError := c_lastError c\<rparr>, dr'))"

definition setSecureTransport ::
    "qtlib \<Rightarrow> evp \<Rightarrow> pemlib \<Rightarrow> sysenv \<Rightarrow> bool \<Rightarrow> save_outcome \<times> save_outcome \<Rightarrow> SecureStore \<Rightarrow> bool
      \<Rightarrow> AppSettings \<Rightarrow> disk \<times> rng \<Rightarrow> AppSettings \<times> disk \<times> rng" where
  "setSecureTransport lib ev pem sys made saves store enabled st dr =
     (if enabled = secureTransport st then (st, dr)
      else
        let st1 = setValue KeySecureTransport (VBool enabled) st;
            (st2, dr2) = (if enabled then ensureIdentity lib ev pem sys made saves store st1 dr else (st1, dr))
        in (tell SecureTransportChanged st2, dr2))"

text \<open>The constructor up to the identity, on the settings a run before left.\<close>

definition init_alias :: "bytes \<Rightarrow> AppSettings \<Rightarrow> rng \<Rightarrow> AppSettings \<times> rng" where
  "init_alias uuid st r =
     (if setting KeyAlias st = None
      then let (a, r') = generateAlias uuid r in (setValue KeyAlias (VString a) st, r')
      else (st, r))"

definition init_fingerprint :: "qtlib \<Rightarrow> AppSettings \<Rightarrow> rng \<Rightarrow> AppSettings \<times> rng" where
  "init_fingerprint lib st r =
     (let known = v_toString (setting KeyFingerprint st)
      in if known = []
         then let (f, r') = generateFingerprint lib r
              in ((setValue KeyFingerprint (VString f) st)\<lparr>as_randomFingerprint := f\<rparr>, r')
         else (st\<lparr>as_randomFingerprint := known\<rparr>, r))"

definition init_destination :: "sysenv \<Rightarrow> AppSettings \<Rightarrow> AppSettings" where
  "init_destination sys st = (if setting KeyDestination st = None
     then setValue KeyDestination (VString (defaultDestination sys)) st else st)"

definition migrate_pin :: "qtlib \<Rightarrow> evp \<Rightarrow> AppSettings \<Rightarrow> rng \<Rightarrow> AppSettings \<times> rng" where
  "migrate_pin lib ev st r =
     (let legacy = v_toString (setting KeyLegacyPin st)
      in if legacy \<noteq> [] then let (st', r') = setPin lib ev legacy st r in (removeValue KeyLegacyPin st', r')
         else (st, r))"

definition init_values :: "qtlib \<Rightarrow> evp \<Rightarrow> sysenv \<Rightarrow> bytes \<Rightarrow> (string, variant) qhash \<Rightarrow> rng \<Rightarrow> AppSettings \<times> rng" where
  "init_values lib ev sys uuid stored r =
     (let st = \<lparr>as_values = stored, as_deviceModel = detectDeviceModel lib sys, as_randomFingerprint = [],
                as_identity = new_Certificate, as_transportError = [], as_signals = []\<rparr>;
          (st1, r1) = init_alias uuid st r;
          (st2, r2) = init_fingerprint lib st1 r1
      in migrate_pin lib ev (init_destination sys st2) r2)"

definition new_AppSettings ::
    "qtlib \<Rightarrow> evp \<Rightarrow> pemlib \<Rightarrow> sysenv \<Rightarrow> bool \<Rightarrow> save_outcome \<times> save_outcome \<Rightarrow> SecureStore \<Rightarrow> bytes
      \<Rightarrow> (string, variant) qhash \<Rightarrow> disk \<times> rng \<Rightarrow> AppSettings \<times> disk \<times> rng" where
  "new_AppSettings lib ev pem sys made saves store uuid stored dr =
     (let (disk, r) = dr; (st, r1) = init_values lib ev sys uuid stored r
      in if secureTransport st then ensureIdentity lib ev pem sys made saves store st (disk, r1)
         else (st, disk, r1))"

section \<open>Facts\<close>

lemma setting_setValue [simp]: "setting k (setValue k' v st) = (if k = k' then Some v else setting k st)"
  by (simp add: setting_def setValue_def update_conv')

lemma setting_removeValue [simp]: "setting k (removeValue k' st) = (if k = k' then None else setting k st)"
  by (simp add: setting_def removeValue_def delete_conv')

lemma setting_tell [simp]: "setting k (tell s st) = setting k st"
  by (simp add: setting_def tell_def)

lemma nibble_hex_digit: "n < 16 \<Longrightarrow> nibble (hex_digit n) = Some n"
proof -
  have "list_all (\<lambda>n. nibble (hex_digit n) = Some n) [0..<16]" by code_simp
  then show "n < 16 \<Longrightarrow> nibble (hex_digit n) = Some n" by (simp add: list_all_iff)
qed

lemma from_hex_to_hex [simp]: "from_hex (to_hex b) = b"
proof -
  have bound: "unat x < 256" for x :: "8 word" using unsigned_less [of x] by simp
  have ds: "List.map_filter nibble (to_hex b) = concat (map (\<lambda>x. [unat x div 16, unat x mod 16]) b)"
  proof (induction b)
    case (Cons x b)
    have "unat x div 16 < 16" using bound [of x] by simp
    with Cons show ?case by (simp add: to_hex_def nibble_hex_digit List.map_filter_simps)
  qed (simp add: List.map_filter_simps)
  have "even (length (concat (map (\<lambda>x. [unat x div 16, unat x mod 16]) b)))" by (induction b) simp_all
  moreover have "pair_up (concat (map (\<lambda>x. [unat x div 16, unat x mod 16]) b)) = b"
    by (induction b) simp_all
  ultimately show ?thesis by (simp add: from_hex_def ds)
qed

lemma to_hex_Nil_iff [simp]: "to_hex b = [] \<longleftrightarrow> b = []"
  by (metis from_hex_to_hex to_hex_Nil)

text \<open>A working random source and key derivation.\<close>

definition crypto_works :: "evp \<Rightarrow> bool" where
  "crypto_works ev \<longleftrightarrow> (\<forall>pw salt n len. len > 0 \<longrightarrow> (\<exists>k. e_pbkdf2 ev pw salt n len = Some k \<and> length k = len))"

lemma deriveKey_works:
  "crypto_works ev \<Longrightarrow> deriveKey lib ev pin salt PinIterations 32 = the (e_pbkdf2 ev (q_toUtf8 lib pin) salt 120000 32)
     \<and> length (deriveKey lib ev pin salt PinIterations 32) = 32"
proof -
  assume "crypto_works ev"
  then obtain k where "e_pbkdf2 ev (q_toUtf8 lib pin) salt 120000 32 = Some k" "length k = 32"
    unfolding crypto_works_def by (metis zero_less_numeral)
  then show ?thesis by (simp add: deriveKey_def PinIterations_def)
qed

text \<open>
  C22. The PIN gate. Once a PIN is set, a candidate passes exactly when no PIN is required or the key
  derivation under the stored salt cannot tell it from the PIN, so the PIN itself passes; what
  the settings file holds of it is the salt and the derived hash, nothing under the key older
  versions used; and no other setting has changed. When the random source gives no salt, setting
  a PIN changes nothing at all.
\<close>

theorem pin_gate:
  assumes "qt_ok lib" "crypto_works ev" "pin \<noteq> []" "randomBytes 16 r = (salt, r')"
    and "fst (setPin lib ev pin st r) = st'"
  shows "if salt = [] then st' = st
    else (checkPin lib ev candidate st' \<longleftrightarrow> \<not> pinEnabled st' \<or>
        e_pbkdf2 ev (q_toUtf8 lib candidate) salt 120000 32 = e_pbkdf2 ev (q_toUtf8 lib pin) salt 120000 32)
    \<and> checkPin lib ev pin st' \<and> setting KeyLegacyPin st' = None
    \<and> (\<forall>k. k \<notin> {KeyPinSalt, KeyPinHash, KeyLegacyPin} \<longrightarrow> setting k st' = setting k st)"
proof (cases "salt = []")
  case True
  then show ?thesis using assms(3-5) by (simp add: setPin_def)
next
  case salt: False
  let ?h = "\<lambda>c. deriveKey lib ev c salt PinIterations 32"
  note h = deriveKey_works [OF assms(2), of lib]
  have ne: "?h c \<noteq> []" for c using h [of c salt] by auto
  have st': "st' = tell PinChanged (removeValue KeyLegacyPin (setValue KeyPinHash (VString (to_hex (?h pin)))
      (setValue KeyPinSalt (VString (to_hex salt)) st)))"
    using assms(3-5) salt ne by (auto simp: setPin_def)
  have check: "checkPin lib ev c st' \<longleftrightarrow> \<not> pinEnabled st' \<or> ?h c = ?h pin" for c
  proof -
    have "from_hex (v_toString (setting KeyPinSalt st')) = salt"
      "from_hex (v_toString (setting KeyPinHash st')) = ?h pin"
      by (simp_all add: st' settings_keys)
    moreover have "length (?h pin) = 32" using h by blast
    ultimately show ?thesis
      using assms(1) salt ne by (simp add: checkPin_def Let_def)
  qed
  have "?h c = ?h pin \<longleftrightarrow> e_pbkdf2 ev (q_toUtf8 lib c) salt 120000 32 = e_pbkdf2 ev (q_toUtf8 lib pin) salt 120000 32" for c
  proof -
    obtain k1 k2 where "e_pbkdf2 ev (q_toUtf8 lib c) salt 120000 32 = Some k1"
      "e_pbkdf2 ev (q_toUtf8 lib pin) salt 120000 32 = Some k2"
      using assms(2) unfolding crypto_works_def by (metis zero_less_numeral)
    then show ?thesis using h [of c salt] h [of pin salt] by simp
  qed
  then show ?thesis using salt unfolding check by (simp add: st' settings_keys)
qed

lemma null_cipher_works: "crypto_works null_cipher"
  by (auto simp: crypto_works_def null_cipher_def min_def)

lemma pinEnabled_setPin [simp]: "pinEnabled (fst (setPin lib ev pin st r)) = pinEnabled st"
  by (simp add: setPin_def pinEnabled_def flag_def Let_def settings_keys split: prod.split)

lemma pinEnabled_set [simp]: "pinEnabled (setPinEnabled b st) = b"
  by (auto simp: setPinEnabled_def set_flag_def pinEnabled_def flag_def)

definition plain_rng :: rng where
  "plain_rng = \<lparr>r_source = \<lambda>_ n. Some (replicate n 9), r_calls = 0, r_seen = False\<rparr>"

definition blank_settings :: AppSettings where
  "blank_settings = \<lparr>as_values = [], as_deviceModel = [], as_randomFingerprint = [], as_identity = new_Certificate,
     as_transportError = [], as_signals = []\<rparr>"

theorem pin_gate_witness:
  "let st' = fst (setPin ascii_qt null_cipher (qs ''1234'') (setPinEnabled True blank_settings) plain_rng)
   in checkPin ascii_qt null_cipher (qs ''1234'') st' \<and> \<not> checkPin ascii_qt null_cipher (qs ''1235'') st'"
proof -
  let ?st = "fst (setPin ascii_qt null_cipher (qs ''1234'') (setPinEnabled True blank_settings) plain_rng)"
  have r: "randomBytes 16 plain_rng = (replicate 16 9, plain_rng\<lparr>r_calls := 1, r_seen := True\<rparr>)"
    by (simp add: randomBytes_def rand_bytes_def plain_rng_def)
  have "pinEnabled ?st" by simp
  with pin_gate [OF ascii_qt_ok null_cipher_works _ r refl]
  have "checkPin ascii_qt null_cipher c ?st \<longleftrightarrow> e_pbkdf2 null_cipher (q_toUtf8 ascii_qt c) (replicate 16 9) 120000 32
      = e_pbkdf2 null_cipher (q_toUtf8 ascii_qt (qs ''1234'')) (replicate 16 9) 120000 32" for c
    by simp
  moreover have "e_pbkdf2 null_cipher (q_toUtf8 ascii_qt (qs ''1235'')) (replicate 16 9) 120000 32
      \<noteq> e_pbkdf2 null_cipher (q_toUtf8 ascii_qt (qs ''1234'')) (replicate 16 9) 120000 32"
    by (simp add: null_cipher_def ascii_utf8_def ascii_byte_def qs_def qc_def)
  ultimately show ?thesis by (simp only: Let_def simp_thms)
qed

lemma init_alias_keeps:
  assumes "init_alias uuid st r = (st', r')"
  shows "k \<noteq> KeyAlias \<Longrightarrow> setting k st' = setting k st" and "r_source r' = r_source r"
  using assms by (auto simp: init_alias_def generateAlias_def Let_def split: if_splits prod.splits dest: randomBytes_source)

lemma setting_random [simp]: "setting k (st\<lparr>as_randomFingerprint := f\<rparr>) = setting k st"
  by (simp add: setting_def)

lemma init_fingerprint_keeps:
  assumes "init_fingerprint lib st r = (st', r')"
  shows "k \<noteq> KeyFingerprint \<Longrightarrow> setting k st' = setting k st" and "r_source r' = r_source r"
  using assms by (auto simp: init_fingerprint_def generateFingerprint_def randomHex_def Let_def split: if_splits prod.splits dest: randomBytes_source)

lemma init_destination_keeps: "k \<noteq> KeyDestination \<Longrightarrow> setting k (init_destination sys st) = setting k st"
  by (simp add: init_destination_def)

text \<open>
  Upgrading without a random source drops the PIN altogether. A settings file from a version
  that kept the PIN in the clear, with the requirement switched on, is read by a run whose random
  source fails: the hash cannot be stored, the plaintext is removed all the same, and from then on
  every candidate passes.
\<close>

theorem failed_migration_opens_the_gate:
  assumes "qhash_wf stored" "map_of stored KeyLegacyPin = Some (VString pin)" "pin \<noteq> []"
    and "map_of stored KeyPinEnabled = Some (VBool True)"
    and "map_of stored KeyPinSalt = None" "map_of stored KeyPinHash = None"
    and "\<And>i n. r_source r i n = None"
  shows "let st = fst (init_values lib ev sys uuid stored r)
    in pinEnabled st \<and> setting KeyLegacyPin st = None \<and> checkPin lib ev candidate st"
proof -
  let ?st = "\<lparr>as_values = stored, as_deviceModel = detectDeviceModel lib sys, as_randomFingerprint = [],
                as_identity = new_Certificate, as_transportError = [], as_signals = []\<rparr>"
  obtain st1 r1 where s1: "init_alias uuid ?st r = (st1, r1)" by fastforce
  obtain st2 r2 where s2: "init_fingerprint lib st1 r1 = (st2, r2)" by fastforce
  let ?st3 = "init_destination sys st2"
  have start: "setting KeyLegacyPin ?st = Some (VString pin)" "setting KeyPinEnabled ?st = Some (VBool True)"
    "setting KeyPinSalt ?st = None"
    using assms(2,4,5) by (simp_all add: setting_def)
  have st3: "setting KeyLegacyPin ?st3 = Some (VString pin)" "setting KeyPinEnabled ?st3 = Some (VBool True)"
    "setting KeyPinSalt ?st3 = None"
  proof -
    have keep: "setting k ?st3 = setting k ?st" if "k \<noteq> KeyAlias" "k \<noteq> KeyFingerprint" "k \<noteq> KeyDestination" for k
      using init_alias_keeps(1) [OF s1 that(1)] init_fingerprint_keeps(1) [OF s2 that(2)] init_destination_keeps [OF that(3)]
      by (simp only:)
    have d: "KeyLegacyPin \<noteq> KeyAlias" "KeyLegacyPin \<noteq> KeyFingerprint" "KeyLegacyPin \<noteq> KeyDestination"
      "KeyPinEnabled \<noteq> KeyAlias" "KeyPinEnabled \<noteq> KeyFingerprint" "KeyPinEnabled \<noteq> KeyDestination"
      "KeyPinSalt \<noteq> KeyAlias" "KeyPinSalt \<noteq> KeyFingerprint" "KeyPinSalt \<noteq> KeyDestination"
      by (simp_all add: settings_keys)
    show "setting KeyLegacyPin ?st3 = Some (VString pin)" using keep [OF d(1-3)] start(1) by (rule trans)
    show "setting KeyPinEnabled ?st3 = Some (VBool True)" using keep [OF d(4-6)] start(2) by (rule trans)
    show "setting KeyPinSalt ?st3 = None" using keep [OF d(7-9)] start(3) by (rule trans)
  qed
  have "r_source r2 = r_source r" using init_alias_keeps(2) [OF s1] init_fingerprint_keeps(2) [OF s2] by simp
  then have "randomBytes 16 r2 = ([], r2\<lparr>r_calls := Suc (r_calls r2)\<rparr>)"
    using assms(7) by (simp add: randomBytes_def rand_bytes_def)
  then have "fst (init_values lib ev sys uuid stored r) = removeValue KeyLegacyPin ?st3"
    using s1 s2 st3(1) assms(3) by (simp add: init_values_def migrate_pin_def setPin_def)
  moreover have "KeyLegacyPin \<noteq> KeyPinEnabled" "KeyLegacyPin \<noteq> KeyPinSalt" by (simp_all add: settings_keys)
  moreover have "from_hex [] = []" by (simp add: from_hex_def List.map_filter_simps)
  ultimately show ?thesis
    using st3(2,3) by (simp only: Let_def) (simp add: pinEnabled_def flag_def checkPin_def)
qed

theorem failed_migration_opens_the_gate_witness:
  "let st = fst (init_values ascii_qt null_cipher \<lparr>s_downloads = [], s_home = [], s_appData = [], s_hwRelease = None,
        s_productName = [], s_toLocalFile = id\<rparr> (replicate 16 0)
      [(KeyLegacyPin, VString (qs ''1234'')), (KeyPinEnabled, VBool True)] \<lparr>r_source = \<lambda>_ _. None, r_calls = 0, r_seen = False\<rparr>)
   in checkPin ascii_qt null_cipher (qs ''0000'') st"
proof -
  have "qhash_wf [(KeyLegacyPin, VString (qs ''1234'')), (KeyPinEnabled, VBool True)]"
    by (simp add: qhash_wf_def settings_keys)
  from failed_migration_opens_the_gate [OF this, of "qs ''1234''"]
  show ?thesis by (simp add: Let_def settings_keys)
qed

section \<open>Valid settings stay valid\<close>

datatype settings_op =
    SetAlias qstring | SetPort int | SetDestinationPath qstring | SetFolderPerSender bool | SetReceiveEnabled bool
  | SetQuickSave bool | SetPinEnabled bool | SetPin qstring rng | SetNotificationsEnabled bool | SetKeepAwake bool
  | SetHistoryEnabled bool | SetLanguage qstring | AddManualDevice qstring | RemoveManualDevice qstring
  | RerollAlias bytes rng

fun run_setting :: "qtlib \<Rightarrow> evp \<Rightarrow> sysenv \<Rightarrow> settings_op \<Rightarrow> AppSettings \<Rightarrow> AppSettings" where
  "run_setting lib ev sys (SetAlias s) st = setAlias lib s st"
| "run_setting lib ev sys (SetPort p) st = setPort p st"
| "run_setting lib ev sys (SetDestinationPath p) st = set_destination sys p st"
| "run_setting lib ev sys (SetFolderPerSender b) st = setFolderPerSender b st"
| "run_setting lib ev sys (SetReceiveEnabled b) st = setReceiveEnabled b st"
| "run_setting lib ev sys (SetQuickSave b) st = setQuickSave b st"
| "run_setting lib ev sys (SetPinEnabled b) st = setPinEnabled b st"
| "run_setting lib ev sys (SetPin pin r) st = fst (setPin lib ev pin st r)"
| "run_setting lib ev sys (SetNotificationsEnabled b) st = setNotificationsEnabled b st"
| "run_setting lib ev sys (SetKeepAwake b) st = setKeepAwake b st"
| "run_setting lib ev sys (SetHistoryEnabled b) st = setHistoryEnabled b st"
| "run_setting lib ev sys (SetLanguage l) st = setLanguage l st"
| "run_setting lib ev sys (AddManualDevice e) st = addManualDevice lib e st"
| "run_setting lib ev sys (RemoveManualDevice e) st = removeManualDevice e st"
| "run_setting lib ev sys (RerollAlias uuid r) st = fst (rerollAlias lib uuid st r)"

definition settings_ok :: "AppSettings \<Rightarrow> bool" where
  "settings_ok st \<longleftrightarrow> settings_alias st \<noteq> [] \<and> 1024 \<le> settings_port st \<and> settings_port st \<le> 65535
     \<and> distinct (manualDevices st) \<and> [] \<notin> set (manualDevices st)"

lemma settings_ok_cong:
  "settings_ok st \<Longrightarrow> (\<And>k. k \<in> {KeyAlias, KeyPort, KeyManualDevices} \<Longrightarrow> setting k st' = setting k st) \<Longrightarrow> settings_ok st'"
  by (simp add: settings_ok_def settings_alias_def settings_port_def manualDevices_def)

lemma settings_ok_other:
  "settings_ok st \<Longrightarrow> k \<notin> {KeyAlias, KeyPort, KeyManualDevices} \<Longrightarrow> settings_ok (setValue k v st) \<and> settings_ok (removeValue k st)"
  by (auto elim!: settings_ok_cong)

lemma settings_ok_tell: "settings_ok st \<Longrightarrow> settings_ok (tell s st)"
  by (auto elim: settings_ok_cong)

lemma settings_ok_flag:
  "settings_ok st \<Longrightarrow> k \<notin> {KeyAlias, KeyPort, KeyManualDevices} \<Longrightarrow> settings_ok (set_flag k d s b st)"
  using settings_ok_other [of st k] by (simp add: set_flag_def settings_ok_tell)

lemma settings_ok_alias: "settings_ok st \<Longrightarrow> settings_ok (setAlias lib a st)"
  by (auto simp: setAlias_def Let_def settings_ok_def settings_alias_def settings_port_def manualDevices_def settings_keys)

lemma settings_ok_pin: "settings_ok st \<Longrightarrow> settings_ok (fst (setPin lib ev pin st r))"
proof -
  assume ok: "settings_ok st"
  have k: "setting k (fst (setPin lib ev pin st r)) = setting k st"
    if "k \<notin> {KeyPinSalt, KeyPinHash, KeyLegacyPin}" for k
    using that by (simp add: setPin_def Let_def split: prod.split)
  show ?thesis by (rule settings_ok_cong [OF ok], rule k) (auto simp: settings_keys)
qed

lemma run_setting_ok: "settings_ok st \<Longrightarrow> settings_ok (run_setting lib ev sys op st)"
proof (cases op)
  case (SetPort p)
  assume "settings_ok st"
  then show ?thesis using SetPort
    by (auto simp: setPort_def settings_ok_def settings_alias_def settings_port_def manualDevices_def settings_keys)
next
  case (AddManualDevice e)
  assume "settings_ok st"
  then show ?thesis using AddManualDevice
    by (auto simp: addManualDevice_def Let_def settings_ok_def settings_alias_def settings_port_def manualDevices_def settings_keys)
next
  case (RemoveManualDevice e)
  assume "settings_ok st"
  then show ?thesis using RemoveManualDevice
    by (auto simp: removeManualDevice_def Let_def settings_ok_def settings_alias_def settings_port_def manualDevices_def settings_keys)
next
  case (SetDestinationPath p)
  assume ok: "settings_ok st"
  then show ?thesis using SetDestinationPath settings_ok_other [OF ok, of KeyDestination]
    by (auto simp: set_destination_def Let_def settings_ok_tell settings_keys)
next
  case (SetLanguage l)
  assume ok: "settings_ok st"
  then show ?thesis using SetLanguage settings_ok_other [OF ok, of KeyLanguage]
    by (auto simp: setLanguage_def settings_ok_tell settings_keys)
next
  case (RerollAlias uuid r)
  assume "settings_ok st"
  then show ?thesis using RerollAlias by (simp add: rerollAlias_def settings_ok_alias split: prod.split)
qed (auto intro!: settings_ok_flag settings_ok_alias settings_ok_pin
    simp: setFolderPerSender_def setReceiveEnabled_def setQuickSave_def setPinEnabled_def
      setNotificationsEnabled_def setKeepAwake_def setHistoryEnabled_def, auto simp: settings_keys)

text \<open>
  Whatever the settings page asks for, the stored port is one an ordinary process may bind,
  the alias is never empty, and the devices added by hand are non-empty and listed once: each
  setter refuses or normalises what would break that, for any sequence of calls.
\<close>

theorem settings_stay_valid:
  assumes "settings_ok st"
  shows "settings_ok (fold (run_setting lib ev sys) ops st)"
  using assms by (induction ops arbitrary: st) (simp_all add: run_setting_ok)

theorem settings_stay_valid_witness:
  "settings_ok (fold (run_setting ascii_qt null_cipher \<lparr>s_downloads = [], s_home = [], s_appData = [], s_hwRelease = None,
        s_productName = [], s_toLocalFile = id\<rparr>) [SetPort 80, SetPort 8080, AddManualDevice (qs '' 10.0.0.1 '')]
      (setValue KeyAlias (VString (qs ''Me'')) blank_settings))"
proof (rule settings_stay_valid)
  show "settings_ok (setValue KeyAlias (VString (qs ''Me'')) blank_settings)"
    by (simp add: settings_ok_def settings_alias_def settings_port_def manualDevices_def DefaultPort_def settings_keys)
      (simp add: setting_def blank_settings_def DefaultPort_def)
qed

end
