(* ===== verification/Known_Devices.thy ===== *)
theory Known_Devices
  imports Device_Info
begin

text \<open>
  \<open>src/src/knowndevices.cpp\<close>: the trust-on-first-use memory and the block list, one table
  keyed by the upper-cased fingerprint. \<open>kd_written\<close> is the document last handed to the
  store, \<open>kd_changed\<close> counts emissions of \<open>changed()\<close>; \<open>now\<close> is
  \<open>QDateTime::currentDateTime()\<close> in milliseconds since the epoch.
\<close>

section \<open>State\<close>

record KnownEntry =
  known_alias :: qstring
  firstSeen :: "int option"
  paired :: bool
  blocked :: bool

definition new_KnownEntry :: KnownEntry where
  "new_KnownEntry = \<lparr>known_alias = [], firstSeen = None, paired = False, blocked = False\<rparr>"

record KnownDevices =
  kd_entries :: "(qstring, KnownEntry) qhash"
  kd_written :: "jobject option"
  kd_changed :: nat

definition no_devices :: KnownDevices where
  "no_devices = \<lparr>kd_entries = [], kd_written = None, kd_changed = 0\<rparr>"

text \<open>\<open>m_entries.value(key)\<close>: a missing key reads as a default entry.\<close>

definition kd_value :: "KnownDevices \<Rightarrow> qstring \<Rightarrow> KnownEntry" where
  "kd_value kd key = (case map_of (kd_entries kd) key of None \<Rightarrow> new_KnownEntry | Some e \<Rightarrow> e)"

section \<open>Persistence\<close>

definition entry_to_json :: "KnownEntry \<Rightarrow> jobject" where
  "entry_to_json e =
     jinsert ''blocked'' (JBool (blocked e))
     (jinsert ''paired'' (JBool (paired e))
     (jinsert ''firstSeen'' (JDouble (double_of_int (case firstSeen e of None \<Rightarrow> 0 | Some t \<Rightarrow> t)))
     (jinsert ''alias'' (JString (known_alias e)) [])))"

definition entries_to_json :: "(qstring, KnownEntry) qhash \<Rightarrow> jobject" where
  "entries_to_json es = fold (\<lambda>(k, e) root. json_put k (JObject (entry_to_json e)) root) es []"

definition kd_save :: "KnownDevices \<Rightarrow> KnownDevices" where
  "kd_save kd = kd\<lparr>kd_written := Some (entries_to_json (kd_entries kd))\<rparr>"

definition save_and_signal :: "KnownDevices \<Rightarrow> KnownDevices" where
  "save_and_signal kd = (kd_save kd)\<lparr>kd_changed := Suc (kd_changed kd)\<rparr>"

definition entry_of_json :: "qtlib \<Rightarrow> jobject \<Rightarrow> KnownEntry" where
  "entry_of_json lib v =
     (let bl = to_bool False (jvalue v ''blocked'')
      in \<lparr>known_alias = to_string (jvalue v ''alias''),
          firstSeen = Some (qint64_of_double lib (to_double (jvalue v ''firstSeen''))),
          paired = to_bool (\<not> bl) (jvalue v ''paired''),
          blocked = bl\<rparr>)"

text \<open>\<open>document\<close> is what \<open>QJsonDocument::fromJson\<close> makes of the stored file.\<close>

definition kd_load :: "qtlib \<Rightarrow> json \<Rightarrow> KnownDevices \<Rightarrow> KnownDevices" where
  "kd_load lib document kd =
     (if \<not> is_object document then kd
      else kd\<lparr>kd_entries :=
        fold (\<lambda>(k, v) es. AList.update (q_toUpper lib k) (entry_of_json lib (to_object v)) es)
          (to_object document) (kd_entries kd)\<rparr>)"

section \<open>Blocking\<close>

definition isBlocked :: "qtlib \<Rightarrow> qstring \<Rightarrow> KnownDevices \<Rightarrow> bool" where
  "isBlocked lib fp kd = (if fp = [] then False else blocked (kd_value kd (q_toUpper lib fp)))"

definition setBlocked :: "qtlib \<Rightarrow> int \<Rightarrow> qstring \<Rightarrow> qstring \<Rightarrow> bool \<Rightarrow> KnownDevices \<Rightarrow> KnownDevices" where
  "setBlocked lib now fp name bl kd =
     (if fp = [] then kd
      else
        let key = q_toUpper lib fp
        in case map_of (kd_entries kd) key of
             None \<Rightarrow>
               if \<not> bl then kd
               else save_and_signal (kd\<lparr>kd_entries := AList.update key
                      (new_KnownEntry\<lparr>known_alias := name, firstSeen := Some now, blocked := True\<rparr>)
                      (kd_entries kd)\<rparr>)
           | Some e \<Rightarrow>
               if blocked e = bl then kd
               else
                 let e1 = e\<lparr>blocked := bl\<rparr>;
                     e2 = (if name \<noteq> [] then e1\<lparr>known_alias := name\<rparr> else e1)
                 in save_and_signal (kd\<lparr>kd_entries := AList.update key e2 (kd_entries kd)\<rparr>))"

definition blocked_list :: "KnownDevices \<Rightarrow> (qstring \<times> qstring) list" where
  "blocked_list kd = map (\<lambda>(k, e). (k, known_alias e)) (filter (\<lambda>(k, e). blocked e) (kd_entries kd))"

section \<open>Pairings\<close>

definition isKnown :: "qtlib \<Rightarrow> qstring \<Rightarrow> KnownDevices \<Rightarrow> bool" where
  "isKnown lib fp kd \<longleftrightarrow> fp \<noteq> [] \<and> paired (kd_value kd (q_toUpper lib fp))"

definition aliasFor :: "qtlib \<Rightarrow> qstring \<Rightarrow> KnownDevices \<Rightarrow> qstring" where
  "aliasFor lib fp kd = known_alias (kd_value kd (q_toUpper lib fp))"

definition firstSeen_of :: "qtlib \<Rightarrow> qstring \<Rightarrow> KnownDevices \<Rightarrow> int option" where
  "firstSeen_of lib fp kd = firstSeen (kd_value kd (q_toUpper lib fp))"

definition expectedFingerprint :: "qstring \<Rightarrow> KnownDevices \<Rightarrow> qstring" where
  "expectedFingerprint name kd =
     (if name = [] then []
      else case List.find (\<lambda>(k, e). paired e \<and> known_alias e = name) (kd_entries kd) of
        None \<Rightarrow> [] | Some (k, e) \<Rightarrow> k)"

definition conflicts :: "qtlib \<Rightarrow> qstring \<Rightarrow> qstring \<Rightarrow> KnownDevices \<Rightarrow> bool" where
  "conflicts lib fp name kd =
     (if fp = [] \<or> name = [] then False
      else if isKnown lib fp kd then False
      else let expected = expectedFingerprint name kd
           in expected \<noteq> [] \<and> \<not> equalsFold lib expected fp)"

definition remember :: "qtlib \<Rightarrow> int \<Rightarrow> qstring \<Rightarrow> qstring \<Rightarrow> KnownDevices \<Rightarrow> KnownDevices" where
  "remember lib now fp name kd =
     (if fp = [] then kd
      else
        let key = q_toUpper lib fp
        in case map_of (kd_entries kd) key of
             Some e \<Rightarrow>
               if paired e \<and> known_alias e = name then kd
               else save_and_signal (kd\<lparr>kd_entries :=
                 AList.update key (e\<lparr>known_alias := name, paired := True\<rparr>) (kd_entries kd)\<rparr>)
           | None \<Rightarrow>
               save_and_signal (kd\<lparr>kd_entries := AList.update key
                 (new_KnownEntry\<lparr>known_alias := name, firstSeen := Some now, paired := True\<rparr>)
                 (kd_entries kd)\<rparr>))"

definition forget :: "qtlib \<Rightarrow> int \<Rightarrow> qstring \<Rightarrow> KnownDevices \<Rightarrow> KnownDevices" where
  "forget lib now fp kd =
     (let key = q_toUpper lib fp
      in case map_of (kd_entries kd) key of
           None \<Rightarrow> kd
         | Some e \<Rightarrow>
             save_and_signal (kd\<lparr>kd_entries :=
               (if blocked e
                then AList.update key (e\<lparr>known_alias := [], paired := False, firstSeen := Some now\<rparr>) (kd_entries kd)
                else AList.delete key (kd_entries kd))\<rparr>))"

definition forgetAll :: "int \<Rightarrow> KnownDevices \<Rightarrow> KnownDevices" where
  "forgetAll now kd =
     (if kd_entries kd = [] then kd
      else
        let kept = map (\<lambda>(k, e). (k, new_KnownEntry\<lparr>blocked := True, firstSeen := Some now\<rparr>))
              (filter (\<lambda>(k, e). blocked e) (kd_entries kd));
            changedAnything = (length kept \<noteq> length (kd_entries kd)
              \<or> list_ex (\<lambda>(k, e). paired e) (kd_entries kd))
        in if \<not> changedAnything then kd
           else save_and_signal (kd\<lparr>kd_entries := kept\<rparr>))"

definition known_count :: "KnownDevices \<Rightarrow> nat" where
  "known_count kd = length (filter (\<lambda>(k, e). paired e) (kd_entries kd))"

lemmas known_ops = setBlocked_def remember_def forget_def forgetAll_def save_and_signal_def kd_save_def

section \<open>Invariant\<close>

text \<open>Keys are distinct and upper-cased, and every entry has a date.\<close>

definition kd_inv :: "qtlib \<Rightarrow> KnownDevices \<Rightarrow> bool" where
  "kd_inv lib kd \<longleftrightarrow> qhash_wf (kd_entries kd)
     \<and> (\<forall>(k, e) \<in> set (kd_entries kd). q_toUpper lib k = k \<and> k \<noteq> [] \<and> firstSeen e \<noteq> None)"

lemma kd_inv_entries_cong: "kd_entries a = kd_entries b \<Longrightarrow> kd_inv lib a = kd_inv lib b"
  by (simp add: kd_inv_def)

lemma save_and_signal_simps [simp]:
  "kd_entries (save_and_signal kd) = kd_entries kd"
  "kd_value (save_and_signal kd) k = kd_value kd k"
  "kd_written (save_and_signal kd) = Some (entries_to_json (kd_entries kd))"
  by (simp_all add: save_and_signal_def kd_save_def kd_value_def)

lemma kd_inv_update:
  assumes "kd_inv lib kd" and "q_toUpper lib k = k" and "k \<noteq> []" and "firstSeen e \<noteq> None"
  shows "kd_inv lib (kd\<lparr>kd_entries := AList.update k e (kd_entries kd)\<rparr>)"
proof -
  have "q_toUpper lib k' = k' \<and> k' \<noteq> [] \<and> firstSeen e' \<noteq> None"
    if "(k', e') \<in> set (AList.update k e (kd_entries kd))" for k' e'
  proof -
    from that have "(k', e') = (k, e) \<or> (k', e') \<in> set (kd_entries kd)"
      using set_alist_update by fastforce
    then show ?thesis using assms by (auto simp: kd_inv_def)
  qed
  then show ?thesis using assms(1) by (auto simp: kd_inv_def qhash.wf_put)
qed

lemma kd_inv_get:
  "kd_inv lib kd \<Longrightarrow> map_of (kd_entries kd) k = Some e
    \<Longrightarrow> q_toUpper lib k = k \<and> k \<noteq> [] \<and> firstSeen e \<noteq> None"
  by (auto simp: kd_inv_def dest!: map_of_SomeD)

lemma kd_inv_save [simp]: "kd_inv lib (save_and_signal kd) = kd_inv lib kd"
  by (rule kd_inv_entries_cong) simp

lemma setBlocked_inv: "qt_ok lib \<Longrightarrow> kd_inv lib kd \<Longrightarrow> kd_inv lib (setBlocked lib now fp name bl kd)"
  by (auto simp: setBlocked_def Let_def toUpper_idem toUpper_empty dest: kd_inv_get
      intro!: kd_inv_update split: option.split)

lemma remember_inv: "qt_ok lib \<Longrightarrow> kd_inv lib kd \<Longrightarrow> kd_inv lib (remember lib now fp name kd)"
  by (auto simp: remember_def Let_def toUpper_idem toUpper_empty dest: kd_inv_get
      intro!: kd_inv_update split: option.split)

lemma kd_inv_delete: "kd_inv lib kd \<Longrightarrow> kd_inv lib (kd\<lparr>kd_entries := AList.delete k (kd_entries kd)\<rparr>)"
  using set_alist_delete [of k "kd_entries kd"] by (auto simp: kd_inv_def qhash.wf_del)

lemma forget_inv: "kd_inv lib kd \<Longrightarrow> kd_inv lib (forget lib now fp kd)"
  by (auto simp: forget_def Let_def dest: kd_inv_get intro!: kd_inv_update kd_inv_delete split: option.split)

lemma distinct_fst_map: "map fst (map (\<lambda>(k, e). (k, f e)) xs) = map fst xs"
  by (induction xs) auto

lemma forgetAll_inv: "kd_inv lib kd \<Longrightarrow> kd_inv lib (forgetAll now kd)"
  by (auto simp: forgetAll_def Let_def kd_inv_def qhash_wf_def distinct_fst_map
      simp del: map_map intro!: distinct_map_filter)

section \<open>What each operation does to a key\<close>

lemma kd_value_save [simp]: "kd_value (kd\<lparr>kd_entries := es\<rparr>) k =
    (case map_of es k of None \<Rightarrow> new_KnownEntry | Some e \<Rightarrow> e)"
  by (simp add: kd_value_def)

lemma new_KnownEntry_simps [simp]:
  "known_alias new_KnownEntry = []" "firstSeen new_KnownEntry = None"
  "paired new_KnownEntry = False" "blocked new_KnownEntry = False"
  by (simp_all add: new_KnownEntry_def)

lemma kd_value_None: "map_of (kd_entries kd) k = None \<Longrightarrow> kd_value kd k = new_KnownEntry"
  by (simp add: kd_value_def)

lemma empty_key_ops [simp]:
  "setBlocked lib now [] name bl kd = kd" "remember lib now [] name kd = kd"
  by (simp_all add: setBlocked_def remember_def)

lemma kd_value_setBlocked:
  "fp \<noteq> [] \<Longrightarrow> kd_value (setBlocked lib now fp name bl kd) k =
     (let key = q_toUpper lib fp; e = kd_value kd key
      in if k \<noteq> key \<or> blocked e = bl then kd_value kd k
         else if map_of (kd_entries kd) key = None
         then new_KnownEntry\<lparr>known_alias := name, firstSeen := Some now, blocked := True\<rparr>
         else e\<lparr>blocked := bl, known_alias := (if name \<noteq> [] then name else known_alias e)\<rparr>)"
  by (auto simp: setBlocked_def Let_def update_conv' kd_value_def new_KnownEntry_def split: option.splits)

lemma kd_value_remember:
  "fp \<noteq> [] \<Longrightarrow> kd_value (remember lib now fp name kd) k =
     (let key = q_toUpper lib fp; e = kd_value kd key
      in if k \<noteq> key then kd_value kd k
         else if map_of (kd_entries kd) key = None
         then new_KnownEntry\<lparr>known_alias := name, firstSeen := Some now, paired := True\<rparr>
         else e\<lparr>known_alias := name, paired := True\<rparr>)"
  by (auto simp: remember_def Let_def update_conv' kd_value_def split: option.splits)

lemma blocked_remember [simp]: "blocked (kd_value (remember lib now fp name kd) k) = blocked (kd_value kd k)"
  by (cases "fp = []") (simp_all add: kd_value_remember Let_def kd_value_None)

lemma blocked_forget [simp]: "blocked (kd_value (forget lib now fp kd) k) = blocked (kd_value kd k)"
  by (auto simp: forget_def Let_def update_conv' delete_conv' kd_value_def new_KnownEntry_def split: option.splits)

lemma map_of_map_entry: "map_of (map (\<lambda>(k, e). (k, f e)) xs) k = map_option f (map_of xs k)"
  by (induction xs) auto

lemma blocked_forgetAll:
  "qhash_wf (kd_entries kd) \<Longrightarrow> blocked (kd_value (forgetAll now kd) k) = blocked (kd_value kd k)"
  by (auto simp: forgetAll_def Let_def kd_value_def map_of_map_entry map_of_filter_keys new_KnownEntry_def
      split: option.splits if_splits)

lemma paired_setBlocked [simp]:
  "paired (kd_value (setBlocked lib now fp name bl kd) k) = paired (kd_value kd k)"
  by (cases "fp = []") (simp_all add: kd_value_setBlocked Let_def kd_value_None)

lemma isBlocked_setBlocked:
  "fp \<noteq> [] \<Longrightarrow> isBlocked lib fp (setBlocked lib now fp name bl kd) = bl"
  by (auto simp: isBlocked_def kd_value_setBlocked Let_def kd_value_None)

lemma isBlocked_setBlocked_other:
  "q_toUpper lib fp' \<noteq> q_toUpper lib fp \<Longrightarrow> isBlocked lib fp' (setBlocked lib now fp name bl kd) = isBlocked lib fp' kd"
  by (cases "fp = []") (simp_all add: isBlocked_def kd_value_setBlocked Let_def)

lemma isBlocked_frame [simp]:
  "isBlocked lib fp (remember lib now fp' name kd) = isBlocked lib fp kd"
  "isBlocked lib fp (forget lib now fp' kd) = isBlocked lib fp kd"
  by (simp_all add: isBlocked_def)


section \<open>The block list as its clients see it\<close>

text \<open>
  What the device list and the two services rely on of a block list: blocking a key makes it
  blocked, nothing but an explicit unblocking undoes that, and the spelling of a key does not
  matter.
\<close>

locale blocklist =
  fixes blocked_in :: "'f \<Rightarrow> 's \<Rightarrow> bool"
    and same_key :: "'f \<Rightarrow> 'f \<Rightarrow> bool"
    and block :: "'f \<Rightarrow> 's \<Rightarrow> 's"
    and keeps :: "'f \<Rightarrow> ('s \<Rightarrow> 's) set"
    and inv :: "'s \<Rightarrow> bool"
  assumes block_blocks: "inv s \<Longrightarrow> same_key f f \<Longrightarrow> blocked_in f (block f s)"
    and block_inv: "inv s \<Longrightarrow> inv (block f s)"
    and same_key_blocked: "same_key f g \<Longrightarrow> blocked_in f s = blocked_in g s"
    and keeps_inv: "op \<in> keeps f \<Longrightarrow> inv s \<Longrightarrow> inv (op s)"
    and keeps_blocked: "op \<in> keeps f \<Longrightarrow> inv s \<Longrightarrow> blocked_in f s \<Longrightarrow> blocked_in f (op s)"
begin

lemma stays_blocked:
  assumes "inv s" and "blocked_in f s" and "set ops \<subseteq> keeps f"
  shows "blocked_in f (fold (\<lambda>op. op) ops s)"
  using assms
  by (induction ops arbitrary: s) (auto intro: keeps_inv keeps_blocked)

lemma blocked_forever:
  assumes "inv s" and "same_key f f" and "same_key g f" and "set ops \<subseteq> keeps f"
  shows "blocked_in g (fold (\<lambda>op. op) ops (block f s))"
proof -
  have "blocked_in f (block f s)" using assms(1,2) by (rule block_blocks)
  then have "blocked_in f (fold (\<lambda>op. op) ops (block f s))"
    using assms(1,4) by (intro stays_blocked) (simp_all add: block_inv)
  then show ?thesis using same_key_blocked [OF assms(3)] by simp
qed

end

text \<open>The operations of the class, other than unblocking the key \<open>fp\<close>, as events.\<close>

datatype known_op =
    Remember int qstring qstring
  | Forget int qstring
  | ForgetAll int
  | SetBlocked int qstring qstring bool

fun run_known :: "qtlib \<Rightarrow> known_op \<Rightarrow> KnownDevices \<Rightarrow> KnownDevices" where
  "run_known lib (Remember now fp name) kd = remember lib now fp name kd"
| "run_known lib (Forget now fp) kd = forget lib now fp kd"
| "run_known lib (ForgetAll now) kd = forgetAll now kd"
| "run_known lib (SetBlocked now fp name bl) kd = setBlocked lib now fp name bl kd"

fun unblocks :: "qtlib \<Rightarrow> qstring \<Rightarrow> known_op \<Rightarrow> bool" where
  "unblocks lib fp (SetBlocked now fp' name bl) = (\<not> bl \<and> q_toUpper lib fp' = q_toUpper lib fp)"
| "unblocks lib fp _ = False"

lemma run_known_inv: "qt_ok lib \<Longrightarrow> kd_inv lib kd \<Longrightarrow> kd_inv lib (run_known lib op kd)"
  by (cases op) (simp_all add: setBlocked_inv remember_inv forget_inv forgetAll_inv)

lemma isBlocked_forgetAll: "kd_inv lib kd \<Longrightarrow> isBlocked lib fp (forgetAll now kd) = isBlocked lib fp kd"
  by (simp add: isBlocked_def blocked_forgetAll kd_inv_def)

lemma isBlocked_cong:
  "qt_ok lib \<Longrightarrow> q_toUpper lib f = q_toUpper lib g \<Longrightarrow> isBlocked lib f kd = isBlocked lib g kd"
  by (metis isBlocked_def toUpper_empty)

lemma run_known_keeps_block:
  assumes "qt_ok lib" and "kd_inv lib kd" and "\<not> unblocks lib fp op" and "isBlocked lib fp kd"
  shows "isBlocked lib fp (run_known lib op kd)"
proof (cases op)
  case (SetBlocked now fp' name bl)
  show ?thesis
  proof (cases "q_toUpper lib fp' = q_toUpper lib fp")
    case True
    then have "fp' \<noteq> []" using assms(1,4) by (auto simp: isBlocked_def) (metis toUpper_empty)
    then have "isBlocked lib fp' (setBlocked lib now fp' name True kd)"
      by (simp add: isBlocked_setBlocked)
    then show ?thesis using True SetBlocked assms(1,3) isBlocked_cong [OF assms(1) True] by simp
  next
    case False
    with SetBlocked assms(4) show ?thesis by (simp add: isBlocked_setBlocked_other)
  qed
qed (use assms isBlocked_forgetAll in simp_all)

interpretation known: blocklist "isBlocked lib"
  "\<lambda>f g. f \<noteq> [] \<and> g \<noteq> [] \<and> q_toUpper lib f = q_toUpper lib g"
  "\<lambda>f. setBlocked lib now f name True"
  "\<lambda>f. {op. \<exists>k. op = run_known lib k \<and> \<not> unblocks lib f k}"
  "\<lambda>kd. qt_ok lib \<and> kd_inv lib kd"
  for lib now name
proof (unfold_locales, goal_cases)
  case (1 s f) then show ?case by (simp add: isBlocked_setBlocked)
next
  case (2 s f) then show ?case by (simp add: setBlocked_inv)
next
  case (3 f g s) then show ?case by (simp add: isBlocked_def)
next
  case (4 op f s) then show ?case using run_known_inv by auto
next
  case (5 op f s) then show ?case using run_known_keeps_block by auto
qed


section \<open>Properties of the store\<close>

lemma find_None: "List.find p xs = None \<longleftrightarrow> (\<forall>x \<in> set xs. \<not> p x)"
  by (auto simp: find_None_iff)

lemma find_Some_in: "List.find p xs = Some x \<Longrightarrow> x \<in> set xs \<and> p x"
  by (induction xs) (auto split: if_splits)

text \<open>
  The result does not depend on the iteration order of the table in the one way the callers
  use it: it is empty exactly when no pairing carries the name, else the key of one that does.
\<close>

lemma expectedFingerprint_empty:
  assumes "kd_inv lib kd" and "name \<noteq> []"
  shows "expectedFingerprint name kd = [] \<longleftrightarrow>
      \<not> (\<exists>(k, e) \<in> set (kd_entries kd). paired e \<and> known_alias e = name)"
proof (cases "List.find (\<lambda>(k, e). paired e \<and> known_alias e = name) (kd_entries kd)")
  case None
  then have "expectedFingerprint name kd = []" using assms(2) by (simp add: expectedFingerprint_def)
  moreover have "\<forall>x \<in> set (kd_entries kd). \<not> (\<lambda>(k, e). paired e \<and> known_alias e = name) x"
    using None by (simp only: find_None)
  ultimately show ?thesis by auto
next
  case (Some ke)
  obtain k e where ke: "ke = (k, e)" by fastforce
  from find_Some_in [OF Some] ke have m: "(k, e) \<in> set (kd_entries kd)" "paired e" "known_alias e = name"
    by simp_all
  then have "k \<noteq> []" using assms(1) by (auto simp: kd_inv_def)
  then show ?thesis using Some ke assms(2) m by (auto simp: expectedFingerprint_def)
qed

lemma expectedFingerprint_pairing:
  assumes "kd_inv lib kd" and "expectedFingerprint name kd = k" and "k \<noteq> []"
  shows "\<exists>e. map_of (kd_entries kd) k = Some e \<and> paired e \<and> known_alias e = name"
proof -
  from assms(2,3) obtain e where
    "List.find (\<lambda>(k, e). paired e \<and> known_alias e = name) (kd_entries kd) = Some (k, e)"
    by (auto simp: expectedFingerprint_def split: if_splits option.splits)
  from find_Some_in [OF this] assms(1) show ?thesis
    by (auto simp: kd_inv_def qhash_wf_def)
qed

text \<open>
  C24. A blocked device stays blocked, in every spelling of its key, whatever pairings,
  forgettings (of that device, of others, of all) and blockings follow; only unblocking that
  key undoes it.
\<close>

theorem block_survives:
  assumes "qt_ok lib" and "kd_inv lib kd" and "fp \<noteq> []" and "q_toUpper lib fp' = q_toUpper lib fp"
    and "fp' \<noteq> []" and "\<forall>op \<in> set ops. \<not> unblocks lib fp op"
  shows "isBlocked lib fp' (fold (run_known lib) ops (setBlocked lib now fp name True kd))"
proof -
  have "fold (run_known lib) ops kd' = fold (\<lambda>op. op) (map (run_known lib) ops) kd'" for kd'
    by (simp add: fold_map o_def)
  moreover have "isBlocked lib fp' (fold (\<lambda>op. op) (map (run_known lib) ops) (setBlocked lib now fp name True kd))"
    using assms by (intro known.blocked_forever) auto
  ultimately show ?thesis by simp
qed

theorem block_survives_witness:
  "isBlocked ascii_qt (qs ''ab'')
     (fold (run_known ascii_qt) [Forget 5 (qs ''AB''), ForgetAll 6, Remember 7 (qs ''aB'') (qs ''Pear'')]
       (setBlocked ascii_qt 4 (qs ''Ab'') (qs ''Plum'') True no_devices))"
proof (rule block_survives [OF ascii_qt_ok])
  show "kd_inv ascii_qt no_devices" by (simp add: kd_inv_def no_devices_def qhash_wf_def)
  show "q_toUpper ascii_qt (qs ''ab'') = q_toUpper ascii_qt (qs ''Ab'')"
    by (simp add: qs_def qc_def ascii_upper_char_def)
qed simp_all

text \<open>
  A key is trusted only because a transfer with it completed: of all the operations,
  only \<open>remember\<close> of that very key can make it known, and blocking never does.
\<close>

theorem only_remember_trusts:
  assumes "\<not> isKnown lib fp kd" and "isKnown lib fp (run_known lib op kd)"
  shows "\<exists>now fp' name. op = Remember now fp' name \<and> q_toUpper lib fp' = q_toUpper lib fp"
proof (cases op)
  case (Remember now fp' name)
  have "kd_value (remember lib now fp' name kd) k = kd_value kd k" if "k \<noteq> q_toUpper lib fp'" for k
    using that by (cases "fp' = []") (simp_all add: kd_value_remember Let_def)
  with assms Remember show ?thesis by (auto simp: isKnown_def) metis
next
  case (Forget now fp')
  then show ?thesis
    using assms by (auto simp: isKnown_def forget_def Let_def update_conv' delete_conv' kd_value_def
        split: option.splits if_splits)
next
  case (ForgetAll now)
  have "\<not> paired (kd_value (forgetAll now kd) k)" if "\<not> paired (kd_value kd k)" for k
    using that by (auto simp: forgetAll_def Let_def kd_value_def dest!: map_of_SomeD split: option.splits)
  with assms ForgetAll show ?thesis by (auto simp: isKnown_def)
next
  case (SetBlocked now fp' name bl)
  with assms show ?thesis by (simp add: isKnown_def)
qed


theorem only_remember_trusts_witness:
  "\<exists>now fp' name. Remember 3 (qs ''ab'') (qs ''Pear'') = Remember now fp' name
     \<and> q_toUpper ascii_qt fp' = q_toUpper ascii_qt (qs ''AB'')"
  by (rule only_remember_trusts [where kd = no_devices])
    (simp_all add: isKnown_def kd_value_def no_devices_def remember_def Let_def
      qs_def qc_def ascii_upper_char_def)

text \<open>
  C34. Impersonation becomes visible, in both directions: when every key on record is plain ASCII, a
  device is flagged exactly when it gives a key and a name, its key is not known (not that of a paired
  device, in any casing) and its name is on record for a paired key. The order of the table does not matter.
\<close>

theorem conflict_iff_impersonation:
  assumes "qt_ok lib" and "kd_inv lib kd" and "\<forall>(k, e) \<in> set (kd_entries kd). plain_ascii k"
  shows "conflicts lib fp name kd \<longleftrightarrow> fp \<noteq> [] \<and> name \<noteq> []
     \<and> \<not> isKnown lib fp kd \<and> (\<exists>(k, e) \<in> set (kd_entries kd). paired e \<and> known_alias e = name)"
proof -
  let ?x = "expectedFingerprint name kd"
  have "\<not> equalsFold lib ?x fp" if unknown: "\<not> isKnown lib fp kd" and given: "?x \<noteq> []" "fp \<noteq> []"
  proof
    assume eq: "equalsFold lib ?x fp"
    obtain e where e: "map_of (kd_entries kd) ?x = Some e" "paired e"
      using expectedFingerprint_pairing [OF assms(2) refl] given(1) by auto
    then have up: "q_toUpper lib ?x = ?x" and plain: "plain_ascii ?x"
      using kd_inv_get [OF assms(2) e(1)] assms(3) by (auto dest!: map_of_SomeD)
    have "equals_q lib (q_toUpper lib fp) ?x" using eq assms(1) by (simp add: equalsFold_def up equals_q_sym)
    then have "q_toUpper lib fp = ?x" using assms(1) plain by (simp add: equals_q_plain)
    with e given(2) have "isKnown lib fp kd" by (simp add: isKnown_def kd_value_def)
    with unknown show False by simp
  qed
  then show ?thesis using expectedFingerprint_empty [OF assms(2), of name] by (auto simp: conflicts_def Let_def)
qed

theorem conflict_iff_impersonation_witness:
  "conflicts ascii_qt (qs ''CD'') (qs ''Pear'') (remember ascii_qt 3 (qs ''ab'') (qs ''Pear'') no_devices)"
proof -
  let ?kd = "remember ascii_qt 3 (qs ''ab'') (qs ''Pear'') no_devices"
  have es: "kd_entries ?kd = [(qs ''AB'', \<lparr>known_alias = qs ''Pear'', firstSeen = Some 3, paired = True, blocked = False\<rparr>)]"
    by (simp add: remember_def no_devices_def Let_def new_KnownEntry_def qs_def qc_def ascii_upper_char_def)
  have "kd_inv ascii_qt ?kd"
    by (rule remember_inv [OF ascii_qt_ok]) (simp add: kd_inv_def no_devices_def qhash_wf_def)
  moreover have "\<forall>(k, e) \<in> set (kd_entries ?kd). plain_ascii k"
    unfolding es by (simp add: plain_ascii_def qs_def qc_def)
  ultimately have "conflicts ascii_qt (qs ''CD'') (qs ''Pear'') ?kd \<longleftrightarrow> qs ''CD'' \<noteq> [] \<and> qs ''Pear'' \<noteq> [] \<and>
     \<not> isKnown ascii_qt (qs ''CD'') ?kd \<and>
     (\<exists>(k, e) \<in> set (kd_entries ?kd). paired e \<and> known_alias e = qs ''Pear'')"
    by (intro conflict_iff_impersonation [OF ascii_qt_ok])
  moreover have "\<not> isKnown ascii_qt (qs ''CD'') ?kd"
    unfolding isKnown_def kd_value_def es by (simp add: qs_def qc_def ascii_upper_char_def)
  moreover have "\<exists>(k, e) \<in> set (kd_entries ?kd). paired e \<and> known_alias e = qs ''Pear''"
    unfolding es by simp
  ultimately show ?thesis by (simp add: qs_def)
qed

section \<open>Saving and loading\<close>

lemma entry_roundtrip:
  assumes "firstSeen e = Some t" and "\<bar>t\<bar> \<le> 2 ^ 53"
  shows "entry_of_json lib (entry_to_json e) = e"
proof -
  have "in_int64 t" using assms(2) by (auto simp: in_int64_def)
  then show ?thesis
    using assms by (cases e) (simp add: entry_of_json_def entry_to_json_def)
qed

lemma entries_to_json_members:
  assumes "qhash_wf es"
  shows "in_key_order (entries_to_json es)" "set (entries_to_json es) = (\<lambda>(k, e). (k, JObject (entry_to_json e))) ` set es"
  using json_put_fold [of fst es "[]" "\<lambda>x. JObject (entry_to_json (snd x))"] assms
  by (simp_all add: entries_to_json_def qhash_wf_def in_key_order_def case_prod_unfold)

lemma load_into_empty:
  assumes "distinct (map fst ob)" and "\<forall>(k, v) \<in> set ob. q_toUpper lib k = k"
  shows "fold (\<lambda>(k, v) acc. AList.update (q_toUpper lib k) (entry_of_json lib (to_object v)) acc) ob []
    = map (\<lambda>(k, v). (k, entry_of_json lib (to_object v))) ob"
proof -
  have keys: "map (\<lambda>x. q_toUpper lib (fst x)) ob = map fst ob" using assms(2) by (induction ob) auto
  then have "fold (\<lambda>x. AList.update (q_toUpper lib (fst x)) (entry_of_json lib (to_object (snd x)))) ob []
      = [] @ map (\<lambda>x. (q_toUpper lib (fst x), entry_of_json lib (to_object (snd x)))) ob"
    using assms(1) unfolding keys [symmetric] by (intro fold_update_new) simp_all
  also have "\<dots> = map (\<lambda>(k, v). (k, entry_of_json lib (to_object v))) ob" using assms(2) by auto
  finally show ?thesis by (simp add: case_prod_unfold)
qed

text \<open>
  What one run saves the next run loads: the document written by \<open>save\<close> reads back as
  the same table, key by key, flag by flag, date by date (dates up to \<open>2\<^sup>53\<close> milliseconds,
  which a double holds exactly).
\<close>

theorem known_devices_persist:
  assumes "kd_inv lib kd" and "\<forall>(k, e) \<in> set (kd_entries kd). \<forall>t. firstSeen e = Some t \<longrightarrow> \<bar>t\<bar> \<le> 2 ^ 53"
    and "kd_written (kd_save kd) = Some document"
  shows "map_of (kd_entries (kd_load lib (JObject document) no_devices)) = map_of (kd_entries kd)"
proof -
  let ?es = "kd_entries kd"
  have wf: "qhash_wf ?es" using assms(1) by (simp add: kd_inv_def)
  have doc: "document = entries_to_json ?es" using assms(3) by (simp add: kd_save_def)
  note members = entries_to_json_members [OF wf, folded doc]
  have entry: "entry_of_json lib (entry_to_json e) = e \<and> q_toUpper lib k = k" if "(k, e) \<in> set ?es" for k e
  proof -
    from that assms(1) obtain t where "firstSeen e = Some t" and "q_toUpper lib k = k" by (auto simp: kd_inv_def)
    with that assms(2) show ?thesis by (auto intro!: entry_roundtrip)
  qed
  have distinct: "distinct (map fst document)" by (rule in_key_order_distinct [OF members(1)])
  have "kd_entries (kd_load lib (JObject document) no_devices) = map (\<lambda>(k, v). (k, entry_of_json lib (to_object v))) document"
  proof -
    have "\<forall>(k, v) \<in> set document. q_toUpper lib k = k" unfolding members(2) using entry by auto
    from load_into_empty [OF distinct this] show ?thesis by (simp add: kd_load_def no_devices_def)
  qed
  moreover have "set (map (\<lambda>(k, v). (k, entry_of_json lib (to_object v))) document) = set ?es"
    using entry members(2) by (force simp: image_iff)
  moreover have "distinct (map fst (map (\<lambda>(k, v). (k, entry_of_json lib (to_object v))) document))"
    using distinct by (simp add: case_prod_unfold comp_def)
  ultimately show ?thesis using wf map_of_inject_set [of _ "kd_entries kd"] by (simp add: qhash_wf_def)
qed

theorem known_devices_persist_witness:
  "map_of (kd_entries (kd_load ascii_qt (JObject (entries_to_json (kd_entries
     (remember ascii_qt 1700000000000 (qs ''ab'') (qs ''Pear'') no_devices)))) no_devices))
   = map_of (kd_entries (remember ascii_qt 1700000000000 (qs ''ab'') (qs ''Pear'') no_devices))"
proof (rule known_devices_persist)
  let ?kd = "remember ascii_qt 1700000000000 (qs ''ab'') (qs ''Pear'') no_devices"
  show "kd_inv ascii_qt ?kd"
    by (rule remember_inv [OF ascii_qt_ok]) (simp add: kd_inv_def no_devices_def qhash_wf_def)
  show "\<forall>(k, e) \<in> set (kd_entries ?kd). \<forall>t. firstSeen e = Some t \<longrightarrow> \<bar>t\<bar> \<le> 2 ^ 53"
    by (simp add: remember_def no_devices_def Let_def new_KnownEntry_def)
  show "kd_written (kd_save ?kd) = Some (entries_to_json (kd_entries ?kd))"
    by (simp add: kd_save_def)
qed

end
