(* ===== verification/Device_Model.thy ===== *)
theory Device_Model
  imports Known_Devices "HOL-Library.List_Lexorder"
begin

text \<open>
  \<open>src/src/devicemodel.cpp\<close>: the list of visible devices, keyed by fingerprint and sorted by
  alias. \<open>m_known\<close> is the argument \<open>kn\<close> (\<open>None\<close> for the null pointer), \<open>now\<close> the clock in
  milliseconds; the row signals a view receives are logged in order.
\<close>

section \<open>State\<close>

datatype row_signal =
    RowInserted nat | RowRemoved nat | RowChanged nat | ModelReset
  | CountChanged | DeviceAppeared qstring

record DeviceModel =
  m_devices :: "DeviceInfo list"
  dm_signals :: "row_signal list"

definition empty_devices :: DeviceModel where
  "empty_devices = \<lparr>m_devices = [], dm_signals = []\<rparr>"

definition StaleAfterSeconds :: int where
  "StaleAfterSeconds = 50"

definition MaxDevices :: nat where
  "MaxDevices = 64"

definition signal :: "row_signal list \<Rightarrow> DeviceModel \<Rightarrow> DeviceModel" where
  "signal sigs dm = dm\<lparr>dm_signals := dm_signals dm @ sigs\<rparr>"

text \<open>\<open>QDateTime::secsTo\<close>: the difference in seconds, truncated towards zero.\<close>

definition secsTo :: "int \<Rightarrow> int \<Rightarrow> int" where
  "secsTo seen now = (if now \<ge> seen then (now - seen) div 1000 else - ((seen - now) div 1000))"

section \<open>Operations\<close>

definition indexOfFingerprint :: "qstring \<Rightarrow> DeviceInfo list \<Rightarrow> nat option" where
  "indexOfFingerprint fp ds = index_where (\<lambda>d. fingerprint d = fp) ds"

definition sorts_after :: "qtlib \<Rightarrow> DeviceInfo \<Rightarrow> DeviceInfo \<Rightarrow> bool" where
  "sorts_after lib row device \<longleftrightarrow>
     (let order = q_compareCI lib (dev_alias row) (dev_alias device)
      in order > 0 \<or> (order = 0 \<and> fingerprint row > fingerprint device))"

definition insertionPoint :: "qtlib \<Rightarrow> DeviceInfo \<Rightarrow> DeviceInfo list \<Rightarrow> nat" where
  "insertionPoint lib device ds =
     (case index_where (\<lambda>row. sorts_after lib row device) ds of Some i \<Rightarrow> i | None \<Rightarrow> length ds)"

definition dm_remove :: "qstring \<Rightarrow> DeviceModel \<Rightarrow> DeviceModel" where
  "dm_remove fp dm =
     (case indexOfFingerprint fp (m_devices dm) of
        None \<Rightarrow> dm
      | Some row \<Rightarrow> signal [RowRemoved row, CountChanged] (dm\<lparr>m_devices := remove_at row (m_devices dm)\<rparr>))"

definition blocked_by :: "qtlib \<Rightarrow> KnownDevices option \<Rightarrow> qstring \<Rightarrow> bool" where
  "blocked_by lib kn fp = (case kn of None \<Rightarrow> False | Some kd \<Rightarrow> isBlocked lib fp kd)"

definition upsert ::
    "qtlib \<Rightarrow> KnownDevices option \<Rightarrow> int \<Rightarrow> DeviceInfo \<Rightarrow> DeviceModel \<Rightarrow> bool \<times> DeviceModel" where
  "upsert lib kn now device dm =
     (if \<not> isValid device \<or> address device = [] then (False, dm)
      else if blocked_by lib kn (fingerprint device) then (False, dm_remove (fingerprint device) dm)
      else
        let updated = device\<lparr>lastSeen := Some now\<rparr>; ds = m_devices dm
        in case indexOfFingerprint (fingerprint device) ds of
             Some existing \<Rightarrow>
               let previous = ds ! existing
               in if dev_alias previous \<noteq> dev_alias updated
                  then let ds' = remove_at existing ds; target = insertionPoint lib updated ds'
                       in (False, signal [RowRemoved existing, RowInserted target]
                            (dm\<lparr>m_devices := insert_at target updated ds'\<rparr>))
                  else (False, signal [RowChanged existing] (dm\<lparr>m_devices := ds[existing := updated]\<rparr>))
           | None \<Rightarrow>
               if length ds \<ge> MaxDevices then (False, dm)
               else let target = insertionPoint lib updated ds
                    in (True, signal [RowInserted target, CountChanged, DeviceAppeared (dev_alias updated)]
                         (dm\<lparr>m_devices := insert_at target updated ds\<rparr>)))"

definition dm_clear :: "DeviceModel \<Rightarrow> DeviceModel" where
  "dm_clear dm = (if m_devices dm = [] then dm
     else signal [ModelReset, CountChanged] (dm\<lparr>m_devices := []\<rparr>))"

definition device_at :: "int \<Rightarrow> DeviceModel \<Rightarrow> DeviceInfo" where
  "device_at row dm = (if row < 0 \<or> row \<ge> int (length (m_devices dm)) then new_DeviceInfo
     else m_devices dm ! nat row)"

definition byFingerprint :: "qstring \<Rightarrow> DeviceModel \<Rightarrow> DeviceInfo" where
  "byFingerprint fp dm = (case indexOfFingerprint fp (m_devices dm) of
     None \<Rightarrow> new_DeviceInfo | Some row \<Rightarrow> m_devices dm ! row)"

definition contains_device :: "qstring \<Rightarrow> DeviceModel \<Rightarrow> bool" where
  "contains_device fp dm \<longleftrightarrow> indexOfFingerprint fp (m_devices dm) \<noteq> None"

text \<open>The roles of \<open>data()\<close> that are computed rather than read.\<close>

definition role_stale :: "int \<Rightarrow> DeviceInfo \<Rightarrow> bool" where
  "role_stale now d = (case lastSeen d of None \<Rightarrow> False | Some t \<Rightarrow> secsTo t now > StaleAfterSeconds)"

definition role_known :: "qtlib \<Rightarrow> KnownDevices option \<Rightarrow> DeviceInfo \<Rightarrow> bool" where
  "role_known lib kn d = (case kn of None \<Rightarrow> False | Some kd \<Rightarrow> isKnown lib (fingerprint d) kd)"

definition role_conflict :: "qtlib \<Rightarrow> KnownDevices option \<Rightarrow> DeviceInfo \<Rightarrow> bool" where
  "role_conflict lib kn d =
     (case kn of None \<Rightarrow> False | Some kd \<Rightarrow> conflicts lib (fingerprint d) (dev_alias d) kd)"

text \<open>The loop of \<open>prune\<close> runs over the rows downwards; \<open>Suc i\<close> rows are left to look at.\<close>

definition keeps_row :: "int \<Rightarrow> int \<Rightarrow> DeviceInfo \<Rightarrow> bool" where
  "keeps_row now maxAge d = (case lastSeen d of None \<Rightarrow> False | Some t \<Rightarrow> secsTo t now \<le> maxAge)"

fun prune_rows :: "int \<Rightarrow> int \<Rightarrow> nat \<Rightarrow> DeviceModel \<Rightarrow> bool \<Rightarrow> DeviceModel \<times> bool" where
  "prune_rows now maxAge 0 dm removed = (dm, removed)"
| "prune_rows now maxAge (Suc i) dm removed =
     (if keeps_row now maxAge (m_devices dm ! i) then prune_rows now maxAge i dm removed
      else prune_rows now maxAge i
             (signal [RowRemoved i] (dm\<lparr>m_devices := remove_at i (m_devices dm)\<rparr>)) True)"

definition dm_prune :: "int \<Rightarrow> int \<Rightarrow> DeviceModel \<Rightarrow> DeviceModel" where
  "dm_prune now maxAge dm =
     (let (dm', removed) = prune_rows now maxAge (length (m_devices dm)) dm False
      in if removed then signal [CountChanged] dm' else dm')"

lemma signal_simps [simp]:
  "m_devices (signal sigs dm) = m_devices dm"
  "dm_signals (signal sigs dm) = dm_signals dm @ sigs"
  by (simp_all add: signal_def)

section \<open>The order of the rows\<close>

definition row_key :: "DeviceInfo \<Rightarrow> qstring \<times> qstring" where
  "row_key d = (dev_alias d, fingerprint d)"

fun key_le :: "qtlib \<Rightarrow> qstring \<times> qstring \<Rightarrow> qstring \<times> qstring \<Rightarrow> bool" where
  "key_le lib (a, f) (b, g) \<longleftrightarrow>
     (let order = q_compareCI lib a b in order < 0 \<or> (order = 0 \<and> f \<le> g))"

definition rows_sorted :: "qtlib \<Rightarrow> DeviceInfo list \<Rightarrow> bool" where
  "rows_sorted lib ds \<longleftrightarrow> sorted_wrt (key_le lib) (map row_key ds)"

lemma sorts_after_iff: "sorts_after lib row d \<longleftrightarrow> \<not> key_le lib (row_key row) (row_key d)"
  by (auto simp: sorts_after_def row_key_def Let_def)

lemma key_le_total:
  assumes "qt_ok lib"
  shows "\<not> key_le lib x y \<Longrightarrow> key_le lib y x"
  using compareCI_sym [OF assms] compareCI_eq_sym [OF assms]
  by (cases x; cases y) (auto simp: Let_def not_less_iff_gr_or_eq)

lemma key_le_trans:
  assumes "qt_ok lib" "key_le lib x y" "key_le lib y z"
  shows "key_le lib x z"
proof -
  obtain a f where x: "x = (a, f)" by fastforce
  obtain b g where y: "y = (b, g)" by fastforce
  obtain c h where z: "z = (c, h)" by fastforce
  let ?cmp = "q_compareCI lib"
  have ab: "?cmp a b \<le> 0" "?cmp a b = 0 \<Longrightarrow> f \<le> g" and bc: "?cmp b c \<le> 0" "?cmp b c = 0 \<Longrightarrow> g \<le> h"
    using assms(2,3) x y z by (auto simp: Let_def)
  have ac: "?cmp a c \<le> 0" using compareCI_trans [OF assms(1) ab(1) bc(1)] .
  show ?thesis
  proof (cases "?cmp a c = 0")
    case True
    then have ca: "?cmp c a \<le> 0" using compareCI_eq_sym [OF assms(1), of a c] by simp
    have "?cmp c b \<le> 0" using compareCI_trans [OF assms(1) ca ab(1)] .
    moreover have "?cmp b a \<le> 0" using compareCI_trans [OF assms(1) bc(1) ca] .
    ultimately have "?cmp b c = 0" "?cmp a b = 0"
      using compareCI_sym [OF assms(1), of b c] compareCI_sym [OF assms(1), of c b]
        compareCI_sym [OF assms(1), of a b] compareCI_sym [OF assms(1), of b a] ab(1) bc(1)
      by linarith+
    with ab bc True show ?thesis by (auto simp: x z Let_def)
  next
    case False
    with ac show ?thesis by (simp add: x z Let_def)
  qed
qed

declare key_le.simps [simp del]

lemma insertionPoint_sorted:
  assumes lib: "qt_ok lib" and sorted: "rows_sorted lib ds"
  shows "rows_sorted lib (insert_at (insertionPoint lib d ds) d ds)"
proof (cases "index_where (\<lambda>row. sorts_after lib row d) ds")
  case None
  then have "\<forall>row \<in> set ds. key_le lib (row_key row) (row_key d)"
    by (simp add: sorts_after_iff)
  moreover have "insertionPoint lib d ds = length ds"
    unfolding insertionPoint_def by (simp only: None option.case)
  ultimately show ?thesis
    using sorted by (simp add: rows_sorted_def insert_at_def sorted_wrt_append)
next
  case (Some i)
  let ?k = "map row_key ds"
  from index_where_SomeD [OF Some] have i: "i < length ds" and at: "\<not> key_le lib (row_key (ds ! i)) (row_key d)"
    and before: "\<forall>j < i. key_le lib (row_key (ds ! j)) (row_key d)"
    by (simp_all add: sorts_after_iff)
  have pre: "\<forall>x \<in> set (take i ?k). key_le lib x (row_key d)"
  proof
    fix x assume "x \<in> set (take i ?k)"
    then obtain j where "j < i" "x = row_key (ds ! j)" using i by (auto simp: in_set_conv_nth)
    with before show "key_le lib x (row_key d)" by simp
  qed
  have post: "\<forall>x \<in> set (drop i ?k). key_le lib (row_key d) x"
  proof
    fix x assume "x \<in> set (drop i ?k)"
    then have x: "x = row_key (ds ! i) \<or> key_le lib (row_key (ds ! i)) x"
      using sorted i
      by (subst (asm) Cons_nth_drop_Suc [symmetric]) (auto simp: rows_sorted_def sorted_wrt_iff_nth_less in_set_conv_nth)
    have "key_le lib (row_key d) (row_key (ds ! i))" using key_le_total [OF lib at] .
    with x key_le_trans [OF lib] show "key_le lib (row_key d) x" by metis
  qed
  have "sorted_wrt (key_le lib) (take i ?k @ drop i ?k)" using sorted by (simp add: rows_sorted_def)
  then have "sorted_wrt (key_le lib) (take i ?k @ row_key d # drop i ?k)"
    using pre post unfolding sorted_wrt_append by simp
  then show ?thesis
    using Some by (simp add: rows_sorted_def insertionPoint_def mset_insert_at_map) (simp add: insert_at_def)
qed

lemma remove_at_sorted: "rows_sorted lib ds \<Longrightarrow> rows_sorted lib (remove_at i ds)"
proof -
  assume "rows_sorted lib ds"
  then have s: "sorted_wrt (key_le lib) (take i (map row_key ds) @ drop i (map row_key ds))"
    by (simp add: rows_sorted_def)
  have sub: "set (drop (Suc i) (map row_key ds)) \<subseteq> set (drop i (map row_key ds))"
    by (rule set_drop_subset_set_drop) simp
  have "sorted_wrt (key_le lib) (drop (Suc i) (map row_key ds))"
    using \<open>rows_sorted lib ds\<close> by (simp add: rows_sorted_def sorted_wrt_drop)
  with s sub have "sorted_wrt (key_le lib) (take i (map row_key ds) @ drop (Suc i) (map row_key ds))"
    unfolding sorted_wrt_append by blast
  then show ?thesis by (simp add: rows_sorted_def remove_at_def take_map drop_map)
qed

lemma update_sorted:
  "rows_sorted lib ds \<Longrightarrow> i < length ds \<Longrightarrow> row_key d = row_key (ds ! i) \<Longrightarrow> rows_sorted lib (ds[i := d])"
  by (simp add: rows_sorted_def map_update) (metis list_update_id map_update nth_map length_map)

section \<open>The invariant\<close>

definition listed :: "DeviceInfo \<Rightarrow> bool" where
  "listed d \<longleftrightarrow> isValid d \<and> address d \<noteq> [] \<and> lastSeen d \<noteq> None"

definition dm_inv :: "qtlib \<Rightarrow> DeviceModel \<Rightarrow> bool" where
  "dm_inv lib dm \<longleftrightarrow> rows_sorted lib (m_devices dm) \<and> distinct (map fingerprint (m_devices dm))
     \<and> length (m_devices dm) \<le> MaxDevices \<and> list_all listed (m_devices dm)"

lemma indexOf_SomeD:
  "indexOfFingerprint fp ds = Some i \<Longrightarrow> i < length ds \<and> fingerprint (ds ! i) = fp"
  unfolding indexOfFingerprint_def by (drule index_where_SomeD) simp

lemma indexOf_None: "indexOfFingerprint fp ds = None \<longleftrightarrow> fp \<notin> fingerprint ` set ds"
  by (auto simp: indexOfFingerprint_def)

lemma indexOf_distinct:
  assumes "distinct (map fingerprint ds)" "d \<in> set ds" "fingerprint d = fp"
  obtains i where "indexOfFingerprint fp ds = Some i" "ds ! i = d" "i < length ds"
proof -
  from assms(2,3) have "indexOfFingerprint fp ds \<noteq> None" by (auto simp: indexOf_None)
  then obtain i where i: "indexOfFingerprint fp ds = Some i" by blast
  from indexOf_SomeD [OF i] have "i < length ds" "fingerprint (ds ! i) = fp" by auto
  moreover from assms(2) obtain j where "j < length ds" "ds ! j = d" by (auto simp: in_set_conv_nth)
  ultimately have "i = j" using assms(1,3) by (auto simp: distinct_conv_nth)
  with i \<open>j < length ds\<close> \<open>ds ! j = d\<close> that show ?thesis by blast
qed

lemma byFingerprint_iff:
  assumes "distinct (map fingerprint (m_devices dm))" "fp \<noteq> []"
  shows "byFingerprint fp dm = d \<and> isValid d \<longleftrightarrow> d \<in> set (m_devices dm) \<and> fingerprint d = fp"
proof
  assume l: "byFingerprint fp dm = d \<and> isValid d"
  then obtain i where "indexOfFingerprint fp (m_devices dm) = Some i" "d = m_devices dm ! i"
    by (auto simp: byFingerprint_def isValid_def new_DeviceInfo_def split: option.splits)
  with indexOf_SomeD show "d \<in> set (m_devices dm) \<and> fingerprint d = fp" by fastforce
next
  assume r: "d \<in> set (m_devices dm) \<and> fingerprint d = fp"
  then obtain i where "indexOfFingerprint fp (m_devices dm) = Some i" "m_devices dm ! i = d"
    using indexOf_distinct [OF assms(1)] by metis
  with r assms(2) show "byFingerprint fp dm = d \<and> isValid d"
    by (simp add: byFingerprint_def isValid_def)
qed

lemma dm_inv_remove_at:
  assumes "dm_inv lib dm"
  shows "dm_inv lib (dm\<lparr>m_devices := remove_at i (m_devices dm)\<rparr>)"
  using assms set_remove_at_subset [of i "m_devices dm"] length_remove_at_le [of i "m_devices dm"]
  by (auto simp: dm_inv_def remove_at_sorted mset_remove_at_map distinct_remove_at list_all_iff)

lemma dm_inv_signal [simp]: "dm_inv lib (signal sigs dm) \<longleftrightarrow> dm_inv lib dm"
  by (simp add: dm_inv_def)

lemma dm_inv_remove: "dm_inv lib dm \<Longrightarrow> dm_inv lib (dm_remove fp dm)"
  by (auto simp: dm_remove_def dm_inv_remove_at split: option.split)

lemma dm_inv_insert:
  assumes "qt_ok lib" "dm_inv lib dm" "fingerprint d \<notin> fingerprint ` set (m_devices dm)"
    "listed d" "length (m_devices dm) < MaxDevices"
  shows "dm_inv lib (dm\<lparr>m_devices := insert_at (insertionPoint lib d (m_devices dm)) d (m_devices dm)\<rparr>)"
  using assms by (simp add: dm_inv_def insertionPoint_sorted mset_insert_at_map list_all_iff)

text \<open>After removing the row of a fingerprint, no row has it.\<close>

lemma removed_fingerprint:
  assumes "distinct (map fingerprint ds)" "indexOfFingerprint fp ds = Some i"
  shows "set (remove_at i ds) = {d \<in> set ds. fingerprint d \<noteq> fp}"
proof -
  from indexOf_SomeD [OF assms(2)] have i: "i < length ds" "fingerprint (ds ! i) = fp" by auto
  have "set (remove_at i ds) = set ds - {ds ! i}"
    using assms(1) i(1) by (simp add: set_remove_at_distinct distinct_map)
  also have "\<dots> = {d \<in> set ds. fingerprint d \<noteq> fp}"
    using assms(1) i by (auto simp: distinct_map inj_on_def)
  finally show ?thesis .
qed

lemma set_dm_remove:
  assumes "distinct (map fingerprint (m_devices dm))"
  shows "set (m_devices (dm_remove fp dm)) = {d \<in> set (m_devices dm). fingerprint d \<noteq> fp}"
proof (cases "indexOfFingerprint fp (m_devices dm)")
  case None
  then have "dm_remove fp dm = dm" by (simp add: dm_remove_def)
  with None show ?thesis by (auto simp: indexOf_None)
next
  case (Some i)
  with removed_fingerprint [OF assms Some] show ?thesis by (simp add: dm_remove_def)
qed

section \<open>\<open>upsert\<close>\<close>

text \<open>
  What \<open>upsert\<close> leaves behind, as a set of rows: the new row replaces the one of the same
  fingerprint, a blocked one only disappears.
\<close>

lemma upsert_blocked:
  assumes "isValid d" "address d \<noteq> []" "blocked_by lib kn (fingerprint d)"
  shows "upsert lib kn now d dm = (False, dm_remove (fingerprint d) dm)"
  using assms by (simp add: upsert_def)

lemma upsert_rows:
  assumes "dm_inv lib dm" "isValid d" "address d \<noteq> []" "\<not> blocked_by lib kn (fingerprint d)"
    and room: "contains_device (fingerprint d) dm \<or> length (m_devices dm) < MaxDevices"
  shows "set (m_devices (snd (upsert lib kn now d dm)))
     = insert (d\<lparr>lastSeen := Some now\<rparr>) {row \<in> set (m_devices dm). fingerprint row \<noteq> fingerprint d}"
proof (cases "indexOfFingerprint (fingerprint d) (m_devices dm)")
  case None
  then have "\<forall>row \<in> set (m_devices dm). fingerprint row \<noteq> fingerprint d" unfolding indexOf_None by (metis imageI)
  moreover have "length (m_devices dm) < MaxDevices" using room None by (simp add: contains_device_def)
  ultimately show ?thesis
    using assms(2-4) None by (auto simp: upsert_def Let_def)
next
  case (Some i)
  have wf: "distinct (map fingerprint (m_devices dm))" using assms(1) by (simp add: dm_inv_def)
  from indexOf_SomeD [OF Some] have i: "i < length (m_devices dm)" by simp
  have upd: "set ((m_devices dm)[i := x]) = insert x (set (remove_at i (m_devices dm)))" for x
    using i by (simp add: upd_conv_take_nth_drop remove_at_def)
  show ?thesis
    using assms(2-4) Some
    by (auto simp: upsert_def Let_def upd removed_fingerprint [OF wf Some])
qed

lemma upsert_full:
  assumes "isValid d" "address d \<noteq> []" "\<not> blocked_by lib kn (fingerprint d)"
    and "\<not> contains_device (fingerprint d) dm" "length (m_devices dm) \<ge> MaxDevices"
  shows "upsert lib kn now d dm = (False, dm)"
  using assms by (simp add: upsert_def contains_device_def)

lemma upsert_inv:
  assumes lib: "qt_ok lib" and inv: "dm_inv lib dm"
  shows "dm_inv lib (snd (upsert lib kn now d dm))"
proof -
  let ?u = "d\<lparr>lastSeen := Some now\<rparr>" and ?fp = "fingerprint d" and ?ds = "m_devices dm"
  consider "\<not> isValid d \<or> address d = []" | "blocked_by lib kn ?fp" "isValid d" "address d \<noteq> []"
    | (insert) "isValid d" "address d \<noteq> []" "\<not> blocked_by lib kn ?fp" "indexOfFingerprint ?fp ?ds = None"
    | (known) i where "isValid d" "address d \<noteq> []" "\<not> blocked_by lib kn ?fp"
        "indexOfFingerprint ?fp ?ds = Some i" by blast
  then show ?thesis
  proof cases
    case 1
    then show ?thesis using inv by (auto simp: upsert_def)
  next
    case 2
    then show ?thesis using inv by (simp add: upsert_blocked dm_inv_remove)
  next
    case insert
    have l: "listed ?u" using insert by (simp add: listed_def isValid_def)
    have new: "fingerprint ?u \<notin> fingerprint ` set ?ds" using insert(4) by (simp add: indexOf_None)
    show ?thesis
      using insert inv dm_inv_insert [OF lib inv new l] by (auto simp: upsert_def Let_def)
  next
    case known
    have l: "listed ?u" using known by (simp add: listed_def isValid_def)
    from indexOf_SomeD [OF known(4)] have i: "i < length ?ds" "fingerprint (?ds ! i) = ?fp" by auto
    have wf: "distinct (map fingerprint ?ds)" using inv by (simp add: dm_inv_def)
    have moved: "dm_inv lib (dm\<lparr>m_devices := insert_at
        (insertionPoint lib ?u (remove_at i ?ds)) ?u (remove_at i ?ds)\<rparr>)"
    proof -
      have rest: "set (remove_at i ?ds) = {row \<in> set ?ds. fingerprint row \<noteq> ?fp}"
        by (rule removed_fingerprint [OF wf known(4)])
      have "length (remove_at i ?ds) < MaxDevices"
        using inv i length_remove_at [OF i(1)] by (auto simp: dm_inv_def)
      moreover have "fingerprint ?u \<notin> fingerprint ` set (remove_at i ?ds)" by (auto simp: rest)
      ultimately show ?thesis
        using dm_inv_insert [OF lib dm_inv_remove_at [OF inv, of i] _ l] by simp
    qed
    have same: "dm_inv lib (dm\<lparr>m_devices := ?ds[i := ?u]\<rparr>)" if "dev_alias (?ds ! i) = dev_alias ?u"
    proof -
      have "map fingerprint (?ds[i := ?u]) = map fingerprint ?ds"
        using i by (simp add: map_update) (metis list_update_id nth_map)
      moreover have "rows_sorted lib (?ds[i := ?u])"
        using inv i that by (intro update_sorted) (simp_all add: dm_inv_def row_key_def)
      moreover have "list_all listed (?ds[i := ?u])"
        using inv l set_update_subset_insert [of ?ds i ?u] by (auto simp: dm_inv_def list_all_iff)
      ultimately show ?thesis using inv by (simp add: dm_inv_def)
    qed
    show ?thesis using known moved same by (simp add: upsert_def Let_def)
  qed
qed

section \<open>\<open>prune\<close>\<close>

lemma prune_rows_spec:
  assumes "n \<le> length (m_devices dm)"
  shows "m_devices (fst (prune_rows now maxAge n dm removed))
       = filter (keeps_row now maxAge) (take n (m_devices dm)) @ drop n (m_devices dm)
     \<and> (snd (prune_rows now maxAge n dm removed)
          \<longleftrightarrow> removed \<or> \<not> list_all (keeps_row now maxAge) (take n (m_devices dm)))"
  using assms
proof (induction n arbitrary: dm removed)
  case (Suc i)
  let ?ds = "m_devices dm"
  have take: "take (Suc i) ?ds = take i ?ds @ [?ds ! i]" using Suc.prems by (simp add: take_Suc_conv_app_nth)
  show ?case
  proof (cases "keeps_row now maxAge (?ds ! i)")
    case True
    have "drop i ?ds = ?ds ! i # drop (Suc i) ?ds" using Suc.prems by (simp add: Cons_nth_drop_Suc)
    with True Suc.IH [of dm removed] Suc.prems take show ?thesis by simp
  next
    case False
    let ?dm = "signal [RowRemoved i] (dm\<lparr>m_devices := remove_at i ?ds\<rparr>)"
    have "take i (remove_at i ?ds) = take i ?ds" "drop i (remove_at i ?ds) = drop (Suc i) ?ds"
      "i \<le> length (remove_at i ?ds)"
      using Suc.prems by (simp_all add: remove_at_def)
    with False Suc.IH [of ?dm True] take show ?thesis by simp
  qed
qed simp

lemma prune_filter: "m_devices (dm_prune now maxAge dm) = filter (keeps_row now maxAge) (m_devices dm)"
  using prune_rows_spec [of "length (m_devices dm)" dm now maxAge False]
  by (cases "prune_rows now maxAge (length (m_devices dm)) dm False") (simp add: dm_prune_def)

lemma rows_sorted_filter: "rows_sorted lib ds \<Longrightarrow> rows_sorted lib (filter p ds)"
  by (simp add: rows_sorted_def sorted_wrt_map sorted_wrt_filter)

lemma dm_inv_prune: "dm_inv lib dm \<Longrightarrow> dm_inv lib (dm_prune now maxAge dm)"
  using le_trans [OF length_filter_le [of "keeps_row now maxAge" "m_devices dm"]]
  by (auto simp: dm_inv_def prune_filter rows_sorted_filter distinct_map_filter list_all_iff)

lemma dm_inv_clear: "dm_inv lib dm \<Longrightarrow> dm_inv lib (dm_clear dm)"
  by (simp add: dm_clear_def dm_inv_def rows_sorted_def MaxDevices_def)

section \<open>What a view attached to the model sees\<close>

text \<open>
  A view follows the model by its signals alone. Replaying them from a row count gives the new
  row count, or \<open>None\<close> when a signal names a row that is not there; a reset makes the view ask
  for the rows again, and only \<open>clear\<close> sends one.
\<close>

fun view_rows :: "row_signal list \<Rightarrow> nat \<Rightarrow> nat option" where
  "view_rows [] n = Some n"
| "view_rows (s # ss) n = (case s of
     RowInserted i \<Rightarrow> if i \<le> n then view_rows ss (Suc n) else None
   | RowRemoved i \<Rightarrow> if i < n then view_rows ss (n - 1) else None
   | RowChanged i \<Rightarrow> if i < n then view_rows ss n else None
   | ModelReset \<Rightarrow> view_rows ss 0
   | _ \<Rightarrow> view_rows ss n)"

lemma view_rows_append:
  "view_rows (ss @ ts) n = Option.bind (view_rows ss n) (view_rows ts)"
  by (induction ss arbitrary: n) (auto split: row_signal.split)

definition view_follows :: "DeviceModel \<Rightarrow> bool" where
  "view_follows dm \<longleftrightarrow> view_rows (dm_signals dm) 0 = Some (length (m_devices dm))"

lemma view_follows_step:
  assumes "view_follows dm" "view_rows sigs (length (m_devices dm)) = Some (length ds)"
  shows "view_follows (signal sigs (dm\<lparr>m_devices := ds\<rparr>))"
  using assms by (simp add: view_follows_def view_rows_append)

lemma insertionPoint_le: "insertionPoint lib d ds \<le> length ds"
  by (auto simp: insertionPoint_def split: option.split dest: index_where_SomeD)

lemma view_follows_remove: "view_follows dm \<Longrightarrow> view_follows (dm_remove fp dm)"
proof (cases "indexOfFingerprint fp (m_devices dm)")
  case (Some i)
  assume "view_follows dm"
  from indexOf_SomeD [OF Some] have "i < length (m_devices dm)" by simp
  with \<open>view_follows dm\<close> Some show ?thesis
    by (simp add: dm_remove_def view_follows_step length_remove_at)
qed (simp add: dm_remove_def)

lemma view_follows_upsert:
  assumes "view_follows dm"
  shows "view_follows (snd (upsert lib kn now d dm))"
proof (cases "indexOfFingerprint (fingerprint d) (m_devices dm)")
  case None
  with assms show ?thesis
    by (auto simp: upsert_def Let_def view_follows_remove insertionPoint_le intro!: view_follows_step)
next
  case (Some i)
  from indexOf_SomeD [OF Some] have i: "i < length (m_devices dm)" by simp
  let ?ds = "remove_at i (m_devices dm)" and ?u = "d\<lparr>lastSeen := Some now\<rparr>"
  have "insertionPoint lib ?u ?ds \<le> length (m_devices dm) - 1"
    using insertionPoint_le [of lib ?u ?ds] length_remove_at [OF i] by simp
  with Some assms i show ?thesis
    by (auto simp: upsert_def Let_def view_follows_remove length_remove_at intro!: view_follows_step)
qed

lemma view_follows_prune_rows:
  "view_follows dm \<Longrightarrow> n \<le> length (m_devices dm) \<Longrightarrow> view_follows (fst (prune_rows now maxAge n dm removed))"
proof (induction n arbitrary: dm removed)
  case (Suc i)
  let ?dm = "signal [RowRemoved i] (dm\<lparr>m_devices := remove_at i (m_devices dm)\<rparr>)"
  have "view_follows ?dm"
    using Suc.prems by (intro view_follows_step) (simp_all add: length_remove_at)
  moreover have "i \<le> length (m_devices ?dm)" using Suc.prems by (simp add: length_remove_at)
  ultimately show ?case using Suc by simp
qed simp

lemma view_follows_prune: "view_follows dm \<Longrightarrow> view_follows (dm_prune now maxAge dm)"
proof -
  assume "view_follows dm"
  then have f: "view_follows (fst (prune_rows now maxAge (length (m_devices dm)) dm False))"
    by (simp add: view_follows_prune_rows)
  then show ?thesis
    by (cases "prune_rows now maxAge (length (m_devices dm)) dm False")
      (simp add: dm_prune_def view_follows_def view_rows_append)
qed

lemma view_follows_clear: "view_follows dm \<Longrightarrow> view_follows (dm_clear dm)"
  by (simp add: dm_clear_def view_follows_step)

section \<open>The list over a whole run\<close>

datatype dm_op =
    Upsert "KnownDevices option" int DeviceInfo
  | RemoveRow qstring
  | PruneRows int int
  | ClearRows

fun dm_step :: "qtlib \<Rightarrow> dm_op \<Rightarrow> DeviceModel \<Rightarrow> DeviceModel" where
  "dm_step lib (Upsert kn now d) dm = snd (upsert lib kn now d dm)"
| "dm_step lib (RemoveRow fp) dm = dm_remove fp dm"
| "dm_step lib (PruneRows now maxAge) dm = dm_prune now maxAge dm"
| "dm_step lib ClearRows dm = dm_clear dm"

definition run_dm :: "qtlib \<Rightarrow> dm_op list \<Rightarrow> DeviceModel" where
  "run_dm lib ops = fold (dm_step lib) ops empty_devices"

lemma dm_step_inv: "qt_ok lib \<Longrightarrow> dm_inv lib dm \<Longrightarrow> dm_inv lib (dm_step lib op dm)"
  by (cases op) (simp_all add: upsert_inv dm_inv_remove dm_inv_prune dm_inv_clear)

lemma dm_step_view: "view_follows dm \<Longrightarrow> view_follows (dm_step lib op dm)"
  by (cases op) (simp_all add: view_follows_upsert view_follows_remove view_follows_prune view_follows_clear)

lemma dm_inv_empty: "dm_inv lib empty_devices"
  by (simp add: dm_inv_def empty_devices_def rows_sorted_def MaxDevices_def)

lemma run_dm_both:
  assumes "qt_ok lib"
  shows "dm_inv lib (run_dm lib ops) \<and> view_follows (run_dm lib ops)"
proof -
  have "dm_inv lib (fold (dm_step lib) ops dm) \<and> view_follows (fold (dm_step lib) ops dm)"
    if "dm_inv lib dm" "view_follows dm" for dm
    using that by (induction ops arbitrary: dm) (simp_all add: dm_step_inv [OF assms] dm_step_view)
  moreover have "view_follows empty_devices" by (simp add: view_follows_def empty_devices_def)
  ultimately show ?thesis by (simp only: run_dm_def dm_inv_empty)
qed

text \<open>
  C30. Whatever arrives in whatever order, the device list stays sorted by alias (ignoring case,
  the fingerprint breaking ties), holds each fingerprint once, never exceeds 64 rows, lists only
  devices with a fingerprint, an address and a date, and every row index it ever signalled to a
  view was in range when it was signalled, adding up to the rows there are.
\<close>

theorem device_list_well_formed:
  assumes "qt_ok lib"
  shows "dm_inv lib (run_dm lib ops) \<and> view_follows (run_dm lib ops)"
  using assms by (rule run_dm_both)

theorem device_list_well_formed_witness:
  "dm_inv ascii_qt (run_dm ascii_qt
     [Upsert None 0 (new_DeviceInfo\<lparr>dev_alias := qs ''b'', fingerprint := qs ''2'', address := qs ''x''\<rparr>),
      Upsert None 0 (new_DeviceInfo\<lparr>dev_alias := qs ''A'', fingerprint := qs ''1'', address := qs ''y''\<rparr>),
      PruneRows 90000 50])"
  using device_list_well_formed [OF ascii_qt_ok] by blast

text \<open>
  C31. \<open>upsert\<close> is an update of a map keyed by fingerprint: a valid, unblocked device that is
  listed already or for which there is room is afterwards found under its fingerprint, stamped
  with the present, every other row is untouched, and the answer is true exactly when the
  fingerprint was not listed before; with a full list and a new fingerprint nothing changes.
\<close>

theorem upsert_is_map_update:
  assumes "dm_inv lib dm" "isValid d" "address d \<noteq> []" "\<not> blocked_by lib kn (fingerprint d)"
    and "upsert lib kn now d dm = (fresh, dm')"
  shows "(if \<not> contains_device (fingerprint d) dm \<and> length (m_devices dm) \<ge> MaxDevices
          then \<not> fresh \<and> dm' = dm
          else fresh = (\<not> contains_device (fingerprint d) dm)
             \<and> set (m_devices dm') = insert (d\<lparr>lastSeen := Some now\<rparr>)
                 {row \<in> set (m_devices dm). fingerprint row \<noteq> fingerprint d})"
proof (cases "\<not> contains_device (fingerprint d) dm \<and> length (m_devices dm) \<ge> MaxDevices")
  case True
  with assms(5) upsert_full [OF assms(2-4), of dm now] show ?thesis by simp
next
  case False
  have "set (m_devices (snd (upsert lib kn now d dm))) = insert (d\<lparr>lastSeen := Some now\<rparr>)
      {row \<in> set (m_devices dm). fingerprint row \<noteq> fingerprint d}"
    using False by (intro upsert_rows [OF assms(1-4)]) auto
  moreover have "fst (upsert lib kn now d dm) = (\<not> contains_device (fingerprint d) dm)"
    using assms(2-4) False
    by (auto simp: upsert_def contains_device_def Let_def split: option.split)
  moreover have "fresh = fst (upsert lib kn now d dm)" "dm' = snd (upsert lib kn now d dm)"
    by (simp_all add: assms(5))
  ultimately show ?thesis by (simp only: False if_False)
qed

theorem upsert_is_map_update_witness:
  "let d = new_DeviceInfo\<lparr>dev_alias := qs ''b'', fingerprint := qs ''2'', address := qs ''x''\<rparr>;
       (fresh, dm') = upsert ascii_qt None 7 d empty_devices
   in fresh \<and> set (m_devices dm') = {d\<lparr>lastSeen := Some 7\<rparr>}"
proof -
  let ?d = "new_DeviceInfo\<lparr>dev_alias := qs ''b'', fingerprint := qs ''2'', address := qs ''x''\<rparr>"
  obtain fresh dm' where up: "upsert ascii_qt None 7 ?d empty_devices = (fresh, dm')" by fastforce
  have "isValid ?d" "address ?d \<noteq> []" "\<not> blocked_by ascii_qt None (fingerprint ?d)"
    by (simp_all add: isValid_def blocked_by_def)
  from upsert_is_map_update [OF dm_inv_empty this up]
  have "fresh \<and> set (m_devices dm') = {?d\<lparr>lastSeen := Some 7\<rparr>}"
    by (simp add: contains_device_def indexOfFingerprint_def empty_devices_def MaxDevices_def)
  then show ?thesis by (simp only: Let_def up prod.case)
qed

text \<open>
  A blocked device is not in the list after it announces itself: once a key is blocked, and
  whatever else is recorded or forgotten as long as nobody unblocks it, an announcement under
  that key in any case, alias or address reports nothing new, removes the row it may have had,
  and leaves every other row.
\<close>

theorem blocked_device_not_listed:
  assumes "qt_ok lib" "dm_inv lib dm" "kd_inv lib kd" "fp \<noteq> []" "fingerprint d \<noteq> []" "address d \<noteq> []"
    and "q_toUpper lib (fingerprint d) = q_toUpper lib fp"
    and "kd' = fold (run_known lib) ks (setBlocked lib now0 fp name True kd)"
    and "\<forall>k \<in> set ks. \<not> unblocks lib fp k"
    and "upsert lib (Some kd') now d dm = (fresh, dm')"
  shows "\<not> fresh \<and> \<not> contains_device (fingerprint d) dm'
    \<and> set (m_devices dm') = {row \<in> set (m_devices dm). fingerprint row \<noteq> fingerprint d}"
proof -
  have "isBlocked lib (fingerprint d) (fold (\<lambda>op. op) (map (run_known lib) ks) (setBlocked lib now0 fp name True kd))"
  proof (rule known.blocked_forever)
    show "qt_ok lib \<and> kd_inv lib kd" using assms(1,3) by blast
    show "set (map (run_known lib) ks) \<subseteq> {op. \<exists>k. op = run_known lib k \<and> \<not> unblocks lib fp k}"
      using assms(9) by auto
  qed (use assms(4,5,7) in simp_all)
  moreover have "fold (\<lambda>op. op) (map (run_known lib) ks) s = fold (run_known lib) ks s" for s
    by (induction ks arbitrary: s) simp_all
  ultimately have "isBlocked lib (fingerprint d) kd'" by (simp only: assms(8))
  then have up: "upsert lib (Some kd') now d dm = (False, dm_remove (fingerprint d) dm)"
    using assms(5,6) by (intro upsert_blocked) (simp_all add: isValid_def blocked_by_def)
  have wf: "distinct (map fingerprint (m_devices dm))" using assms(2) by (simp add: dm_inv_def)
  have pair: "(fresh, dm') = (False, dm_remove (fingerprint d) dm)" using trans [OF sym [OF assms(10)] up] .
  have rows: "set (m_devices (dm_remove (fingerprint d) dm))
      = {row \<in> set (m_devices dm). fingerprint row \<noteq> fingerprint d}"
    by (rule set_dm_remove [OF wf])
  have "\<not> contains_device (fingerprint d) (dm_remove (fingerprint d) dm)"
    unfolding contains_device_def indexOf_None rows image_iff by fastforce
  with pair rows show ?thesis by blast
qed

theorem blocked_device_not_listed_witness:
  "let d = new_DeviceInfo\<lparr>dev_alias := qs ''b'', fingerprint := qs ''Ab'', address := qs ''x''\<rparr>;
       dm = snd (upsert ascii_qt None 7 d empty_devices);
       kd = remember ascii_qt 8 (qs ''aB'') (qs ''c'') (setBlocked ascii_qt 8 (qs ''aB'') (qs ''b'') True no_devices)
   in set (m_devices (snd (upsert ascii_qt (Some kd) 9 d dm))) = {row \<in> set (m_devices dm). fingerprint row \<noteq> qs ''Ab''}"
proof -
  let ?d = "new_DeviceInfo\<lparr>dev_alias := qs ''b'', fingerprint := qs ''Ab'', address := qs ''x''\<rparr>"
  let ?dm = "snd (upsert ascii_qt None 7 ?d empty_devices)"
  let ?kd = "fold (run_known ascii_qt) [Remember 8 (qs ''aB'') (qs ''c'')]
     (setBlocked ascii_qt 8 (qs ''aB'') (qs ''b'') True no_devices)"
  obtain fresh dm' where up: "upsert ascii_qt (Some ?kd) 9 ?d ?dm = (fresh, dm')" by fastforce
  have "dm_inv ascii_qt ?dm" by (rule upsert_inv [OF ascii_qt_ok dm_inv_empty])
  moreover have "kd_inv ascii_qt no_devices" by (simp add: kd_inv_def no_devices_def qhash_wf_def)
  moreover have "q_toUpper ascii_qt (fingerprint ?d) = q_toUpper ascii_qt (qs ''aB'')" by code_simp
  ultimately have "set (m_devices dm') = {row \<in> set (m_devices ?dm). fingerprint row \<noteq> fingerprint ?d}"
    using blocked_device_not_listed [OF ascii_qt_ok _ _ _ _ _ _ refl _ up] by simp
  then show ?thesis using up by (simp add: Let_def)
qed

lemma prune_rows_none:
  "list_all (keeps_row now maxAge) (take n (m_devices dm)) \<Longrightarrow> n \<le> length (m_devices dm)
     \<Longrightarrow> prune_rows now maxAge n dm removed = (dm, removed)"
  by (induction n) (simp_all add: take_Suc_conv_app_nth)

lemma prune_rows_grows:
  "\<exists>sigs. dm_signals (fst (prune_rows now maxAge n dm removed)) = dm_signals dm @ sigs"
proof (induction n arbitrary: dm removed)
  case (Suc i)
  from Suc.IH [of dm removed]
    Suc.IH [of "signal [RowRemoved i] (dm\<lparr>m_devices := remove_at i (m_devices dm)\<rparr>)" True]
  show ?case by (simp only: prune_rows.simps signal_simps) (auto split: if_splits)
qed simp

text \<open>
  \<open>prune\<close>, which removes rows while it counts down over them, keeps exactly the rows seen
  within the allowed age, in their order, and signals a changed count, last, exactly when it
  removed something.
\<close>

theorem prune_keeps_fresh_rows:
  "m_devices (dm_prune now maxAge dm)
     = filter (\<lambda>d. \<exists>t. lastSeen d = Some t \<and> secsTo t now \<le> maxAge) (m_devices dm)
   \<and> (if m_devices (dm_prune now maxAge dm) = m_devices dm then dm_prune now maxAge dm = dm
      else \<exists>sigs. dm_signals (dm_prune now maxAge dm) = dm_signals dm @ sigs @ [CountChanged])"
proof -
  let ?keep = "keeps_row now maxAge" and ?ds = "m_devices dm"
  have keep: "?keep = (\<lambda>d. \<exists>t. lastSeen d = Some t \<and> secsTo t now \<le> maxAge)"
    by (rule ext) (simp add: keeps_row_def split: option.split)
  have all: "dm_prune now maxAge dm = dm" if "list_all ?keep ?ds"
    using that prune_rows_none [of now maxAge "length ?ds" dm False] by (simp add: dm_prune_def)
  have some: "\<exists>sigs. dm_signals (dm_prune now maxAge dm) = dm_signals dm @ sigs @ [CountChanged]"
    if "\<not> list_all ?keep ?ds"
  proof -
    obtain dm' removed where p: "prune_rows now maxAge (length ?ds) dm False = (dm', removed)" by fastforce
    have "removed" using that prune_rows_spec [of "length ?ds" dm now maxAge False] p by simp
    with p prune_rows_grows [of now maxAge "length ?ds" dm False] show ?thesis
      by (auto simp: dm_prune_def)
  qed
  have "filter ?keep ?ds = ?ds \<longleftrightarrow> list_all ?keep ?ds" by (simp add: filter_id_conv list_all_iff)
  with all some show ?thesis unfolding keep [symmetric] by (simp add: prune_filter)
qed

end
