(* ===== verification/Rate_Limiter.thy ===== *)
theory Rate_Limiter
  imports Prelude
begin

text \<open>
  \<open>src/src/ratelimiter.cpp\<close>: the per-address backoff on wrong PINs. Time is the clock's
  \<open>elapsed()\<close> in milliseconds, an argument of every operation that reads it.
\<close>

section \<open>State and constants\<close>

definition FreeAttempts :: int where
  "FreeAttempts = 3"

definition BaseBackoffMs :: int where
  "BaseBackoffMs = 1000"

definition MaxBackoffMs :: int where
  "MaxBackoffMs = 15 * 60 * 1000"

definition ForgetAfterMs :: int where
  "ForgetAfterMs = 60 * 60 * 1000"

definition MaxEntries :: nat where
  "MaxEntries = 512"

record LimiterEntry =
  failures :: int
  blockedUntil :: int

definition new_entry :: LimiterEntry where
  "new_entry = \<lparr>failures = 0, blockedUntil = 0\<rparr>"

record RateLimiter =
  m_entries :: "(qstring, LimiterEntry) qhash"
  m_offset :: int

definition new_limiter :: RateLimiter where
  "new_limiter = \<lparr>m_entries = [], m_offset = 0\<rparr>"

section \<open>Operations\<close>

definition now_ms :: "int \<Rightarrow> RateLimiter \<Rightarrow> int" where
  "now_ms elapsed rl = elapsed + m_offset rl"

definition setClockOffset :: "int \<Rightarrow> RateLimiter \<Rightarrow> RateLimiter" where
  "setClockOffset ms rl = rl\<lparr>m_offset := ms\<rparr>"

definition allow :: "int \<Rightarrow> qstring \<Rightarrow> RateLimiter \<Rightarrow> bool" where
  "allow elapsed key rl =
     (case map_of (m_entries rl) key of
        None \<Rightarrow> True
      | Some e \<Rightarrow> now_ms elapsed rl \<ge> blockedUntil e)"

definition retryAfter :: "int \<Rightarrow> qstring \<Rightarrow> RateLimiter \<Rightarrow> int" where
  "retryAfter elapsed key rl =
     (case map_of (m_entries rl) key of
        None \<Rightarrow> 0
      | Some e \<Rightarrow>
          let remaining = blockedUntil e - now_ms elapsed rl
          in if remaining \<le> 0 then 0 else (remaining + 999) div 1000)"

definition prune :: "int \<Rightarrow> RateLimiter \<Rightarrow> RateLimiter" where
  "prune elapsed rl =
     (let current = now_ms elapsed rl
      in rl\<lparr>m_entries := filter
           (\<lambda>(k, e). \<not> (blockedUntil e \<noteq> 0 \<and> current - blockedUntil e > ForgetAfterMs))
           (m_entries rl)\<rparr>)"

text \<open>The loop \<open>for (i = FreeAttempts + 1; i < failures && backoff < Max; ++i) backoff *= 2\<close>.\<close>

function double_backoff :: "int \<Rightarrow> int \<Rightarrow> int \<Rightarrow> int" where
  "double_backoff i n backoff =
     (if i < n \<and> backoff < MaxBackoffMs then double_backoff (i + 1) n (backoff * 2) else backoff)"
  by pat_completeness auto
termination
  by (relation "measure (\<lambda>(i, n, b). nat (n - i))") auto

declare double_backoff.simps [simp del]

definition backoff_for :: "int \<Rightarrow> int" where
  "backoff_for n =
     (let backoff = double_backoff (FreeAttempts + 1) n BaseBackoffMs
      in if backoff > MaxBackoffMs then MaxBackoffMs else backoff)"

definition recordFailure :: "int \<Rightarrow> qstring \<Rightarrow> RateLimiter \<Rightarrow> RateLimiter" where
  "recordFailure elapsed key rl0 =
     (let rl = prune elapsed rl0
      in if map_of (m_entries rl) key = None \<and> length (m_entries rl) \<ge> MaxEntries then rl
         else
           let old = (case map_of (m_entries rl) key of None \<Rightarrow> new_entry | Some e \<Rightarrow> e);
               entry = old\<lparr>failures := failures old + 1\<rparr>;
               entry' = (if failures entry \<le> FreeAttempts then entry
                         else entry\<lparr>blockedUntil := now_ms elapsed rl + backoff_for (failures entry)\<rparr>)
           in rl\<lparr>m_entries := AList.update key entry' (m_entries rl)\<rparr>)"

definition recordSuccess :: "qstring \<Rightarrow> RateLimiter \<Rightarrow> RateLimiter" where
  "recordSuccess key rl = rl\<lparr>m_entries := AList.delete key (m_entries rl)\<rparr>"

definition clear_limiter :: "RateLimiter \<Rightarrow> RateLimiter" where
  "clear_limiter rl = rl\<lparr>m_entries := []\<rparr>"

lemmas limiter_defs = allow_def retryAfter_def prune_def recordFailure_def recordSuccess_def
  clear_limiter_def setClockOffset_def now_ms_def new_limiter_def new_entry_def

lemmas limiter_constants = FreeAttempts_def BaseBackoffMs_def MaxBackoffMs_def ForgetAfterMs_def
  MaxEntries_def

section \<open>The backoff\<close>

lemma min_double_backoff:
  "0 < b \<Longrightarrow> min MaxBackoffMs (double_backoff i n b) = min MaxBackoffMs (b * 2 ^ nat (n - i))"
proof (induction i n b rule: double_backoff.induct)
  case (1 i n b)
  show ?case
  proof (cases "i < n \<and> b < MaxBackoffMs")
    case True
    then have "nat (n - i) = Suc (nat (n - (i + 1)))" by arith
    with 1 True show ?thesis by (simp add: double_backoff.simps [of i n b] mult.assoc)
  next
    case False
    have "b \<le> b * 2 ^ nat (n - i)" using 1(2) by simp
    with False show ?thesis by (auto simp: double_backoff.simps [of i n b] min_def)
  qed
qed

lemma backoff_for_eq: "backoff_for n = min MaxBackoffMs (BaseBackoffMs * 2 ^ nat (n - 4))"
proof -
  have "backoff_for n = min MaxBackoffMs (double_backoff 4 n BaseBackoffMs)"
    by (simp add: backoff_for_def FreeAttempts_def min_def Let_def)
  then show ?thesis by (simp add: min_double_backoff BaseBackoffMs_def)
qed

lemma backoff_for_bounds: "BaseBackoffMs \<le> backoff_for n" "backoff_for n \<le> MaxBackoffMs"
  by (simp_all add: backoff_for_eq limiter_constants)

lemma backoff_for_mono: "m \<le> n \<Longrightarrow> backoff_for m \<le> backoff_for n"
  unfolding backoff_for_eq by (intro min.mono mult_left_mono power_increasing) (auto simp: limiter_constants)

lemma backoff_for_pos [simp]: "0 < backoff_for n"
  using backoff_for_bounds(1) [of n] by (simp add: BaseBackoffMs_def)


section \<open>The table\<close>

definition limiter_inv :: "RateLimiter \<Rightarrow> bool" where
  "limiter_inv rl \<longleftrightarrow> qhash_wf (m_entries rl) \<and> length (m_entries rl) \<le> MaxEntries
     \<and> (\<forall>(k, e) \<in> set (m_entries rl).
          1 \<le> failures e \<and> (failures e \<le> FreeAttempts \<longrightarrow> blockedUntil e = 0))"

lemma m_offset_simps [simp]:
  "m_offset (prune t rl) = m_offset rl"
  "m_offset (recordFailure t k rl) = m_offset rl"
  "m_offset (recordSuccess k rl) = m_offset rl"
  by (simp_all add: prune_def recordFailure_def recordSuccess_def Let_def)

lemma now_ms_offset_cong: "m_offset a = m_offset b \<Longrightarrow> now_ms t a = now_ms t b"
  by (simp add: now_ms_def)

lemma find_prune:
  assumes "qhash_wf (m_entries rl)"
  shows "map_of (m_entries (prune t rl)) k =
    (case map_of (m_entries rl) k of None \<Rightarrow> None
     | Some e \<Rightarrow> if blockedUntil e \<noteq> 0 \<and> now_ms t rl - blockedUntil e > ForgetAfterMs then None else Some e)"
  using assms by (simp add: prune_def Let_def map_of_filter_keys split: option.splits)

lemma prune_wf [simp]: "qhash_wf (m_entries rl) \<Longrightarrow> qhash_wf (m_entries (prune t rl))"
  by (simp add: prune_def Let_def)

lemma length_prune: "length (m_entries (prune t rl)) \<le> length (m_entries rl)"
  by (simp add: prune_def Let_def)

lemma prune_inv: "limiter_inv rl \<Longrightarrow> limiter_inv (prune t rl)"
  using length_prune [of t rl] by (auto simp: limiter_inv_def) (auto simp: prune_def Let_def)

lemma recordSuccess_inv: "limiter_inv rl \<Longrightarrow> limiter_inv (recordSuccess k rl)"
  unfolding limiter_inv_def recordSuccess_def
  using qhash.capped_del [of "m_entries rl" MaxEntries k] 
  by (auto simp: qhash.wf_del AList.delete_eq)

text \<open>What one failure writes, when the table has room for the address.\<close>

definition has_room :: "int \<Rightarrow> qstring \<Rightarrow> RateLimiter \<Rightarrow> bool" where
  "has_room t key rl \<longleftrightarrow> map_of (m_entries (prune t rl)) key \<noteq> None
     \<or> length (m_entries (prune t rl)) < MaxEntries"

definition failures_of :: "int \<Rightarrow> qstring \<Rightarrow> RateLimiter \<Rightarrow> int" where
  "failures_of t key rl =
     (case map_of (m_entries (prune t rl)) key of None \<Rightarrow> 0 | Some e \<Rightarrow> failures e)"

lemma recordFailure_full:
  "\<not> has_room t key rl \<Longrightarrow> recordFailure t key rl = prune t rl"
  by (simp add: has_room_def recordFailure_def Let_def)

lemma recordFailure_other:
  "k' \<noteq> key \<Longrightarrow> map_of (m_entries (recordFailure t key rl)) k' = map_of (m_entries (prune t rl)) k'"
  by (simp add: recordFailure_def Let_def)

lemma recordFailure_self:
  assumes "has_room t key rl"
  shows "map_of (m_entries (recordFailure t key rl)) key = Some
    (let n = failures_of t key rl + 1
     in if n \<le> FreeAttempts
        then (case map_of (m_entries (prune t rl)) key of None \<Rightarrow> new_entry | Some e \<Rightarrow> e)\<lparr>failures := n\<rparr>
        else \<lparr>failures = n, blockedUntil = now_ms t rl + backoff_for n\<rparr>)"
  using assms
  by (auto simp: recordFailure_def has_room_def failures_of_def Let_def new_entry_def now_ms_def
      split: option.splits)

lemma recordFailure_wf: "qhash_wf (m_entries rl) \<Longrightarrow> qhash_wf (m_entries (recordFailure t k rl))"
  by (simp add: recordFailure_def Let_def qhash.wf_put)

lemma recordFailure_inv: "limiter_inv rl \<Longrightarrow> limiter_inv (recordFailure t key rl)"
proof (cases "has_room t key rl")
  case True
  assume inv: "limiter_inv rl"
  have len: "length (m_entries (recordFailure t key rl)) \<le> MaxEntries"
    using True prune_inv [OF inv, of t]
    by (auto simp: recordFailure_def has_room_def limiter_inv_def Let_def length_alist_update)
  have wf: "qhash_wf (m_entries (recordFailure t key rl))"
    using inv by (intro recordFailure_wf) (simp add: limiter_inv_def)
  have "1 \<le> failures e \<and> (failures e \<le> FreeAttempts \<longrightarrow> blockedUntil e = 0)"
    if "(k, e) \<in> set (m_entries (recordFailure t key rl))" for k e
  proof -
    have get: "map_of (m_entries (recordFailure t key rl)) k = Some e"
      using that wf by (simp add: qhash_wf_def)
    have old: "1 \<le> failures e' \<and> (failures e' \<le> FreeAttempts \<longrightarrow> blockedUntil e' = 0)"
      if "map_of (m_entries (prune t rl)) k' = Some e'" for k' e'
      using prune_inv [OF inv, of t] map_of_SomeD [OF that] by (auto simp: limiter_inv_def)
    show ?thesis
    proof (cases "k = key")
      case k: True
      show ?thesis
      proof (cases "map_of (m_entries (prune t rl)) key")
        case None
        with get k recordFailure_self [OF True] show ?thesis
          by (auto simp: Let_def failures_of_def new_entry_def FreeAttempts_def)
      next
        case (Some e')
        with get k recordFailure_self [OF True] old [OF Some] show ?thesis
          by (auto simp: Let_def failures_of_def)
      qed
    next
      case False
      with get have "map_of (m_entries (prune t rl)) k = Some e" by (simp add: recordFailure_other)
      then show ?thesis by (rule old)
    qed
  qed
  with len wf show ?thesis by (auto simp: limiter_inv_def)
next
  case False
  assume "limiter_inv rl"
  with False show ?thesis by (simp add: recordFailure_full prune_inv)
qed


section \<open>The interface a request handler relies on\<close>

text \<open>
  A throttle admits a key at a time or does not, and is told of failures and successes. What
  its client relies on: a key's own success clears it, other keys' events do not change
  whether it is admitted, and a key once admitted stays admitted until it fails again.
\<close>

locale throttle =
  fixes admit :: "int \<Rightarrow> 'k \<Rightarrow> 's \<Rightarrow> bool"
    and fail :: "int \<Rightarrow> 'k \<Rightarrow> 's \<Rightarrow> 's"
    and succeed :: "'k \<Rightarrow> 's \<Rightarrow> 's"
    and inv :: "'s \<Rightarrow> bool"
  assumes fail_inv: "inv s \<Longrightarrow> inv (fail t k s)"
    and succeed_inv: "inv s \<Longrightarrow> inv (succeed k s)"
    and fail_other: "inv s \<Longrightarrow> k' \<noteq> k \<Longrightarrow> t \<le> t' \<Longrightarrow> admit t' k' (fail t k s) = admit t' k' s"
    and succeed_self: "admit t k (succeed k s)"
    and succeed_other: "k' \<noteq> k \<Longrightarrow> admit t k' (succeed k s) = admit t k' s"
    and admit_mono: "admit t k s \<Longrightarrow> t \<le> t' \<Longrightarrow> admit t' k s"
begin

lemma fails_inv: "inv s \<Longrightarrow> inv (fold (\<lambda>(t, k). fail t k) evs s)"
  by (induction evs arbitrary: s) (auto intro: fail_inv)

lemma fails_other:
  assumes "inv s" and "\<forall>(t, k') \<in> set evs. k' \<noteq> k \<and> t \<le> t'"
  shows "admit t' k (fold (\<lambda>(t, k). fail t k) evs s) = admit t' k s"
  using assms
proof (induction evs arbitrary: s)
  case (Cons ev evs)
  obtain t k' where ev: "ev = (t, k')" by fastforce
  with Cons.prems have "admit t' k (fold (\<lambda>(t, k). fail t k) evs (fail t k' s)) = admit t' k (fail t k' s)"
    by (intro Cons.IH) (auto intro: fail_inv)
  with Cons.prems ev fail_other [of s k k' t t'] show ?case by auto
qed simp

lemma succeed_stays: "inv s \<Longrightarrow> \<forall>(t, k') \<in> set evs. k' \<noteq> k \<and> t \<le> t'
    \<Longrightarrow> admit t' k (fold (\<lambda>(t, k). fail t k) evs (succeed k s))"
  by (subst fails_other) (auto intro: succeed_inv succeed_self)

end

lemma allow_prune:
  "qhash_wf (m_entries rl) \<Longrightarrow> t \<le> t' \<Longrightarrow> allow t' k (prune t rl) = allow t' k rl"
  by (auto simp: allow_def find_prune now_ms_def ForgetAfterMs_def split: option.splits)

interpretation limiter: throttle allow recordFailure recordSuccess limiter_inv
proof (unfold_locales, goal_cases)
  case (1 s t k) then show ?case by (rule recordFailure_inv)
next
  case (2 s k) then show ?case by (rule recordSuccess_inv)
next
  case (3 s k' k t t')
  then have "allow t' k' (prune t s) = allow t' k' s"
    by (intro allow_prune) (simp_all add: limiter_inv_def)
  moreover have "allow t' k' (recordFailure t k s) = allow t' k' (prune t s)"
    using 3 by (simp add: allow_def recordFailure_other now_ms_def split: option.split)
  ultimately show ?case by simp
next
  case (4 t k s) show ?case by (simp add: allow_def recordSuccess_def)
next
  case (5 k' k t s) then show ?case
    by (simp add: allow_def recordSuccess_def now_ms_def split: option.split)
next
  case (6 t k s t') then show ?case by (auto simp: allow_def now_ms_def split: option.splits)
qed

section \<open>Properties\<close>

text \<open>
  The backoff after the \<open>n\<close>-th failure is one second doubled for every failure past the
  fourth and capped at fifteen minutes: the loop that computes it agrees with that closed
  form for every count, so it never overflows, is never below a second and never decreases.
\<close>

theorem backoff_doubles_to_cap:
  "backoff_for n = min (15 * 60 * 1000) (1000 * 2 ^ nat (n - 4))
   \<and> 1000 \<le> backoff_for n \<and> backoff_for n \<le> backoff_for (n + 1)"
  using backoff_for_bounds [of n] backoff_for_mono [of n "n + 1"]
  by (simp add: backoff_for_eq limiter_constants)

lemma ceil_of_quotient:
  "1000 * q + m = r + 999 \<Longrightarrow> m < 1000 \<Longrightarrow> 0 \<le> m \<Longrightarrow> 0 < (r::int)
    \<Longrightarrow> r \<le> 1000 * q \<and> 1000 * (q - 1) < r \<and> 0 < q"
  by auto

lemma ceil_div_1000:
  "0 < (r::int) \<Longrightarrow> r \<le> 1000 * ((r + 999) div 1000) \<and> 1000 * ((r + 999) div 1000 - 1) < r
    \<and> 0 < (r + 999) div 1000"
  by (rule ceil_of_quotient [of _ "(r + 999) mod 1000"]) simp_all

text \<open>
  \<open>Retry-After\<close> tells the truth: it is zero exactly when the address may try now, waiting
  that many seconds is enough, and waiting one second less is not.
\<close>

theorem retryAfter_exact:
  "(retryAfter t k rl = 0 \<longleftrightarrow> allow t k rl)
   \<and> 0 \<le> retryAfter t k rl
   \<and> allow (t + 1000 * retryAfter t k rl) k rl
   \<and> (retryAfter t k rl = 0 \<or> \<not> allow (t + 1000 * (retryAfter t k rl - 1)) k rl)"
proof (cases "map_of (m_entries rl) k")
  case None
  then show ?thesis by (simp add: retryAfter_def allow_def)
next
  case (Some e)
  let ?r = "blockedUntil e - now_ms t rl"
  show ?thesis
  proof (cases "?r \<le> 0")
    case True
    with Some show ?thesis by (simp add: retryAfter_def allow_def)
  next
    case False
    then have "0 < ?r" by simp
    from ceil_div_1000 [OF this] Some False show ?thesis
      by (simp add: retryAfter_def allow_def now_ms_def Let_def)
  qed
qed

text \<open>
  The address table never holds more than 512 entries and stays well formed, whatever
  failures, successes and prunings are applied to it.
\<close>

theorem limiter_inv_kept:
  "limiter_inv new_limiter
   \<and> (limiter_inv rl \<longrightarrow> limiter_inv (recordFailure t k rl) \<and> limiter_inv (recordSuccess k rl)
        \<and> limiter_inv (prune t rl) \<and> limiter_inv (clear_limiter rl)
        \<and> length (m_entries (recordFailure t k rl)) \<le> 512)"
  using recordFailure_inv [of rl t k]
  by (auto simp: recordSuccess_inv prune_inv)
    (auto simp: limiter_inv_def new_limiter_def clear_limiter_def qhash_wf_def MaxEntries_def)

theorem limiter_inv_kept_witness:
  "limiter_inv (recordFailure 5 (qs ''10.0.0.2'') new_limiter)"
  using limiter_inv_kept [of "new_limiter" 5 "qs ''10.0.0.2''"] by blast

text \<open>
  One address's failures never lock another out: after any sequence of failures recorded
  for other addresses, an address is admitted exactly when it was before them.
\<close>

theorem failures_do_not_spread:
  assumes "limiter_inv rl" and "\<forall>(t, k') \<in> set evs. k' \<noteq> k \<and> t \<le> now"
  shows "allow now k (fold (\<lambda>(t, k). recordFailure t k) evs rl) = allow now k rl"
  by (rule limiter.fails_other [OF assms])

theorem failures_do_not_spread_witness:
  "allow 9 (qs ''10.0.0.3'') (fold (\<lambda>(t, k). recordFailure t k)
     (replicate 7 (8, qs ''10.0.0.2'')) new_limiter) = allow 9 (qs ''10.0.0.3'') new_limiter"
  by (rule failures_do_not_spread) (simp_all add: limiter_inv_def new_limiter_def qhash_wf_def)


section \<open>How many wrong codes an address gets\<close>

text \<open>
  A stream of wrong codes from one address, as the request handler treats it: an admitted one
  is checked and recorded as a failure, the others are turned away. The count is of the
  codes that were checked.
\<close>

fun checked_guesses :: "qstring \<Rightarrow> int list \<Rightarrow> RateLimiter \<Rightarrow> nat" where
  "checked_guesses key [] rl = 0"
| "checked_guesses key (t # ts) rl =
     (if allow t key rl then Suc (checked_guesses key ts (recordFailure t key rl))
      else checked_guesses key ts rl)"

fun waited :: "nat \<Rightarrow> int" where
  "waited 0 = 0"
| "waited (Suc n) = (if n < 3 then 0 else waited n + backoff_for (int (Suc n)))"

lemma waited_Suc: "3 \<le> n \<Longrightarrow> waited (Suc n) = waited n + backoff_for (int (Suc n))"
  by simp

lemma waited_3: "waited 3 = 0"
  by (simp add: numeral_3_eq_3)

lemma waited_nonneg: "0 \<le> waited n"
  by (induction n) (auto intro!: add_nonneg_nonneg less_imp_le [OF backoff_for_pos])

lemma waited_16: "waited 16 = 3723000"
  by (simp add: numeral_eq_Suc backoff_for_eq limiter_constants)

text \<open>
  What is known of the address after \<open>c\<close> checked failures since time \<open>t0\<close>.
\<close>

definition failed_since :: "int \<Rightarrow> qstring \<Rightarrow> nat \<Rightarrow> RateLimiter \<Rightarrow> bool" where
  "failed_since t0 key c rl \<longleftrightarrow> m_offset rl = 0 \<and> qhash_wf (m_entries rl) \<and>
     (case map_of (m_entries rl) key of
        None \<Rightarrow> c = 0 \<and> length (m_entries rl) < MaxEntries
      | Some e \<Rightarrow> failures e = int c \<and> (if c \<le> 3 then blockedUntil e = 0
                  else t0 + waited c \<le> blockedUntil e))"

lemma failed_since_step:
  assumes st: "failed_since t0 key c rl" and al: "allow t key rl"
    and t: "0 \<le> t0" "t0 \<le> t" "t \<le> t0 + ForgetAfterMs"
  shows "failed_since t0 key (Suc c) (recordFailure t key rl)"
proof -
  have wf: "qhash_wf (m_entries rl)" and off: "m_offset rl = 0"
    using st by (simp_all add: failed_since_def)
  have kept: "map_of (m_entries (prune t rl)) key = map_of (m_entries rl) key"
    using st t waited_nonneg [of c] off
    by (auto simp: find_prune [OF wf] failed_since_def now_ms_def split: option.splits if_splits)
  have room: "has_room t key rl"
    using st length_prune [of t rl]
    by (auto simp: has_room_def kept failed_since_def split: option.splits)
  have n: "failures_of t key rl = int c"
    using st by (auto simp: failures_of_def kept failed_since_def split: option.splits)
  show ?thesis
  proof (cases "c < 3")
    case True
    then show ?thesis
      using st recordFailure_self [OF room] recordFailure_wf [OF wf] off
      by (auto simp: failed_since_def n kept Let_def FreeAttempts_def new_entry_def split: option.splits)
  next
    case False
    have "t0 + waited c \<le> t"
    proof (cases "c = 3")
      case True
      then show ?thesis using t by (simp add: waited_3)
    next
      case more: False
      then obtain e where "map_of (m_entries rl) key = Some e" "t0 + waited c \<le> blockedUntil e"
        using st False by (auto simp: failed_since_def split: option.splits)
      with al off show ?thesis by (simp add: allow_def now_ms_def)
    qed
    then show ?thesis
      using recordFailure_self [OF room] recordFailure_wf [OF wf] off False
      by (simp add: failed_since_def n Let_def FreeAttempts_def now_ms_def waited_Suc add.commute)
  qed
qed

lemma checked_guesses_bound:
  assumes "failed_since t0 key c rl" and "c \<le> 16" and "0 \<le> t0"
    and "\<forall>t \<in> set ts. t0 \<le> t \<and> t \<le> t0 + ForgetAfterMs"
  shows "c + checked_guesses key ts rl \<le> 16"
  using assms
proof (induction ts arbitrary: c rl)
  case (Cons t ts)
  show ?case
  proof (cases "allow t key rl")
    case True
    have "c \<noteq> 16"
      using Cons.prems True
      by (auto simp: failed_since_def allow_def now_ms_def waited_16 ForgetAfterMs_def split: option.splits)
    moreover have "failed_since t0 key (Suc c) (recordFailure t key rl)"
      using Cons.prems True by (intro failed_since_step) auto
    ultimately have "Suc c + checked_guesses key ts (recordFailure t key rl) \<le> 16"
      using Cons.prems by (intro Cons.IH) auto
    with True show ?thesis by simp
  next
    case False
    with Cons show ?thesis by simp
  qed
qed simp



text \<open>
  The other side of the cap on tracked addresses: an entry with at most three failures is
  never forgotten, because only an entry that was once blocked carries a time.
\<close>

lemma prune_unblocked: "\<forall>(k, e) \<in> set (m_entries rl). blockedUntil e = 0 \<Longrightarrow> prune t rl = rl"
  by (cases rl) (auto simp: prune_def Let_def intro!: filter_True)

lemma record_each_once:
  assumes "distinct ks" and "length ks \<le> MaxEntries"
  shows "fold (\<lambda>k. recordFailure (tm k) k) ks new_limiter =
    \<lparr>m_entries = map (\<lambda>k. (k, \<lparr>failures = 1, blockedUntil = 0\<rparr>)) ks, m_offset = 0\<rparr>"
  using assms
proof (induction ks rule: rev_induct)
  case (snoc k ks)
  let ?rl = "\<lparr>m_entries = map (\<lambda>k. (k, \<lparr>failures = 1, blockedUntil = 0\<rparr>)) ks, m_offset = 0\<rparr>"
  have none: "map_of (m_entries ?rl) k = None"
    using snoc.prems by (auto simp: map_of_eq_None_iff)
  have pr: "prune (tm k) ?rl = ?rl" by (rule prune_unblocked) auto
  have "AList.update k e (map (\<lambda>k. (k, v)) ks) = map (\<lambda>k. (k, v)) ks @ [(k, e)]" for e v
    using snoc.prems by (induction ks) auto
  then have "recordFailure (tm k) k ?rl = \<lparr>m_entries = map (\<lambda>k. (k, \<lparr>failures = 1, blockedUntil = 0\<rparr>)) (ks @ [k]), m_offset = 0\<rparr>"
    using snoc.prems none by (simp add: recordFailure_def pr Let_def new_entry_def FreeAttempts_def)
  with snoc show ?case by simp
qed (simp add: new_limiter_def)

lemma full_table_ignores:
  assumes "\<forall>(k, e) \<in> set (m_entries rl). blockedUntil e = 0" and "length (m_entries rl) = MaxEntries"
    and "map_of (m_entries rl) key = None"
  shows "checked_guesses key ts rl = length ts"
proof (induction ts)
  case (Cons t ts)
  have "recordFailure t key rl = rl"
    using assms by (simp add: recordFailure_def prune_unblocked Let_def)
  with Cons assms(3) show ?case by (simp add: allow_def)
qed simp

text \<open>
  The table can be filled for good by 512 addresses that mistype a PIN once each, at
  whatever times: from then on no failure of any other address is recorded, and every code
  that address sends is checked, whenever it is sent. The comments promise that an entry is
  forgotten after an hour of quiet; an entry with up to three failures never is.
\<close>

theorem full_table_disables_backoff:
  assumes "distinct ks" and "length ks = 512" and "key \<notin> set ks"
  shows "checked_guesses key ts (fold (\<lambda>k. recordFailure (tm k) k) ks new_limiter) = length ts"
  unfolding record_each_once [OF assms(1), unfolded MaxEntries_def assms(2), OF order_refl]
  using assms by (intro full_table_ignores) (auto simp: MaxEntries_def map_of_eq_None_iff)

theorem full_table_disables_backoff_witness:
  "checked_guesses [] (replicate 10000 7200000)
     (fold (\<lambda>k. recordFailure 0 k) (map (\<lambda>n. replicate (Suc n) 48) [0..<512]) new_limiter) = 10000"
proof -
  have "distinct (map (\<lambda>n. replicate (Suc n) (48 :: qchar)) [0..<512])"
    by (simp add: distinct_map inj_on_def)
  then have "checked_guesses [] (replicate 10000 7200000)
     (fold (\<lambda>k. recordFailure ((\<lambda>_. 0) k) k) (map (\<lambda>n. replicate (Suc n) 48) [0..<512]) new_limiter)
     = length (replicate 10000 (7200000 :: int))"
    by (rule full_table_disables_backoff) auto
  then show ?thesis by simp
qed

end
