(* ===== verification/Transfer_Model.thy ===== *)
theory Transfer_Model
  imports Platform "HOL-Library.Signed_Division"
begin

text \<open>
  \<open>src/src/transfermodel.cpp\<close>: the one transfer in flight, shared by the receiving and the
  sending service. Byte counters are \<open>qint64\<close>, kept in range by \<open>wrap64\<close>. \<open>now\<close> is the reading
  of the monotonic clock behind \<open>QElapsedTimer\<close>, in milliseconds; \<open>m_clock\<close> is the reading at
  its last restart, \<open>None\<close> when it was never started. \<open>tm_flushing\<close> says whether the flush
  timer is running. Rows are C++ \<open>int\<close>s, \<open>-1\<close> for none.
\<close>

section \<open>State\<close>

datatype FileStatus = FileWaiting | FileTransferring | FileDone | FileFailed | FileSkipped

datatype State = Idle | Pending | Requesting | Active | Finished | Failed | Cancelled

datatype Direction = NoDirection | Sending | Receiving

record FileEntry =
  fe_id :: qstring
  fileName :: qstring
  fe_size :: int
  fileType :: qstring
  sha256 :: qstring
  preview :: qstring
  token :: qstring
  localPath :: qstring
  transferred :: int
  fe_status :: FileStatus
  fe_error :: qstring

definition new_FileEntry :: FileEntry where
  "new_FileEntry = \<lparr>fe_id = [], fileName = [], fe_size = 0, fileType = [], sha256 = [], preview = [],
     token = [], localPath = [], transferred = 0, fe_status = FileWaiting, fe_error = []\<rparr>"

datatype tm_signal =
  StateChanged | PeerChanged | ProgressChanged | DestinationChanged | RowsReset | RowsChanged int int

record TransferModel =
  m_files :: "FileEntry list"
  m_state :: State
  m_direction :: Direction
  m_peerAlias :: qstring
  m_peerAddress :: qstring
  m_peerDeviceType :: qstring
  m_peerFingerprint :: qstring
  m_destination :: qstring
  m_errorText :: qstring
  m_totalBytes :: int
  m_transferredBytes :: int
  m_dirtyFirst :: int
  m_dirtyLast :: int
  tm_flushing :: bool
  m_clock :: "int option"
  m_speedSampleMs :: int
  m_speedSampleBytes :: int
  m_bytesPerSecond :: int
  tm_signals :: "tm_signal list"

definition new_TransferModel :: TransferModel where
  "new_TransferModel = \<lparr>m_files = [], m_state = Idle, m_direction = NoDirection, m_peerAlias = [],
     m_peerAddress = [], m_peerDeviceType = [], m_peerFingerprint = [], m_destination = [],
     m_errorText = [], m_totalBytes = 0, m_transferredBytes = 0, m_dirtyFirst = -1, m_dirtyLast = -1,
     tm_flushing = False, m_clock = None, m_speedSampleMs = 0, m_speedSampleBytes = 0,
     m_bytesPerSecond = 0, tm_signals = []\<rparr>"

definition SpeedWindowMs :: int where
  "SpeedWindowMs = 1000"

definition emits :: "tm_signal list \<Rightarrow> TransferModel \<Rightarrow> TransferModel" where
  "emits sigs tm = tm\<lparr>tm_signals := tm_signals tm @ sigs\<rparr>"

definition row_ok :: "int \<Rightarrow> TransferModel \<Rightarrow> bool" where
  "row_ok row tm \<longleftrightarrow> \<not> (row < 0 \<or> row \<ge> int (length (m_files tm)))"

section \<open>Readers\<close>

definition fileStatusName :: "FileStatus \<Rightarrow> qstring" where
  "fileStatusName status = (case status of
     FileTransferring \<Rightarrow> qs ''transferring'' | FileDone \<Rightarrow> qs ''done'' | FileFailed \<Rightarrow> qs ''failed''
   | FileSkipped \<Rightarrow> qs ''skipped'' | FileWaiting \<Rightarrow> qs ''waiting'')"

definition active :: "TransferModel \<Rightarrow> bool" where
  "active tm \<longleftrightarrow> m_state tm = Active \<or> m_state tm = Pending \<or> m_state tm = Requesting"

definition stateName :: "TransferModel \<Rightarrow> qstring" where
  "stateName tm = (case m_state tm of
     Pending \<Rightarrow> qs ''pending'' | Requesting \<Rightarrow> qs ''requesting'' | Active \<Rightarrow> qs ''active''
   | Finished \<Rightarrow> qs ''finished'' | Failed \<Rightarrow> qs ''failed'' | Cancelled \<Rightarrow> qs ''cancelled''
   | Idle \<Rightarrow> qs ''idle'')"

definition directionName :: "TransferModel \<Rightarrow> qstring" where
  "directionName tm = (case m_direction tm of
     Sending \<Rightarrow> qs ''send'' | Receiving \<Rightarrow> qs ''receive'' | NoDirection \<Rightarrow> [])"

definition completedCount :: "TransferModel \<Rightarrow> nat" where
  "completedCount tm = length (filter (\<lambda>f. fe_status f = FileDone) (m_files tm))"

definition failedCount :: "TransferModel \<Rightarrow> nat" where
  "failedCount tm = length (filter (\<lambda>f. fe_status f = FileFailed \<or> fe_status f = FileSkipped) (m_files tm))"

definition currentIndex :: "TransferModel \<Rightarrow> int" where
  "currentIndex tm =
     (case index_where (\<lambda>f. fe_status f = FileTransferring) (m_files tm) of
        Some i \<Rightarrow> int i
      | None \<Rightarrow>
          case index_where (\<lambda>f. fe_status f = FileWaiting) (m_files tm) of
            Some i \<Rightarrow> int i
          | None \<Rightarrow> if m_files tm = [] then -1 else int (length (m_files tm)) - 1)"

text \<open>
  \<open>qreal\<close> figures: the conversions round to 53 bits as the code's do, the quotient is left exact.
\<close>

definition progress :: "TransferModel \<Rightarrow> rat" where
  "progress tm =
     (if m_totalBytes tm \<le> 0
      then if m_files tm = [] then 0 else of_nat (completedCount tm) / of_nat (length (m_files tm))
      else let v = double_of_int (m_transferredBytes tm) / double_of_int (m_totalBytes tm)
           in if v > 1 then 1 else v)"

definition secondsRemaining :: "TransferModel \<Rightarrow> int" where
  "secondsRemaining tm =
     (if m_bytesPerSecond tm \<le> 0 \<or> m_totalBytes tm \<le> 0 \<or> m_state tm \<noteq> Active then -1
      else let left = wrap64 (m_totalBytes tm - m_transferredBytes tm)
           in if left \<le> 0 then 0
              else sint (word_of_int (left sdiv m_bytesPerSecond tm) :: 32 word))"

definition elapsedSeconds :: "int \<Rightarrow> TransferModel \<Rightarrow> int" where
  "elapsedSeconds now tm = (case m_clock tm of None \<Rightarrow> 0 | Some t \<Rightarrow>
     sint (word_of_int ((now - t) sdiv 1000) :: 32 word))"

definition indexOfFile :: "qstring \<Rightarrow> TransferModel \<Rightarrow> int" where
  "indexOfFile fileId tm =
     (case index_where (\<lambda>f. fe_id f = fileId) (m_files tm) of Some i \<Rightarrow> int i | None \<Rightarrow> -1)"

definition transferredPaths :: "TransferModel \<Rightarrow> qstring list" where
  "transferredPaths tm =
     map localPath (filter (\<lambda>f. fe_status f = FileDone \<and> localPath f \<noteq> []) (m_files tm))"

section \<open>Operations\<close>

definition recomputeTotals :: "TransferModel \<Rightarrow> TransferModel" where
  "recomputeTotals tm = tm\<lparr>m_totalBytes := fold (\<lambda>f acc. wrap64 (acc + fe_size f)) (m_files tm) 0\<rparr>"

definition begin_transfer ::
    "int \<Rightarrow> Direction \<Rightarrow> qstring \<Rightarrow> qstring \<Rightarrow> qstring \<Rightarrow> qstring \<Rightarrow> FileEntry list \<Rightarrow> TransferModel \<Rightarrow> TransferModel" where
  "begin_transfer now direction name addr deviceType fp files tm =
     emits [RowsReset, PeerChanged, ProgressChanged, DestinationChanged]
       ((recomputeTotals (tm\<lparr>m_files := files, m_direction := direction, m_peerAlias := name,
          m_peerAddress := addr, m_peerDeviceType := deviceType, m_peerFingerprint := fp,
          m_errorText := [], m_destination := [], m_transferredBytes := 0, m_bytesPerSecond := 0,
          m_speedSampleBytes := 0, m_dirtyFirst := -1, m_dirtyLast := -1\<rparr>))
        \<lparr>m_clock := Some now, m_speedSampleMs := 0\<rparr>)"

definition flush_rows :: "TransferModel \<Rightarrow> TransferModel" where
  "flush_rows tm = (if m_dirtyFirst tm \<ge> 0
     then (emits [RowsChanged (m_dirtyFirst tm) (m_dirtyLast tm)] tm)\<lparr>m_dirtyFirst := -1, m_dirtyLast := -1\<rparr>
     else tm)"

definition sample_speed :: "int \<Rightarrow> TransferModel \<Rightarrow> TransferModel" where
  "sample_speed now tm =
     (case m_clock tm of None \<Rightarrow> tm
      | Some start \<Rightarrow>
          let elapsed = now - start; span = elapsed - m_speedSampleMs tm
          in if span \<ge> SpeedWindowMs then
               let moved = wrap64 (m_transferredBytes tm - m_speedSampleBytes tm);
                   sampled = wrap64 (moved * 1000) sdiv span
               in tm\<lparr>m_bytesPerSecond :=
                       (if m_bytesPerSecond tm > 0
                        then wrap64 (m_bytesPerSecond tm + wrap64 (sampled * 2)) sdiv 3 else sampled),
                     m_speedSampleMs := elapsed, m_speedSampleBytes := m_transferredBytes tm\<rparr>
             else tm)"

definition flush :: "int \<Rightarrow> TransferModel \<Rightarrow> TransferModel" where
  "flush now tm = emits [ProgressChanged] (sample_speed now (flush_rows tm))"

text \<open>The single-shot timer: it is no longer running once it fires.\<close>

definition flush_timeout :: "int \<Rightarrow> TransferModel \<Rightarrow> TransferModel" where
  "flush_timeout now tm = (if tm_flushing tm then flush now (tm\<lparr>tm_flushing := False\<rparr>) else tm)"

definition touch :: "int \<Rightarrow> TransferModel \<Rightarrow> TransferModel" where
  "touch row tm =
     tm\<lparr>m_dirtyFirst := (if m_dirtyFirst tm < 0 \<or> row < m_dirtyFirst tm then row else m_dirtyFirst tm),
        m_dirtyLast := (if row > m_dirtyLast tm then row else m_dirtyLast tm),
        tm_flushing := True\<rparr>"

definition setState :: "int \<Rightarrow> State \<Rightarrow> qstring \<Rightarrow> TransferModel \<Rightarrow> TransferModel" where
  "setState now state err tm =
     (if m_state tm = state \<and> m_errorText tm = err then tm
      else
        let tm1 = tm\<lparr>m_state := state, m_errorText := err\<rparr>;
            tm2 = (if state = Active \<and> m_clock tm1 = None then tm1\<lparr>m_clock := Some now\<rparr> else tm1);
            tm3 = (if state \<noteq> Active
                   then (flush now (tm2\<lparr>tm_flushing := False\<rparr>))\<lparr>m_bytesPerSecond := 0\<rparr> else tm2)
        in emits [StateChanged, ProgressChanged] tm3)"

definition setDestination :: "qstring \<Rightarrow> TransferModel \<Rightarrow> TransferModel" where
  "setDestination path tm = (if m_destination tm = path then tm
     else emits [DestinationChanged] (tm\<lparr>m_destination := path\<rparr>))"

definition update_file :: "int \<Rightarrow> (FileEntry \<Rightarrow> FileEntry) \<Rightarrow> TransferModel \<Rightarrow> TransferModel" where
  "update_file row f tm = tm\<lparr>m_files := (m_files tm)[nat row := f (m_files tm ! nat row)]\<rparr>"

definition setFileToken :: "int \<Rightarrow> qstring \<Rightarrow> TransferModel \<Rightarrow> TransferModel" where
  "setFileToken row t tm = (if \<not> row_ok row tm then tm else update_file row (token_update (\<lambda>_. t)) tm)"

definition setFileLocalPath :: "int \<Rightarrow> qstring \<Rightarrow> TransferModel \<Rightarrow> TransferModel" where
  "setFileLocalPath row path tm = (if \<not> row_ok row tm then tm
     else touch row (update_file row (localPath_update (\<lambda>_. path)) tm))"

definition setFileStatus :: "int \<Rightarrow> int \<Rightarrow> FileStatus \<Rightarrow> qstring \<Rightarrow> TransferModel \<Rightarrow> TransferModel" where
  "setFileStatus now row status err tm =
     (if \<not> row_ok row tm then tm
      else
        let file = m_files tm ! nat row;
            tm1 = update_file row (\<lambda>f. f\<lparr>fe_status := status, fe_error := err\<rparr>) tm;
            tm2 = (if status = FileDone \<and> transferred file \<noteq> fe_size file
                   then (update_file row (\<lambda>f. f\<lparr>transferred := fe_size f\<rparr>) tm1)
                          \<lparr>m_transferredBytes := wrap64 (m_transferredBytes tm + (fe_size file - transferred file))\<rparr>
                   else tm1);
            tm3 = touch row tm2
        in flush now (tm3\<lparr>tm_flushing := False\<rparr>))"

definition setFileTransferred :: "int \<Rightarrow> int \<Rightarrow> TransferModel \<Rightarrow> TransferModel" where
  "setFileTransferred row bytes tm =
     (if \<not> row_ok row tm then tm
      else
        let file = m_files tm ! nat row;
            b1 = (if bytes < 0 then 0 else bytes);
            b2 = (if b1 > fe_size file \<and> fe_size file > 0 then fe_size file else b1)
        in if b2 = transferred file then tm
           else touch row ((update_file row (\<lambda>f. f\<lparr>transferred := b2\<rparr>) tm)
                  \<lparr>m_transferredBytes := wrap64 (m_transferredBytes tm + (b2 - transferred file))\<rparr>))"

lemma emits_simps [simp]:
  "m_files (emits sigs tm) = m_files tm" "m_state (emits sigs tm) = m_state tm"
  "m_totalBytes (emits sigs tm) = m_totalBytes tm"
  "m_transferredBytes (emits sigs tm) = m_transferredBytes tm"
  "m_dirtyFirst (emits sigs tm) = m_dirtyFirst tm" "m_dirtyLast (emits sigs tm) = m_dirtyLast tm"
  "tm_flushing (emits sigs tm) = tm_flushing tm" "m_clock (emits sigs tm) = m_clock tm"
  "m_errorText (emits sigs tm) = m_errorText tm" "m_direction (emits sigs tm) = m_direction tm"
  "m_destination (emits sigs tm) = m_destination tm"
  "m_peerAlias (emits sigs tm) = m_peerAlias tm" "m_peerAddress (emits sigs tm) = m_peerAddress tm"
  "m_peerFingerprint (emits sigs tm) = m_peerFingerprint tm"
  "tm_signals (emits sigs tm) = tm_signals tm @ sigs"
  by (simp_all add: emits_def)

lemma sample_speed_simps [simp]:
  "m_files (sample_speed now tm) = m_files tm" "m_state (sample_speed now tm) = m_state tm"
  "m_totalBytes (sample_speed now tm) = m_totalBytes tm"
  "m_transferredBytes (sample_speed now tm) = m_transferredBytes tm"
  "m_dirtyFirst (sample_speed now tm) = m_dirtyFirst tm"
  "m_dirtyLast (sample_speed now tm) = m_dirtyLast tm"
  "tm_flushing (sample_speed now tm) = tm_flushing tm"
  "tm_signals (sample_speed now tm) = tm_signals tm"
  "m_errorText (sample_speed now tm) = m_errorText tm" "m_direction (sample_speed now tm) = m_direction tm"
  "m_destination (sample_speed now tm) = m_destination tm"
  "m_peerAlias (sample_speed now tm) = m_peerAlias tm" "m_peerAddress (sample_speed now tm) = m_peerAddress tm"
  "m_peerFingerprint (sample_speed now tm) = m_peerFingerprint tm"
  by (simp_all add: sample_speed_def Let_def split: option.split)

lemma flush_simps [simp]:
  "m_files (flush now tm) = m_files tm" "m_state (flush now tm) = m_state tm"
  "m_totalBytes (flush now tm) = m_totalBytes tm"
  "m_transferredBytes (flush now tm) = m_transferredBytes tm"
  "tm_flushing (flush now tm) = tm_flushing tm"
  "m_errorText (flush now tm) = m_errorText tm" "m_direction (flush now tm) = m_direction tm"
  "m_destination (flush now tm) = m_destination tm"
  "m_peerAlias (flush now tm) = m_peerAlias tm" "m_peerAddress (flush now tm) = m_peerAddress tm"
  "m_peerFingerprint (flush now tm) = m_peerFingerprint tm"
  by (simp_all add: flush_def flush_rows_def)

lemma touch_simps [simp]:
  "m_files (touch row tm) = m_files tm" "m_state (touch row tm) = m_state tm"
  "m_totalBytes (touch row tm) = m_totalBytes tm"
  "m_transferredBytes (touch row tm) = m_transferredBytes tm"
  "tm_signals (touch row tm) = tm_signals tm" "tm_flushing (touch row tm)"
  "m_errorText (touch row tm) = m_errorText tm" "m_direction (touch row tm) = m_direction tm"
  "m_destination (touch row tm) = m_destination tm"
  "m_peerAlias (touch row tm) = m_peerAlias tm" "m_peerAddress (touch row tm) = m_peerAddress tm"
  "m_peerFingerprint (touch row tm) = m_peerFingerprint tm"
  by (simp_all add: touch_def)

lemma update_file_simps [simp]:
  "m_files (update_file row f tm) = (m_files tm)[nat row := f (m_files tm ! nat row)]"
  "m_state (update_file row f tm) = m_state tm"
  "m_totalBytes (update_file row f tm) = m_totalBytes tm"
  "m_transferredBytes (update_file row f tm) = m_transferredBytes tm"
  "m_dirtyFirst (update_file row f tm) = m_dirtyFirst tm"
  "m_dirtyLast (update_file row f tm) = m_dirtyLast tm"
  "tm_flushing (update_file row f tm) = tm_flushing tm"
  "tm_signals (update_file row f tm) = tm_signals tm"
  "m_errorText (update_file row f tm) = m_errorText tm" "m_direction (update_file row f tm) = m_direction tm"
  "m_destination (update_file row f tm) = m_destination tm"
  "m_peerAlias (update_file row f tm) = m_peerAlias tm" "m_peerAddress (update_file row f tm) = m_peerAddress tm"
  "m_peerFingerprint (update_file row f tm) = m_peerFingerprint tm"
  by (simp_all add: update_file_def)

lemma m_state_ops [simp]:
  "m_state (setFileToken row t tm) = m_state tm"
  "m_state (setFileLocalPath row path tm) = m_state tm"
  "m_state (setFileStatus now row status err tm) = m_state tm"
  "m_state (setFileTransferred row bytes tm) = m_state tm"
  "m_state (setDestination path tm) = m_state tm"
  "m_state (begin_transfer now dir a b c d files tm) = m_state tm"
  by (simp_all add: setFileToken_def setFileLocalPath_def setFileStatus_def setFileTransferred_def
      setDestination_def begin_transfer_def recomputeTotals_def Let_def)

lemma m_state_setState [simp]: "m_state (setState now s err tm) = s"
  by (simp add: setState_def Let_def)

section \<open>The operations as one run\<close>

datatype tm_op =
    BeginTransfer int Direction qstring qstring qstring qstring "FileEntry list"
  | SetState int State qstring
  | SetDestination qstring
  | SetToken int qstring
  | SetPath int qstring
  | SetStatus int int FileStatus qstring
  | SetTransferred int int
  | FlushTimeout int

fun tm_step :: "tm_op \<Rightarrow> TransferModel \<Rightarrow> TransferModel" where
  "tm_step (BeginTransfer now dir name addr ty fp files) tm = begin_transfer now dir name addr ty fp files tm"
| "tm_step (SetState now s err) tm = setState now s err tm"
| "tm_step (SetDestination path) tm = setDestination path tm"
| "tm_step (SetToken row t) tm = setFileToken row t tm"
| "tm_step (SetPath row path) tm = setFileLocalPath row path tm"
| "tm_step (SetStatus now row status err) tm = setFileStatus now row status err tm"
| "tm_step (SetTransferred row bytes) tm = setFileTransferred row bytes tm"
| "tm_step (FlushTimeout now) tm = flush_timeout now tm"

section \<open>The totals\<close>

definition tm_sums :: "TransferModel \<Rightarrow> bool" where
  "tm_sums tm \<longleftrightarrow> m_totalBytes tm = wrap64 (\<Sum>f\<leftarrow>m_files tm. fe_size f)
     \<and> m_transferredBytes tm = wrap64 (\<Sum>f\<leftarrow>m_files tm. transferred f)"

lemma fold_wrap64: "fold (\<lambda>f acc. wrap64 (acc + g f)) fs (wrap64 x) = wrap64 (x + (\<Sum>f\<leftarrow>fs. g f))"
  by (induction fs arbitrary: x) (simp_all add: wrap64_add_left add.assoc)

lemma recomputed_total: "m_totalBytes (recomputeTotals tm) = wrap64 (\<Sum>f\<leftarrow>m_files tm. fe_size f)"
  using fold_wrap64 [of fe_size "m_files tm" 0] wrap64_id [of 0]
  by (simp add: recomputeTotals_def in_int64_def)

lemma sum_list_update:
  fixes g :: "'a \<Rightarrow> int"
  assumes "i < length xs"
  shows "(\<Sum>x\<leftarrow>xs[i := y]. g x) = (\<Sum>x\<leftarrow>xs. g x) + (g y - g (xs ! i))"
proof -
  have "xs = take i xs @ xs ! i # drop (Suc i) xs" using assms by (rule id_take_nth_drop)
  then have "(\<Sum>x\<leftarrow>xs. g x) = (\<Sum>x\<leftarrow>take i xs @ xs ! i # drop (Suc i) xs. g x)" by simp
  with assms show ?thesis by (simp add: upd_conv_take_nth_drop)
qed

lemma row_okD: "row_ok row tm \<Longrightarrow> nat row < length (m_files tm) \<and> 0 \<le> row \<and> int (nat row) = row"
  by (auto simp: row_ok_def)

lemma sums_update:
  assumes "tm_sums tm" "row_ok row tm" "fe_size (f (m_files tm ! nat row)) = fe_size (m_files tm ! nat row)"
    and "transferred (f (m_files tm ! nat row)) = transferred (m_files tm ! nat row)"
  shows "tm_sums (update_file row f tm)"
  using assms row_okD [OF assms(2)] by (simp add: tm_sums_def sum_list_update)

lemma sums_moved:
  assumes "tm_sums tm" "row_ok row tm" "fe_size (f (m_files tm ! nat row)) = fe_size (m_files tm ! nat row)"
  shows "tm_sums ((update_file row f tm)\<lparr>m_transferredBytes := wrap64 (m_transferredBytes tm
      + (transferred (f (m_files tm ! nat row)) - transferred (m_files tm ! nat row)))\<rparr>)"
  using assms row_okD [OF assms(2)] by (simp add: tm_sums_def sum_list_update wrap64_add_left)

lemma sums_touch [simp]: "tm_sums (touch row tm) = tm_sums tm"
  by (simp add: tm_sums_def)

lemma sums_flush [simp]: "tm_sums (flush now tm) = tm_sums tm"
  by (simp add: tm_sums_def)

lemma sums_other [simp]:
  "tm_sums (tm\<lparr>tm_flushing := b\<rparr>) = tm_sums tm" "tm_sums (tm\<lparr>m_state := s\<rparr>) = tm_sums tm"
  "tm_sums (tm\<lparr>m_errorText := e\<rparr>) = tm_sums tm" "tm_sums (tm\<lparr>m_clock := c\<rparr>) = tm_sums tm"
  "tm_sums (tm\<lparr>m_bytesPerSecond := x\<rparr>) = tm_sums tm" "tm_sums (tm\<lparr>m_destination := d\<rparr>) = tm_sums tm"
  "tm_sums (emits sigs tm) = tm_sums tm"
  by (simp_all add: tm_sums_def)

fun fresh_begin :: "tm_op \<Rightarrow> bool" where
  "fresh_begin (BeginTransfer now dir name addr ty fp files) = list_all (\<lambda>f. transferred f = 0) files"
| "fresh_begin _ = True"

lemma sums_setFileTransferred: "tm_sums tm \<Longrightarrow> tm_sums (setFileTransferred row bytes tm)"
  using sums_moved [of tm row "\<lambda>f. f\<lparr>transferred := b\<rparr>" for b] by (auto simp: setFileTransferred_def Let_def)

lemma sums_setFileStatus:
  assumes "tm_sums tm"
  shows "tm_sums (setFileStatus now row status err tm)"
proof (cases "row_ok row tm")
  case ok: True
  let ?f = "m_files tm ! nat row" and ?done = "status = FileDone \<and> transferred (m_files tm ! nat row) \<noteq> fe_size (m_files tm ! nat row)"
  let ?tm1 = "update_file row (\<lambda>f. f\<lparr>fe_status := status, fe_error := err\<rparr>) tm"
  have one: "tm_sums ?tm1" using assms ok by (intro sums_update) simp_all
  have "row_ok row ?tm1" using ok by (simp add: row_ok_def)
  from sums_moved [OF one this, of "\<lambda>f. f\<lparr>transferred := fe_size f\<rparr>"] row_okD [OF ok]
  have two: "tm_sums ((update_file row (\<lambda>f. f\<lparr>transferred := fe_size f\<rparr>) ?tm1)
      \<lparr>m_transferredBytes := wrap64 (m_transferredBytes tm + (fe_size ?f - transferred ?f))\<rparr>)"
    by simp
  show ?thesis
  proof (cases ?done)
    case True
    with two ok show ?thesis by (simp add: setFileStatus_def Let_def)
  next
    case False
    have "setFileStatus now row status err tm = flush now ((touch row ?tm1)\<lparr>tm_flushing := False\<rparr>)"
      by (simp only: setFileStatus_def Let_def ok not_True_eq_False if_False False)
    with one show ?thesis by simp
  qed
next
  case False
  with assms show ?thesis by (simp add: setFileStatus_def)
qed

lemma sums_step:
  assumes "tm_sums tm" "fresh_begin op"
  shows "tm_sums (tm_step op tm)"
proof (cases op)
  case (BeginTransfer now dir name addr ty fp files)
  have "(\<Sum>f\<leftarrow>files. transferred f) = 0"
    using assms(2) unfolding BeginTransfer fresh_begin.simps by (induction files) auto
  with BeginTransfer show ?thesis
    by (simp add: begin_transfer_def) (simp add: tm_sums_def recomputed_total, simp add: recomputeTotals_def in_int64_def)
next
  case (SetState now s err)
  with assms show ?thesis by (simp add: setState_def Let_def)
next
  case (SetDestination path)
  with assms show ?thesis by (simp add: setDestination_def)
next
  case (SetToken row t)
  with assms sums_update [of tm row "token_update (\<lambda>_. t)"] show ?thesis by (simp add: setFileToken_def)
next
  case (SetPath row path)
  with assms sums_update [of tm row "localPath_update (\<lambda>_. path)"] show ?thesis by (simp add: setFileLocalPath_def)
next
  case (SetStatus now row status err)
  with assms show ?thesis by (simp add: sums_setFileStatus)
next
  case (SetTransferred row bytes)
  with assms show ?thesis by (simp add: sums_setFileTransferred)
next
  case (FlushTimeout now)
  with assms show ?thesis by (simp add: flush_timeout_def)
qed

lemma sums_run: "tm_sums tm \<Longrightarrow> list_all fresh_begin ops \<Longrightarrow> tm_sums (fold tm_step ops tm)"
  by (induction ops arbitrary: tm) (simp_all add: sums_step)

lemma sums_new: "tm_sums new_TransferModel"
  by (simp add: tm_sums_def new_TransferModel_def in_int64_def)

text \<open>
  C32. The two byte totals a transfer shows are always the totals of its rows: after any sequence
  of operations on a model, with each transfer begun on entries that have received nothing yet,
  \<open>totalBytes\<close> is the sum of the sizes and \<open>transferredBytes\<close> the sum of the per-file counts,
  although the code only ever adds differences (both as 64-bit numbers).
\<close>

theorem transfer_totals:
  assumes "list_all fresh_begin ops" and "tm = fold tm_step ops new_TransferModel"
  shows "m_totalBytes tm = wrap64 (\<Sum>f\<leftarrow>m_files tm. fe_size f)
     \<and> m_transferredBytes tm = wrap64 (\<Sum>f\<leftarrow>m_files tm. transferred f)"
  using sums_run [OF sums_new assms(1)] assms(2) by (simp add: tm_sums_def)

theorem transfer_totals_witness:
  "let tm = fold tm_step [BeginTransfer 0 Receiving [] [] [] [] [new_FileEntry\<lparr>fe_size := 5\<rparr>, new_FileEntry\<lparr>fe_size := 7\<rparr>],
       SetTransferred 0 3, SetStatus 9 1 FileDone []] new_TransferModel
   in m_transferredBytes tm = wrap64 (\<Sum>f\<leftarrow>m_files tm. transferred f)"
  unfolding Let_def
  by (rule transfer_totals [OF _ refl, THEN conjunct2]) (simp add: new_FileEntry_def)

subsection \<open>A transfer whose files have all arrived\<close>

lemma setFileStatus_row:
  assumes "row_ok row tm"
  shows "m_files (setFileStatus now row status err tm)
    = (m_files tm)[nat row := (m_files tm ! nat row)\<lparr>fe_status := status, fe_error := err,
        transferred := (if status = FileDone then fe_size (m_files tm ! nat row) else transferred (m_files tm ! nat row))\<rparr>]"
proof -
  have same: "f\<lparr>fe_status := s, fe_error := e, transferred := x\<rparr> = f\<lparr>fe_status := s, fe_error := e\<rparr>"
    if "transferred f = x" for f :: FileEntry and s e x
    using that by (cases f) simp
  show ?thesis using assms row_okD [OF assms] by (auto simp: setFileStatus_def Let_def same)
qed

lemma setFileStatus_bad_row: "\<not> row_ok row tm \<Longrightarrow> setFileStatus now row status err tm = tm"
  by (simp add: setFileStatus_def)

lemma length_setFileStatus [simp]: "length (m_files (setFileStatus now row status err tm)) = length (m_files tm)"
  by (cases "row_ok row tm") (simp_all add: setFileStatus_row setFileStatus_bad_row)

definition delivered :: "FileEntry \<Rightarrow> bool" where
  "delivered f \<longleftrightarrow> fe_status f = FileDone \<and> transferred f = fe_size f"

lemma setFileStatus_Done_delivers:
  assumes "j < length (m_files tm)"
  shows "delivered (m_files (setFileStatus now row FileDone err tm) ! j)
    \<longleftrightarrow> int j = row \<or> delivered (m_files tm ! j)"
proof (cases "row_ok row tm")
  case True
  from row_okD [OF True] assms show ?thesis
    by (auto simp: setFileStatus_row [OF True] delivered_def nth_list_update)
next
  case False
  with assms show ?thesis by (auto simp: setFileStatus_bad_row row_ok_def)
qed

lemma all_marked_delivered:
  "j < length (m_files tm) \<Longrightarrow> int j \<in> set rows \<or> delivered (m_files tm ! j)
     \<Longrightarrow> delivered (m_files (fold (\<lambda>row. setFileStatus now row FileDone []) rows tm) ! j)"
  by (induction rows arbitrary: tm) (auto simp: setFileStatus_Done_delivers)

lemma length_mark_done:
  "length (m_files (fold (\<lambda>row. setFileStatus now row FileDone []) rows tm)) = length (m_files tm)"
  by (induction rows arbitrary: tm) simp_all

lemma sums_mark_done:
  "tm_sums tm \<Longrightarrow> tm_sums (fold (\<lambda>row. setFileStatus now row FileDone []) rows tm)"
  by (induction rows arbitrary: tm) (simp_all add: sums_setFileStatus)

text \<open>
  A transfer whose files have all been marked done ends at exactly one hundred per cent:
  whatever was reported on the way (lost, repeated or late progress included), once every row
  has been set to done the two totals agree, every file counts as completed, and the progress
  figure is 1.
\<close>

theorem all_done_is_complete:
  assumes "list_all fresh_begin ops" and "tm = fold tm_step ops new_TransferModel" and "m_files tm \<noteq> []"
    and "set rows = {0..<int (length (m_files tm))}"
    and "tm' = fold (\<lambda>row. setFileStatus now row FileDone []) rows tm"
  shows "m_transferredBytes tm' = m_totalBytes tm' \<and> completedCount tm' = length (m_files tm')
    \<and> failedCount tm' = 0 \<and> progress tm' = 1"
proof -
  have sums: "tm_sums tm'"
    using sums_run [OF sums_new assms(1)] by (simp add: assms(2,5) sums_mark_done)
  have len: "length (m_files tm') = length (m_files tm)" by (simp add: assms(5) length_mark_done)
  have all: "\<forall>f \<in> set (m_files tm'). delivered f"
  proof
    fix f assume "f \<in> set (m_files tm')"
    then obtain j where j: "j < length (m_files tm)" "f = m_files tm' ! j"
      by (metis in_set_conv_nth len)
    with all_marked_delivered [of j tm rows now] assms(4,5) show "delivered f" by simp
  qed
  have "map transferred (m_files tm') = map fe_size (m_files tm')"
    using all by (auto simp: delivered_def)
  then have totals: "m_transferredBytes tm' = m_totalBytes tm'" using sums by (simp only: tm_sums_def)
  have "filter (\<lambda>f. fe_status f = FileDone) (m_files tm') = m_files tm'"
    using all by (auto simp: filter_id_conv delivered_def)
  then have completed: "completedCount tm' = length (m_files tm')" by (simp add: completedCount_def)
  have failed: "failedCount tm' = 0"
    using all by (auto simp: failedCount_def filter_empty_conv delivered_def)
  have "m_files tm' \<noteq> []" using len assms(3) by auto
  then have "progress tm' = 1"
    using totals completed double_of_int_pos [of "m_totalBytes tm'"]
    by (cases "m_totalBytes tm' \<le> 0") (auto simp: progress_def Let_def)
  with totals completed failed show ?thesis by blast
qed

theorem all_done_is_complete_witness:
  "let tm = fold tm_step [BeginTransfer 0 Receiving [] [] [] [] [new_FileEntry\<lparr>fe_size := 5\<rparr>, new_FileEntry],
       SetTransferred 1 3] new_TransferModel
   in progress (fold (\<lambda>row. setFileStatus 9 row FileDone []) [1, 0] tm) = 1"
proof -
  let ?ops = "[BeginTransfer 0 Receiving [] [] [] [] [new_FileEntry\<lparr>fe_size := 5\<rparr>, new_FileEntry], SetTransferred 1 3]"
  let ?tm = "fold tm_step ?ops new_TransferModel"
  have files: "length (m_files ?tm) = 2"
    by (simp add: begin_transfer_def recomputeTotals_def setFileTransferred_def Let_def)
  then have "m_files ?tm \<noteq> []" by auto
  moreover have "set [1, 0] = {0..<int (length (m_files ?tm))}" unfolding files by auto
  moreover have "list_all fresh_begin ?ops" by (simp add: new_FileEntry_def)
  ultimately show ?thesis unfolding Let_def using all_done_is_complete [OF _ refl _ _ refl] by blast
qed

section \<open>What a view shows\<close>

text \<open>
  Progress is folded into the entries and shown later. A view keeps, for every row, the last
  content it was told to read; \<open>shown\<close> is what the roles expose of an entry. Replaying the
  signals an operation sent refreshes the rows they name.
\<close>

definition shown :: "FileEntry \<Rightarrow> FileEntry" where
  "shown f = f\<lparr>sha256 := [], preview := [], token := []\<rparr>"

fun refresh_view :: "FileEntry list \<Rightarrow> tm_signal list \<Rightarrow> FileEntry list \<Rightarrow> FileEntry list" where
  "refresh_view files [] view = view"
| "refresh_view files (s # ss) view = refresh_view files ss
     (case s of RowsReset \<Rightarrow> map shown files
      | RowsChanged a b \<Rightarrow> map (\<lambda>i. if a \<le> int i \<and> int i \<le> b then shown (files ! i) else view ! i) [0..<length view]
      | _ \<Rightarrow> view)"

definition new_signals :: "TransferModel \<Rightarrow> TransferModel \<Rightarrow> tm_signal list" where
  "new_signals tm tm' = drop (length (tm_signals tm)) (tm_signals tm')"

fun tm_view_step :: "tm_op \<Rightarrow> TransferModel \<times> FileEntry list \<Rightarrow> TransferModel \<times> FileEntry list" where
  "tm_view_step op (tm, view) =
     (let tm' = tm_step op tm in (tm', refresh_view (m_files tm') (new_signals tm tm') view))"

definition view_inv :: "TransferModel \<Rightarrow> FileEntry list \<Rightarrow> bool" where
  "view_inv tm view \<longleftrightarrow> length view = length (m_files tm)
     \<and> (\<forall>i < length view. view ! i = shown (m_files tm ! i)
          \<or> 0 \<le> m_dirtyFirst tm \<and> m_dirtyFirst tm \<le> int i \<and> int i \<le> m_dirtyLast tm)
     \<and> (0 \<le> m_dirtyFirst tm \<longrightarrow> tm_flushing tm)
     \<and> (m_dirtyFirst tm < 0 \<longrightarrow> m_dirtyLast tm < 0)"

lemma new_signals_same [simp]: "tm_signals tm' = tm_signals tm @ sigs \<Longrightarrow> new_signals tm tm' = sigs"
  by (simp add: new_signals_def)

lemma view_inv_touch:
  assumes "view_inv tm view" "row_ok row tm"
  shows "view_inv (touch row (update_file row f tm)) view"
  using assms row_okD [OF assms(2)]
  by (auto simp: view_inv_def touch_def nth_list_update)

lemma view_inv_cong:
  "view_inv tm view \<Longrightarrow> m_files tm' = m_files tm \<Longrightarrow> m_dirtyFirst tm' = m_dirtyFirst tm
     \<Longrightarrow> m_dirtyLast tm' = m_dirtyLast tm \<Longrightarrow> tm_flushing tm' = tm_flushing tm \<Longrightarrow> view_inv tm' view"
  by (simp add: view_inv_def)

text \<open>After a flush nothing is stale, whatever the timer says.\<close>

lemma flush_signals:
  "tm_signals (flush now tm) = tm_signals tm @
     (if 0 \<le> m_dirtyFirst tm then [RowsChanged (m_dirtyFirst tm) (m_dirtyLast tm), ProgressChanged] else [ProgressChanged])"
  by (simp add: flush_def flush_rows_def)

lemma flush_dirty:
  "m_dirtyFirst (flush now tm) = (if 0 \<le> m_dirtyFirst tm then -1 else m_dirtyFirst tm)"
  "m_dirtyLast (flush now tm) = (if 0 \<le> m_dirtyFirst tm then -1 else m_dirtyLast tm)"
  by (simp_all add: flush_def flush_rows_def)

lemma flush_shows:
  assumes "view_inv tm view"
  shows "refresh_view (m_files tm) (if 0 \<le> m_dirtyFirst tm
      then [RowsChanged (m_dirtyFirst tm) (m_dirtyLast tm), ProgressChanged] else [ProgressChanged]) view
    = map shown (m_files tm)"
  using assms by (auto simp: view_inv_def intro!: nth_equalityI)

lemma view_inv_shown:
  assumes "length view = length (m_files tm)" "view = map shown (m_files tm)"
    "0 \<le> m_dirtyFirst tm \<Longrightarrow> tm_flushing tm" "m_dirtyFirst tm < 0 \<Longrightarrow> m_dirtyLast tm < 0"
  shows "view_inv tm view"
  using assms by (auto simp: view_inv_def)

lemma view_after_flush:
  assumes "view_inv tm0 view" "m_files tm' = m_files tm0"
    and "tm_signals tm' = tm_signals tm @ tm_signals (flush now (tm0\<lparr>tm_signals := []\<rparr>)) @ rest"
    and "set rest \<subseteq> {StateChanged, ProgressChanged}" 
  shows "refresh_view (m_files tm') (new_signals tm tm') view = map shown (m_files tm')"
proof -
  have tail: "refresh_view fs ss v = v" if "set ss \<subseteq> {StateChanged, ProgressChanged}" for fs ss v
    using that by (induction ss arbitrary: v) auto
  have app: "refresh_view fs (ss @ ts) v = refresh_view fs ts (refresh_view fs ss v)" for fs ss ts v
    by (induction ss arbitrary: v) auto
  have "view_inv (tm0\<lparr>tm_signals := []\<rparr>) view" using assms(1) by (simp add: view_inv_def)
  from flush_shows [OF this] show ?thesis
    using assms(2,4) by (simp add: new_signals_same [OF assms(3)] app tail flush_signals)
qed

lemma view_step_flush:
  assumes inv: "view_inv tm0 view" and "tm' = flush now (tm0\<lparr>tm_flushing := False\<rparr>)" "tm_signals tm0 = tm_signals tm"
  shows "refresh_view (m_files tm') (new_signals tm tm') view = map shown (m_files tm')"
    and "view_inv tm' (map shown (m_files tm'))"
proof -
  show "refresh_view (m_files tm') (new_signals tm tm') view = map shown (m_files tm')"
    by (rule view_after_flush [OF inv, where rest = "[]" and now = now])
      (simp_all add: assms(2,3) flush_signals)
  show "view_inv tm' (map shown (m_files tm'))"
    using inv by (intro view_inv_shown) (auto simp: assms(2) flush_dirty view_inv_def split: if_splits)
qed

lemma view_inv_setFileStatus:
  assumes "view_inv tm view" and "tm' = setFileStatus now row status err tm"
  shows "view_inv tm' (refresh_view (m_files tm') (new_signals tm tm') view)"
proof (cases "row_ok row tm")
  case ok: True
  let ?r = "nat row"
  define f :: "FileEntry \<Rightarrow> FileEntry" where "f = (\<lambda>f. if status = FileDone \<and> transferred f \<noteq> fe_size f
      then f\<lparr>fe_status := status, fe_error := err, transferred := fe_size f\<rparr> else f\<lparr>fe_status := status, fe_error := err\<rparr>)"
  let ?file = "m_files tm ! ?r" and ?tm1 = "update_file row (\<lambda>f. f\<lparr>fe_status := status, fe_error := err\<rparr>) tm"
  define tm2 where "tm2 = (if status = FileDone \<and> transferred ?file \<noteq> fe_size ?file
     then (update_file row (\<lambda>f. f\<lparr>transferred := fe_size f\<rparr>) ?tm1)
            \<lparr>m_transferredBytes := wrap64 (m_transferredBytes tm + (fe_size ?file - transferred ?file))\<rparr>
     else ?tm1)"
  have tm': "tm' = flush now ((touch row tm2)\<lparr>tm_flushing := False\<rparr>)"
    unfolding assms(2) setFileStatus_def Let_def tm2_def by (simp only: ok not_True_eq_False if_False)
  have "nat row < length (m_files tm)" using row_okD [OF ok] by blast
  then have files: "m_files tm2 = (m_files tm)[?r := f ?file]" by (simp add: tm2_def f_def)
  have rest: "tm_signals tm2 = tm_signals tm" "m_dirtyFirst tm2 = m_dirtyFirst tm" "m_dirtyLast tm2 = m_dirtyLast tm"
    by (simp_all add: tm2_def)
  have "view_inv (touch row (update_file row f tm)) view" using view_inv_touch [OF assms(1) ok] .
  then have "view_inv (touch row tm2) view"
    by (rule view_inv_cong) (simp_all add: files, simp_all add: touch_def rest)
  from view_step_flush [OF this tm'] rest(1) show ?thesis by simp
next
  case False
  with assms show ?thesis by (simp add: setFileStatus_bad_row new_signals_def)
qed

lemma view_inv_setState:
  assumes "view_inv tm view" and "tm' = setState now s err tm"
  shows "view_inv tm' (refresh_view (m_files tm') (new_signals tm tm') view)"
proof -
  consider "m_state tm = s \<and> m_errorText tm = err" | "\<not> (m_state tm = s \<and> m_errorText tm = err)" "s = Active"
    | (flushed) "\<not> (m_state tm = s \<and> m_errorText tm = err)" "s \<noteq> Active" by blast
  then show ?thesis
  proof cases
    case 1
    with assms show ?thesis by (simp add: setState_def new_signals_def)
  next
    case 2
    then have sig: "tm_signals tm' = tm_signals tm @ [StateChanged, ProgressChanged]"
      by (simp only: assms(2) setState_def if_not_P [OF 2(1)] Let_def) simp
    have "view_inv tm' view"
      by (rule view_inv_cong [OF assms(1)]) (simp_all only: assms(2) setState_def if_not_P [OF 2(1)] Let_def, simp_all add: 2(2))
    then show ?thesis by (simp add: new_signals_same [OF sig])
  next
    case flushed
    define tm0 where "tm0 = tm\<lparr>m_state := s, m_errorText := err\<rparr>"
    have tm': "tm' = emits [StateChanged, ProgressChanged] ((flush now (tm0\<lparr>tm_flushing := False\<rparr>))\<lparr>m_bytesPerSecond := 0\<rparr>)"
      using flushed(2) by (simp only: assms(2) setState_def if_not_P [OF flushed(1)] Let_def tm0_def) simp
    have inv: "view_inv tm0 view" by (rule view_inv_cong [OF assms(1)]) (simp_all add: tm0_def)
    have "refresh_view (m_files tm') (new_signals tm tm') view = map shown (m_files tm')"
      by (rule view_after_flush [OF inv, where rest = "[StateChanged, ProgressChanged]" and now = now])
        (simp_all add: tm' flush_signals tm0_def)
    moreover have "view_inv tm' (map shown (m_files tm'))"
      using inv by (intro view_inv_shown) (auto simp: tm' flush_dirty view_inv_def split: if_splits)
    ultimately show ?thesis by simp
  qed
qed

lemma view_inv_step:
  assumes "view_inv tm view"
  shows "view_inv (tm_step op tm) (refresh_view (m_files (tm_step op tm)) (new_signals tm (tm_step op tm)) view)"
proof (cases op)
  case (BeginTransfer now dir name addr ty fp files)
  let ?tm' = "begin_transfer now dir name addr ty fp files tm"
  have "new_signals tm ?tm' = [RowsReset, PeerChanged, ProgressChanged, DestinationChanged]"
    by (rule new_signals_same) (simp add: begin_transfer_def recomputeTotals_def)
  then show ?thesis unfolding BeginTransfer tm_step.simps
    by (simp, intro view_inv_shown) (simp_all add: begin_transfer_def recomputeTotals_def)
next
  case (SetState now s err)
  with view_inv_setState [OF assms refl] show ?thesis by simp
next
  case (SetDestination path)
  have "view_inv (setDestination path tm) view"
    by (rule view_inv_cong [OF assms]) (simp_all add: setDestination_def)
  with assms SetDestination show ?thesis
    by (cases "m_destination tm = path") (simp_all add: new_signals_def setDestination_def)
next
  case (SetToken row t)
  have "view_inv (setFileToken row t tm) view"
    using assms row_okD [of row tm]
    by (auto simp: setFileToken_def view_inv_def nth_list_update shown_def)
  moreover have "tm_signals (setFileToken row t tm) = tm_signals tm" by (simp add: setFileToken_def)
  ultimately show ?thesis using SetToken by (simp add: new_signals_def)
next
  case (SetPath row path)
  have "view_inv (setFileLocalPath row path tm) view"
    using assms by (simp add: setFileLocalPath_def view_inv_touch)
  moreover have "tm_signals (setFileLocalPath row path tm) = tm_signals tm" by (simp add: setFileLocalPath_def)
  ultimately show ?thesis using SetPath by (simp add: new_signals_def)
next
  case (SetStatus now row status err)
  with view_inv_setFileStatus [OF assms refl] show ?thesis by simp
next
  case (SetTransferred row bytes)
  have "view_inv (setFileTransferred row bytes tm) view"
  proof (cases "setFileTransferred row bytes tm = tm")
    case False
    then obtain f x where f: "row_ok row tm"
        "setFileTransferred row bytes tm = touch row ((update_file row f tm)\<lparr>m_transferredBytes := x\<rparr>)"
      by (auto simp: setFileTransferred_def Let_def split: if_splits)
    show ?thesis unfolding f(2)
      by (rule view_inv_cong [OF view_inv_touch [OF assms f(1), of f]]) (simp_all add: touch_def)
  qed (simp add: assms)
  moreover have "tm_signals (setFileTransferred row bytes tm) = tm_signals tm"
    by (simp add: setFileTransferred_def Let_def)
  ultimately show ?thesis using SetTransferred by (simp add: new_signals_def)
next
  case (FlushTimeout now)
  show ?thesis
  proof (cases "tm_flushing tm")
    case True
    with view_step_flush [OF assms, of "flush_timeout now tm" now tm] FlushTimeout show ?thesis
      by (simp add: flush_timeout_def)
  next
    case False
    with assms FlushTimeout show ?thesis by (simp add: flush_timeout_def new_signals_def)
  qed
qed

lemma view_inv_run:
  "view_inv (fst s) (snd s) \<Longrightarrow> view_inv (fst (fold tm_view_step ops s)) (snd (fold tm_view_step ops s))"
proof (induction ops arbitrary: s)
  case (Cons op ops)
  obtain tm view where s: "s = (tm, view)" by fastforce
  have "view_inv (fst (tm_view_step op s)) (snd (tm_view_step op s))"
    using view_inv_step [of tm view op] Cons.prems by (simp add: s Let_def)
  then show ?case using Cons.IH by simp
qed simp

text \<open>
  No progress is lost on its way to the screen: whatever operations ran, when the flush timer
  is not running the view shows every row as it is, and when it is running the single timeout
  that is due brings the view fully up to date, although only one span of rows is ever signalled.
\<close>

theorem view_catches_up:
  assumes "fold tm_view_step ops (new_TransferModel, []) = (tm, view)"
    and "tm_view_step (FlushTimeout now) (tm, view) = (tm', view')"
  shows "(\<not> tm_flushing tm \<longrightarrow> view = map shown (m_files tm)) \<and> view' = map shown (m_files tm') \<and> m_files tm' = m_files tm"
proof -
  have "view_inv new_TransferModel []" by (simp add: view_inv_def new_TransferModel_def)
  then have inv: "view_inv tm view" using view_inv_run [of "(new_TransferModel, [])" ops] assms(1) by simp
  have idle: "view = map shown (m_files tm)" if "\<not> tm_flushing tm"
    using inv that by (auto simp: view_inv_def intro!: nth_equalityI)
  have files: "m_files (flush_timeout now tm) = m_files tm" by (simp add: flush_timeout_def)
  have "refresh_view (m_files tm) (new_signals tm (flush_timeout now tm)) view = map shown (m_files tm)"
  proof (cases "tm_flushing tm")
    case True
    with view_step_flush(1) [OF inv, of "flush_timeout now tm" now tm] files show ?thesis
      by (simp add: flush_timeout_def)
  next
    case False
    then show ?thesis using idle by (simp add: flush_timeout_def new_signals_def)
  qed
  with idle assms(2) files show ?thesis by (auto simp: Let_def)
qed

theorem view_catches_up_witness:
  "let s = fold tm_view_step [BeginTransfer 0 Receiving [] [] [] [] [new_FileEntry\<lparr>fe_size := 5\<rparr>, new_FileEntry],
       SetTransferred 0 3] (new_TransferModel, [])
   in snd (tm_view_step (FlushTimeout 200) s) = map shown (m_files (fst (tm_view_step (FlushTimeout 200) s)))"
proof -
  let ?s = "fold tm_view_step [BeginTransfer 0 Receiving [] [] [] [] [new_FileEntry\<lparr>fe_size := 5\<rparr>, new_FileEntry],
       SetTransferred 0 3] (new_TransferModel, [])"
  obtain tm view where s: "?s = (tm, view)" by fastforce
  obtain tm' view' where s': "tm_view_step (FlushTimeout 200) (tm, view) = (tm', view')" by fastforce
  from view_catches_up [OF s s'] show ?thesis unfolding Let_def s s' by simp
qed

end
