(* ===== verification/Http_Connection.thy ===== *)
theory Http_Connection
  imports Device_Info "HOL-Library.Sublist"
begin

text \<open>
  \<open>src/src/httpserver.cpp\<close>, class \<open>HttpConnection\<close>: one request on one socket, as a state
  machine driven by the socket and two timers. The slots connected to its signals and the
  device the body may be streamed to belong to other components: they are the record \<open>slots\<close>
  over a state \<open>'w\<close> of their own. Parsing of the request target and of JSON is Qt's, the record
  \<open>netlib\<close>. Times are milliseconds; a timer is its deadline, \<open>None\<close> when stopped.
\<close>

section \<open>Bytes\<close>

definition byte_space :: "8 word \<Rightarrow> bool" where
  "byte_space b \<longleftrightarrow> b = 32 \<or> 9 \<le> b \<and> b \<le> 13"

definition byte_trimmed :: "bytes \<Rightarrow> bytes" where
  "byte_trimmed s = rev (dropWhile byte_space (rev (dropWhile byte_space s)))"

text \<open>\<open>QByteArray::toLower\<close> reads its bytes as Latin-1.\<close>

definition byte_lower :: "8 word \<Rightarrow> 8 word" where
  "byte_lower b = (if 65 \<le> b \<and> b \<le> 90 \<or> 192 \<le> b \<and> b \<le> 222 \<and> b \<noteq> 215 then b + 32 else b)"

definition bytes_lower :: "bytes \<Rightarrow> bytes" where
  "bytes_lower s = map byte_lower s"

definition fromLatin1 :: "bytes \<Rightarrow> qstring" where
  "fromLatin1 s = map (\<lambda>b. ucast b) s"

fun index_of :: "bytes \<Rightarrow> bytes \<Rightarrow> nat option" where
  "index_of pat [] = (if pat = [] then Some 0 else None)"
| "index_of pat (b # s) = (if take (length pat) (b # s) = pat then Some 0 else map_option Suc (index_of pat s))"

fun split_on :: "8 word \<Rightarrow> bytes \<Rightarrow> bytes list" where
  "split_on sep [] = [[]]"
| "split_on sep (b # s) = (if b = sep then [] # split_on sep s
     else (b # hd (split_on sep s)) # tl (split_on sep s))"

text \<open>The same with one recursive call, for evaluation.\<close>

lemma split_on_code [code]:
  "split_on sep [] = [[]]"
  "split_on sep (b # s) = (let r = split_on sep s in if b = sep then [] # r else (b # hd r) # tl r)"
  by (simp_all add: Let_def)

definition contains_bytes :: "bytes \<Rightarrow> bytes \<Rightarrow> bool" where
  "contains_bytes pat s \<longleftrightarrow> index_of pat s \<noteq> None"

text \<open>
  \<open>QByteArray::toLongLong(&ok, base)\<close>: spaces around, an optional sign, digits (for base 16 an
  optional \<open>0x\<close>), nothing else, and the value in range; the bytes end at the first NUL.
\<close>

definition digit_value :: "8 word \<Rightarrow> nat option" where
  "digit_value b = (if 48 \<le> b \<and> b \<le> 57 then Some (unat b - 48)
     else if 97 \<le> b \<and> b \<le> 122 then Some (unat b - 87)
     else if 65 \<le> b \<and> b \<le> 90 then Some (unat b - 55) else None)"

fun digits_value :: "nat \<Rightarrow> nat \<Rightarrow> bytes \<Rightarrow> nat option" where
  "digits_value base acc [] = Some acc"
| "digits_value base acc (b # s) =
     (case digit_value b of
        Some d \<Rightarrow> if d < base then digits_value base (acc * base + d) s else None
      | None \<Rightarrow> None)"

definition unsigned_value :: "nat \<Rightarrow> bytes \<Rightarrow> nat option" where
  "unsigned_value base s =
     (let s' = (if base = 16 \<and> length s > 2 \<and> hd s = 48 \<and> byte_lower (s ! 1) = 120 then drop 2 s else s)
      in if s' = [] then None else digits_value base 0 s')"

definition toLongLong :: "nat \<Rightarrow> bytes \<Rightarrow> int option" where
  "toLongLong base s =
     (let t = byte_trimmed (takeWhile (\<lambda>b. b \<noteq> 0) s);
          neg = (t \<noteq> [] \<and> hd t = 45);
          u = (if t \<noteq> [] \<and> (hd t = 45 \<or> hd t = 43) then tl t else t)
      in case unsigned_value base u of
           None \<Rightarrow> None
         | Some n \<Rightarrow> let v = (if neg then - int n else int n) in if in_int64 v then Some v else None)"

section \<open>State\<close>

definition MaxHeadSize :: nat where "MaxHeadSize = 32 * 1024"
definition MaxBufferedBody :: nat where "MaxBufferedBody = 16 * 1024 * 1024"
definition IdleTimeoutMs :: int where "IdleTimeoutMs = 60 * 1000"
definition DrainTimeoutMs :: int where "DrainTimeoutMs = 5 * 1000"
definition HeaderDeadlineMs :: int where "HeaderDeadlineMs = 30 * 1000"

datatype conn_state = ReadingHeaders | ReadingBody | Responded

datatype chunk_state = ChunkSize | ChunkData | ChunkCrlf | ChunkTrailer | ChunkDone

text \<open>What happens to the socket; a response carries its status beside the bytes written.\<close>

datatype sock_event = Response int bytes | Interim bytes | DisconnectFromHost | Aborted

record HttpConnection =
  h_state :: conn_state
  h_buffer :: bytes
  h_method :: qstring
  h_path :: qstring
  h_query :: "(qstring, qstring) qhash"
  h_headers :: "(bytes, bytes) qhash"
  h_extraHeaders :: "(bytes \<times> bytes) list"
  h_body :: bytes
  h_sink :: "nat option"
  h_maxBodyBytes :: int
  h_contentLength :: int
  h_bodyReceived :: int
  h_chunked :: bool
  h_chunkState :: chunk_state
  h_chunkRemaining :: nat
  h_trailerBytes :: int
  h_bodyComplete :: bool
  h_peerAddress :: qstring
  h_peerCertificate :: bytes
  h_closedEmitted :: bool
  h_connected :: bool
  h_idleInterval :: int
  h_idleTimer :: "int option"
  h_headerDeadline :: "int option"
  h_socket :: "sock_event list"

text \<open>\<open>peer\<close> is the address the socket reports, \<open>cert\<close> the certificate's DER, empty for none.\<close>

definition new_HttpConnection :: "int \<Rightarrow> qstring \<Rightarrow> bytes \<Rightarrow> HttpConnection" where
  "new_HttpConnection now peer cert =
     \<lparr>h_state = ReadingHeaders, h_buffer = [], h_method = [], h_path = [], h_query = [], h_headers = [],
      h_extraHeaders = [], h_body = [], h_sink = None, h_maxBodyBytes = -1, h_contentLength = 0,
      h_bodyReceived = 0, h_chunked = False, h_chunkState = ChunkSize, h_chunkRemaining = 0,
      h_trailerBytes = 0, h_bodyComplete = False,
      h_peerAddress = (if take 7 peer = qs ''::ffff:'' then drop 7 peer else peer),
      h_peerCertificate = cert, h_closedEmitted = False, h_connected = True,
      h_idleInterval = IdleTimeoutMs, h_idleTimer = Some (now + IdleTimeoutMs),
      h_headerDeadline = Some (now + HeaderDeadlineMs), h_socket = []\<rparr>"

record netlib =
  u_target :: "bytes \<Rightarrow> qstring \<times> (qstring \<times> qstring) list"
  j_text :: "json \<Rightarrow> bytes"
  j_parse :: "bytes \<Rightarrow> json option"

record 'w slots =
  on_headersReady :: "HttpConnection \<Rightarrow> 'w \<Rightarrow> HttpConnection \<times> 'w"
  on_requestReady :: "HttpConnection \<Rightarrow> 'w \<Rightarrow> HttpConnection \<times> 'w"
  on_bodyProgress :: "int \<Rightarrow> int \<Rightarrow> 'w \<Rightarrow> 'w"
  on_closed :: "HttpConnection \<Rightarrow> 'w \<Rightarrow> HttpConnection \<times> 'w"
  sink_write :: "nat \<Rightarrow> bytes \<Rightarrow> 'w \<Rightarrow> int \<times> 'w"

section \<open>Responding\<close>

definition reasonPhrase :: "int \<Rightarrow> bytes" where
  "reasonPhrase status =
     (if status = 100 then bs ''Continue'' else if status = 200 then bs ''OK''
      else if status = 204 then bs ''No Content'' else if status = 400 then bs ''Bad Request''
      else if status = 401 then bs ''Unauthorized'' else if status = 403 then bs ''Forbidden''
      else if status = 404 then bs ''Not Found'' else if status = 405 then bs ''Method Not Allowed''
      else if status = 408 then bs ''Request Timeout'' else if status = 409 then bs ''Conflict''
      else if status = 413 then bs ''Payload Too Large'' else if status = 429 then bs ''Too Many Requests''
      else if status = 431 then bs ''Request Header Fields Too Large''
      else if status = 500 then bs ''Internal Server Error'' else bs ''Unknown'')"

definition crlf :: bytes where "crlf = [13, 10]"

definition byte_number :: "int \<Rightarrow> bytes" where
  "byte_number n = (if n < 0 then bs (CHR ''-'' # nat_digits (nat (- n))) else bs (nat_digits (nat n)))"

definition response_text :: "(bytes \<times> bytes) list \<Rightarrow> int \<Rightarrow> bytes \<Rightarrow> bytes \<Rightarrow> bytes" where
  "response_text extra status payload contentType =
     bs ''HTTP/1.1 '' @ byte_number status @ bs '' '' @ reasonPhrase status @ crlf
     @ (if contentType \<noteq> [] then bs ''Content-Type: '' @ contentType @ crlf else [])
     @ bs ''Content-Length: '' @ byte_number (int (length payload)) @ crlf
     @ concat (map (\<lambda>(n, v). n @ bs '': '' @ v @ crlf) extra)
     @ bs ''Access-Control-Allow-Origin: *'' @ crlf
     @ bs ''Access-Control-Allow-Methods: GET, POST, OPTIONS'' @ crlf
     @ bs ''Access-Control-Allow-Headers: Content-Type'' @ crlf
     @ bs ''Connection: close'' @ crlf @ crlf @ payload"

definition sock :: "sock_event list \<Rightarrow> HttpConnection \<Rightarrow> HttpConnection" where
  "sock evs c = c\<lparr>h_socket := h_socket c @ evs\<rparr>"

text \<open>
  \<open>disconnectFromHost\<close> and \<open>abort\<close> leave the connected state at once; the \<open>disconnected\<close> signal
  that follows is an event of its own. \<open>QTimer::start(ms)\<close> also changes the interval.
\<close>

definition respond :: "int \<Rightarrow> int \<Rightarrow> bytes \<Rightarrow> bytes \<Rightarrow> HttpConnection \<Rightarrow> HttpConnection" where
  "respond now status payload contentType c =
     (if h_state c = Responded then c
      else
        let c1 = c\<lparr>h_state := Responded, h_idleTimer := None\<rparr>
        in if \<not> h_connected c1 then c1
           else
             let c2 = sock [Response status (response_text (h_extraHeaders c1) status payload contentType)] c1
             in if h_bodyComplete c2 then (sock [DisconnectFromHost] c2)\<lparr>h_connected := False\<rparr>
                else c2\<lparr>h_idleInterval := DrainTimeoutMs, h_idleTimer := Some (now + DrainTimeoutMs)\<rparr>)"

definition json_type :: bytes where "json_type = bs ''application/json''"

definition respond_status :: "int \<Rightarrow> int \<Rightarrow> HttpConnection \<Rightarrow> HttpConnection" where
  "respond_status now status c = respond now status [] json_type c"

definition fail_with :: "int \<Rightarrow> int \<Rightarrow> HttpConnection \<Rightarrow> HttpConnection" where
  "fail_with now status c = respond_status now status c"

definition respondJson :: "netlib \<Rightarrow> int \<Rightarrow> int \<Rightarrow> jobject \<Rightarrow> HttpConnection \<Rightarrow> HttpConnection" where
  "respondJson net now status ob c = respond now status (j_text net (JObject ob)) json_type c"

definition jsonBody :: "netlib \<Rightarrow> HttpConnection \<Rightarrow> jobject" where
  "jsonBody net c = (case j_parse net (h_body c) of Some v \<Rightarrow> to_object v | None \<Rightarrow> [])"

definition query :: "HttpConnection \<Rightarrow> string \<Rightarrow> qstring" where
  "query c key = (case map_of (h_query c) (qs key) of Some v \<Rightarrow> v | None \<Rightarrow> [])"

definition header :: "HttpConnection \<Rightarrow> bytes \<Rightarrow> bytes" where
  "header c name = (case map_of (h_headers c) (bytes_lower name) of Some v \<Rightarrow> v | None \<Rightarrow> [])"

definition header_value :: "HttpConnection \<Rightarrow> string \<Rightarrow> bytes" where
  "header_value c name = (case map_of (h_headers c) (bs name) of Some v \<Rightarrow> v | None \<Rightarrow> [])"

definition hasResponded :: "HttpConnection \<Rightarrow> bool" where
  "hasResponded c \<longleftrightarrow> h_state c = Responded"

definition addHeader :: "bytes \<Rightarrow> bytes \<Rightarrow> HttpConnection \<Rightarrow> HttpConnection" where
  "addHeader name value c =
     (let safe = filter (\<lambda>b. b \<noteq> 13 \<and> b \<noteq> 10)
      in c\<lparr>h_extraHeaders := h_extraHeaders c @ [(safe name, safe value)]\<rparr>)"

definition streamBodyTo :: "int \<Rightarrow> nat \<Rightarrow> int \<Rightarrow> HttpConnection \<Rightarrow> HttpConnection" where
  "streamBodyTo now sink maxBytes c =
     (let c1 = c\<lparr>h_sink := Some sink, h_maxBodyBytes := maxBytes\<rparr>
      in if maxBytes \<ge> 0 \<and> h_contentLength c1 > maxBytes then fail_with now 413 c1 else c1)"

section \<open>The head\<close>

fun parse_header_lines :: "int \<Rightarrow> bytes list \<Rightarrow> HttpConnection \<Rightarrow> bool \<times> HttpConnection" where
  "parse_header_lines now [] c = (True, c)"
| "parse_header_lines now (l # ls) c =
     (let line = byte_trimmed l
      in case index_of (bs '':'') line of
           None \<Rightarrow> parse_header_lines now ls c
         | Some 0 \<Rightarrow> parse_header_lines now ls c
         | Some colon \<Rightarrow>
             let name = bytes_lower (byte_trimmed (take colon line));
                 v = byte_trimmed (drop (colon + 1) line)
             in (case map_of (h_headers c) name of
                   Some old \<Rightarrow>
                     if old \<noteq> v then (False, fail_with now 400 c)
                     else parse_header_lines now ls (c\<lparr>h_headers := AList.update name v (h_headers c)\<rparr>)
                 | None \<Rightarrow> parse_header_lines now ls (c\<lparr>h_headers := AList.update name v (h_headers c)\<rparr>)))"

definition set_body_length :: "HttpConnection \<Rightarrow> HttpConnection" where
  "set_body_length c =
     (let c1 = c\<lparr>h_headerDeadline := None,
                 h_chunked := contains_bytes (bs ''chunked'') (bytes_lower (header_value c ''transfer-encoding''))\<rparr>
      in if h_chunked c1 then c1\<lparr>h_contentLength := -1\<rparr>
         else c1\<lparr>h_contentLength :=
                (case toLongLong 10 (header_value c1 ''content-length'') of
                   Some declared \<Rightarrow> if declared > 0 then declared else 0
                 | None \<Rightarrow> 0)\<rparr>)"

definition parseHead :: "qtlib \<Rightarrow> netlib \<Rightarrow> int \<Rightarrow> bytes \<Rightarrow> HttpConnection \<Rightarrow> bool \<times> HttpConnection" where
  "parseHead lib net now head c =
     (let ls = split_on 10 head; requestLine = split_on 32 (byte_trimmed (hd ls))
      in if length requestLine < 2 then (False, fail_with now 400 c)
         else
           let (path, items) = u_target net (requestLine ! 1);
               c1 = c\<lparr>h_method := q_toUpper lib (fromLatin1 (requestLine ! 0)), h_path := path,
                      h_query := fold (\<lambda>(k, v). AList.update k v) items (h_query c)\<rparr>;
               (ok, c2) = parse_header_lines now (tl ls) c1
           in if \<not> ok then (False, c2) else (True, set_body_length c2))"

section \<open>The body\<close>

definition deliver :: "'w slots \<Rightarrow> int \<Rightarrow> bytes \<Rightarrow> HttpConnection \<Rightarrow> 'w \<Rightarrow> bool \<times> HttpConnection \<times> 'w" where
  "deliver sl now data c w =
     (if data = [] then (True, c, w)
      else
        let (ok, c1, w1) =
              (case h_sink c of
                 Some sink \<Rightarrow>
                   if h_maxBodyBytes c \<ge> 0 \<and> h_bodyReceived c + int (length data) > h_maxBodyBytes c
                   then (False, fail_with now 413 c, w)
                   else
                     let (written, w') = sink_write sl sink data w
                     in if written \<noteq> int (length data) then (False, fail_with now 500 c, w')
                        else (True, c, w')
               | None \<Rightarrow>
                   if length (h_body c) + length data > MaxBufferedBody then (False, fail_with now 413 c, w)
                   else (True, c\<lparr>h_body := h_body c @ data\<rparr>, w))
        in if \<not> ok then (False, c1, w1)
           else
             let c2 = c1\<lparr>h_bodyReceived := h_bodyReceived c1 + int (length data)\<rparr>
             in (True, c2, on_bodyProgress sl (h_bodyReceived c2) (h_contentLength c2) w1))"

definition finishBody :: "'w slots \<Rightarrow> HttpConnection \<Rightarrow> 'w \<Rightarrow> HttpConnection \<times> 'w" where
  "finishBody sl c w =
     (if h_bodyComplete c then (c, w)
      else on_requestReady sl (c\<lparr>h_bodyComplete := True, h_idleTimer := None, h_buffer := []\<rparr>) w)"

lemma respond_simps [simp]:
  "h_buffer (respond now s p ct c) = h_buffer c" "h_chunkState (respond now s p ct c) = h_chunkState c"
  "h_state (respond now s p ct c) = Responded" "h_body (respond now s p ct c) = h_body c"
  "h_bodyComplete (respond now s p ct c) = h_bodyComplete c" "h_sink (respond now s p ct c) = h_sink c"
  "h_bodyReceived (respond now s p ct c) = h_bodyReceived c" "h_chunked (respond now s p ct c) = h_chunked c"
  "h_contentLength (respond now s p ct c) = h_contentLength c" "h_maxBodyBytes (respond now s p ct c) = h_maxBodyBytes c"
  "h_query (respond now s p ct c) = h_query c" "h_path (respond now s p ct c) = h_path c"
  "h_peerAddress (respond now s p ct c) = h_peerAddress c" "h_headers (respond now s p ct c) = h_headers c"
  "h_closedEmitted (respond now s p ct c) = h_closedEmitted c" "h_chunkRemaining (respond now s p ct c) = h_chunkRemaining c"
  "h_peerCertificate (respond now s p ct c) = h_peerCertificate c"
  by (simp_all add: respond_def Let_def sock_def)

lemma fail_with_simps [simp]:
  "h_buffer (fail_with now s c) = h_buffer c" "h_chunkState (fail_with now s c) = h_chunkState c"
  "h_state (fail_with now s c) = Responded" "h_body (fail_with now s c) = h_body c"
  "h_bodyComplete (fail_with now s c) = h_bodyComplete c" "h_sink (fail_with now s c) = h_sink c"
  "h_bodyReceived (fail_with now s c) = h_bodyReceived c" "h_chunked (fail_with now s c) = h_chunked c"
  "h_contentLength (fail_with now s c) = h_contentLength c" "h_maxBodyBytes (fail_with now s c) = h_maxBodyBytes c"
  "h_closedEmitted (fail_with now s c) = h_closedEmitted c" "h_peerAddress (fail_with now s c) = h_peerAddress c"
  by (simp_all add: fail_with_def respond_status_def)

lemma deliver_buffer:
  "deliver sl now data c w = (ok, c', w')
     \<Longrightarrow> h_buffer c' = h_buffer c \<and> h_chunkState c' = h_chunkState c"
  by (auto simp: deliver_def Let_def split: if_splits option.splits prod.splits)

function (sequential) deliver_declared ::
    "'w slots \<Rightarrow> int \<Rightarrow> HttpConnection \<Rightarrow> 'w \<Rightarrow> bool \<times> HttpConnection \<times> 'w" where
  "deliver_declared sl now c w =
     (if h_bodyReceived c < h_contentLength c \<and> h_buffer c \<noteq> [] then
        let n = min (nat (h_contentLength c - h_bodyReceived c)) (length (h_buffer c));
            (ok, c2, w2) = deliver sl now (take n (h_buffer c)) (c\<lparr>h_buffer := drop n (h_buffer c)\<rparr>) w
        in if ok then deliver_declared sl now c2 w2 else (False, c2, w2)
      else (True, c, w))"
  by pat_completeness auto
termination
proof (relation "measure (\<lambda>(sl, now, c, w). length (h_buffer c))", goal_cases)
  case (2 sl now c w n res ok rest c2 w2)
  then have "deliver sl now (take n (h_buffer c)) (c\<lparr>h_buffer := drop n (h_buffer c)\<rparr>) w = (ok, c2, w2)" by simp
  from deliver_buffer [OF this] 2 show ?case by auto
qed simp

lemma index_of_length: "index_of pat s = Some i \<Longrightarrow> i + length pat \<le> length s"
proof (induction s arbitrary: i)
  case (Cons b s)
  then show ?case by (auto split: if_splits) (metis length_Cons length_take min.absorb_iff2 min_def nat_le_linear take_all)
qed (simp split: if_splits)

definition chunk_weight :: "HttpConnection \<Rightarrow> nat" where
  "chunk_weight c = 2 * length (h_buffer c) + (if h_chunkState c = ChunkData then 1 else 0)"

function (sequential) consumeChunkedBody ::
    "'w slots \<Rightarrow> int \<Rightarrow> HttpConnection \<Rightarrow> 'w \<Rightarrow> HttpConnection \<times> 'w" where
  "consumeChunkedBody sl now c w =
     (case h_chunkState c of
        ChunkSize \<Rightarrow>
          (case index_of crlf (h_buffer c) of
             None \<Rightarrow> if length (h_buffer c) > MaxHeadSize then (fail_with now 400 c, w) else (c, w)
           | Some eol \<Rightarrow>
               let sizeLine = takeWhile (\<lambda>b. b \<noteq> 59) (take eol (h_buffer c));
                   c1 = c\<lparr>h_buffer := drop (eol + 2) (h_buffer c)\<rparr>
               in (case toLongLong 16 (byte_trimmed sizeLine) of
                     Some n \<Rightarrow> if n < 0 then (fail_with now 400 c1, w)
                       else consumeChunkedBody sl now (c1\<lparr>h_chunkRemaining := nat n,
                              h_chunkState := (if n = 0 then ChunkTrailer else ChunkData)\<rparr>) w
                   | None \<Rightarrow> (fail_with now 400 (c1\<lparr>h_chunkRemaining := 0\<rparr>), w)))
      | ChunkData \<Rightarrow>
          if h_buffer c = [] then (c, w)
          else
            let n = min (h_chunkRemaining c) (length (h_buffer c));
                c1 = c\<lparr>h_buffer := drop n (h_buffer c), h_chunkRemaining := h_chunkRemaining c - n\<rparr>;
                (ok, c2, w2) = deliver sl now (take n (h_buffer c)) c1 w
            in if \<not> ok then (c2, w2)
               else consumeChunkedBody sl now
                      (if h_chunkRemaining c - n = 0 then c2\<lparr>h_chunkState := ChunkCrlf\<rparr> else c2) w2
      | ChunkCrlf \<Rightarrow>
          if length (h_buffer c) < 2 then (c, w)
          else consumeChunkedBody sl now (c\<lparr>h_buffer := drop 2 (h_buffer c), h_chunkState := ChunkSize\<rparr>) w
      | ChunkTrailer \<Rightarrow>
          (case index_of crlf (h_buffer c) of
             None \<Rightarrow> (c, w)
           | Some eol \<Rightarrow>
               let c1 = c\<lparr>h_trailerBytes := h_trailerBytes c + int eol + 2\<rparr>
               in if h_trailerBytes c1 > int MaxHeadSize then (fail_with now 431 c1, w)
                  else
                    let c2 = c1\<lparr>h_buffer := drop (eol + 2) (h_buffer c)\<rparr>
                    in if eol = 0
                       then finishBody sl (c2\<lparr>h_chunkState := ChunkDone, h_contentLength := h_bodyReceived c2\<rparr>) w
                       else consumeChunkedBody sl now c2 w)
      | ChunkDone \<Rightarrow> (c, w))"
  by pat_completeness auto
termination
proof (relation "measure (\<lambda>(sl, now, c, w). chunk_weight c)", goal_cases)
  case (2 sl now c w eol sizeLine c1 n)
  obtain k where "length (h_buffer c) = eol + length crlf + k"
    using le_Suc_ex [OF index_of_length [OF 2(2)]] by blast
  then have "length (h_buffer c) = eol + 2 + k" by (simp add: crlf_def)
  with 2 show ?case by (simp add: chunk_weight_def)
next
  case (3 sl now c w n c1 res ok rest c2 w2)
  then have "deliver sl now (take n (h_buffer c)) c1 w = (ok, c2, w2)" by simp
  from deliver_buffer [OF this] have c2: "h_buffer c2 = drop n (h_buffer c)" "h_chunkState c2 = ChunkData"
    using 3 by simp_all
  show ?case
  proof (cases "h_chunkRemaining c - n = 0")
    case True
    then show ?thesis using 3 c2 by (simp add: chunk_weight_def)
  next
    case False
    then have "0 < n" using 3 by (simp add: min_def split: if_splits)
    then show ?thesis using 3(2) False c2 3(1) by (simp add: chunk_weight_def)
  qed
next
  case (4 sl now c w)
  then show ?case by (simp add: chunk_weight_def)
next
  case (5 sl now c w eol c1 c2)
  from index_of_length [OF 5(2)] have "eol + 2 \<le> length (h_buffer c)" by (simp add: crlf_def)
  with 5 show ?case by (simp add: chunk_weight_def)
qed simp

declare consumeChunkedBody.simps [simp del] deliver_declared.simps [simp del]

definition consumeBody :: "'w slots \<Rightarrow> int \<Rightarrow> HttpConnection \<Rightarrow> 'w \<Rightarrow> HttpConnection \<times> 'w" where
  "consumeBody sl now c w =
     (if h_state c \<noteq> ReadingBody \<or> h_bodyComplete c then (c, w)
      else if h_chunked c then consumeChunkedBody sl now c w
      else
        let (ok, c1, w1) = deliver_declared sl now c w
        in if \<not> ok then (c1, w1)
           else if h_bodyReceived c1 \<ge> h_contentLength c1 then finishBody sl c1 w1 else (c1, w1))"

section \<open>The slots of the socket and the timers\<close>

definition after_head ::
    "'w slots \<Rightarrow> int \<Rightarrow> HttpConnection \<Rightarrow> 'w \<Rightarrow> HttpConnection \<times> 'w" where
  "after_head sl now c w =
     (if h_method c = qs ''OPTIONS'' then (respond now 204 [] [] c, w)
      else
        let (c1, w1) = on_headersReady sl c w
        in if h_state c1 \<noteq> ReadingBody then (c1, w1)
           else
             let c2 = (if bytes_lower (header_value c1 ''expect'') = bs ''100-continue''
                       then sock [Interim (bs ''HTTP/1.1 100 Continue'' @ crlf @ crlf)] c1 else c1)
             in consumeBody sl now c2 w1)"

definition onReadyRead ::
    "qtlib \<Rightarrow> netlib \<Rightarrow> 'w slots \<Rightarrow> int \<Rightarrow> bytes \<Rightarrow> HttpConnection \<Rightarrow> 'w \<Rightarrow> HttpConnection \<times> 'w" where
  "onReadyRead lib net sl now arrived c w =
     (let c0 = c\<lparr>h_idleTimer := Some (now + h_idleInterval c)\<rparr>
      in if h_state c0 = Responded \<or> h_bodyComplete c0 then (c0, w)
         else
           let c1 = c0\<lparr>h_buffer := h_buffer c0 @ arrived\<rparr>
           in if h_state c1 = ReadingHeaders then
                (case index_of (crlf @ crlf) (h_buffer c1) of
                   None \<Rightarrow> (if length (h_buffer c1) > MaxHeadSize then (fail_with now 431 c1, w) else (c1, w))
                 | Some e \<Rightarrow>
                     let (ok, c2) = parseHead lib net now (take e (h_buffer c1))
                                      (c1\<lparr>h_buffer := drop (e + 4) (h_buffer c1)\<rparr>)
                     in if \<not> ok then (c2, w) else after_head sl now (c2\<lparr>h_state := ReadingBody\<rparr>) w)
              else consumeBody sl now c1 w)"

definition onIdleTimeout :: "int \<Rightarrow> HttpConnection \<Rightarrow> HttpConnection" where
  "onIdleTimeout now c =
     (case h_idleTimer c of None \<Rightarrow> c
      | Some deadline \<Rightarrow>
          if now < deadline then c
          else
            let c1 = c\<lparr>h_idleTimer := None\<rparr>
            in if h_state c1 = Responded then (sock [Aborted] c1)\<lparr>h_connected := False\<rparr>
               else fail_with now 408 c1)"

definition onHeaderDeadline :: "int \<Rightarrow> HttpConnection \<Rightarrow> HttpConnection" where
  "onHeaderDeadline now c =
     (case h_headerDeadline c of None \<Rightarrow> c
      | Some deadline \<Rightarrow>
          if now < deadline then c
          else
            let c1 = c\<lparr>h_headerDeadline := None\<rparr>
            in if h_state c1 = ReadingHeaders then fail_with now 408 c1 else c1)"

definition onDisconnected :: "'w slots \<Rightarrow> HttpConnection \<Rightarrow> 'w \<Rightarrow> HttpConnection \<times> 'w" where
  "onDisconnected sl c w =
     (if h_closedEmitted c then (c, w)
      else on_closed sl (c\<lparr>h_closedEmitted := True, h_state := Responded, h_connected := False\<rparr>) w)"

text \<open>A socket that is gone delivers nothing more, and is told so once.\<close>

datatype conn_event = Readable int bytes | IdleTimeout int | HeaderDeadline int | Disconnected

fun conn_step ::
    "qtlib \<Rightarrow> netlib \<Rightarrow> 'w slots \<Rightarrow> conn_event \<Rightarrow> HttpConnection \<times> 'w \<Rightarrow> HttpConnection \<times> 'w" where
  "conn_step lib net sl (Readable now arrived) (c, w) =
     (if h_connected c then onReadyRead lib net sl now arrived c w else (c, w))"
| "conn_step lib net sl (IdleTimeout now) (c, w) = (onIdleTimeout now c, w)"
| "conn_step lib net sl (HeaderDeadline now) (c, w) = (onHeaderDeadline now c, w)"
| "conn_step lib net sl Disconnected (c, w) = onDisconnected sl c w"

end
