(* ===== verification/Http_Body.thy ===== *)
theory Http_Body
  imports Http_Connection
begin

text \<open>
  The body of a request arrives in pieces that can split anywhere. Here: however a well-formed
  body is cut, the connection reassembles exactly the bytes that were sent, and completes on
  the last of them. \<open>feed\<close> hands a connection the pieces one \<open>readyRead\<close> at a time.
\<close>

section \<open>Finding a line end\<close>

lemma index_of_crlf_line: "13 \<notin> set line \<Longrightarrow> index_of crlf (line @ crlf @ rest) = Some (length line)"
  by (induction line) (auto simp: crlf_def)

lemma index_of_crlf_partial:
  assumes "13 \<notin> set line" and "buffer @ future = line @ crlf @ rest" and "length buffer < length line + 2"
  shows "index_of crlf buffer = None"
  using assms
proof (induction line arbitrary: buffer)
  case Nil
  then show ?case by (cases buffer) (auto simp: crlf_def)
next
  case (Cons x line)
  show ?case
  proof (cases buffer)
    case (Cons b bs)
    with Cons.prems have "b \<noteq> 13" "index_of crlf bs = None" by (auto intro!: Cons.IH)
    then show ?thesis using Cons by (simp add: crlf_def)
  qed (simp add: crlf_def)
qed

lemma index_of_crlf_split:
  assumes "13 \<notin> set line" and "buffer @ future = line @ crlf @ rest"
  shows "(if length buffer < length line + 2 then index_of crlf buffer = None
          else index_of crlf buffer = Some (length line) \<and> take (length line) buffer = line
             \<and> drop (length line + 2) buffer @ future = rest)"
proof (cases "length buffer < length line + 2")
  case True
  then show ?thesis using index_of_crlf_partial [OF assms] by simp
next
  case False
  then have "take (length line + 2) buffer = line @ crlf"
    using arg_cong [OF assms(2), of "take (length line + 2)"] by (simp add: crlf_def)
  then have b: "buffer = line @ crlf @ drop (length line + 2) buffer"
    by (metis append.assoc append_take_drop_id)
  moreover have "drop (length line + 2) buffer @ future = rest"
    using arg_cong [OF assms(2), of "drop (length line + 2)"] False by (simp add: crlf_def)
  moreover have "take (length line) buffer = line" by (subst b) simp
  moreover have "index_of crlf buffer = Some (length line)"
    by (subst b) (rule index_of_crlf_line [OF assms(1)])
  ultimately show ?thesis using False by simp
qed

section \<open>Well-formed chunked bodies\<close>

text \<open>
  A chunk is its size line (hexadecimal, with extensions if any) and its data; the body ends with
  a line that reads zero, trailer lines and an empty line.
\<close>

definition line_ok :: "bytes \<Rightarrow> bool" where
  "line_ok l \<longleftrightarrow> 13 \<notin> set l \<and> length l < MaxHeadSize"

definition size_line :: "nat \<Rightarrow> bytes \<Rightarrow> bool" where
  "size_line n l \<longleftrightarrow> line_ok l \<and> toLongLong 16 (byte_trimmed (takeWhile (\<lambda>b. b \<noteq> 59) l)) = Some (int n)"

definition trailer_text :: "bytes list \<Rightarrow> bytes" where
  "trailer_text ts = concat (map (\<lambda>t. t @ crlf) ts) @ crlf"

definition chunked_text :: "(bytes \<times> bytes) list \<Rightarrow> bytes \<Rightarrow> bytes list \<Rightarrow> bytes" where
  "chunked_text chunks fin ts =
     concat (map (\<lambda>(l, d). l @ crlf @ d @ crlf) chunks) @ fin @ crlf @ trailer_text ts"

definition well_chunked :: "(bytes \<times> bytes) list \<Rightarrow> bytes \<Rightarrow> bytes list \<Rightarrow> bool" where
  "well_chunked chunks fin ts \<longleftrightarrow>
     list_all (\<lambda>(l, d). d \<noteq> [] \<and> size_line (length d) l) chunks \<and> size_line 0 fin
     \<and> list_all (\<lambda>t. t \<noteq> [] \<and> line_ok t) ts
     \<and> (\<Sum>t\<leftarrow>ts. length t + 2) + 2 \<le> MaxHeadSize"

text \<open>What the decoder still expects, by its state.\<close>

fun expects :: "HttpConnection \<Rightarrow> bytes \<Rightarrow> bytes \<Rightarrow> bool" where
  "expects c stream todo =
     (case h_chunkState c of
        ChunkSize \<Rightarrow> \<exists>chunks fin ts. well_chunked chunks fin ts \<and> h_trailerBytes c = 0
          \<and> stream = chunked_text chunks fin ts \<and> todo = concat (map snd chunks)
      | ChunkData \<Rightarrow> \<exists>d chunks fin ts. d \<noteq> [] \<and> h_chunkRemaining c = length d \<and> well_chunked chunks fin ts
          \<and> h_trailerBytes c = 0
          \<and> stream = d @ crlf @ chunked_text chunks fin ts \<and> todo = d @ concat (map snd chunks)
      | ChunkCrlf \<Rightarrow> \<exists>chunks fin ts. well_chunked chunks fin ts \<and> h_trailerBytes c = 0
          \<and> stream = crlf @ chunked_text chunks fin ts \<and> todo = concat (map snd chunks)
      | ChunkTrailer \<Rightarrow> \<exists>ts. list_all (\<lambda>t. t \<noteq> [] \<and> line_ok t) ts
          \<and> h_trailerBytes c + int ((\<Sum>t\<leftarrow>ts. length t + 2) + 2) \<le> int MaxHeadSize
          \<and> stream = trailer_text ts \<and> todo = []
      | ChunkDone \<Rightarrow> False)"

declare expects.simps [simp del]

definition decoding :: "bytes \<Rightarrow> bytes \<Rightarrow> HttpConnection \<Rightarrow> bool" where
  "decoding target future c \<longleftrightarrow>
     h_state c = ReadingBody \<and> \<not> h_bodyComplete c \<and> h_chunked c \<and> h_sink c = None
     \<and> h_bodyReceived c = int (length (h_body c)) \<and> length target \<le> MaxBufferedBody
     \<and> (\<exists>todo. expects c (h_buffer c @ future) todo \<and> h_body c @ todo = target)"

text \<open>The request as the handler gets it.\<close>

definition completed :: "bytes \<Rightarrow> HttpConnection \<Rightarrow> bool" where
  "completed target c \<longleftrightarrow> h_state c = ReadingBody \<and> h_bodyComplete c \<and> h_body c = target
     \<and> h_bodyReceived c = int (length target) \<and> h_contentLength c = int (length target)"

definition decoded :: "'w slots \<Rightarrow> bytes \<Rightarrow> bytes \<Rightarrow> HttpConnection \<times> 'w \<Rightarrow> bool" where
  "decoded sl target future r \<longleftrightarrow>
     (if future = [] then \<exists>cf wf. completed target cf \<and> r = on_requestReady sl cf wf
      else decoding target future (fst r))"

lemma deliver_plain:
  assumes "h_sink c = None" "data \<noteq> []" "length (h_body c) + length data \<le> MaxBufferedBody"
  shows "\<exists>w'. deliver sl now data c w = (True, c\<lparr>h_body := h_body c @ data,
      h_bodyReceived := h_bodyReceived c + int (length data)\<rparr>, w')"
  using assms by (simp add: deliver_def Let_def)

section \<open>One step of the decoder\<close>

text \<open>
  Each state of the decoder either waits for bytes that are still to come, or moves to a smaller
  state of which the same holds.
\<close>

definition proceeds :: "'w slots \<Rightarrow> int \<Rightarrow> bytes \<Rightarrow> bytes \<Rightarrow> HttpConnection \<Rightarrow> 'w \<Rightarrow> bool" where
  "proceeds sl now target future c w \<longleftrightarrow>
     (future \<noteq> [] \<and> consumeChunkedBody sl now c w = (c, w))
     \<or> (\<exists>c' w'. consumeChunkedBody sl now c w = consumeChunkedBody sl now c' w'
          \<and> chunk_weight c' < chunk_weight c \<and> decoding target future c')
     \<or> (future = [] \<and> (\<exists>cf wf. completed target cf \<and> consumeChunkedBody sl now c w = on_requestReady sl cf wf))"

lemma decodingD:
  assumes "decoding target future c"
  obtains todo where "expects c (h_buffer c @ future) todo" "h_body c @ todo = target"
    "h_state c = ReadingBody" "\<not> h_bodyComplete c" "h_chunked c" "h_sink c = None"
    "h_bodyReceived c = int (length (h_body c))" "length target \<le> MaxBufferedBody"
  using assms by (auto simp: decoding_def)

lemma size_line_fields:
  "size_line n l \<Longrightarrow> 13 \<notin> set l \<and> length l < MaxHeadSize \<and>
     toLongLong 16 (byte_trimmed (takeWhile (\<lambda>b. b \<noteq> 59) l)) = Some (int n)"
  by (simp add: size_line_def line_ok_def)

lemma proceeds_size_line:
  assumes st: "h_chunkState c = ChunkSize" and l: "size_line n l"
    and stream: "h_buffer c @ future = l @ crlf @ rest"
    and next_ok: "\<And>c'. c' = c\<lparr>h_buffer := drop (length l + 2) (h_buffer c), h_chunkRemaining := n,
        h_chunkState := (if n = 0 then ChunkTrailer else ChunkData)\<rparr> \<Longrightarrow>
      h_buffer c' @ future = rest \<Longrightarrow> decoding target future c'"
  shows "proceeds sl now target future c w"
proof (cases "length (h_buffer c) < length l + 2")
  case True
  then have "index_of crlf (h_buffer c) = None" "\<not> length (h_buffer c) > MaxHeadSize"
    using index_of_crlf_split [OF _ stream] size_line_fields [OF l] by auto
  then have "consumeChunkedBody sl now c w = (c, w)"
    using st by (subst consumeChunkedBody.simps) simp
  moreover have "future \<noteq> []" using True stream by (auto dest: arg_cong [of _ _ length] simp: crlf_def)
  ultimately show ?thesis by (simp add: proceeds_def)
next
  case False
  with index_of_crlf_split [OF _ stream] size_line_fields [OF l]
  have eol: "index_of crlf (h_buffer c) = Some (length l)" and line: "take (length l) (h_buffer c) = l"
    and rest: "drop (length l + 2) (h_buffer c) @ future = rest" by auto
  define c' where "c' = c\<lparr>h_buffer := drop (length l + 2) (h_buffer c), h_chunkRemaining := n,
        h_chunkState := (if n = 0 then ChunkTrailer else ChunkData)\<rparr>"
  have "consumeChunkedBody sl now c w = consumeChunkedBody sl now c' w"
    using st eol line size_line_fields [OF l]
    by (subst consumeChunkedBody.simps) (simp add: c'_def)
  moreover have "chunk_weight c' < chunk_weight c"
    using False st by (auto simp: chunk_weight_def c'_def)
  moreover have "decoding target future c'"
    using next_ok [OF c'_def] rest by (simp add: c'_def)
  ultimately show ?thesis unfolding proceeds_def by blast
qed

lemma proceeds_ChunkSize:
  assumes dec: "decoding target future c" and st: "h_chunkState c = ChunkSize"
  shows "proceeds sl now target future c w"
proof -
  obtain todo where exp: "expects c (h_buffer c @ future) todo" and body: "h_body c @ todo = target"
    and base: "h_state c = ReadingBody" "\<not> h_bodyComplete c" "h_chunked c" "h_sink c = None"
      "h_bodyReceived c = int (length (h_body c))" "length target \<le> MaxBufferedBody"
    by (rule decodingD [OF dec])
  obtain chunks fin ts where wc: "well_chunked chunks fin ts" and tb: "h_trailerBytes c = 0"
    and stream: "h_buffer c @ future = chunked_text chunks fin ts" and todo: "todo = concat (map snd chunks)"
    using exp st by (auto simp: expects.simps)
  show ?thesis
  proof (cases chunks)
    case Nil
    have zero: "size_line 0 fin" using wc by (simp add: well_chunked_def)
    have "h_buffer c @ future = fin @ crlf @ trailer_text ts" using stream Nil by (simp add: chunked_text_def)
    then show ?thesis
    proof (rule proceeds_size_line [OF st zero])
      fix c' assume c': "c' = c\<lparr>h_buffer := drop (length fin + 2) (h_buffer c), h_chunkRemaining := 0,
        h_chunkState := (if (0::nat) = 0 then ChunkTrailer else ChunkData)\<rparr>"
        and "h_buffer c' @ future = trailer_text ts"
      then have "expects c' (h_buffer c' @ future) []"
        using wc tb by (auto simp: expects.simps well_chunked_def)
      then show "decoding target future c'"
        using base body todo Nil by (auto simp: decoding_def c')
    qed
  next
    case (Cons p cs)
    obtain l d where p: "p = (l, d)" by fastforce
    have d: "d \<noteq> []" and l: "size_line (length d) l" and wc': "well_chunked cs fin ts"
      using wc Cons p by (auto simp: well_chunked_def)
    have "h_buffer c @ future = l @ crlf @ (d @ crlf @ chunked_text cs fin ts)"
      using stream Cons p by (simp add: chunked_text_def)
    then show ?thesis
    proof (rule proceeds_size_line [OF st l])
      fix c' assume c': "c' = c\<lparr>h_buffer := drop (length l + 2) (h_buffer c), h_chunkRemaining := length d,
        h_chunkState := (if length d = 0 then ChunkTrailer else ChunkData)\<rparr>"
        and "h_buffer c' @ future = d @ crlf @ chunked_text cs fin ts"
      then have "expects c' (h_buffer c' @ future) (d @ concat (map snd cs))"
        using wc' tb d by (auto simp: expects.simps)
      then show "decoding target future c'"
        using base body todo Cons p by (auto simp: decoding_def c')
    qed
  qed
qed

lemma proceeds_ChunkData:
  assumes dec: "decoding target future c" and st: "h_chunkState c = ChunkData"
  shows "proceeds sl now target future c w"
proof -
  obtain todo where exp: "expects c (h_buffer c @ future) todo" and body: "h_body c @ todo = target"
    and base: "h_state c = ReadingBody" "\<not> h_bodyComplete c" "h_chunked c" "h_sink c = None"
      "h_bodyReceived c = int (length (h_body c))" "length target \<le> MaxBufferedBody"
    by (rule decodingD [OF dec])
  obtain d cs fin ts where d: "d \<noteq> []" "h_chunkRemaining c = length d" and wc: "well_chunked cs fin ts"
    and tb: "h_trailerBytes c = 0" and stream: "h_buffer c @ future = d @ crlf @ chunked_text cs fin ts"
    and todo: "todo = d @ concat (map snd cs)"
    using exp st by (auto simp: expects.simps)
  show ?thesis
  proof (cases "h_buffer c = []")
    case True
    then have "consumeChunkedBody sl now c w = (c, w)" using st by (subst consumeChunkedBody.simps) simp
    moreover have "future \<noteq> []" using True stream d by auto
    ultimately show ?thesis by (simp add: proceeds_def)
  next
    case False
    define n where "n = min (length d) (length (h_buffer c))"
    have taken: "take n (h_buffer c) = take n d"
      using arg_cong [OF stream, of "take n"] by (simp add: n_def)
    have rest: "drop n (h_buffer c) @ future = drop n d @ crlf @ chunked_text cs fin ts"
      using arg_cong [OF stream, of "drop n"] by (simp add: n_def)
    have n: "0 < n" "n \<le> length d" using d False by (auto simp: n_def)
    define c1 where "c1 = c\<lparr>h_buffer := drop n (h_buffer c), h_chunkRemaining := h_chunkRemaining c - n\<rparr>"
    define c2 where "c2 = c1\<lparr>h_body := h_body c1 @ take n d, h_bodyReceived := h_bodyReceived c1 + int (length (take n d))\<rparr>"
    have room: "length (h_body c1) + length (take n d) \<le> MaxBufferedBody"
      using base(6) body todo by (auto simp: c1_def)
    obtain w2 where del: "deliver sl now (take n d) c1 w = (True, c2, w2)"
      using deliver_plain [of c1 "take n d" sl now w] base(4) n d room by (auto simp: c2_def c1_def)
    define c' where "c' = (if h_chunkRemaining c - n = 0 then c2\<lparr>h_chunkState := ChunkCrlf\<rparr> else c2)"
    have "consumeChunkedBody sl now c w = consumeChunkedBody sl now c' w2"
    proof -
      have n': "min (h_chunkRemaining c) (length (h_buffer c)) = n" by (simp add: n_def d(2))
      have del': "deliver sl now (take n (h_buffer c))
          (c\<lparr>h_buffer := drop n (h_buffer c), h_chunkRemaining := h_chunkRemaining c - n\<rparr>) w = (True, c2, w2)"
        using del by (simp only: taken c1_def)
      show ?thesis
        by (subst consumeChunkedBody.simps)
          (simp only: st chunk_state.case Let_def n' del' prod.case not_True_eq_False False if_False c'_def)
    qed
    moreover have "chunk_weight c' < chunk_weight c"
      using st n False by (auto simp: chunk_weight_def c'_def c2_def c1_def n_def)
    moreover have "decoding target future c'"
    proof -
      have "expects c' (h_buffer c' @ future) (drop n d @ concat (map snd cs))"
      proof (cases "n = length d")
        case True
        then show ?thesis using wc tb rest d(2) by (auto simp: expects.simps c'_def c2_def c1_def)
      next
        case False
        with n have ne: "drop n d \<noteq> []" by auto
        have st': "h_chunkState c' = ChunkData" and "h_trailerBytes c' = 0"
          and "h_chunkRemaining c' = length (drop n d)"
          and "h_buffer c' @ future = drop n d @ crlf @ chunked_text cs fin ts"
          using False n tb rest d(2) st by (auto simp: c'_def c2_def c1_def)
        with ne wc show ?thesis unfolding expects.simps st' chunk_state.case by blast
      qed
      moreover have "h_body c' @ drop n d @ concat (map snd cs) = target"
        using body todo by (simp add: c'_def c2_def c1_def) (metis append.assoc append_take_drop_id)
      ultimately show ?thesis using base by (auto simp: decoding_def c'_def c2_def c1_def)
    qed
    ultimately show ?thesis unfolding proceeds_def by blast
  qed
qed

lemma proceeds_ChunkCrlf:
  assumes dec: "decoding target future c" and st: "h_chunkState c = ChunkCrlf"
  shows "proceeds sl now target future c w"
proof -
  obtain todo where exp: "expects c (h_buffer c @ future) todo" and body: "h_body c @ todo = target"
    and base: "h_state c = ReadingBody" "\<not> h_bodyComplete c" "h_chunked c" "h_sink c = None"
      "h_bodyReceived c = int (length (h_body c))" "length target \<le> MaxBufferedBody"
    by (rule decodingD [OF dec])
  obtain cs fin ts where wc: "well_chunked cs fin ts" and tb: "h_trailerBytes c = 0"
    and stream: "h_buffer c @ future = crlf @ chunked_text cs fin ts" and todo: "todo = concat (map snd cs)"
    using exp st by (auto simp: expects.simps)
  show ?thesis
  proof (cases "length (h_buffer c) < 2")
    case True
    then have "consumeChunkedBody sl now c w = (c, w)" using st by (subst consumeChunkedBody.simps) simp
    moreover have "future \<noteq> []" using True stream by (auto simp: crlf_def)
    ultimately show ?thesis by (simp add: proceeds_def)
  next
    case False
    define c' where "c' = c\<lparr>h_buffer := drop 2 (h_buffer c), h_chunkState := ChunkSize\<rparr>"
    have "drop 2 (h_buffer c) @ future = chunked_text cs fin ts"
      using arg_cong [OF stream, of "drop 2"] False by (simp add: crlf_def)
    then have "expects c' (h_buffer c' @ future) todo"
      using wc tb todo by (auto simp: expects.simps c'_def)
    then have "decoding target future c'" using base body by (auto simp: decoding_def c'_def)
    moreover have "consumeChunkedBody sl now c w = consumeChunkedBody sl now c' w"
      using st False by (subst consumeChunkedBody.simps) (simp add: c'_def)
    moreover have "chunk_weight c' < chunk_weight c"
      using st False by (auto simp: chunk_weight_def c'_def)
    ultimately show ?thesis unfolding proceeds_def by blast
  qed
qed

lemma proceeds_ChunkTrailer:
  assumes dec: "decoding target future c" and st: "h_chunkState c = ChunkTrailer"
  shows "proceeds sl now target future c w"
proof -
  obtain todo where exp: "expects c (h_buffer c @ future) todo" and body: "h_body c @ todo = target"
    and base: "h_state c = ReadingBody" "\<not> h_bodyComplete c" "h_chunked c" "h_sink c = None"
      "h_bodyReceived c = int (length (h_body c))" "length target \<le> MaxBufferedBody"
    by (rule decodingD [OF dec])
  obtain ts where ts: "list_all (\<lambda>t. t \<noteq> [] \<and> line_ok t) ts"
    and tb: "h_trailerBytes c + int ((\<Sum>t\<leftarrow>ts. length t + 2) + 2) \<le> int MaxHeadSize"
    and stream: "h_buffer c @ future = trailer_text ts" and todo: "todo = []"
    using exp st by (auto simp: expects.simps)
  obtain l rest where l: "13 \<notin> set l" "trailer_text ts = l @ crlf @ rest"
    and lr: "ts = [] \<and> l = [] \<and> rest = [] \<or> (\<exists>ts'. ts = l # ts' \<and> l \<noteq> [] \<and> rest = trailer_text ts')"
  proof (cases ts)
    case Nil
    then show ?thesis using that [of "[]" "[]"] by (simp add: trailer_text_def)
  next
    case (Cons l ts')
    then show ?thesis using that [of l "trailer_text ts'"] ts by (auto simp: trailer_text_def line_ok_def)
  qed
  note split = index_of_crlf_split [OF l(1), of "h_buffer c" future rest, folded l(2), OF stream]
  show ?thesis
  proof (cases "length (h_buffer c) < length l + 2")
    case True
    with split have "index_of crlf (h_buffer c) = None" by simp
    then have "consumeChunkedBody sl now c w = (c, w)" using st by (subst consumeChunkedBody.simps) simp
    moreover have "future \<noteq> []" using True stream l(2) by (auto dest: arg_cong [of _ _ length] simp: crlf_def)
    ultimately show ?thesis by (simp add: proceeds_def)
  next
    case False
    with split have eol: "index_of crlf (h_buffer c) = Some (length l)"
      and rest: "drop (length l + 2) (h_buffer c) @ future = rest" by auto
    define c' where "c' = c\<lparr>h_trailerBytes := h_trailerBytes c + int (length l) + 2,
        h_buffer := drop (length l + 2) (h_buffer c)\<rparr>"
    from lr consider "ts = []" "l = []" "rest = []" | (more) ts' where "ts = l # ts'" "l \<noteq> []" "rest = trailer_text ts'"
      by blast
    then show ?thesis
    proof cases
      case 1
      let ?cf = "c'\<lparr>h_chunkState := ChunkDone, h_contentLength := h_bodyReceived c', h_bodyComplete := True,
          h_idleTimer := None, h_buffer := []\<rparr>"
      have "consumeChunkedBody sl now c w = on_requestReady sl ?cf w"
        using st eol tb 1 base by (subst consumeChunkedBody.simps) (simp add: c'_def finishBody_def)
      moreover have "completed target ?cf"
        using base body todo by (simp add: completed_def c'_def)
      moreover have "future = []" using rest 1 by simp
      ultimately show ?thesis unfolding proceeds_def by blast
    next
      case more
      have "\<not> h_trailerBytes c' > int MaxHeadSize" using tb more by (simp add: c'_def)
      then have "consumeChunkedBody sl now c w = consumeChunkedBody sl now c' w"
        using st eol more by (subst consumeChunkedBody.simps) (simp add: c'_def)
      moreover have "chunk_weight c' < chunk_weight c" using st False by (auto simp: chunk_weight_def c'_def)
      moreover have "expects c' (h_buffer c' @ future) []"
        using more ts tb rest st by (auto simp: expects.simps c'_def)
      then have "decoding target future c'" using base body todo by (auto simp: decoding_def c'_def)
      ultimately show ?thesis unfolding proceeds_def by blast
    qed
  qed
qed

lemma decoding_decoded:
  "decoding target future c \<Longrightarrow> decoded sl target future (consumeChunkedBody sl now c w)"
proof (induction "chunk_weight c" arbitrary: c w rule: less_induct)
  case less
  have "h_chunkState c \<noteq> ChunkDone" using less.prems by (auto simp: decoding_def expects.simps)
  then have "proceeds sl now target future c w"
    using less.prems by (cases "h_chunkState c")
      (auto intro: proceeds_ChunkSize proceeds_ChunkData proceeds_ChunkCrlf proceeds_ChunkTrailer)
  then show ?case
    using less by (auto simp: proceeds_def decoded_def split: if_splits)
qed

section \<open>A body in any number of pieces\<close>

fun feed :: "qtlib \<Rightarrow> netlib \<Rightarrow> 'w slots \<Rightarrow> (int \<times> bytes) list \<Rightarrow> HttpConnection \<times> 'w \<Rightarrow> HttpConnection \<times> 'w" where
  "feed lib net sl [] s = s"
| "feed lib net sl ((now, p) # ps) s = feed lib net sl ps (onReadyRead lib net sl now p (fst s) (snd s))"

lemma readyRead_decoding:
  assumes "decoding target (p @ future) c"
  shows "decoded sl target future (onReadyRead lib net sl now p c w)"
proof -
  let ?c = "c\<lparr>h_idleTimer := Some (now + h_idleInterval c), h_buffer := h_buffer c @ p\<rparr>"
  have st: "h_state c = ReadingBody" "\<not> h_bodyComplete c" "h_chunked c"
    using assms by (auto simp: decoding_def)
  have "expects ?c = expects c" by (intro ext, cases "h_chunkState c") (simp_all add: expects.simps)
  then have "decoding target future ?c" using assms by (auto simp: decoding_def)
  then have "decoded sl target future (consumeChunkedBody sl now ?c w)" by (rule decoding_decoded)
  with st show ?thesis by (simp add: onReadyRead_def consumeBody_def Let_def)
qed

text \<open>Once complete, whatever else arrives is dropped, as long as no handler reopens the request.\<close>

lemma feed_complete:
  "h_bodyComplete c \<Longrightarrow> \<exists>t. feed lib net sl ps (c, w) = (c\<lparr>h_idleTimer := t\<rparr>, w)"
proof (induction ps arbitrary: c)
  case Nil
  then show ?case by (intro exI [of _ "h_idleTimer c"]) simp
next
  case (Cons p ps)
  obtain now b where p: "p = (now, b)" by fastforce
  have "onReadyRead lib net sl now b c w = (c\<lparr>h_idleTimer := Some (now + h_idleInterval c)\<rparr>, w)"
    using Cons.prems by (simp add: onReadyRead_def)
  with Cons.IH [of "c\<lparr>h_idleTimer := Some (now + h_idleInterval c)\<rparr>"] Cons.prems p show ?case by fastforce
qed

lemma feed_decoding:
  assumes keeps: "\<And>c w. h_bodyComplete c \<Longrightarrow> h_bodyComplete (fst (on_requestReady sl c w))"
    and "decoding target (concat (map snd ps)) c" "concat (map snd ps) \<noteq> []"
  shows "\<exists>cf wf t. completed target cf \<and> feed lib net sl ps (c, w) =
      ((fst (on_requestReady sl cf wf))\<lparr>h_idleTimer := t\<rparr>, snd (on_requestReady sl cf wf))"
  using assms(2,3)
proof (induction ps arbitrary: c w)
  case (Cons p ps)
  obtain now b where p: "p = (now, b)" by fastforce
  let ?r = "onReadyRead lib net sl now b c w" and ?future = "concat (map snd ps)"
  have dec: "decoded sl target ?future ?r" using Cons.prems(1) p by (intro readyRead_decoding) simp
  show ?case
  proof (cases "?future = []")
    case True
    with dec obtain cf wf where cf: "completed target cf" "?r = on_requestReady sl cf wf"
      by (auto simp: decoded_def)
    have "h_bodyComplete (fst ?r)" using keeps [of cf wf] cf by (simp add: completed_def)
    then obtain t where "feed lib net sl ps ?r = ((fst ?r)\<lparr>h_idleTimer := t\<rparr>, snd ?r)"
      using feed_complete [of "fst ?r"] by (metis prod.collapse)
    with cf p show ?thesis by (intro exI [of _ cf] exI [of _ wf] exI [of _ t]) simp
  next
    case False
    with dec have "decoding target ?future (fst ?r)" by (simp add: decoded_def)
    from Cons.IH [OF this False, of "snd ?r"] p show ?thesis by simp
  qed
qed simp

text \<open>The connection as it is right after the head of a chunked request nobody streams.\<close>

definition awaits_chunks :: "HttpConnection \<Rightarrow> bool" where
  "awaits_chunks c \<longleftrightarrow> h_state c = ReadingBody \<and> \<not> h_bodyComplete c \<and> h_chunked c \<and> h_sink c = None
     \<and> h_body c = [] \<and> h_bodyReceived c = 0 \<and> h_chunkState c = ChunkSize \<and> h_trailerBytes c = 0 \<and> h_buffer c = []"

text \<open>
  C29. Chunked decoding is the inverse of chunked encoding, however the network cuts the bytes:
  for any well-formed chunked body of at most 16 MB, in any pieces, at any times, the handler is
  called with a request whose body is exactly the concatenation of the chunks' data, complete,
  counted and unanswered; what the socket shows afterwards is what the handler made of it.
\<close>

theorem chunked_body_roundtrip:
  assumes "well_chunked chunks fin ts" and "length (concat (map snd chunks)) \<le> MaxBufferedBody"
    and "awaits_chunks c" and "concat (map snd ps) = chunked_text chunks fin ts"
    and "\<And>c w. h_bodyComplete c \<Longrightarrow> h_bodyComplete (fst (on_requestReady sl c w))"
  shows "\<exists>cf wf t. completed (concat (map snd chunks)) cf \<and> feed lib net sl ps (c, w) =
      ((fst (on_requestReady sl cf wf))\<lparr>h_idleTimer := t\<rparr>, snd (on_requestReady sl cf wf))"
proof (rule feed_decoding [OF assms(5)])
  have "expects c (chunked_text chunks fin ts) (concat (map snd chunks))"
    using assms(1,3) by (auto simp: expects.simps awaits_chunks_def)
  then show "decoding (concat (map snd chunks)) (concat (map snd ps)) c"
    using assms(2-4) by (auto simp: decoding_def awaits_chunks_def)
  show "concat (map snd ps) \<noteq> []" by (simp add: assms(4) chunked_text_def crlf_def)
qed

section \<open>A body of a declared length\<close>

definition awaits_length :: "nat \<Rightarrow> HttpConnection \<Rightarrow> bool" where
  "awaits_length n c \<longleftrightarrow> h_state c = ReadingBody \<and> \<not> h_bodyComplete c \<and> \<not> h_chunked c \<and> h_sink c = None
     \<and> h_bodyReceived c = int (length (h_body c)) \<and> h_contentLength c = int n \<and> h_buffer c = []
     \<and> length (h_body c) < n \<and> n \<le> MaxBufferedBody"

lemma deliver_declared_once:
  assumes "h_sink c = None" "h_bodyReceived c = int (length (h_body c))" "h_contentLength c = int n"
    "length (h_body c) < n" "n \<le> MaxBufferedBody"
  defines "k \<equiv> min (n - length (h_body c)) (length (h_buffer c))"
  shows "\<exists>w'. deliver_declared sl now c w = (True, c\<lparr>h_buffer := drop k (h_buffer c),
     h_body := h_body c @ take k (h_buffer c), h_bodyReceived := h_bodyReceived c + int k\<rparr>, w')"
proof (cases "h_buffer c = []")
  case True
  then have "deliver_declared sl now c w = (True, c, w)" by (subst deliver_declared.simps) simp
  with True show ?thesis by (cases c) (simp add: k_def)
next
  case False
  let ?c1 = "c\<lparr>h_buffer := drop k (h_buffer c)\<rparr>"
  have k: "0 < k" "k \<le> length (h_buffer c)" "length (h_body c) + k \<le> n"
    using False assms(4) by (auto simp: k_def)
  let ?c2 = "?c1\<lparr>h_body := h_body c @ take k (h_buffer c), h_bodyReceived := h_bodyReceived c + int k\<rparr>"
  obtain w' where del: "deliver sl now (take k (h_buffer c)) ?c1 w = (True, ?c2, w')"
    using deliver_plain [of ?c1 "take k (h_buffer c)" sl now w] assms(1,5) k False by auto
  have k': "min (nat (h_contentLength c - h_bodyReceived c)) (length (h_buffer c)) = k"
    using assms(2-4) by (simp add: k_def nat_diff_distrib)
  have cont: "h_bodyReceived c < h_contentLength c \<and> h_buffer c \<noteq> []" using False assms(2-4) by simp
  have "deliver_declared sl now c w = deliver_declared sl now ?c2 w'"
    by (subst deliver_declared.simps) (simp only: cont if_True Let_def k' del prod.case simp_thms)
  moreover have "deliver_declared sl now ?c2 w' = (True, ?c2, w')"
    using assms(2,3) by (subst deliver_declared.simps) (auto simp: k_def)
  ultimately show ?thesis by simp
qed

lemma readyRead_length:
  assumes "awaits_length n c"
  shows "if length (h_body c) + length p < n
    then \<exists>c' w'. onReadyRead lib net sl now p c w = (c', w') \<and> awaits_length n c' \<and> h_body c' = h_body c @ p
    else \<exists>cf wf. onReadyRead lib net sl now p c w = on_requestReady sl cf wf
           \<and> completed (h_body c @ take (n - length (h_body c)) p) cf"
proof -
  let ?c = "c\<lparr>h_idleTimer := Some (now + h_idleInterval c), h_buffer := p\<rparr>"
  define k where "k = min (n - length (h_body c)) (length p)"
  have st: "h_state c = ReadingBody" "\<not> h_bodyComplete c" "\<not> h_chunked c" "h_buffer c = []"
      "h_sink c = None" "h_bodyReceived c = int (length (h_body c))" "h_contentLength c = int n"
      "length (h_body c) < n" "n \<le> MaxBufferedBody"
    using assms by (auto simp: awaits_length_def)
  define c2 where "c2 = ?c\<lparr>h_buffer := drop k p, h_body := h_body c @ take k p, h_bodyReceived := h_bodyReceived c + int k\<rparr>"
  obtain w' where "deliver_declared sl now ?c w = (True, c2, w')"
    using deliver_declared_once [of ?c n sl now w] st by (auto simp: c2_def k_def)
  then have read: "onReadyRead lib net sl now p c w =
      (if h_bodyReceived c2 \<ge> h_contentLength c2 then finishBody sl c2 w' else (c2, w'))"
    using st by (simp add: onReadyRead_def consumeBody_def Let_def)
  show ?thesis
  proof (cases "length (h_body c) + length p < n")
    case True
    then have "k = length p" by (simp add: k_def)
    with True st read show ?thesis by (simp add: c2_def awaits_length_def)
  next
    case False
    then have k: "k = n - length (h_body c)" using st(8) by (simp add: k_def)
    have "onReadyRead lib net sl now p c w = on_requestReady sl
        (c2\<lparr>h_bodyComplete := True, h_idleTimer := None, h_buffer := []\<rparr>) w'"
      using read k st by (simp add: c2_def finishBody_def)
    moreover have "completed (h_body c @ take k p) (c2\<lparr>h_bodyComplete := True, h_idleTimer := None, h_buffer := []\<rparr>)"
      using k st False by (simp add: completed_def c2_def)
    ultimately show ?thesis using False by (auto simp: k)
  qed
qed

text \<open>
  A body of a declared length (at most 16 MB, streamed nowhere) is delivered byte for byte,
  however it is cut: once the pieces add up to the length, the handler has been called with
  exactly the first \<open>n\<close> bytes, and every byte past them has been dropped.
\<close>

theorem length_body_roundtrip:
  assumes "awaits_length n c" and "n \<le> length (h_body c @ concat (map snd ps))"
    and keeps: "\<And>c w. h_bodyComplete c \<Longrightarrow> h_bodyComplete (fst (on_requestReady sl c w))"
  shows "\<exists>cf wf t. completed (take n (h_body c @ concat (map snd ps))) cf \<and> feed lib net sl ps (c, w) =
      ((fst (on_requestReady sl cf wf))\<lparr>h_idleTimer := t\<rparr>, snd (on_requestReady sl cf wf))"
  using assms(1,2)
proof (induction ps arbitrary: c w)
  case Nil
  then show ?case by (simp add: awaits_length_def)
next
  case (Cons q ps)
  obtain now p where q: "q = (now, p)" by fastforce
  let ?r = "onReadyRead lib net sl now p c w"
  have short: "length (h_body c) < n" using Cons.prems(1) by (simp add: awaits_length_def)
  show ?case
  proof (cases "length (h_body c) + length p < n")
    case True
    with readyRead_length [OF Cons.prems(1), of p] obtain c' w' where
      r: "?r = (c', w')" "awaits_length n c'" "h_body c' = h_body c @ p" by metis
    from Cons.IH [OF r(2)] r Cons.prems(2) q show ?thesis by simp
  next
    case False
    with readyRead_length [OF Cons.prems(1), of p] obtain cf wf where
      r: "?r = on_requestReady sl cf wf" "completed (h_body c @ take (n - length (h_body c)) p) cf" by metis
    have "h_bodyComplete (fst ?r)" using keeps [of cf wf] r by (simp add: completed_def)
    then obtain t where "feed lib net sl ps ?r = ((fst ?r)\<lparr>h_idleTimer := t\<rparr>, snd ?r)"
      using feed_complete [of "fst ?r"] by (metis prod.collapse)
    moreover have "take n (h_body c @ concat (map snd (q # ps))) = h_body c @ take (n - length (h_body c)) p"
      using False short q by simp
    ultimately show ?thesis using r q by (intro exI [of _ cf] exI [of _ wf] exI [of _ t]) simp
  qed
qed

definition quiet_slots :: "nat slots" where
  "quiet_slots = \<lparr>on_headersReady = \<lambda>c w. (c, w), on_requestReady = \<lambda>c w. (c, Suc w),
     on_bodyProgress = \<lambda>_ _ w. w, on_closed = \<lambda>c w. (c, w), sink_write = \<lambda>_ d w. (int (length d), w)\<rparr>"

definition reading :: "bool \<Rightarrow> int \<Rightarrow> HttpConnection" where
  "reading chunked len = (new_HttpConnection 0 [] [])\<lparr>h_state := ReadingBody, h_headerDeadline := None,
     h_chunked := chunked, h_contentLength := len\<rparr>"

theorem chunked_body_roundtrip_witness:
  "\<exists>cf wf t. completed (bs ''hello'') cf \<and>
     feed ascii_qt \<lparr>u_target = \<lambda>_. ([], []), j_text = \<lambda>_. [], j_parse = \<lambda>_. None\<rparr> quiet_slots
       [(1, bs ''5;x'' @ [13]), (2, [10] @ bs ''hel''), (3, bs ''lo'' @ [13, 10, 48, 13, 10, 13]), (4, [10])] (reading True (-1), 0)
     = ((fst (on_requestReady quiet_slots cf wf))\<lparr>h_idleTimer := t\<rparr>, snd (on_requestReady quiet_slots cf wf))"
proof -
  let ?ps = "[(1, bs ''5;x'' @ [13]), (2, [10] @ bs ''hel''), (3, bs ''lo'' @ [13, 10, 48, 13, 10, 13]), (4, [10])] :: (int \<times> bytes) list"
  have "well_chunked [(bs ''5;x'', bs ''hello'')] (bs ''0'') []" by code_simp
  moreover have "length (concat (map snd [(bs ''5;x'', bs ''hello'')])) \<le> MaxBufferedBody"
    by (simp add: MaxBufferedBody_def bs_def)
  moreover have "awaits_chunks (reading True (-1))"
    by (simp add: awaits_chunks_def reading_def new_HttpConnection_def)
  moreover have "concat (map snd ?ps) = chunked_text [(bs ''5;x'', bs ''hello'')] (bs ''0'') []"
    by (simp add: chunked_text_def trailer_text_def crlf_def bs_def)
  ultimately show ?thesis
    using chunked_body_roundtrip [of "[(bs ''5;x'', bs ''hello'')]" "bs ''0''" "[]" "reading True (-1)" ?ps quiet_slots]
    by (simp add: quiet_slots_def)
qed

theorem length_body_roundtrip_witness:
  "\<exists>cf wf t. completed (bs ''abc'') cf \<and>
     feed ascii_qt \<lparr>u_target = \<lambda>_. ([], []), j_text = \<lambda>_. [], j_parse = \<lambda>_. None\<rparr> quiet_slots
       [(1, bs ''a''), (2, bs ''bcX'')] (reading False 3, 0)
     = ((fst (on_requestReady quiet_slots cf wf))\<lparr>h_idleTimer := t\<rparr>, snd (on_requestReady quiet_slots cf wf))"
proof -
  have "awaits_length 3 (reading False 3)"
    by (simp add: awaits_length_def reading_def new_HttpConnection_def MaxBufferedBody_def)
  from length_body_roundtrip [OF this, of "[(1, bs ''a''), (2, bs ''bcX'')]" quiet_slots
      ascii_qt "\<lparr>u_target = \<lambda>_. ([], []), j_text = \<lambda>_. [], j_parse = \<lambda>_. None\<rparr>" 0]
  show ?thesis
    by (simp add: quiet_slots_def reading_def new_HttpConnection_def bs_def)
qed

section \<open>What nothing bounds\<close>

lemma index_of_no_cr: "13 \<notin> set s \<Longrightarrow> index_of crlf s = None"
  by (induction s) (auto simp: crlf_def)

text \<open>
  A trailer line is bounded only once its end has arrived: a peer that ended its chunks and
  then sends a trailer without a line end is never refused, in any number of reads of any size
  at any times; every byte is kept, and every read restarts the idle timer.
\<close>

theorem trailer_line_unbounded:
  assumes "h_state c = ReadingBody" "\<not> h_bodyComplete c" "h_chunked c" "h_chunkState c = ChunkTrailer"
    and "13 \<notin> set (h_buffer c @ concat (map snd ps))"
  shows "\<exists>t. feed lib net sl ps (c, w) = (c\<lparr>h_buffer := h_buffer c @ concat (map snd ps), h_idleTimer := t\<rparr>, w)
     \<and> (ps \<noteq> [] \<longrightarrow> t = Some (fst (last ps) + h_idleInterval c))"
  using assms
proof (induction ps arbitrary: c)
  case Nil
  then show ?case by (intro exI [of _ "h_idleTimer c"]) simp
next
  case (Cons q ps)
  obtain now p where q: "q = (now, p)" by fastforce
  let ?c = "c\<lparr>h_buffer := h_buffer c @ p, h_idleTimer := Some (now + h_idleInterval c)\<rparr>"
  have "index_of crlf (h_buffer c @ p) = None" using Cons.prems(5) q by (intro index_of_no_cr) auto
  then have read: "onReadyRead lib net sl now p c w = (?c, w)"
    using Cons.prems by (simp add: onReadyRead_def consumeBody_def) (subst consumeChunkedBody.simps, simp)
  have "13 \<notin> set (h_buffer ?c @ concat (map snd ps))" using Cons.prems(5) q by auto
  then obtain t where
    more: "feed lib net sl ps (?c, w) = (?c\<lparr>h_buffer := h_buffer ?c @ concat (map snd ps), h_idleTimer := t\<rparr>, w)"
    "ps \<noteq> [] \<longrightarrow> t = Some (fst (last ps) + h_idleInterval c)"
    using Cons.IH [of ?c] Cons.prems(1-4) by auto
  show ?case
  proof (cases "ps = []")
    case True
    then show ?thesis using read q by (intro exI [of _ "Some (now + h_idleInterval c)"]) simp
  next
    case False
    then show ?thesis using read q more by (intro exI [of _ t]) simp
  qed
qed

theorem trailer_line_unbounded_witness:
  "\<forall>n. length (h_buffer (fst (feed ascii_qt
      \<lparr>u_target = \<lambda>_. ([], []), j_text = \<lambda>_. [], j_parse = \<lambda>_. None\<rparr> quiet_slots
      (map (\<lambda>i. (int i, [65])) [0..<n]) ((reading True (-1))\<lparr>h_chunkState := ChunkTrailer\<rparr>, 0)))) = n"
proof
  fix n :: nat
  let ?c = "(reading True (-1))\<lparr>h_chunkState := ChunkTrailer\<rparr>"
  let ?net = "\<lparr>u_target = \<lambda>_. ([], []), j_text = \<lambda>_. [], j_parse = \<lambda>_. None\<rparr>"
  let ?ps = "map (\<lambda>i. (int i, [65])) [0..<n] :: (int \<times> bytes) list"
  have ps: "concat (map snd ?ps) = replicate n 65" by (induction n) (simp_all add: replicate_append_same)
  have st: "h_state ?c = ReadingBody" "\<not> h_bodyComplete ?c" "h_chunked ?c" "h_chunkState ?c = ChunkTrailer"
    and empty: "h_buffer ?c = []"
    by (simp_all add: reading_def new_HttpConnection_def)
  have "13 \<notin> set (h_buffer ?c @ concat (map snd ?ps))" unfolding ps empty by simp
  from trailer_line_unbounded [OF st this, of ascii_qt ?net quiet_slots 0] obtain t where
    "feed ascii_qt ?net quiet_slots ?ps (?c, 0) = (?c\<lparr>h_buffer := h_buffer ?c @ concat (map snd ?ps), h_idleTimer := t\<rparr>, 0)"
    by blast
  then show "length (h_buffer (fst (feed ascii_qt ?net quiet_slots ?ps (?c, 0)))) = n"
    unfolding ps empty by simp
qed

end
