(* ===== verification/Http_Server.thy ===== *)
theory Http_Server
  imports Http_Connection
begin

text \<open>
  \<open>src/src/httpserver.cpp\<close>, class \<open>HttpServer\<close>: which sockets are accepted and when a connection
  is built on one. A socket the server tracks is a row of \<open>sv_sockets\<close>; the row goes when the
  socket is destroyed, which is what \<open>m_liveConnections\<close> counts. What \<open>listen\<close> answers is an
  argument: the bound port or the error text.
\<close>

section \<open>State\<close>

definition MaxConnections :: int where "MaxConnections = 24"
definition HandshakeTimeoutMs :: int where "HandshakeTimeoutMs = 15 * 1000"

text \<open>
  \<open>Cut\<close> is a socket that \<open>abort()\<close> closed before its handshake: \<open>abort()\<close> makes it emit
  \<open>disconnected\<close>, to which nothing is connected before \<open>adopt\<close>, and not \<open>error\<close>, so nothing
  deletes the socket.
\<close>

datatype sock_phase = Handshaking int | Adopted | Cut

record HttpServer =
  sv_certificate :: bytes
  sv_key :: bytes
  sv_port :: "int option"
  sv_lastError :: qstring
  sv_liveConnections :: int
  sv_sockets :: "(nat, sock_phase) qhash"
  sv_next :: nat

definition new_HttpServer :: HttpServer where
  "new_HttpServer = \<lparr>sv_certificate = [], sv_key = [], sv_port = None, sv_lastError = [],
     sv_liveConnections = 0, sv_sockets = [], sv_next = 0\<rparr>"

section \<open>Operations\<close>

definition setIdentity :: "bytes \<Rightarrow> bytes \<Rightarrow> HttpServer \<Rightarrow> HttpServer" where
  "setIdentity cert key sv = sv\<lparr>sv_certificate := cert, sv_key := key\<rparr>"

definition isSecure :: "HttpServer \<Rightarrow> bool" where
  "isSecure sv \<longleftrightarrow> sv_certificate sv \<noteq> [] \<and> sv_key sv \<noteq> []"

definition server_isListening :: "HttpServer \<Rightarrow> bool" where
  "server_isListening sv \<longleftrightarrow> sv_port sv \<noteq> None"

definition boundPort :: "HttpServer \<Rightarrow> int" where
  "boundPort sv = (case sv_port sv of Some p \<Rightarrow> p | None \<Rightarrow> 0)"

definition server_stop :: "HttpServer \<Rightarrow> HttpServer" where
  "server_stop sv = (if server_isListening sv then sv\<lparr>sv_port := None\<rparr> else sv)"

definition server_start :: "(int \<Rightarrow> qstring + int) \<Rightarrow> int \<Rightarrow> HttpServer \<Rightarrow> bool \<times> HttpServer" where
  "server_start listen p sv =
     (let sv1 = server_stop sv
      in case listen p of
           Inl err \<Rightarrow> (False, sv1\<lparr>sv_lastError := err\<rparr>)
         | Inr bound \<Rightarrow> (True, sv1\<lparr>sv_port := Some bound, sv_lastError := []\<rparr>))"

definition track :: "nat \<Rightarrow> sock_phase \<Rightarrow> HttpServer \<Rightarrow> HttpServer" where
  "track i ph sv = sv\<lparr>sv_liveConnections := sv_liveConnections sv + 1, sv_sockets := (i, ph) # sv_sockets sv\<rparr>"

text \<open>The lambda connected to \<open>destroyed\<close>.\<close>

definition socket_destroyed :: "nat \<Rightarrow> HttpServer \<Rightarrow> HttpServer" where
  "socket_destroyed i sv =
     (if map_of (sv_sockets sv) i = None then sv
      else sv\<lparr>sv_liveConnections := sv_liveConnections sv - 1, sv_sockets := AList.delete i (sv_sockets sv)\<rparr>)"

text \<open>The second component is the socket handed to \<open>adopt\<close>, which emits \<open>connectionReady\<close>.\<close>

definition incomingConnection :: "int \<Rightarrow> bool \<Rightarrow> HttpServer \<Rightarrow> HttpServer \<times> nat option" where
  "incomingConnection now described sv =
     (if sv_liveConnections sv \<ge> MaxConnections then (sv, None)
      else if \<not> described then (sv, None)
      else
        let i = sv_next sv; sv1 = sv\<lparr>sv_next := Suc i\<rparr>
        in if \<not> isSecure sv then (track i Adopted sv1, Some i)
           else (track i (Handshaking (now + HandshakeTimeoutMs)) sv1, None))"

definition onEncrypted :: "nat \<Rightarrow> HttpServer \<Rightarrow> HttpServer \<times> nat option" where
  "onEncrypted i sv =
     (case map_of (sv_sockets sv) i of
        Some (Handshaking _) \<Rightarrow> (sv\<lparr>sv_sockets := AList.update i Adopted (sv_sockets sv)\<rparr>, Some i)
      | _ \<Rightarrow> (sv, None))"

definition onHandshakeTimeout :: "int \<Rightarrow> nat \<Rightarrow> HttpServer \<Rightarrow> HttpServer" where
  "onHandshakeTimeout now i sv =
     (case map_of (sv_sockets sv) i of
        Some (Handshaking deadline) \<Rightarrow>
          if now < deadline then sv else sv\<lparr>sv_sockets := AList.update i Cut (sv_sockets sv)\<rparr>
      | _ \<Rightarrow> sv)"

text \<open>
  \<open>SocketError\<close> is the \<open>error\<close> signal of a TLS socket that is still open, \<open>ConnectionGone\<close> the
  end of an \<open>HttpConnection\<close>, which owns its socket.
\<close>

datatype server_event =
    Incoming int bool | Encrypted nat | SocketError nat | HandshakeTimeout int nat | ConnectionGone nat
  | Start int "qstring + int" | Stop | SetIdentity bytes bytes

fun server_step :: "server_event \<Rightarrow> HttpServer \<Rightarrow> HttpServer \<times> nat option" where
  "server_step (Incoming now described) sv =
     (if server_isListening sv then incomingConnection now described sv else (sv, None))"
| "server_step (Encrypted i) sv = onEncrypted i sv"
| "server_step (SocketError i) sv =
     (if map_of (sv_sockets sv) i = Some Cut then sv else socket_destroyed i sv, None)"
| "server_step (HandshakeTimeout now i) sv = (onHandshakeTimeout now i sv, None)"
| "server_step (ConnectionGone i) sv =
     (if map_of (sv_sockets sv) i = Some Adopted then socket_destroyed i sv else sv, None)"
| "server_step (Start p r) sv = (snd (server_start (\<lambda>_. r) p sv), None)"
| "server_step Stop sv = (server_stop sv, None)"
| "server_step (SetIdentity cert key) sv = (setIdentity cert key sv, None)"

fun server_run :: "server_event list \<Rightarrow> HttpServer \<Rightarrow> HttpServer \<times> nat list" where
  "server_run [] sv = (sv, [])"
| "server_run (e # es) sv =
     (let (sv1, a) = server_step e sv; (sv2, as) = server_run es sv1
      in (sv2, (case a of Some i \<Rightarrow> i # as | None \<Rightarrow> as)))"

section \<open>The bound on live connections\<close>

definition server_inv :: "HttpServer \<Rightarrow> bool" where
  "server_inv sv \<longleftrightarrow> distinct (map fst (sv_sockets sv)) \<and> list_all (\<lambda>(i, _). i < sv_next sv) (sv_sockets sv)
     \<and> sv_liveConnections sv = int (length (sv_sockets sv)) \<and> sv_liveConnections sv \<le> MaxConnections"

lemma length_delete_row:
  "distinct (map fst t) \<Longrightarrow> i \<in> fst ` set t \<Longrightarrow> length t = Suc (length (AList.delete i t))"
proof (induction t)
  case (Cons p t)
  obtain a b where p: "p = (a, b)" by fastforce
  show ?case
  proof (cases "i = a")
    case True
    then have "AList.delete i t = t" using Cons.prems p by (intro AList.delete_id) simp
    then show ?thesis using True p by simp
  next
    case False
    then show ?thesis using Cons p by simp
  qed
qed simp

lemma list_all_rows_update:
  "list_all (\<lambda>(i, _). i < n) t \<Longrightarrow> i < n \<Longrightarrow> list_all (\<lambda>(i, _). i < n) (AList.update i v t)"
  using set_alist_update [of i v t] by (fastforce simp: list_all_iff)

lemma list_all_rows_delete: "list_all P t \<Longrightarrow> list_all P (AList.delete i t)"
  using set_alist_delete [of i t] by (auto simp: list_all_iff)

lemma row_known: "map_of t i = Some v \<Longrightarrow> i \<in> fst ` set t"
  by (metis map_of_eq_None_iff option.distinct(1))

lemma server_inv_update:
  assumes "server_inv sv" and "map_of (sv_sockets sv) i = Some v"
  shows "server_inv (sv\<lparr>sv_sockets := AList.update i v' (sv_sockets sv)\<rparr>)"
proof -
  have "i < sv_next sv" using assms map_of_SomeD [OF assms(2)] by (auto simp: server_inv_def list_all_iff)
  then show ?thesis using assms row_known [OF assms(2)]
    by (simp add: server_inv_def list_all_rows_update distinct_update length_alist_update)
qed

lemma server_inv_destroyed: "server_inv sv \<Longrightarrow> server_inv (socket_destroyed i sv)"
proof (cases "map_of (sv_sockets sv) i")
  case (Some v)
  assume inv: "server_inv sv"
  then have "length (sv_sockets sv) = Suc (length (AList.delete i (sv_sockets sv)))"
    using row_known [OF Some] by (intro length_delete_row) (simp_all add: server_inv_def)
  with inv Some show ?thesis
    by (simp add: server_inv_def socket_destroyed_def list_all_rows_delete distinct_delete)
qed (simp add: socket_destroyed_def)

lemma server_inv_track:
  assumes "server_inv sv" and "sv_liveConnections sv < MaxConnections"
  shows "server_inv (track (sv_next sv) ph (sv\<lparr>sv_next := Suc (sv_next sv)\<rparr>))"
proof -
  have "sv_next sv \<notin> fst ` set (sv_sockets sv)" using assms(1) by (auto simp: server_inv_def list_all_iff)
  then show ?thesis using assms by (auto simp: server_inv_def track_def list_all_iff)
qed

lemma server_step_inv: "server_inv sv \<Longrightarrow> server_inv (fst (server_step e sv))"
proof (cases e)
  case (Incoming now d)
  assume "server_inv sv"
  with Incoming show ?thesis by (simp add: incomingConnection_def Let_def server_inv_track)
next
  case (Encrypted i)
  assume "server_inv sv"
  with Encrypted show ?thesis
    by (auto simp: onEncrypted_def server_inv_update split: option.split sock_phase.split)
next
  case (HandshakeTimeout now i)
  assume "server_inv sv"
  with HandshakeTimeout show ?thesis
    by (auto simp: onHandshakeTimeout_def server_inv_update split: option.split sock_phase.split)
qed (auto simp: server_inv_destroyed, auto simp: server_inv_def setIdentity_def server_stop_def server_start_def Let_def
    split: sum.split)

lemma server_run_inv: "server_inv sv \<Longrightarrow> server_inv (fst (server_run es sv))"
proof (induction es arbitrary: sv)
  case (Cons e es)
  then show ?case using Cons.IH [OF server_step_inv [OF Cons.prems, of e]]
    by (auto simp: Let_def split: prod.split)
qed simp

text \<open>
  Whatever sockets arrive, finish their handshake, fail or close, the server never holds
  more than 24 of them, and its counter is the number of sockets that exist.
\<close>

theorem live_connections_bounded:
  "let sv = fst (server_run es new_HttpServer)
   in sv_liveConnections sv = int (length (sv_sockets sv)) \<and> sv_liveConnections sv \<le> 24"
proof -
  have "server_inv new_HttpServer" by (simp add: server_inv_def new_HttpServer_def MaxConnections_def)
  from server_run_inv [OF this, of es] show ?thesis by (simp add: server_inv_def MaxConnections_def Let_def)
qed

section \<open>Stalled handshakes\<close>

definition all_cut :: "HttpServer \<Rightarrow> bool" where
  "all_cut sv \<longleftrightarrow> sv_liveConnections sv \<ge> MaxConnections \<and> list_all (\<lambda>(_, ph). ph = Cut) (sv_sockets sv)"

lemma all_cut_rows: "all_cut sv \<Longrightarrow> map_of (sv_sockets sv) i = None \<or> map_of (sv_sockets sv) i = Some Cut"
  by (cases "map_of (sv_sockets sv) i") (auto simp: all_cut_def list_all_iff dest: map_of_SomeD)

lemma all_cut_cong:
  "all_cut sv \<Longrightarrow> sv_sockets sv' = sv_sockets sv \<Longrightarrow> sv_liveConnections sv' = sv_liveConnections sv \<Longrightarrow> all_cut sv'"
  by (simp add: all_cut_def)

lemma all_cut_step:
  assumes cut: "all_cut sv"
  shows "all_cut (fst (server_step e sv)) \<and> snd (server_step e sv) = None"
proof -
  note row = all_cut_rows [OF cut]
  show ?thesis
  proof (cases e)
    case (Encrypted i)
    with row [of i] cut show ?thesis by (auto simp: onEncrypted_def)
  next
    case (SocketError i)
    with row [of i] cut show ?thesis by (auto simp: socket_destroyed_def)
  next
    case (HandshakeTimeout now i)
    with row [of i] cut show ?thesis by (auto simp: onHandshakeTimeout_def)
  next
    case (ConnectionGone i)
    with row [of i] cut show ?thesis by auto
  qed (use cut in \<open>auto simp: incomingConnection_def setIdentity_def server_stop_def server_start_def Let_def all_cut_def
      split: sum.split\<close>)
qed

text \<open>
  A handshake that stalls is cut after 15 seconds, but its socket is never released: once
  24 handshakes have stalled, no later connection is ever handed out, whatever happens next.
\<close>

theorem stalled_handshakes_shut_the_server:
  "all_cut sv \<Longrightarrow> snd (server_run es sv) = []"
proof (induction es arbitrary: sv)
  case (Cons e es)
  from all_cut_step [OF Cons.prems, of e] Cons.IH [of "fst (server_step e sv)"]
  show ?case by (auto simp: Let_def split: prod.splits)
qed simp

text \<open>A secure server after 24 peers opened a socket and said nothing.\<close>

definition stall_24 :: "server_event list" where
  "stall_24 = [SetIdentity [1] [1], Start 53317 (Inr 53317)]
     @ map (\<lambda>_. Incoming 0 True) [0..<24] @ map (\<lambda>i. HandshakeTimeout 15000 i) [0..<24]"

theorem stalled_handshakes_shut_the_server_witness:
  "snd (server_run [Incoming 60000 True, Encrypted 24] (fst (server_run stall_24 new_HttpServer))) = []"
proof (rule stalled_handshakes_shut_the_server)
  show "all_cut (fst (server_run stall_24 new_HttpServer))" by code_simp
qed

end
