(* ===== verification/History_Model.thy ===== *)
theory History_Model
  imports Platform
begin

text \<open>
  \<open>src/src/historymodel.cpp\<close>: the log of transfers, newest first, at most 200 of them, rewritten
  as one JSON array after every change. \<open>hi_written\<close> is the document last handed to the store,
  \<open>None\<close> before the first; times are milliseconds since the epoch.
\<close>

record HistoryRecord =
  hr_id :: qstring
  hr_direction :: qstring
  hr_peerAlias :: qstring
  hr_peerDeviceType :: qstring
  hr_timestamp :: int
  hr_fileNames :: "qstring list"
  hr_totalBytes :: int
  hr_status :: qstring
  hr_destination :: qstring

datatype history_signal = HistoryInserted nat nat | HistoryRemoved nat nat | HistoryReset | HistoryCount

record HistoryModel =
  hi_records :: "HistoryRecord list"
  hi_written :: "json option"
  hi_signals :: "history_signal list"

definition MaxRecords :: nat where
  "MaxRecords = 200"

definition no_history :: HistoryModel where
  "no_history = \<lparr>hi_records = [], hi_written = None, hi_signals = []\<rparr>"

definition record_to_json :: "HistoryRecord \<Rightarrow> json" where
  "record_to_json h = JObject
     (jinsert ''fileNames'' (JArray (map JString (hr_fileNames h)))
     (jinsert ''destination'' (JString (hr_destination h))
     (jinsert ''status'' (JString (hr_status h))
     (jinsert ''totalBytes'' (JDouble (double_of_int (hr_totalBytes h)))
     (jinsert ''timestamp'' (JDouble (double_of_int (hr_timestamp h)))
     (jinsert ''peerDeviceType'' (JString (hr_peerDeviceType h))
     (jinsert ''peerAlias'' (JString (hr_peerAlias h))
     (jinsert ''direction'' (JString (hr_direction h))
     (jinsert ''id'' (JString (hr_id h)) [])))))))))"

definition record_of_json :: "qtlib \<Rightarrow> json \<Rightarrow> HistoryRecord" where
  "record_of_json lib v =
     (let ob = to_object v
      in \<lparr>hr_id = to_string (jvalue ob ''id''), hr_direction = to_string (jvalue ob ''direction''),
          hr_peerAlias = to_string (jvalue ob ''peerAlias''),
          hr_peerDeviceType = to_string (jvalue ob ''peerDeviceType''),
          hr_timestamp = qint64_of_double lib (to_double (jvalue ob ''timestamp'')),
          hr_fileNames = map to_string (to_array (jvalue ob ''fileNames'')),
          hr_totalBytes = qint64_of_double lib (to_double (jvalue ob ''totalBytes'')),
          hr_status = to_string (jvalue ob ''status''),
          hr_destination = to_string (jvalue ob ''destination'')\<rparr>)"

definition hi_load :: "qtlib \<Rightarrow> json \<Rightarrow> HistoryModel \<Rightarrow> HistoryModel" where
  "hi_load lib document hm =
     (case document of
        JArray vs \<Rightarrow> hm\<lparr>hi_records := hi_records hm @ map (record_of_json lib) vs\<rparr>
      | _ \<Rightarrow> hm)"

definition hi_save :: "HistoryModel \<Rightarrow> HistoryModel" where
  "hi_save hm = hm\<lparr>hi_written := Some (JArray (map record_to_json (hi_records hm)))\<rparr>"

definition hi_signal :: "history_signal list \<Rightarrow> HistoryModel \<Rightarrow> HistoryModel" where
  "hi_signal ss hm = hm\<lparr>hi_signals := hi_signals hm @ ss\<rparr>"

text \<open>\<open>while (count > MaxRecords) removeLast()\<close>.\<close>

fun drop_oldest :: "HistoryRecord list \<Rightarrow> HistoryRecord list" where
  "drop_oldest [] = []"
| "drop_oldest (r # rs) = (if length (r # rs) > MaxRecords then drop_oldest (butlast (r # rs)) else r # rs)"

definition append_record :: "HistoryRecord \<Rightarrow> HistoryModel \<Rightarrow> HistoryModel" where
  "append_record h hm =
     (let hm1 = hi_signal [HistoryInserted 0 0] (hm\<lparr>hi_records := h # hi_records hm\<rparr>);
          hm2 = (if length (hi_records hm1) > MaxRecords
                 then hi_signal [HistoryRemoved MaxRecords (length (hi_records hm1) - 1)]
                        (hm1\<lparr>hi_records := drop_oldest (hi_records hm1)\<rparr>)
                 else hm1)
      in hi_signal [HistoryCount] (hi_save hm2))"

definition removeAt :: "int \<Rightarrow> HistoryModel \<Rightarrow> HistoryModel" where
  "removeAt row hm =
     (if row < 0 \<or> row \<ge> int (length (hi_records hm)) then hm
      else hi_signal [HistoryCount] (hi_save
             (hi_signal [HistoryRemoved (nat row) (nat row)]
                (hm\<lparr>hi_records := remove_at (nat row) (hi_records hm)\<rparr>))))"

definition clear_history :: "HistoryModel \<Rightarrow> HistoryModel" where
  "clear_history hm =
     (if hi_records hm = [] then hm
      else hi_signal [HistoryCount] (hi_save (hi_signal [HistoryReset] (hm\<lparr>hi_records := []\<rparr>))))"

section \<open>The log over its life\<close>

lemma drop_oldest_take: "drop_oldest rs = take MaxRecords rs"
proof (induction rs rule: drop_oldest.induct)
  case (2 r rs)
  show ?case
  proof (cases "length (r # rs) > MaxRecords")
    case True
    then have "drop_oldest (r # rs) = take MaxRecords (butlast (r # rs))" using 2 by simp
    also have "\<dots> = take MaxRecords (r # rs)" using True by (simp only: take_butlast)
    finally show ?thesis .
  qed simp
qed simp

definition recordable :: "HistoryRecord \<Rightarrow> bool" where
  "recordable h \<longleftrightarrow> \<bar>hr_timestamp h\<bar> \<le> 2 ^ 53 \<and> \<bar>hr_totalBytes h\<bar> \<le> 2 ^ 53"

lemma record_roundtrip: "recordable h \<Longrightarrow> record_of_json lib (record_to_json h) = h"
proof -
  assume "recordable h"
  then have "in_int64 (hr_timestamp h)" "in_int64 (hr_totalBytes h)" "\<bar>hr_timestamp h\<bar> \<le> 2 ^ 53" "\<bar>hr_totalBytes h\<bar> \<le> 2 ^ 53"
    by (auto simp: recordable_def in_int64_def)
  then show ?thesis by (cases h) (simp add: record_of_json_def record_to_json_def o_def)
qed

datatype history_op = AppendRecord HistoryRecord | RemoveRecord int | ClearHistory

fun run_history :: "history_op \<Rightarrow> HistoryModel \<Rightarrow> HistoryModel" where
  "run_history (AppendRecord h) hm = append_record h hm"
| "run_history (RemoveRecord row) hm = removeAt row hm"
| "run_history ClearHistory hm = clear_history hm"

definition history_inv :: "HistoryModel \<Rightarrow> bool" where
  "history_inv hm \<longleftrightarrow> length (hi_records hm) \<le> MaxRecords \<and> list_all recordable (hi_records hm)
     \<and> (hi_written hm = None \<and> hi_records hm = [] \<or> hi_written hm = Some (JArray (map record_to_json (hi_records hm))))"

lemma history_step:
  "history_inv hm \<Longrightarrow> (\<And>h. op = AppendRecord h \<Longrightarrow> recordable h) \<Longrightarrow> history_inv (run_history op hm)"
proof (cases op)
  case (AppendRecord h)
  assume "history_inv hm" "\<And>h. op = AppendRecord h \<Longrightarrow> recordable h"
  then show ?thesis using AppendRecord
    by (auto simp: history_inv_def append_record_def hi_signal_def hi_save_def drop_oldest_take Let_def
        list_all_iff dest!: in_set_takeD)
next
  case (RemoveRecord row)
  assume "history_inv hm"
  then show ?thesis using RemoveRecord set_remove_at_subset [of "nat row" "hi_records hm"]
      le_trans [OF length_remove_at_le [of "nat row" "hi_records hm"]]
    by (auto simp: history_inv_def removeAt_def hi_signal_def hi_save_def list_all_iff)
next
  case ClearHistory
  assume "history_inv hm"
  then show ?thesis using ClearHistory
    by (auto simp: history_inv_def clear_history_def hi_signal_def hi_save_def)
qed

lemma history_run:
  "history_inv hm \<Longrightarrow> \<forall>h. AppendRecord h \<in> set ops \<longrightarrow> recordable h \<Longrightarrow> history_inv (fold run_history ops hm)"
  by (induction ops arbitrary: hm) (simp_all add: history_step)

text \<open>
  What the log shows is what the next run will show: after any sequence of additions, removals
  and clearings it holds at most 200 records, and once anything was written, loading the document
  last written into an empty model gives the same records in the same order (with times and totals
  up to \<open>2\<^sup>53\<close>, which a double holds exactly).
\<close>

theorem history_persists:
  assumes "\<forall>h. AppendRecord h \<in> set ops \<longrightarrow> recordable h" and "hm = fold run_history ops no_history"
  shows "length (hi_records hm) \<le> MaxRecords \<and>
    (case hi_written hm of None \<Rightarrow> hi_records hm = []
     | Some document \<Rightarrow> hi_records (hi_load lib document no_history) = hi_records hm)"
proof -
  have "history_inv no_history" by (simp add: history_inv_def no_history_def)
  then have inv: "history_inv hm" using history_run assms by simp
  have "map (record_of_json lib \<circ> record_to_json) rs = rs" if "list_all recordable rs" for rs
    using that by (induction rs) (simp_all add: record_roundtrip)
  with inv show ?thesis
    by (auto simp: history_inv_def hi_load_def no_history_def)
qed

theorem history_persists_witness:
  "let h = \<lparr>hr_id = qs ''1'', hr_direction = qs ''send'', hr_peerAlias = qs ''Pear'', hr_peerDeviceType = qs ''mobile'',
        hr_timestamp = 1700000000000, hr_fileNames = [qs ''a''], hr_totalBytes = 5, hr_status = qs ''finished'', hr_destination = []\<rparr>;
     hm = fold run_history [AppendRecord h, AppendRecord h, RemoveRecord 0] no_history
   in length (hi_records hm) \<le> MaxRecords"
  unfolding Let_def by (rule history_persists [OF _ refl, THEN conjunct1]) (simp add: recordable_def)

text \<open>
  Adding is adding at the front and forgetting the oldest: the new record is first, the records
  that were there keep their order, and only those past the two hundredth are gone.
\<close>

theorem append_keeps_newest:
  "hi_records (append_record h hm) = take MaxRecords (h # hi_records hm)"
  by (simp add: append_record_def hi_signal_def hi_save_def drop_oldest_take Let_def)

end
