(* ===== verification/Js_Numbers.thy ===== *)
theory Js_Numbers
  imports Device_Info
begin

text \<open>
  The numbers of the two JavaScript libraries under \<open>src/qml/components\<close>. A finite number is a
  rational; an operation whose result need not be a double rounds it to 53 significant bits, ties
  to even (the exponent range of a double is not modelled: the figures here stay far inside it).
  \<open>Math.round\<close>, \<open>Math.floor\<close>, \<open>%\<close> and \<open>toFixed\<close> are exact, as ECMAScript defines them. How a
  fraction prints is the parameter \<open>text_of\<close>; integers below \<open>10 ^ 21\<close> print as their digits.
\<close>

section \<open>Rounding to a double\<close>

definition rhe :: "rat \<Rightarrow> int" where
  "rhe r = (let f = \<lfloor>r\<rfloor>; t = r - of_int f
     in if t < 1 / 2 then f else if t > 1 / 2 then f + 1 else if even f then f else f + 1)"

definition expo :: "rat \<Rightarrow> int" where
  "expo x = (let (n, d) = quotient_of \<bar>x\<bar>; k = int (floorlog 2 (nat n)) - int (floorlog 2 (nat d))
     in if 2 powi k \<le> \<bar>x\<bar> then k else k - 1)"

definition round_double :: "rat \<Rightarrow> rat" where
  "round_double x =
     (if x = 0 then 0 else let u = 2 powi (expo x - 52) in of_int (rhe (x / u)) * u)"

lemma rhe_ge: "of_int b \<le> r \<Longrightarrow> b \<le> rhe r"
  using le_floor_iff [of b r] by (auto simp: rhe_def Let_def)

lemma rhe_le:
  assumes "r \<le> of_int b"
  shows "rhe r \<le> b"
proof (cases "r = of_int b")
  case False
  with assms have "\<lfloor>r\<rfloor> < b" by (simp add: floor_less_iff)
  then show ?thesis by (auto simp: rhe_def Let_def)
qed (simp add: rhe_def)

lemma rhe_error: "\<bar>of_int (rhe r) - r\<bar> \<le> 1 / 2"
  using floor_correct [of r] by (auto simp: rhe_def Let_def abs_le_iff)

lemma floorlog_rat:
  assumes "0 < n"
  shows "(2::rat) powi (int (floorlog 2 (nat n)) - 1) \<le> of_int n"
    and "of_int n < (2::rat) powi int (floorlog 2 (nat n))"
proof -
  have pos: "0 < floorlog 2 (nat n)" using assms by (simp add: floorlog_def)
  have b: "2 ^ (floorlog 2 (nat n) - 1) \<le> nat n" "nat n < 2 ^ floorlog 2 (nat n)"
    using floorlog_bounds [of "nat n" 2] assms by simp_all
  have e: "int (floorlog 2 (nat n)) - 1 = int (floorlog 2 (nat n) - 1)" using pos by simp
  have "(2::rat) ^ (floorlog 2 (nat n) - 1) = of_nat (2 ^ (floorlog 2 (nat n) - 1))" by simp
  also have "\<dots> \<le> of_nat (nat n)" using b(1) by (simp only: of_nat_le_iff)
  finally show "(2::rat) powi (int (floorlog 2 (nat n)) - 1) \<le> of_int n"
    unfolding e using assms by simp
  have "(of_nat (nat n) :: rat) < of_nat (2 ^ floorlog 2 (nat n))" using b(2) by (simp only: of_nat_less_iff)
  then show "of_int n < (2::rat) powi int (floorlog 2 (nat n))" using assms by simp
qed

lemma expo_bounds:
  assumes "x \<noteq> 0"
  shows "2 powi expo x \<le> \<bar>x\<bar>" and "\<bar>x\<bar> < 2 powi (expo x + 1)"
proof -
  obtain n d where q: "quotient_of \<bar>x\<bar> = (n, d)" by fastforce
  have d: "0 < d" using quotient_of_denom_pos [OF q] .
  have x: "\<bar>x\<bar> = of_int n / of_int d" using quotient_of_div [OF q] .
  have "0 < rat_of_int n / rat_of_int d" using assms x by simp
  then have n: "0 < n" using d by (simp add: zero_less_divide_iff)
  define a where "a = int (floorlog 2 (nat n))"
  define b where "b = int (floorlog 2 (nat d))"
  note N = floorlog_rat [OF n, folded a_def] and D = floorlog_rat [OF d, folded b_def]
  have "(2::rat) powi (a - 1) * 2 powi b = 2 powi (a - 1 + b)" by (simp add: power_int_add)
  have lo: "2 powi (a - b - 1) \<le> \<bar>x\<bar>"
  proof -
    have "(2::rat) powi (a - b - 1) * of_int d \<le> 2 powi (a - b - 1) * 2 powi b"
      using D(2) by (intro mult_left_mono) simp_all
    also have "\<dots> = 2 powi (a - 1)" by (simp flip: power_int_add)
    also have "\<dots> \<le> of_int n" by (rule N(1))
    finally show ?thesis unfolding x using d by (simp add: field_simps)
  qed
  have hi: "\<bar>x\<bar> < 2 powi (a - b + 1)"
  proof -
    have "of_int n < (2::rat) powi a" by (rule N(2))
    also have "\<dots> = 2 powi (a - b + 1) * 2 powi (b - 1)" by (simp flip: power_int_add)
    also have "\<dots> \<le> 2 powi (a - b + 1) * of_int d" using D(1) by (intro mult_left_mono) simp_all
    finally show ?thesis unfolding x using d by (simp add: field_simps)
  qed
  have e: "expo x = (if 2 powi (a - b) \<le> \<bar>x\<bar> then a - b else a - b - 1)"
    by (simp add: expo_def q a_def b_def)
  show "2 powi expo x \<le> \<bar>x\<bar>" and "\<bar>x\<bar> < 2 powi (expo x + 1)"
    using lo hi by (auto simp: e)
qed

lemma powi_less_exp: "(2::rat) powi a < 2 ^ n \<Longrightarrow> a < int n"
proof (rule ccontr)
  assume lt: "(2::rat) powi a < 2 ^ n" and "\<not> a < int n"
  then have "(2::rat) powi int n \<le> 2 powi a" by (intro power_int_increasing) simp_all
  with lt show False by simp
qed

lemma round_double_eq:
  "x \<noteq> 0 \<Longrightarrow> round_double x = of_int (rhe (x / 2 powi (expo x - 52))) * 2 powi (expo x - 52)"
  by (simp add: round_double_def Let_def)

text \<open>Below \<open>2 ^ 53\<close> the integers are doubles, so rounding never crosses one.\<close>

lemma scaled_int:
  assumes "x \<noteq> 0" and "\<bar>x\<bar> < 2 ^ 53"
  obtains k where "of_int b / (2::rat) powi (expo x - 52) = of_int (b * 2 ^ k)"
proof -
  have "(2::rat) powi expo x < 2 ^ 53" using expo_bounds(1) [OF assms(1)] assms(2) by simp
  then have "expo x < 53" using powi_less_exp [of "expo x" 53] by simp
  then have "(2::rat) powi (expo x - 52) = inverse (2 ^ nat (52 - expo x))"
    by (cases "expo x = 52") (simp_all add: power_int_def power_one_over inverse_eq_divide)
  then have "of_int b / (2::rat) powi (expo x - 52) = of_int (b * 2 ^ nat (52 - expo x))"
    by (simp add: divide_inverse)
  then show ?thesis by (rule that)
qed

lemma round_double_ge_int:
  assumes "\<bar>x\<bar> < 2 ^ 53" and "of_int b \<le> x"
  shows "of_int b \<le> round_double x"
proof (cases "x = 0")
  case False
  let ?u = "(2::rat) powi (expo x - 52)"
  obtain k where k: "of_int b / ?u = of_int (b * 2 ^ k)" using scaled_int [OF False assms(1)] by blast
  have "of_int b / ?u \<le> x / ?u" using assms(2) by (simp add: divide_right_mono)
  then have "b * 2 ^ k \<le> rhe (x / ?u)" unfolding k by (rule rhe_ge)
  then have "of_int b / ?u \<le> of_int (rhe (x / ?u))" unfolding k by (simp only: of_int_le_iff)
  then have "of_int b \<le> of_int (rhe (x / ?u)) * ?u" by (simp add: divide_le_eq)
  then show ?thesis using False by (simp add: round_double_eq)
qed (use assms in \<open>simp add: round_double_def\<close>)

lemma round_double_le_int:
  assumes "\<bar>x\<bar> < 2 ^ 53" and "x \<le> of_int b"
  shows "round_double x \<le> of_int b"
proof (cases "x = 0")
  case False
  let ?u = "(2::rat) powi (expo x - 52)"
  obtain k where k: "of_int b / ?u = of_int (b * 2 ^ k)" using scaled_int [OF False assms(1)] by blast
  have "x / ?u \<le> of_int b / ?u" using assms(2) by (simp add: divide_right_mono)
  then have "rhe (x / ?u) \<le> b * 2 ^ k" unfolding k by (rule rhe_le)
  then have "of_int (rhe (x / ?u)) \<le> of_int b / ?u" unfolding k by (simp only: of_int_le_iff)
  then have "of_int (rhe (x / ?u)) * ?u \<le> of_int b" by (simp add: le_divide_eq)
  then show ?thesis using False by (simp add: round_double_eq)
qed (use assms in \<open>simp add: round_double_def\<close>)

lemma round_double_int [simp]: "\<bar>n\<bar> < 2 ^ 53 \<Longrightarrow> round_double (of_int n) = of_int n"
  by (intro antisym round_double_le_int round_double_ge_int) (simp_all flip: of_int_abs of_int_power)

lemma round_double_error: "\<bar>round_double x - x\<bar> \<le> \<bar>x\<bar> / 2 ^ 53"
proof (cases "x = 0")
  case False
  let ?u = "(2::rat) powi (expo x - 52)"
  have "\<bar>of_int (rhe (x / ?u)) - x / ?u\<bar> * ?u \<le> 1 / 2 * ?u" by (intro mult_right_mono rhe_error) simp
  then have "\<bar>(of_int (rhe (x / ?u)) - x / ?u) * ?u\<bar> \<le> ?u / 2" by (simp add: abs_mult)
  then have "\<bar>round_double x - x\<bar> \<le> ?u / 2" 
    unfolding round_double_eq [OF False] by (simp add: left_diff_distrib)
  also have "?u = 2 powi expo x / 2 ^ 52" by (simp add: power_int_diff)
  also have "2 powi expo x / 2 ^ 52 / 2 \<le> \<bar>x\<bar> / 2 ^ 53"
    using expo_bounds(1) [OF False] by (simp add: field_simps)
  finally show ?thesis by simp
qed (simp add: round_double_def)

lemma round_double_nonneg:
  assumes "0 \<le> x"
  shows "0 \<le> round_double x"
proof (cases "x = 0")
  case False
  have "0 \<le> x / 2 powi (expo x - 52)" using assms by simp
  then have "0 \<le> rhe (x / 2 powi (expo x - 52))" using rhe_ge [of 0] by simp
  then show ?thesis using False by (simp add: round_double_eq)
qed (simp add: round_double_def)

text \<open>The quotient of two integers, floored after rounding, is their integer quotient.\<close>

lemma floor_round_quotient:
  assumes "0 \<le> a" and "a < 2 ^ 50" and "0 < b"
  shows "\<lfloor>round_double (of_int a / of_int b)\<rfloor> = a div b"
proof -
  define x :: rat where "x = of_int a / of_int b"
  define q :: rat where "q = of_int (a div b)"
  have b: "(1::rat) \<le> of_int b" using assms(3) by simp
  have nonneg: "0 \<le> x" using assms by (simp add: x_def)
  have xb: "x * of_int b = of_int a" using assms(3) by (simp add: x_def)
  have "x * 1 \<le> x * of_int b" using b nonneg by (rule mult_left_mono)
  then have xa: "x \<le> of_int a" using xb by simp
  have "rat_of_int a < of_int (2 ^ 50)" using assms(2) by (simp only: of_int_less_iff)
  then have a50: "rat_of_int a < 2 ^ 50" by (simp only: of_int_power of_int_numeral)
  have small: "\<bar>x\<bar> < 2 ^ 53" using xa a50 nonneg by simp
  have "rat_of_int (a div b * b) \<le> of_int a"
    using div_mult_mod_eq [of a b] pos_mod_sign [OF assms(3), of a] by (simp only: of_int_le_iff)
  then have "q * of_int b \<le> x * of_int b" by (simp add: q_def xb)
  then have "q \<le> x" using assms(3) by simp
  then have lo: "q \<le> round_double x" unfolding q_def using small by (intro round_double_ge_int)
  have "a + 1 \<le> (a div b + 1) * b"
  proof -
    have "a = a div b * b + a mod b" "(a div b + 1) * b = a div b * b + b" by (simp_all add: distrib_right)
    then show ?thesis using pos_mod_bound [OF assms(3), of a] by linarith
  qed
  then have "rat_of_int (a + 1) \<le> of_int ((a div b + 1) * b)" by (simp only: of_int_le_iff)
  then have gap: "of_int a + 1 \<le> (q + 1) * of_int b" by (simp add: q_def)
  have "round_double x \<le> x + x / 2 ^ 53" 
  proof -
    have "round_double x - x \<le> \<bar>x\<bar> / 2 ^ 53" by (rule order_trans [OF abs_ge_self round_double_error])
    then show ?thesis using nonneg by linarith
  qed
  then have "round_double x * of_int b \<le> (x + x / 2 ^ 53) * of_int b" using assms(3) by (intro mult_right_mono) simp_all
  also have "\<dots> = of_int a + of_int a / 2 ^ 53" by (simp add: distrib_right xb)
  also have "\<dots> < of_int a + 1" using a50 by simp
  also have "\<dots> \<le> (q + 1) * of_int b" by (rule gap)
  finally have hi: "round_double x < q + 1" using assms(3) by simp
  show ?thesis using lo hi unfolding x_def [symmetric] q_def by (simp add: floor_eq_iff)
qed

text \<open>Scaling by a power of two is exact.\<close>

lemma expo_unique:
  assumes "x \<noteq> 0" and "2 powi e \<le> \<bar>x\<bar>" and "\<bar>x\<bar> < 2 powi (e + 1)"
  shows "expo x = e"
proof -
  have less: "a < b + 1" if "2 powi a \<le> \<bar>x\<bar>" "\<bar>x\<bar> < 2 powi (b + 1)" for a b
  proof (rule ccontr)
    assume "\<not> a < b + 1"
    then have "(2::rat) powi (b + 1) \<le> 2 powi a" by (intro power_int_increasing) simp_all
    with that show False by simp
  qed
  from less [OF expo_bounds(1) [OF assms(1)] assms(3)] less [OF assms(2) expo_bounds(2) [OF assms(1)]]
  show ?thesis by simp
qed

lemma round_double_scale: "round_double (x * 2 powi k) = round_double x * 2 powi k"
proof (cases "x = 0")
  case False
  have "expo (x * 2 powi k) = expo x + k"
  proof (rule expo_unique)
    have "(2::rat) powi (expo x + k) = 2 powi expo x * 2 powi k" by (simp add: power_int_add)
    then show "2 powi (expo x + k) \<le> \<bar>x * 2 powi k\<bar>"
      using expo_bounds(1) [OF False] by (simp add: abs_mult mult_right_mono)
    have "(2::rat) powi (expo x + k + 1) = 2 powi (expo x + 1) * 2 powi k" by (simp add: power_int_add)
    then show "\<bar>x * 2 powi k\<bar> < 2 powi (expo x + k + 1)"
      using expo_bounds(2) [OF False] by (simp add: abs_mult mult_strict_right_mono)
  qed (use False in simp)
  then have e: "(2::rat) powi (expo (x * 2 powi k) - 52) = 2 powi (expo x - 52) * 2 powi k"
    by (simp add: algebra_simps flip: power_int_add)
  have "x * 2 powi k \<noteq> 0" using False by simp
  from round_double_eq [OF this] round_double_eq [OF False] show ?thesis
    unfolding e by (simp add: mult.assoc)
qed (simp add: round_double_def)

section \<open>Numbers\<close>

datatype jsnum = Fin rat | NaN | PosInf | NegInf

fun js_lt :: "jsnum \<Rightarrow> jsnum \<Rightarrow> bool" where
  "js_lt (Fin a) (Fin b) = (a < b)"
| "js_lt (Fin _) PosInf = True"
| "js_lt NegInf (Fin _) = True"
| "js_lt NegInf PosInf = True"
| "js_lt _ _ = False"

definition js_le :: "jsnum \<Rightarrow> jsnum \<Rightarrow> bool" where
  "js_le a b \<longleftrightarrow> js_lt a b \<or> a = b \<and> a \<noteq> NaN"

text \<open>Arithmetic with a finite operand that is not zero: \<open>x / n\<close>, \<open>x * n\<close>, \<open>x % n\<close>.\<close>

fun js_div :: "jsnum \<Rightarrow> rat \<Rightarrow> jsnum" where
  "js_div (Fin a) n = Fin (round_double (a / n))"
| "js_div x n = x"

fun js_mul :: "jsnum \<Rightarrow> rat \<Rightarrow> jsnum" where
  "js_mul (Fin a) n = Fin (round_double (a * n))"
| "js_mul x n = x"

definition rat_rem :: "rat \<Rightarrow> rat \<Rightarrow> rat" where
  "rat_rem a n = a - n * (if a / n \<ge> 0 then of_int \<lfloor>a / n\<rfloor> else of_int \<lceil>a / n\<rceil>)"

fun js_rem :: "jsnum \<Rightarrow> rat \<Rightarrow> jsnum" where
  "js_rem (Fin a) n = Fin (rat_rem a n)"
| "js_rem x n = NaN"

fun js_round :: "jsnum \<Rightarrow> jsnum" where
  "js_round (Fin a) = Fin (of_int \<lfloor>a + 1 / 2\<rfloor>)"
| "js_round x = x"

fun js_floor :: "jsnum \<Rightarrow> jsnum" where
  "js_floor (Fin a) = Fin (of_int \<lfloor>a\<rfloor>)"
| "js_floor x = x"

fun js_min :: "jsnum \<Rightarrow> rat \<Rightarrow> jsnum" where
  "js_min (Fin a) n = Fin (min a n)"
| "js_min PosInf n = Fin n"
| "js_min x n = x"

text \<open>What a caller passes: a number, or nothing.\<close>

datatype jsarg = Undefined | Null | Num jsnum

fun js_falsy :: "jsarg \<Rightarrow> bool" where
  "js_falsy (Num x) = (x = Fin 0 \<or> x = NaN)"
| "js_falsy _ = True"

section \<open>Printing\<close>

fun js_text :: "(rat \<Rightarrow> qstring) \<Rightarrow> jsnum \<Rightarrow> qstring" where
  "js_text text_of (Fin a) = (if a \<in> \<int> \<and> \<bar>a\<bar> < 10 ^ 21 then number \<lfloor>a\<rfloor> else text_of a)"
| "js_text text_of NaN = qs ''NaN''"
| "js_text text_of PosInf = qs ''Infinity''"
| "js_text text_of NegInf = qs ''-Infinity''"

text \<open>\<open>toFixed(f)\<close> of a number that is not negative, for \<open>f\<close> 0 or 1.\<close>

definition fixed_digits :: "nat \<Rightarrow> rat \<Rightarrow> qstring" where
  "fixed_digits f a =
     (let n = nat \<lfloor>a * 10 ^ f + 1 / 2\<rfloor>
      in if f = 0 then qs (nat_digits n)
         else qs (nat_digits (n div 10 ^ f)) @ qs ''.'' @ qs (nat_digits (n mod 10 ^ f)))"

fun toFixed :: "(rat \<Rightarrow> qstring) \<Rightarrow> nat \<Rightarrow> jsnum \<Rightarrow> qstring" where
  "toFixed text_of f (Fin a) = (if a < 10 ^ 21 then fixed_digits f a else text_of a)"
| "toFixed text_of f x = js_text text_of x"

end
