(* ===== verification/Formatting.thy ===== *)
theory Formatting
  imports Js_Numbers
begin

text \<open>
  \<open>src/qml/components/Formatting.js\<close>: sizes, speeds, durations, percentages, fingerprints and file
  URLs as the pages show them. An argument that may be missing is a \<open>jsarg\<close>, a string or list that
  may be missing an \<open>option\<close>. \<open>encodeURI\<close> throws on an unpaired surrogate: that is \<open>Inl\<close>.
\<close>

section \<open>Figures\<close>

definition units :: "qstring list" where
  "units = [qs ''kB'', qs ''MB'', qs ''GB'', qs ''TB'']"

text \<open>The loop \<open>while (value >= 1024 && unit < units.length - 1)\<close>.\<close>

function scale_unit :: "jsnum \<Rightarrow> nat \<Rightarrow> jsnum \<times> nat" where
  "scale_unit value unit =
     (if js_le (Fin 1024) value \<and> unit < length units - 1
      then scale_unit (js_div value 1024) (unit + 1) else (value, unit))"
  by pat_completeness auto
termination by (relation "measure (\<lambda>(v, u). length units - u)") auto

declare scale_unit.simps [simp del]

definition fileSize :: "(rat \<Rightarrow> qstring) \<Rightarrow> jsarg \<Rightarrow> qstring" where
  "fileSize text_of bytes =
     (case bytes of Undefined \<Rightarrow> qs ''0 B'' | Null \<Rightarrow> qs ''0 B''
      | Num b \<Rightarrow>
          if js_lt b (Fin 0) then qs ''0 B''
          else if js_lt b (Fin 1024) then js_text text_of b @ qs '' B''
          else
            let (value, unit) = scale_unit (js_div b 1024) 0;
                decimals = (if js_lt value (Fin 100) then 1 else 0)
            in toFixed text_of decimals value @ qs '' '' @ units ! unit)"

definition speed :: "(rat \<Rightarrow> qstring) \<Rightarrow> jsarg \<Rightarrow> qstring" where
  "speed text_of bytesPerSecond =
     (if js_falsy bytesPerSecond then []
      else case bytesPerSecond of
        Num b \<Rightarrow> if js_le b (Fin 0) then [] else fileSize text_of bytesPerSecond @ qs ''/s''
      | _ \<Rightarrow> [])"

definition pad :: "(rat \<Rightarrow> qstring) \<Rightarrow> jsnum \<Rightarrow> qstring" where
  "pad text_of value = (if js_lt value (Fin 10) then qs ''0'' @ js_text text_of value else js_text text_of value)"

definition duration :: "(rat \<Rightarrow> qstring) \<Rightarrow> jsarg \<Rightarrow> qstring" where
  "duration text_of seconds =
     (case seconds of Undefined \<Rightarrow> [] | Null \<Rightarrow> []
      | Num s \<Rightarrow>
          if js_lt s (Fin 0) then []
          else
            let whole = js_round s
            in if js_lt whole (Fin 60) then js_text text_of whole @ qs ''s''
               else
                 let minutes = js_floor (js_div whole 60)
                 in if js_lt minutes (Fin 60)
                    then js_text text_of minutes @ qs ''m '' @ pad text_of (js_rem whole 60) @ qs ''s''
                    else
                      let hours = js_floor (js_div minutes 60)
                      in js_text text_of hours @ qs ''h '' @ pad text_of (js_rem minutes 60) @ qs ''m'')"

definition percent :: "(rat \<Rightarrow> qstring) \<Rightarrow> jsarg \<Rightarrow> qstring" where
  "percent text_of fraction =
     (if js_falsy fraction then qs ''0%''
      else case fraction of
        Num f \<Rightarrow> if js_lt f (Fin 0) then qs ''0%''
                 else js_text text_of (js_round (js_mul (js_min f 1) 100)) @ qs ''%''
      | _ \<Rightarrow> qs ''0%'')"

section \<open>Strings\<close>

definition substring :: "nat \<Rightarrow> nat \<Rightarrow> qstring \<Rightarrow> qstring" where
  "substring i j s = take (j - i) (drop i s)"

text \<open>The loop \<open>for (i = 0; i < length; i += 8)\<close>.\<close>

function groups_from :: "nat \<Rightarrow> qstring \<Rightarrow> qstring \<Rightarrow> qstring" where
  "groups_from i fp out =
     (if i < length fp then
        groups_from (i + 8) fp
          ((if i > 0 then out @ (if i mod 32 = 0 then [10] else qs ''  '') else out) @ substring i (i + 8) fp)
      else out)"
  by pat_completeness auto
termination by (relation "measure (\<lambda>(i, fp, out). length fp - i)") auto

declare groups_from.simps [simp del]

definition fingerprintGroups :: "qstring option \<Rightarrow> qstring" where
  "fingerprintGroups fp = (case fp of None \<Rightarrow> [] | Some s \<Rightarrow> if s = [] then [] else groups_from 0 s [])"

datatype js_error = URIError

definition in_range :: "nat \<Rightarrow> nat \<Rightarrow> nat \<Rightarrow> bool" where
  "in_range lo hi n \<longleftrightarrow> lo \<le> n \<and> n \<le> hi"

text \<open>What \<open>encodeURI\<close> leaves alone: letters, digits, the marks, the reserved characters and \<open>#\<close>.\<close>

definition uri_kept :: "qchar \<Rightarrow> bool" where
  "uri_kept c \<longleftrightarrow> in_range 48 57 (unat c) \<or> in_range 65 90 (unat c) \<or> in_range 97 122 (unat c)
     \<or> c \<in> set (qs ''-_.!~*()'') \<or> c = 39 \<or> c \<in> set (qs '';/?:@&=+$,#'')"

definition utf8_of :: "nat \<Rightarrow> nat list" where
  "utf8_of cp =
     (if cp < 0x80 then [cp]
      else if cp < 0x800 then [0xC0 + cp div 64, 0x80 + cp mod 64]
      else if cp < 0x10000 then [0xE0 + cp div 4096, 0x80 + cp div 64 mod 64, 0x80 + cp mod 64]
      else [0xF0 + cp div 262144, 0x80 + cp div 4096 mod 64, 0x80 + cp div 64 mod 64, 0x80 + cp mod 64])"

definition hex_upper :: "nat \<Rightarrow> qchar" where
  "hex_upper n = qs ''0123456789ABCDEF'' ! n"

definition percent_encoded :: "nat list \<Rightarrow> qstring" where
  "percent_encoded bytes = concat (map (\<lambda>b. [qc (CHR ''%''), hex_upper (b div 16), hex_upper (b mod 16)]) bytes)"

definition high_surrogate :: "qchar \<Rightarrow> bool" where
  "high_surrogate c \<longleftrightarrow> in_range 0xD800 0xDBFF (unat c)"

definition low_surrogate :: "qchar \<Rightarrow> bool" where
  "low_surrogate c \<longleftrightarrow> in_range 0xDC00 0xDFFF (unat c)"

definition code_point :: "qchar \<Rightarrow> qchar \<Rightarrow> nat" where
  "code_point hi lo = (unat hi - 0xD800) * 0x400 + (unat lo - 0xDC00) + 0x10000"

fun encodeURI :: "qstring \<Rightarrow> js_error + qstring" where
  "encodeURI [] = Inr []"
| "encodeURI (c # cs) =
     (if uri_kept c then map_sum id ((#) c) (encodeURI cs)
      else if low_surrogate c then Inl URIError
      else if \<not> high_surrogate c then map_sum id ((@) (percent_encoded (utf8_of (unat c)))) (encodeURI cs)
      else case cs of
        [] \<Rightarrow> Inl URIError
      | d # ds \<Rightarrow>
          if low_surrogate d
          then map_sum id ((@) (percent_encoded (utf8_of (code_point c d)))) (encodeURI ds)
          else Inl URIError)"

definition fileUrl :: "qstring option \<Rightarrow> js_error + qstring" where
  "fileUrl path = (case path of None \<Rightarrow> Inr []
     | Some p \<Rightarrow> if p = [] then Inr [] else map_sum id ((@) (qs ''file://'')) (encodeURI p))"

definition firstName :: "qstring list option \<Rightarrow> qstring" where
  "firstName names = (case names of None \<Rightarrow> [] | Some ns \<Rightarrow> if length ns = 0 then [] else ns ! 0)"

section \<open>Sizes\<close>

lemma js_text_int [simp]:
  assumes "\<bar>n\<bar> < 10 ^ 21"
  shows "js_text text_of (Fin (of_int n)) = number n"
proof -
  have "rat_of_int \<bar>n\<bar> < of_int (10 ^ 21)" using assms by (simp only: of_int_less_iff)
  then have "\<bar>rat_of_int n\<bar> < 10 ^ 21" by (simp only: of_int_abs of_int_power of_int_numeral)
  then show ?thesis by simp
qed

text \<open>The unit of a size of at least \<open>1024\<close> bytes, and the size in that unit.\<close>

definition unit_of :: "int \<Rightarrow> nat" where
  "unit_of b = (if b < 1024 ^ 2 then 0 else if b < 1024 ^ 3 then 1 else if b < 1024 ^ 4 then 2 else 3)"

lemma exact_quotient:
  assumes "\<bar>b\<bar> < 2 ^ 53"
  shows "js_div (Fin (of_int b / 1024 ^ k)) 1024 = Fin (of_int b / 1024 ^ Suc k)"
proof -
  have "(1024::rat) ^ Suc k = 2 powi int (10 * Suc k)"
    by (simp only: power_int_of_nat power_mult) simp
  then have q: "of_int b / (1024::rat) ^ Suc k = of_int b * 2 powi (- int (10 * Suc k))"
    by (simp only: power_int_minus divide_inverse)
  have "round_double (of_int b / (1024::rat) ^ Suc k) = of_int b / 1024 ^ Suc k"
    unfolding q round_double_scale using assms by simp
  then show ?thesis by (simp add: mult.commute)
qed

lemma unit_bounds:
  assumes "1024 ^ Suc k \<le> b"
  shows "js_le (Fin 1024) (Fin (of_int b / 1024 ^ k))"
proof -
  have "rat_of_int (1024 ^ Suc k) \<le> of_int b" using assms by (simp only: of_int_le_iff)
  then have "(1024::rat) \<le> of_int b / 1024 ^ k" by (simp add: le_divide_eq)
  then show ?thesis by (auto simp: js_le_def)
qed

lemma unit_below:
  assumes "b < 1024 ^ Suc k"
  shows "\<not> js_le (Fin 1024) (Fin (of_int b / 1024 ^ k))"
proof -
  have "rat_of_int b < of_int (1024 ^ Suc k)" using assms by (simp only: of_int_less_iff)
  then have "of_int b / 1024 ^ k < (1024::rat)" by (simp add: divide_less_eq)
  then show ?thesis by (auto simp: js_le_def)
qed

lemma scale_more:
  assumes "\<bar>b\<bar> < 2 ^ 53" and "1024 ^ (u + 2) \<le> b" and "u < 3"
  shows "scale_unit (Fin (of_int b / 1024 ^ Suc u)) u = scale_unit (Fin (of_int b / 1024 ^ Suc (Suc u))) (Suc u)"
proof -
  have "js_le (Fin 1024) (Fin (of_int b / 1024 ^ Suc u))" using assms(2) by (intro unit_bounds) simp
  then show ?thesis using assms(3) exact_quotient [OF assms(1), of "Suc u"]
    by (subst scale_unit.simps) (simp only: units_def list.size add_0 add_Suc if_True simp_thms, simp)
qed

lemma scale_done:
  assumes "b < 1024 ^ (u + 2) \<or> u = 3"
  shows "scale_unit (Fin (of_int b / 1024 ^ Suc u)) u = (Fin (of_int b / 1024 ^ Suc u), u)"
proof -
  have "\<not> (js_le (Fin 1024) (Fin (of_int b / 1024 ^ Suc u)) \<and> u < length units - 1)"
    using assms unit_below [of b "Suc u"] by (auto simp: units_def)
  then show ?thesis by (subst scale_unit.simps) (simp only: if_False)
qed

text \<open>
  A size is shown in the largest unit that leaves at least one of it, up to terabytes, with
  one decimal below a hundred and none above; below 1024 bytes it is the exact count. The loop and
  its rounded divisions by 1024 compute exactly that for every size up to \<open>2 ^ 53\<close>; a size that
  is missing or negative shows as nothing at all.
\<close>

theorem fileSize_correct:
  "0 \<le> b \<Longrightarrow> b < 2 ^ 53 \<Longrightarrow>
   fileSize text_of (Num (Fin (of_int b))) =
     (if b < 1024 then number b @ qs '' B''
      else let x = of_int b / 1024 ^ (unit_of b + 1)
           in fixed_digits (if x < 100 then 1 else 0) x @ qs '' '' @ units ! unit_of b)
   \<and> fileSize text_of Undefined = qs ''0 B'' \<and> fileSize text_of Null = qs ''0 B''
   \<and> fileSize text_of (Num (Fin (- 1 - of_int b))) = qs ''0 B''"
proof -
  assume b: "0 \<le> b" "b < 2 ^ 53"
  define x where "x = rat_of_int b / 1024 ^ Suc (unit_of b)"
  have small: "\<bar>b\<bar> < 2 ^ 53" using b by simp
  have "b < 10 ^ 21" using b(2) by (rule less_trans) simp
  then have "\<bar>b\<bar> < 10 ^ 21" using b(1) by simp
  then have digits: "js_text text_of (Fin (of_int b)) = number b" by (rule js_text_int)
  have "rat_of_int b < of_int (2 ^ 53)" using b(2) by (simp only: of_int_less_iff)
  then have b53: "rat_of_int b < 2 ^ 53" by simp
  have "1 \<le> (1024::rat) ^ Suc (unit_of b)" by (rule one_le_power) simp
  from mult_left_mono [OF this, of "of_int b"] have "x \<le> of_int b" using b(1) by (simp add: x_def divide_le_eq)
  then have "x < 10 ^ 21" using b53 by (rule order.strict_trans1 [OF _ less_trans]) simp
  have scale: "scale_unit (Fin (of_int b / 1024 ^ Suc 0)) 0 = (Fin x, unit_of b)" if "\<not> b < 1024"
  proof -
    consider "b < 1024 ^ 2" | "1024 ^ 2 \<le> b" "b < 1024 ^ 3" | "1024 ^ 3 \<le> b" "b < 1024 ^ 4" | "1024 ^ 4 \<le> b"
      by linarith
    then show ?thesis
      using scale_more [OF small, of 0] scale_more [OF small, of 1] scale_more [OF small, of 2]
        scale_done [of b 0] scale_done [of b 1] scale_done [of b 2] scale_done [of b 3]
      by cases (simp_all add: x_def unit_of_def eval_nat_numeral)
  qed
  have first: "js_div (Fin (of_int b)) 1024 = Fin (of_int b / 1024 ^ Suc 0)"
    using exact_quotient [OF small, of 0] by simp
  have neg: "fileSize text_of (Num (Fin (- 1 - of_int b))) = qs ''0 B''" using b(1) by (simp add: fileSize_def)
  show ?thesis
  proof (cases "b < 1024")
    case True
    then have "fileSize text_of (Num (Fin (of_int b))) = number b @ qs '' B''"
      using b(1) digits by (simp add: fileSize_def)
    with True neg show ?thesis by (simp add: fileSize_def)
  next
    case False
    then have "fileSize text_of (Num (Fin (of_int b)))
        = (let (value, unit) = scale_unit (js_div (Fin (of_int b)) 1024) 0;
               decimals = (if js_lt value (Fin 100) then 1 else 0)
           in toFixed text_of decimals value @ qs '' '' @ units ! unit)"
      using b(1) by (simp add: fileSize_def del: js_div.simps)
    also have "\<dots> = fixed_digits (if x < 100 then 1 else 0) x @ qs '' '' @ units ! unit_of b"
      unfolding first scale [OF False] using \<open>x < 10 ^ 21\<close> by simp
    finally show ?thesis using False neg by (simp add: x_def fileSize_def)
  qed
qed

theorem fileSize_correct_witness:
  "fileSize (\<lambda>_. []) (Num (Fin (of_int 10171187))) = qs ''9.7 MB''"
proof -
  have "fileSize (\<lambda>_. []) (Num (Fin (of_int 10171187))) = fixed_digits 1 (10171187 / 1048576) @ qs '' '' @ qs ''MB''"
    using fileSize_correct [of 10171187 "\<lambda>_. []"] by (simp add: unit_of_def units_def eval_nat_numeral)
  moreover have "fixed_digits 1 (10171187 / 1048576) @ qs '' '' @ qs ''MB'' = qs ''9.7 MB''" by code_simp
  ultimately show ?thesis by simp
qed

section \<open>Durations and percentages\<close>

lemma floor_halves [simp]: "\<lfloor>1 / 2 :: rat\<rfloor> = 0" "\<lfloor>201 / 2 :: rat\<rfloor> = 100"
  by (simp_all add: floor_eq_iff)

lemma rem_int [simp]:
  assumes "0 \<le> a" and "0 < b"
  shows "js_rem (Fin (of_int a)) (of_int b) = Fin (of_int (a mod b))"
proof -
  have "rat_rem (of_int a) (of_int b) = of_int a - of_int b * of_int (a div b)"
    using assms by (simp add: rat_rem_def floor_divide_of_int_eq)
  also have "\<dots> = of_int (a - b * (a div b))" by simp
  also have "a - b * (a div b) = a mod b" by (rule minus_mult_div_eq_mod)
  finally show ?thesis by simp
qed

lemma floor_div_int:
  assumes "0 \<le> a" and "a < 2 ^ 50" and "0 < b"
  shows "js_floor (js_div (Fin (of_int a)) (of_int b)) = Fin (of_int (a div b))"
  using floor_round_quotient [OF assms] by simp

definition two_digits :: "int \<Rightarrow> qstring" where
  "two_digits n = (if n < 10 then qs ''0'' @ number n else number n)"

lemma pad_int: "0 \<le> n \<Longrightarrow> n < 10 ^ 21 \<Longrightarrow> pad text_of (Fin (of_int n)) = two_digits n"
  using js_text_int [of n text_of] by (simp add: pad_def two_digits_def)

text \<open>
  A duration reads as seconds below a minute, as minutes and two-digit seconds below an hour,
  and as hours and two-digit minutes from there on, with the seconds dropped: never a bare number
  of seconds above a minute. The rounded divisions by 60 lose nothing up to \<open>2 ^ 50\<close> seconds.
\<close>

theorem duration_correct:
  "0 \<le> n \<Longrightarrow> n < 2 ^ 50 \<Longrightarrow>
   duration text_of (Num (Fin (of_int n))) =
     (if n < 60 then number n @ qs ''s''
      else if n < 3600 then number (n div 60) @ qs ''m '' @ two_digits (n mod 60) @ qs ''s''
      else number (n div 3600) @ qs ''h '' @ two_digits (n div 60 mod 60) @ qs ''m'')"
proof -
  assume n: "0 \<le> n" "n < 2 ^ 50"
  have big: "m < 10 ^ 21" if "m \<le> n" for m
  proof -
    have "m < 2 ^ 50" using that n(2) by simp
    then show ?thesis by (rule less_trans) simp
  qed
  have le: "n div 60 \<le> n" "n div 3600 \<le> n" "0 \<le> n div 60" "0 \<le> n div 3600"
    using n by linarith+
  have two: "n div 60 div 60 = n div 3600" by (simp add: zdiv_zmult2_eq [symmetric])
  have "n div 60 < 2 ^ 50" using le(1) n(2) by simp
  then have m: "js_floor (js_div (Fin (of_int n)) 60) = Fin (of_int (n div 60))"
    and h: "js_floor (js_div (Fin (of_int (n div 60))) 60) = Fin (of_int (n div 3600))"
    using floor_div_int [OF n, of 60] floor_div_int [OF le(3), of 60] two by simp_all
  have r: "js_rem (Fin (of_int n)) 60 = Fin (of_int (n mod 60))"
    "js_rem (Fin (of_int (n div 60))) 60 = Fin (of_int (n div 60 mod 60))"
    using rem_int [OF n(1), of 60] rem_int [OF le(3), of 60] by simp_all
  have t: "js_text text_of (Fin (of_int k)) = number k" if "0 \<le> k" "k \<le> n" for k
    using that big [of k] by (intro js_text_int) simp
  have p: "pad text_of (Fin (of_int (k mod 60))) = two_digits (k mod 60)" for k
    using pos_mod_bound [of 60 k] pos_mod_sign [of 60 k] by (intro pad_int) simp_all
  have whole: "js_round (Fin (of_int n)) = Fin (of_int n)" by simp
  have "duration text_of (Num (Fin (of_int n))) =
     (if js_lt (Fin (of_int n)) (Fin 60) then js_text text_of (Fin (of_int n)) @ qs ''s''
      else if js_lt (Fin (of_int (n div 60))) (Fin 60)
        then js_text text_of (Fin (of_int (n div 60))) @ qs ''m '' @ pad text_of (Fin (of_int (n mod 60))) @ qs ''s''
      else js_text text_of (Fin (of_int (n div 3600))) @ qs ''h '' @ pad text_of (Fin (of_int (n div 60 mod 60))) @ qs ''m'')"
    unfolding duration_def Let_def jsarg.case whole m h r using n(1) by simp
  moreover have "n div 60 < 60 \<longleftrightarrow> n < 3600" by linarith
  ultimately show ?thesis using n le by (simp only: t p js_lt.simps) simp
qed

theorem duration_correct_witness:
  "duration (\<lambda>_. []) (Num (Fin (of_int 3785))) = qs ''1h 03m''"
proof -
  have "duration (\<lambda>_. []) (Num (Fin (of_int 3785))) = number 1 @ qs ''h '' @ two_digits 3 @ qs ''m''"
    using duration_correct [of 3785 "\<lambda>_. []"] by simp
  moreover have "number 1 @ qs ''h '' @ two_digits 3 @ qs ''m'' = qs ''1h 03m''" by code_simp
  ultimately show ?thesis by simp
qed

text \<open>
  A fraction shows as a whole percentage between 0 and 100, the nearest one up to the rounding
  of a single multiplication, and as 100 as soon as it reaches one; a fraction that is missing,
  not a number or negative shows as zero.
\<close>

theorem percent_correct:
  "0 < x \<Longrightarrow>
   (\<exists>k. percent text_of (Num (Fin x)) = number k @ qs ''%'' \<and> 0 \<le> k \<and> k \<le> 100
     \<and> \<bar>of_int k - 100 * min x 1\<bar> \<le> 1 / 2 + 1 / 2 ^ 46 \<and> (1 \<le> x \<longrightarrow> k = 100))
   \<and> percent text_of (Num PosInf) = qs ''100%''
   \<and> percent text_of (Num NaN) = qs ''0%'' \<and> percent text_of (Num (Fin (- x))) = qs ''0%''
   \<and> percent text_of Undefined = qs ''0%''"
proof -
  assume x: "0 < x"
  define m where "m = min x 1"
  define y where "y = round_double (m * 100)"
  define k where "k = \<lfloor>y + 1 / 2\<rfloor>"
  have m: "0 < m" "m \<le> 1" using x by (simp_all add: m_def)
  have small: "\<bar>m * 100\<bar> < 2 ^ 53" using m by simp
  have y: "0 \<le> y" "y \<le> 100"
    using round_double_ge_int [OF small, of 0] round_double_le_int [OF small, of 100] m by (simp_all add: y_def)
  have k: "0 \<le> k" "k \<le> 100" using y by (simp_all add: k_def floor_le_iff)
  have "\<bar>y - m * 100\<bar> \<le> \<bar>m * 100\<bar> / 2 ^ 53" unfolding y_def by (rule round_double_error)
  also have "\<dots> \<le> 1 / 2 ^ 46" using m by simp
  finally have "\<bar>y - m * 100\<bar> \<le> 1 / 2 ^ 46" .
  moreover have "\<bar>of_int k - y\<bar> \<le> 1 / 2"
    using floor_correct [of "y + 1 / 2"] unfolding k_def abs_le_iff by linarith
  ultimately have near: "\<bar>of_int k - 100 * m\<bar> \<le> 1 / 2 + 1 / 2 ^ 46" by (simp only: abs_le_iff) linarith
  have full: "round_double 100 = 100" using round_double_int [of 100] by simp
  have "k = 100" if "1 \<le> x"
    using that full by (simp add: k_def y_def m_def)
  moreover have "percent text_of (Num (Fin x)) = js_text text_of (Fin (of_int k)) @ qs ''%''"
    using x by (simp add: percent_def k_def y_def m_def)
  moreover have "js_text text_of (Fin (of_int k)) = number k" using k by (intro js_text_int) simp
  moreover have "percent text_of (Num PosInf) = js_text text_of (Fin (of_int 100)) @ qs ''%''"
    using full by (simp add: percent_def)
  moreover have "js_text text_of (Fin (of_int 100)) = qs ''100''"
  proof -
    have "number 100 = qs ''100''" by code_simp
    then show ?thesis using js_text_int [of 100 text_of] by simp
  qed
  moreover have "percent text_of (Num NaN) = qs ''0%''" "percent text_of Undefined = qs ''0%''"
    "percent text_of (Num (Fin (- x))) = qs ''0%''"
    using x by (simp_all add: percent_def)
  ultimately show ?thesis using k near unfolding m_def by (auto simp: qs_def)
qed

theorem percent_correct_witness:
  "percent (\<lambda>_. []) (Num PosInf) = qs ''100%'' \<and> percent (\<lambda>_. []) (Num (Fin (- 1))) = qs ''0%''"
  using percent_correct [of 1 "\<lambda>_. []"] by simp

end
