(* ===== verification/File_Url.thy ===== *)
theory File_Url
  imports Formatting Protocol
begin

text \<open>
  What the strings \<open>Formatting.js\<close> builds are worth to whoever reads them: the groups of a
  fingerprint, and the path in a URL of \<open>fileUrl\<close>, read back with \<open>decodeURIComponent\<close> of the
  language.
\<close>

section \<open>Fingerprint groups\<close>

definition no_separator :: "qchar \<Rightarrow> bool" where
  "no_separator c \<longleftrightarrow> c \<noteq> 10 \<and> c \<noteq> 32"

lemma separators_filtered [simp]:
  "\<not> no_separator 10" "filter no_separator (qs ''  '') = []"
  by (simp_all add: no_separator_def qs_def qc_def)

lemma groups_from_filter:
  "filter no_separator (groups_from i fp out) = filter no_separator (out @ drop i fp)"
proof (induction i fp out rule: groups_from.induct)
  case (1 i fp out)
  show ?case
  proof (cases "i < length fp")
    case True
    let ?sep = "if i > 0 then out @ (if i mod 32 = 0 then [10] else qs ''  '') else out"
    have "groups_from i fp out = groups_from (i + 8) fp (?sep @ substring i (i + 8) fp)"
      using True by (subst groups_from.simps) (simp only: if_True)
    then have "filter no_separator (groups_from i fp out)
        = filter no_separator ?sep @ filter no_separator (substring i (i + 8) fp @ drop (i + 8) fp)"
      using 1 [OF True] by (simp only: filter_append append_assoc)
    also have "filter no_separator ?sep = filter no_separator out" by simp
    also have "substring i (i + 8) fp @ drop (i + 8) fp = drop i fp"
      using append_take_drop_id [of 8 "drop i fp"] by (simp add: substring_def add.commute)
    finally show ?thesis by simp
  next
    case False
    then show ?thesis by (subst groups_from.simps) simp
  qed
qed

lemma groups_step:
  "i < length fp \<Longrightarrow> 0 < i \<Longrightarrow> groups_from i fp out =
     groups_from (i + 8) fp (out @ (if i mod 32 = 0 then [10] else qs ''  '') @ take 8 (drop i fp))"
  by (subst groups_from.simps) (simp add: substring_def)

text \<open>
  Grouping a fingerprint loses nothing: without its separators the result is the fingerprint
  again. The 64 digits of a SHA-256 fingerprint become two lines of four groups of eight.
\<close>

theorem fingerprint_groups_roundtrip:
  "length s = 64 \<Longrightarrow>
   (let g = (\<lambda>k. take 8 (drop (8 * k) s)); sp = qs ''  ''
    in fingerprintGroups (Some s) =
         g 0 @ sp @ g 1 @ sp @ g 2 @ sp @ g 3 @ [10] @ g 4 @ sp @ g 5 @ sp @ g 6 @ sp @ g 7)
   \<and> filter no_separator (fingerprintGroups (Some t)) = filter no_separator t
   \<and> fingerprintGroups None = []"
proof -
  assume s: "length s = 64"
  have "groups_from 0 s [] = groups_from 8 s (take 8 s)"
    using s by (subst groups_from.simps) (simp add: substring_def)
  moreover have "groups_from 64 s out = out" for out using s by (subst groups_from.simps) simp
  moreover have "s \<noteq> []" using s by auto
  ultimately have "fingerprintGroups (Some s) =
      take 8 s @ qs ''  '' @ take 8 (drop 8 s) @ qs ''  '' @ take 8 (drop 16 s) @ qs ''  '' @ take 8 (drop 24 s)
      @ [10] @ take 8 (drop 32 s) @ qs ''  '' @ take 8 (drop 40 s) @ qs ''  '' @ take 8 (drop 48 s)
      @ qs ''  '' @ take 8 (drop 56 s)"
    using s by (simp add: fingerprintGroups_def groups_step)
  moreover have "filter no_separator (fingerprintGroups (Some t)) = filter no_separator t"
    by (simp add: fingerprintGroups_def groups_from_filter)
  ultimately show ?thesis by (simp add: Let_def fingerprintGroups_def)
qed

theorem fingerprint_groups_roundtrip_witness:
  "fingerprintGroups (Some (map of_nat [48..<112])) =
     map of_nat [48..<56] @ qs ''  '' @ map of_nat [56..<64] @ qs ''  '' @ map of_nat [64..<72] @ qs ''  ''
     @ map of_nat [72..<80] @ [10] @ map of_nat [80..<88] @ qs ''  '' @ map of_nat [88..<96] @ qs ''  ''
     @ map of_nat [96..<104] @ qs ''  '' @ map of_nat [104..<112]"
  using fingerprint_groups_roundtrip [of "map of_nat [48..<112]"]
  by (simp add: Let_def take_map drop_map drop_upt take_upt)

section \<open>Reading a URL back\<close>

text \<open>
  \<open>decodeURIComponent\<close> of ECMAScript, the reader \<open>encodeURI\<close> is measured against: an escape is a percent
  sign and two hexadecimal digits; escapes that are no well-formed UTF-8 throw.
\<close>

definition hex_value :: "qchar \<Rightarrow> nat option" where
  "hex_value c = (let n = unat c in
     if in_range 48 57 n then Some (n - 48) else if in_range 65 70 n then Some (n - 55)
     else if in_range 97 102 n then Some (n - 87) else None)"

fun octet :: "qstring \<Rightarrow> (nat \<times> qstring) option" where
  "octet (p # h # l # r) =
     (if p \<noteq> qc (CHR ''%'') then None
      else case hex_value h of None \<Rightarrow> None
           | Some a \<Rightarrow> (case hex_value l of None \<Rightarrow> None | Some b \<Rightarrow> Some (16 * a + b, r)))"
| "octet _ = None"

text \<open>The \<open>n\<close> continuation bytes after the value \<open>v\<close> of the first.\<close>

fun continued :: "nat \<Rightarrow> nat \<Rightarrow> qstring \<Rightarrow> (nat \<times> qstring) option" where
  "continued 0 v s = Some (v, s)"
| "continued (Suc n) v s =
     (case octet s of None \<Rightarrow> None
      | Some (b, r) \<Rightarrow> if in_range 0x80 0xBF b then continued n (v * 64 + (b - 0x80)) r else None)"

definition utf16_of :: "nat \<Rightarrow> qstring" where
  "utf16_of cp = (if cp < 0x10000 then [of_nat cp]
     else [of_nat (0xD800 + (cp - 0x10000) div 0x400), of_nat (0xDC00 + (cp - 0x10000) mod 0x400)])"

text \<open>One escaped character: the length its first byte announces, the shortest form, no surrogate.\<close>

definition escaped :: "qstring \<Rightarrow> (nat \<times> qstring) option" where
  "escaped s =
     (case octet s of None \<Rightarrow> None
      | Some (b, r) \<Rightarrow>
          if b < 0x80 then Some (b, r)
          else if in_range 0xC0 0xDF b then Option.bind (continued 1 (b - 0xC0) r) (\<lambda>(v, t). if 0x80 \<le> v then Some (v, t) else None)
          else if in_range 0xE0 0xEF b then Option.bind (continued 2 (b - 0xE0) r)
            (\<lambda>(v, t). if 0x800 \<le> v \<and> \<not> in_range 0xD800 0xDFFF v then Some (v, t) else None)
          else if in_range 0xF0 0xF7 b then Option.bind (continued 3 (b - 0xF0) r)
            (\<lambda>(v, t). if 0x10000 \<le> v \<and> v < 0x110000 then Some (v, t) else None)
          else None)"

lemma octet_shorter: "octet s = Some (b, r) \<Longrightarrow> length r < length s"
  by (cases s rule: octet.cases) (auto split: if_splits option.splits)

lemma continued_shorter: "continued n v s = Some (w, r) \<Longrightarrow> length r \<le> length s"
proof (induction n v s rule: continued.induct)
  case (2 n v s)
  then obtain b t where o: "octet s = Some (b, t)" "in_range 0x80 0xBF b" "continued n (v * 64 + (b - 0x80)) t = Some (w, r)"
    by (auto split: option.splits if_splits)
  from "2.IH" [OF o(1) refl o(2,3)] octet_shorter [OF o(1)] show ?case by simp
qed simp

lemma escaped_shorter: "escaped s = Some (v, r) \<Longrightarrow> length r < length s"
  by (auto simp: escaped_def dest!: octet_shorter continued_shorter split: option.splits if_splits Option.bind_splits)

function decodeURIComponent :: "qstring \<Rightarrow> js_error + qstring" where
  "decodeURIComponent [] = Inr []"
| "decodeURIComponent (c # s) =
     (if c \<noteq> qc (CHR ''%'') then map_sum id ((#) c) (decodeURIComponent s)
      else case escaped (c # s) of None \<Rightarrow> Inl URIError
           | Some (v, r) \<Rightarrow> map_sum id ((@) (utf16_of v)) (decodeURIComponent r))"
  by pat_completeness auto
termination by (relation "measure length") (auto dest: escaped_shorter)

declare decodeURIComponent.simps(2) [simp del]

text \<open>Every surrogate of a well-formed string is half of a pair.\<close>

fun well_formed :: "qstring \<Rightarrow> bool" where
  "well_formed [] = True"
| "well_formed (c # cs) =
     (if low_surrogate c then False
      else if high_surrogate c then (case cs of [] \<Rightarrow> False | d # ds \<Rightarrow> low_surrogate d \<and> well_formed ds)
      else well_formed cs)"

lemmas surrogate_defs = low_surrogate_def high_surrogate_def in_range_def qs_def qc_def

lemma hex_upper_table: "list_all (\<lambda>n. hex_value (hex_upper n) = Some n) [0..<16]"
  by code_simp

lemma octet_encoded:
  assumes "b < 256"
  shows "octet (percent_encoded (b # bytes) @ r) = Some (b, percent_encoded bytes @ r)"
proof -
  have "hex_value (hex_upper n) = Some n" if "n < 16" for n using hex_upper_table that by (simp only: list_all_iff set_upt) simp
  moreover have "b div 16 < 16" "b mod 16 < 16" using assms by auto
  ultimately show ?thesis by (simp add: percent_encoded_def)
qed

lemma percent_encoded_Nil [simp]: "percent_encoded [] = []"
  by (simp add: percent_encoded_def)

lemma continued_encoded:
  "continued (Suc n) v (percent_encoded ((0x80 + m mod 64) # bytes) @ r) = continued n (v * 64 + m mod 64) (percent_encoded bytes @ r)"
proof -
  have "0x80 + m mod 64 < 256" "in_range 0x80 0xBF (0x80 + m mod 64)"
    using mod_less_divisor [of 64 m] by (auto simp: in_range_def)
  then show ?thesis by (simp add: octet_encoded)
qed

lemma escaped_encoded:
  assumes "cp < 0x110000" "\<not> in_range 0xD800 0xDFFF cp"
  shows "escaped (percent_encoded (utf8_of cp) @ r) = Some (cp, r)"
proof -
  have two: "cp div 64 * 64 + cp mod 64 = cp" by simp
  have split: "cp div 4096 * 64 + cp div 64 mod 64 = cp div 64" "cp div 262144 * 64 + cp div 4096 mod 64 = cp div 4096"
    using div_mult_mod_eq [of "cp div 64" 64] div_mult_mod_eq [of "cp div 4096" 64]
    by (simp_all add: div_mult2_eq [symmetric])
  consider "cp < 0x80" | "0x80 \<le> cp" "cp < 0x800" | "0x800 \<le> cp" "cp < 0x10000" | "0x10000 \<le> cp" by linarith
  then show ?thesis
  proof cases
    case 1
    then show ?thesis by (simp add: utf8_of_def escaped_def octet_encoded)
  next
    case 2
    define b where "b = 0xC0 + cp div 64"
    have "cp div 64 < 32" using 2 by (simp add: less_mult_imp_div_less)
    then have b: "b < 256" "\<not> b < 0x80" "in_range 0xC0 0xDF b" "b - 0xC0 = cp div 64" by (simp_all add: b_def in_range_def)
    have "utf8_of cp = [b, 0x80 + cp mod 64]" using 2 by (simp add: utf8_of_def b_def)
    moreover have "continued (Suc 0) (cp div 64) (percent_encoded [0x80 + cp mod 64] @ r) = Some (cp, r)"
      unfolding continued_encoded two by simp
    ultimately show ?thesis using 2 b by (simp add: escaped_def octet_encoded del: continued.simps)
  next
    case 3
    define b where "b = 0xE0 + cp div 4096"
    have "cp div 4096 < 16" using 3 by (simp add: less_mult_imp_div_less)
    then have b: "b < 256" "\<not> b < 0x80" "\<not> in_range 0xC0 0xDF b" "in_range 0xE0 0xEF b" "b - 0xE0 = cp div 4096"
      by (simp_all add: b_def in_range_def)
    have "utf8_of cp = [b, 0x80 + cp div 64 mod 64, 0x80 + cp mod 64]" using 3 by (simp add: utf8_of_def b_def)
    moreover have "continued (Suc (Suc 0)) (cp div 4096) (percent_encoded [0x80 + cp div 64 mod 64, 0x80 + cp mod 64] @ r) = Some (cp, r)"
      unfolding continued_encoded split two by simp
    ultimately show ?thesis using 3 b assms(2) by (simp add: escaped_def octet_encoded numeral_2_eq_2 del: continued.simps)
  next
    case 4
    define b where "b = 0xF0 + cp div 262144"
    have "cp div 262144 < 8" using assms(1) by (simp add: less_mult_imp_div_less)
    then have b: "b < 256" "\<not> b < 0x80" "\<not> in_range 0xC0 0xDF b" "\<not> in_range 0xE0 0xEF b" "in_range 0xF0 0xF7 b" "b - 0xF0 = cp div 262144"
      by (simp_all add: b_def in_range_def)
    have "utf8_of cp = [b, 0x80 + cp div 4096 mod 64, 0x80 + cp div 64 mod 64, 0x80 + cp mod 64]" using 4 by (simp add: utf8_of_def b_def)
    moreover have "continued (Suc (Suc (Suc 0))) (cp div 262144)
        (percent_encoded [0x80 + cp div 4096 mod 64, 0x80 + cp div 64 mod 64, 0x80 + cp mod 64] @ r) = Some (cp, r)"
      unfolding continued_encoded split two by simp
    ultimately show ?thesis using 4 b assms(1) by (simp add: escaped_def octet_encoded numeral_3_eq_3 del: continued.simps)
  qed
qed

lemma percent_encoded_hd: "utf8_of cp = b # bytes \<Longrightarrow> \<exists>t. percent_encoded (utf8_of cp) = qc (CHR ''%'') # t"
  by (simp add: percent_encoded_def)

lemma decode_encoded:
  assumes "cp < 0x110000" "\<not> in_range 0xD800 0xDFFF cp"
  shows "decodeURIComponent (percent_encoded (utf8_of cp) @ u) = map_sum id ((@) (utf16_of cp)) (decodeURIComponent u)"
proof -
  have "utf8_of cp \<noteq> []" by (simp add: utf8_of_def)
  then obtain t where t: "percent_encoded (utf8_of cp) = qc (CHR ''%'') # t" using percent_encoded_hd by (cases "utf8_of cp") blast+
  have "escaped (qc (CHR ''%'') # t @ u) = Some (cp, u)" using escaped_encoded [OF assms, of u] t by simp
  then show ?thesis by (simp add: t decodeURIComponent.simps(2))
qed

lemma kept_reads: "uri_kept c \<Longrightarrow> c \<noteq> qc (CHR ''%'') \<and> unat c < 0x80"
proof -
  have table: "list_all (\<lambda>c. c \<noteq> qc (CHR ''%'') \<and> unat c < 0x80) (39 # qs ''-_.!~*()'' @ qs '';/?:@&=+$,#'')"
    by code_simp
  have "unat (qc (CHR ''%'')) = 37" by code_simp
  moreover assume "uri_kept c"
  ultimately show ?thesis using table unfolding uri_kept_def in_range_def list_all_iff by fastforce
qed

lemma surrogate_facts:
  assumes "high_surrogate c" and "low_surrogate d"
  shows "code_point c d < 0x110000" "\<not> in_range 0xD800 0xDFFF (code_point c d)" and "utf16_of (code_point c d) = [c, d]"
proof -
  define h where "h = unat c - 0xD800"
  define l where "l = unat d - 0xDC00"
  have c: "unat c = 0xD800 + h" "h < 0x400" using assms(1) by (auto simp: high_surrogate_def in_range_def h_def)
  have d: "unat d = 0xDC00 + l" "l < 0x400" using assms(2) by (auto simp: low_surrogate_def in_range_def l_def)
  have cp: "code_point c d = h * 0x400 + l + 0x10000" by (simp add: code_point_def c d)
  show "code_point c d < 0x110000" "\<not> in_range 0xD800 0xDFFF (code_point c d)" using c d by (simp_all add: cp in_range_def)
  have "c = of_nat (0xD800 + h)" "d = of_nat (0xDC00 + l)"
    unfolding c(1) [symmetric] d(1) [symmetric] by simp_all
  moreover have "utf16_of (code_point c d) = [of_nat (0xD800 + h), of_nat (0xDC00 + l)]"
    unfolding cp using d(2) by (simp add: utf16_of_def)
  ultimately show "utf16_of (code_point c d) = [c, d]" by metis
qed

lemma unit_bound: "unat c < 0x10000" for c :: qchar
proof -
  have "unat c < 2 ^ LENGTH(16)" by (rule unsigned_less)
  then show ?thesis by simp
qed

lemma utf16_of_unit: "utf16_of (unat c) = [c]" for c :: qchar
  using unit_bound [of c] by (simp add: utf16_of_def)

text \<open>\<open>encodeURI\<close> throws exactly on a string with an unpaired surrogate, and else is read back.\<close>

definition uri_text :: "qstring \<Rightarrow> bool" where
  "uri_text u \<longleftrightarrow> (\<forall>c \<in> set u. uri_kept c \<or> c = qc (CHR ''%''))"

lemma percent_encoded_text:
  assumes "list_all (\<lambda>b. b < 256) bytes"
  shows "uri_text (percent_encoded bytes)"
proof -
  have "list_all (\<lambda>n. uri_kept (hex_upper n)) [0..<16]" by code_simp
  then have "uri_kept (hex_upper n)" if "n < 16" for n using that by (simp only: list_all_iff set_upt) simp
  moreover have "b div 16 < 16" "b mod 16 < 16" if "b \<in> set bytes" for b using that assms by (auto simp: list_all_iff)
  ultimately show ?thesis by (auto simp: uri_text_def percent_encoded_def)
qed

lemma utf8_of_bytes: "cp < 0x110000 \<Longrightarrow> list_all (\<lambda>b. b < 256) (utf8_of cp)"
  by (auto simp: utf8_of_def less_mult_imp_div_less intro: less_trans)

definition reads_back :: "qstring \<Rightarrow> js_error + qstring \<Rightarrow> bool" where
  "reads_back p e \<longleftrightarrow> (case e of Inl _ \<Rightarrow> \<not> well_formed p | Inr u \<Rightarrow> well_formed p \<and> uri_text u \<and> decodeURIComponent u = Inr p)"

lemma reads_back_kept:
  assumes "reads_back cs e" "uri_kept c"
  shows "reads_back (c # cs) (map_sum id ((#) c) e)"
proof -
  have "\<not> low_surrogate c" "\<not> high_surrogate c" "c \<noteq> qc (CHR ''%'')"
    using kept_reads [OF assms(2)] by (auto simp: low_surrogate_def high_surrogate_def in_range_def)
  with assms show ?thesis by (auto simp: reads_back_def uri_text_def decodeURIComponent.simps(2) split: sum.splits)
qed

lemma reads_back_escaped:
  assumes "reads_back cs e" "cp < 0x110000" "\<not> in_range 0xD800 0xDFFF cp" "well_formed (utf16_of cp @ cs) = well_formed cs"
  shows "reads_back (utf16_of cp @ cs) (map_sum id ((@) (percent_encoded (utf8_of cp))) e)"
  using assms percent_encoded_text [OF utf8_of_bytes [OF assms(2)]]
  by (auto simp: reads_back_def uri_text_def decode_encoded split: sum.splits)

lemma encodeURI_reads_back: "reads_back p (encodeURI p)"
proof (induction p rule: encodeURI.induct)
  case 1
  show ?case by (simp add: reads_back_def uri_text_def)
next
  case (2 c cs)
  show ?case
  proof (cases "uri_kept c")
    case True
    with 2 reads_back_kept show ?thesis by simp
  next
    case unkept: False
    show ?thesis
    proof (cases "low_surrogate c")
      case True
      with unkept show ?thesis by (simp add: reads_back_def)
    next
      case low: False
      show ?thesis
      proof (cases "high_surrogate c")
        case False
        have "unat c < 0x110000" using unit_bound [of c] by simp
        moreover have "\<not> in_range 0xD800 0xDFFF (unat c)" using low False by (auto simp: low_surrogate_def high_surrogate_def in_range_def)
        ultimately show ?thesis
          using 2(2) [OF unkept low False] reads_back_escaped [of cs "encodeURI cs" "unat c"] unkept low False by (simp add: utf16_of_unit)
      next
        case True
        show ?thesis
        proof (cases "\<exists>d ds. cs = d # ds \<and> low_surrogate d")
          case False
          with unkept low True show ?thesis by (cases cs) (auto simp: reads_back_def)
        next
          case True
          then obtain d ds where cs: "cs = d # ds" "low_surrogate d" by blast
          note f = surrogate_facts [OF \<open>high_surrogate c\<close> cs(2)]
          have "reads_back (utf16_of (code_point c d) @ ds) (map_sum id ((@) (percent_encoded (utf8_of (code_point c d)))) (encodeURI ds))"
            using 2(3) [OF unkept low _ cs] \<open>high_surrogate c\<close> low cs(2) by (intro reads_back_escaped f(1,2)) (simp_all add: f(3))
          then show ?thesis using unkept low \<open>high_surrogate c\<close> cs by (simp add: f(3))
        qed
      qed
    qed
  qed
qed

text \<open>
  C39. The URL of a file holds its whole path. \<open>fileUrl\<close> throws exactly when the path has an unpaired
  surrogate; for every other path, whatever a peer put into the name (spaces, percent signs, any
  script, emoji), the result is \<open>file://\<close> and a text of URL characters only that
  \<open>decodeURIComponent\<close> reads back as the path.
\<close>

theorem file_url_reads_back:
  assumes "p \<noteq> []"
  shows "case fileUrl (Some p) of
      Inl _ \<Rightarrow> \<not> well_formed p
    | Inr url \<Rightarrow> well_formed p \<and> (\<exists>u. url = qs ''file://'' @ u \<and> uri_text u \<and> decodeURIComponent u = Inr p)"
  using encodeURI_reads_back [of p] assms by (auto simp: fileUrl_def reads_back_def split: sum.splits)

theorem file_url_reads_back_witness:
  "\<exists>u. fileUrl (Some (qs ''/a b/100%'' @ [0xE9, 0xD83D, 0xDE00])) = Inr (qs ''file://'' @ u)
     \<and> decodeURIComponent u = Inr (qs ''/a b/100%'' @ [0xE9, 0xD83D, 0xDE00])"
proof -
  let ?p = "qs ''/a b/100%'' @ [0xE9, 0xD83D, 0xDE00]"
  have "well_formed ?p" by (simp add: surrogate_defs)
  moreover have "?p \<noteq> []" by simp
  ultimately show ?thesis using file_url_reads_back [of ?p] by (auto split: sum.splits)
qed

text \<open>
  The comment in \<open>fileUrl\<close> fears that a \<open>#\<close> or \<open>?\<close> in a name cuts the path, but \<open>encodeURI\<close> leaves
  both alone: they stand in the URL as they are, between the encoded rest of the path.
\<close>

definition url_delimiter :: "qchar \<Rightarrow> bool" where
  "url_delimiter c \<longleftrightarrow> c = qc (CHR ''#'') \<or> c = qc (CHR ''?'')"

lemma delimiters_kept: "url_delimiter c \<Longrightarrow> uri_kept c"
proof -
  have "uri_kept (qc (CHR ''#'')) \<and> uri_kept (qc (CHR ''?''))" by code_simp
  then show "url_delimiter c \<Longrightarrow> uri_kept c" by (auto simp: url_delimiter_def)
qed

lemma encodeURI_append:
  "uri_kept c \<Longrightarrow> encodeURI a = Inr u \<Longrightarrow> encodeURI b = Inr v \<Longrightarrow> encodeURI (a @ c # b) = Inr (u @ c # v)"
proof (induction a arbitrary: u rule: encodeURI.induct)
  case (2 x cs)
  show ?case
  proof (cases "uri_kept x \<or> \<not> high_surrogate x")
    case True
    with 2 show ?thesis by (cases "encodeURI cs") (auto split: if_splits)
  next
    case False
    with 2(5) obtain d ds w where cs: "cs = d # ds" "low_surrogate d" "encodeURI ds = Inr w" "\<not> low_surrogate x"
      by (cases cs) (auto split: if_splits sum.splits simp: map_sum_def)
    with 2(3) [of d ds w] 2(4-6) False show ?thesis by simp
  qed
qed simp

theorem file_url_keeps_delimiters:
  assumes "well_formed a" "well_formed b" "url_delimiter c"
  shows "\<exists>u v. fileUrl (Some (a @ c # b)) = Inr (qs ''file://'' @ u @ c # v)
    \<and> decodeURIComponent u = Inr a \<and> decodeURIComponent v = Inr b"
proof -
  obtain u v where "encodeURI a = Inr u" "decodeURIComponent u = Inr a" "encodeURI b = Inr v" "decodeURIComponent v = Inr b"
    using encodeURI_reads_back [of a] encodeURI_reads_back [of b] assms(1,2) by (auto simp: reads_back_def split: sum.splits)
  with encodeURI_append [OF delimiters_kept [OF assms(3)]] show ?thesis
    by (intro exI [of _ u] exI [of _ v]) (simp add: fileUrl_def)
qed

theorem file_url_keeps_delimiters_witness:
  "\<exists>u v. fileUrl (Some (qs ''/home/holiday'' @ qc (CHR ''#'') # qs ''2.jpg'')) = Inr (qs ''file://'' @ u @ qc (CHR ''#'') # v)
     \<and> decodeURIComponent u = Inr (qs ''/home/holiday'') \<and> decodeURIComponent v = Inr (qs ''2.jpg'')"
  by (rule file_url_keeps_delimiters) (simp_all add: surrogate_defs url_delimiter_def)

text \<open>
  A name cut at 200 code units can end in half a character, and then \<open>fileUrl\<close> of the received file
  throws.
\<close>

theorem cut_name_has_no_url:
  assumes "\<not> q_isSpace lib 97" "\<not> q_isSpace lib 0xD83D"
  shows "\<exists>e. fileUrl (Some (qs ''/d/'' @ sanitizeText lib (replicate 199 97 @ [0xD83D, 0xDE00]) 200)) = Inl e"
proof -
  let ?n = "replicate 199 97 @ [0xD83D] :: qstring"
  have "\<not> stripped 97" "\<not> stripped 0xD83D" "\<not> stripped 0xDE00" by (simp_all add: stripped_def qc_def)
  then have f: "filter (\<lambda>c. \<not> stripped c) (replicate 199 97 @ [0xD83D, 0xDE00]) = replicate 199 97 @ [0xD83D, 0xDE00 :: qchar]"
    by simp
  have "sanitizeText lib (replicate 199 97 @ [0xD83D, 0xDE00]) 200 = trimmed (q_isSpace lib) ?n"
    unfolding sanitizeText_eq f by simp
  also have "\<dots> = ?n" by (rule trimmed_id) (use assms in \<open>simp_all add: hd_append\<close>)
  finally have n: "sanitizeText lib (replicate 199 97 @ [0xD83D, 0xDE00]) 200 = ?n" .
  have "\<not> well_formed (replicate k 97 @ [0xD83D])" for k by (induction k) (simp_all add: low_surrogate_def high_surrogate_def in_range_def)
  then have "\<not> well_formed (qs ''/d/'' @ ?n)" by (simp add: surrogate_defs)
  with file_url_reads_back [of "qs ''/d/'' @ ?n"] show ?thesis unfolding n by (auto split: sum.splits)
qed

end
