(* ===== verification/Device_Look.thy ===== *)
theory Device_Look
  imports File_Url
begin

text \<open>
  \<open>src/qml/components/DeviceLook.js\<close>: the colour a device gets from its fingerprint and the letters
  of its badge. Every arithmetic operation on fractions rounds to a double, as the engine does;
  \<open>toUpperCase\<close> is the parameter \<open>up\<close>.
\<close>

section \<open>The hash\<close>

text \<open>\<open>value << 5\<close> and \<open>value & value\<close> work on the low 32 bits, read as signed.\<close>

definition to_int32 :: "int \<Rightarrow> int" where
  "to_int32 x = sint (word_of_int x :: 32 word)"

definition shift_left5 :: "int \<Rightarrow> int" where
  "shift_left5 x = sint (push_bit 5 (word_of_int x :: 32 word))"

definition hash_step :: "qchar \<Rightarrow> int \<Rightarrow> int" where
  "hash_step c value = to_int32 ((shift_left5 value - value) + uint c)"

definition hash_text :: "qstring option \<Rightarrow> int" where
  "hash_text text = (case text of None \<Rightarrow> 0 | Some t \<Rightarrow> if t = [] then 0 else \<bar>fold hash_step t 0\<bar>)"

text \<open>The reference: the polynomial hash \<open>31 * h + c\<close> on 32-bit words.\<close>

definition poly_hash :: "qstring \<Rightarrow> 32 word" where
  "poly_hash t = fold (\<lambda>c h. 31 * h + ucast c) t 0"

lemma hash_step_word: "hash_step c (sint w) = sint (31 * w + ucast c)" for w :: "32 word"
proof -
  have "word_of_int (shift_left5 (sint w) - sint w + uint c) = (push_bit 5 w - w + ucast c :: 32 word)"
    by (simp add: shift_left5_def)
  also have "\<dots> = 31 * w + ucast c" by (simp add: push_bit_eq_mult)
  finally show ?thesis by (simp add: hash_step_def to_int32_def)
qed

lemma fold_hash: "fold hash_step t (sint w) = sint (fold (\<lambda>c h. 31 * h + ucast c) t w)" for w :: "32 word"
  by (induction t arbitrary: w) (simp_all add: hash_step_word)

text \<open>
  The hash is the 32-bit polynomial hash with multiplier 31, its sign dropped: shifting,
  subtracting in doubles and masking never lose a bit, and the result lies between 0 and \<open>2 ^ 31\<close>.
\<close>

theorem hash_is_polynomial:
  "hash_text (Some t) = \<bar>sint (poly_hash t)\<bar> \<and> 0 \<le> hash_text fp \<and> hash_text fp \<le> 2 ^ 31"
proof -
  have eq: "hash_text (Some t) = \<bar>sint (poly_hash t)\<bar>" for t
    using fold_hash [of t 0] by (cases "t = []") (simp_all add: hash_text_def poly_hash_def)
  have "\<bar>sint w\<bar> \<le> 2 ^ 31" for w :: "32 word"
    using sint_ge [of w] sint_lt [of w] by (simp add: abs_le_iff)
  then show ?thesis using eq by (cases fp) (simp_all add: hash_text_def)
qed

section \<open>The colour\<close>

text \<open>\<open>byte.toString(16)\<close>.\<close>

fun hex_digits :: "nat \<Rightarrow> qstring" where
  "hex_digits n = (if n < 16 then [hex_digit n] else hex_digits (n div 16) @ [hex_digit (n mod 16)])"

declare hex_digits.simps [simp del]

definition channel_byte :: "rat \<Rightarrow> nat" where
  "channel_byte value = nat \<lfloor>round_double (max 0 (min 1 value) * 255) + 1 / 2\<rfloor>"

definition byteToHex :: "rat \<Rightarrow> qstring" where
  "byteToHex value =
     (let hex = hex_digits (channel_byte value) in if length hex = 1 then qs ''0'' @ hex else hex)"

definition hueToChannel :: "rat \<Rightarrow> rat \<Rightarrow> rat \<Rightarrow> rat" where
  "hueToChannel p q t =
     (let rd = round_double;
          t1 = (if t < 0 then rd (t + 1) else t);
          t2 = (if t1 > 1 then rd (t1 - 1) else t1)
      in if t2 < rd (1 / 6) then rd (p + rd (rd (rd (q - p) * 6) * t2))
         else if t2 < 1 / 2 then q
         else if t2 < rd (2 / 3) then rd (p + rd (rd (rd (q - p) * rd (rd (2 / 3) - t2)) * 6))
         else p)"

definition hsl_channels :: "rat \<Rightarrow> rat \<Rightarrow> rat \<Rightarrow> rat \<times> rat \<times> rat" where
  "hsl_channels h s l =
     (let rd = round_double
      in if s = 0 then (l, l, l)
         else
           let q = (if l < 1 / 2 then rd (l * rd (1 + s)) else rd (rd (l + s) - rd (l * s)));
               p = rd (rd (2 * l) - q)
           in (hueToChannel p q (rd (h + rd (1 / 3))), hueToChannel p q h, hueToChannel p q (rd (h - rd (1 / 3)))))"

definition hslToHex :: "rat \<Rightarrow> rat \<Rightarrow> rat \<Rightarrow> qstring" where
  "hslToHex h s l = (let (r, g, b) = hsl_channels h s l in qs ''#'' @ byteToHex r @ byteToHex g @ byteToHex b)"

definition hue_of :: "qstring option \<Rightarrow> rat" where
  "hue_of fp = rat_rem (round_double (of_int (hash_text fp) * round_double (137508 / 1000))) 360"

definition accent :: "qstring option \<Rightarrow> bool \<Rightarrow> qstring" where
  "accent fp dark =
     (let saturation = round_double (52 / 100);
          lightness = (if dark then round_double (62 / 100) else round_double (46 / 100))
      in hslToHex (round_double (hue_of fp / 360)) saturation lightness)"

lemma channel_byte_range: "channel_byte v \<le> 255"
proof -
  let ?x = "max 0 (min 1 v) * 255"
  have small: "\<bar>?x\<bar> < 2 ^ 53" by (simp add: abs_mult max_def min_def)
  have "?x \<le> of_int 255" by (simp add: max_def min_def)
  from round_double_le_int [OF small this] have "round_double ?x + 1 / 2 < 256" by simp
  then have "\<lfloor>round_double ?x + 1 / 2\<rfloor> < 256" by (simp only: floor_less_iff of_int_numeral)
  then show ?thesis unfolding channel_byte_def by (simp only: nat_le_iff)
qed

lemma byteToHex_eq: "byteToHex v = [hex_digit (channel_byte v div 16), hex_digit (channel_byte v mod 16)]"
proof (cases "channel_byte v < 16")
  case True
  then have "hex_digits (channel_byte v) = [hex_digit (channel_byte v)]" by (subst hex_digits.simps) simp
  then show ?thesis using True by (simp add: byteToHex_def hex_digit_def qs_def)
next
  case False
  have "channel_byte v div 16 < 16" using channel_byte_range [of v] by simp
  then have "hex_digits (channel_byte v div 16) = [hex_digit (channel_byte v div 16)]"
    by (subst hex_digits.simps) simp
  then have "hex_digits (channel_byte v) = [hex_digit (channel_byte v div 16), hex_digit (channel_byte v mod 16)]"
    using False by (subst hex_digits.simps) simp
  then show ?thesis by (simp add: byteToHex_def)
qed

text \<open>What a reader of the colour makes of a pair of digits.\<close>

definition digit_of :: "qchar \<Rightarrow> nat" where
  "digit_of c = (case index_where (\<lambda>d. d = c) (qs ''0123456789abcdef'') of Some i \<Rightarrow> i | None \<Rightarrow> 16)"

fun pair_value :: "qstring \<Rightarrow> nat" where
  "pair_value [a, b] = 16 * digit_of a + digit_of b"
| "pair_value _ = 256"

lemma digit_of_table: "list_all (\<lambda>n. digit_of (hex_digit n) = n) [0..<16]"
  by code_simp

lemma pair_value_byteToHex: "pair_value (byteToHex v) = channel_byte v"
proof -
  have d: "digit_of (hex_digit n) = n" if "n < 16" for n
    using digit_of_table that by (simp only: list_all_iff set_upt) simp
  have "channel_byte v div 16 < 16" using channel_byte_range [of v] by simp
  then show ?thesis by (simp add: byteToHex_eq d)
qed

text \<open>
  C40. The colour of a device is always a well-formed \<open>#rrggbb\<close>, whatever its fingerprint: seven
  characters, whose three pairs of lowercase digits read back as the three channels, each clamped
  to a byte; the hue it comes from lies on the wheel.
\<close>

theorem accent_is_a_colour:
  "let c = accent fp dark;
       (r, g, b) = hsl_channels (round_double (hue_of fp / 360)) (round_double (52 / 100))
                     (if dark then round_double (62 / 100) else round_double (46 / 100))
   in length c = 7 \<and> take 1 c = qs ''#''
      \<and> pair_value (take 2 (drop 1 c)) = channel_byte r \<and> pair_value (take 2 (drop 3 c)) = channel_byte g
      \<and> pair_value (drop 5 c) = channel_byte b
      \<and> set (drop 1 c) \<subseteq> set (qs ''0123456789abcdef'')
      \<and> 0 \<le> hue_of fp \<and> hue_of fp < 360"
proof -
  let ?l = "if dark then round_double (62 / 100) else round_double (46 / 100)"
  obtain r g b where ch: "hsl_channels (round_double (hue_of fp / 360)) (round_double (52 / 100)) ?l = (r, g, b)"
    by (metis prod.exhaust)
  have c: "accent fp dark = qs ''#'' @ byteToHex r @ byteToHex g @ byteToHex b"
    unfolding accent_def Let_def hslToHex_def ch by simp
  have len: "length (byteToHex v) = 2" for v by (simp add: byteToHex_eq)
  have digits: "set (byteToHex v) \<subseteq> set (qs ''0123456789abcdef'')" for v
  proof -
    have "channel_byte v div 16 < 16" using channel_byte_range [of v] by simp
    then show ?thesis using hex_digit_range by (simp add: byteToHex_eq)
  qed
  have hue: "0 \<le> hue_of fp \<and> hue_of fp < 360"
  proof -
    let ?m = "of_int (hash_text fp) * round_double (137508 / 1000) :: rat"
    have "0 \<le> round_double (137508 / 1000)"
      using round_double_ge_int [of "137508 / 1000" 0] by simp
    moreover have "0 \<le> hash_text fp" using fold_hash by (cases fp) (simp_all add: hash_text_def)
    ultimately have "0 \<le> ?m" by simp
    then have "0 \<le> round_double ?m" by (rule round_double_nonneg)
    then have "hue_of fp = round_double ?m - 360 * of_int \<lfloor>round_double ?m / 360\<rfloor>"
      by (simp add: hue_of_def rat_rem_def)
    then show ?thesis using floor_correct [of "round_double ?m / 360"] by linarith
  qed
  have "take 2 (drop 1 (accent fp dark)) = byteToHex r" "take 2 (drop 3 (accent fp dark)) = byteToHex g"
    "drop 5 (accent fp dark) = byteToHex b" "length (accent fp dark) = 7" "take 1 (accent fp dark) = qs ''#''"
    "drop 1 (accent fp dark) = byteToHex r @ byteToHex g @ byteToHex b"
    unfolding c by (simp_all add: len)
  then show ?thesis unfolding Let_def ch using digits hue by (simp add: pair_value_byteToHex)
qed

section \<open>The badge\<close>

definition js_space :: "qchar \<Rightarrow> bool" where
  "js_space c \<longleftrightarrow> (9 \<le> c \<and> c \<le> 13) \<or> c = 32 \<or> c = 0xA0 \<or> c = 0x1680 \<or> (0x2000 \<le> c \<and> c \<le> 0x200A)
     \<or> c = 0x2028 \<or> c = 0x2029 \<or> c = 0x202F \<or> c = 0x205F \<or> c = 0x3000 \<or> c = 0xFEFF"

text \<open>\<open>split\<close> at every run of white space.\<close>

function split_spaces :: "qstring \<Rightarrow> qstring list" where
  "split_spaces s =
     (let word = takeWhile (\<lambda>c. \<not> js_space c) s; rest = dropWhile (\<lambda>c. \<not> js_space c) s
      in if rest = [] then [word] else word # split_spaces (dropWhile js_space rest))"
  by pat_completeness auto
termination
proof (relation "measure length", goal_cases)
  case (2 s word rest)
  then have "js_space (hd rest)" using hd_dropWhile [of "\<lambda>c. \<not> js_space c" s] by simp
  moreover from 2 obtain c r where rest: "rest = c # r" by (meson neq_Nil_conv)
  ultimately have "length (dropWhile js_space rest) \<le> length r" using length_dropWhile_le by simp
  moreover have "length rest \<le> length s" using 2 length_dropWhile_le by blast
  ultimately show ?case using rest by simp
qed simp

declare split_spaces.simps [simp del]

definition initials :: "(qstring \<Rightarrow> qstring) \<Rightarrow> qstring option \<Rightarrow> qstring" where
  "initials up name =
     (case name of None \<Rightarrow> qs ''?''
      | Some a \<Rightarrow>
          if a = [] then qs ''?''
          else
            let words = split_spaces (trimmed js_space a)
            in if length words = 1 then up (substring 0 2 (words ! 0))
               else up (take 1 (words ! 0) @ take 1 (words ! 1)))"

lemma split_first: "split_spaces s ! 0 = takeWhile (\<lambda>c. \<not> js_space c) s" "split_spaces s \<noteq> []"
  by (subst split_spaces.simps, simp add: Let_def)+

lemma split_no_space: "w \<in> set (split_spaces s) \<Longrightarrow> \<not> list_ex js_space w"
proof (induction s rule: split_spaces.induct)
  case (1 s)
  have first: "\<not> list_ex js_space (takeWhile (\<lambda>c. \<not> js_space c) s)"
    by (auto simp: list_ex_iff dest: set_takeWhileD)
  show ?case
  proof (cases "dropWhile (\<lambda>c. \<not> js_space c) s = []")
    case True
    then show ?thesis using 1(2) first by (subst (asm) split_spaces.simps) (simp add: Let_def)
  next
    case False
    then have "split_spaces s = takeWhile (\<lambda>c. \<not> js_space c) s
        # split_spaces (dropWhile js_space (dropWhile (\<lambda>c. \<not> js_space c) s))"
      by (subst split_spaces.simps) (simp only: Let_def if_False)
    with 1 False first show ?thesis by auto
  qed
qed

text \<open>
  The badge of a device with a name shows one or two code units of it: the first is the
  first character of the trimmed name, and no space is ever among them.
\<close>

theorem initials_come_from_the_name:
  "trimmed js_space a \<noteq> [] \<Longrightarrow>
   \<exists>letters. initials up (Some a) = up letters \<and> 1 \<le> length letters \<and> length letters \<le> 2
     \<and> hd letters = hd (trimmed js_space a) \<and> \<not> list_ex js_space letters"
proof -
  assume ne: "trimmed js_space a \<noteq> []"
  let ?t = "trimmed js_space a" and ?ws = "split_spaces (trimmed js_space a)"
  define letters where "letters = (if length ?ws = 1 then substring 0 2 (?ws ! 0) else take 1 (?ws ! 0) @ take 1 (?ws ! 1))"
  obtain c r where t: "?t = c # r" using ne by (meson neq_Nil_conv)
  then have "\<not> js_space c" using trimmed_hd [OF ne] by simp
  then have first: "?ws ! 0 = c # takeWhile (\<lambda>c. \<not> js_space c) r" using t by (simp add: split_first)
  have "a \<noteq> []" using ne by auto
  then have "initials up (Some a) = up letters" by (simp add: initials_def letters_def Let_def)
  moreover have "1 \<le> length letters \<and> length letters \<le> 2" by (simp add: letters_def first substring_def)
  moreover have "hd letters = c" by (simp add: letters_def first substring_def)
  moreover have "\<not> list_ex js_space letters"
  proof -
    have "?ws ! 0 \<in> set ?ws" and "length ?ws \<noteq> 1 \<Longrightarrow> ?ws ! 1 \<in> set ?ws"
      using split_first(2) [of ?t] by (auto intro!: nth_mem simp: Suc_lessI)
    then show ?thesis using split_no_space unfolding letters_def substring_def
      by (auto simp: list_ex_iff dest!: in_set_takeD in_set_dropD split: if_splits)
  qed
  ultimately show ?thesis using t by auto
qed

theorem initials_come_from_the_name_witness:
  "initials id (Some (qs '' Secret  Banana'')) = qs ''SB'' \<and>
   (\<exists>letters. initials id (Some (qs '' Secret  Banana'')) = id letters \<and> 1 \<le> length letters \<and> length letters \<le> 2
     \<and> hd letters = hd (trimmed js_space (qs '' Secret  Banana'')) \<and> \<not> list_ex js_space letters)"
proof
  show "initials id (Some (qs '' Secret  Banana'')) = qs ''SB''" by code_simp
  have "trimmed js_space (qs '' Secret  Banana'') \<noteq> []" by code_simp
  then show "\<exists>letters. initials id (Some (qs '' Secret  Banana'')) = id letters \<and> 1 \<le> length letters
     \<and> length letters \<le> 2 \<and> hd letters = hd (trimmed js_space (qs '' Secret  Banana''))
     \<and> \<not> list_ex js_space letters"
    by (rule initials_come_from_the_name)
qed

lemma surrogate_no_space: "high_surrogate c \<or> low_surrogate c \<Longrightarrow> \<not> js_space c"
  by (auto simp: js_space_def high_surrogate_def low_surrogate_def in_range_def word_le_nat_alt)

text \<open>
  A name of two words whose first begins with a character outside the basic plane (an emoji,
  say) gets a badge that holds half of it: the first unit of its surrogate pair, which is no text.
\<close>

theorem initials_split_a_character:
  "high_surrogate h \<Longrightarrow> low_surrogate l \<Longrightarrow> \<not> js_space c \<Longrightarrow> \<not> low_surrogate c \<Longrightarrow>
   initials up (Some [h, l, 32, c]) = up [h, c] \<and> well_formed [h, l] \<and> \<not> well_formed [h, c]"
proof -
  assume h: "high_surrogate h" "low_surrogate l" and c: "\<not> js_space c" "\<not> low_surrogate c"
  have s: "\<not> js_space h" "\<not> js_space l" "js_space 32"
    using h surrogate_no_space by (auto simp: js_space_def)
  have "\<not> low_surrogate h" using h(1) by (auto simp: high_surrogate_def low_surrogate_def in_range_def)
  moreover have "trimmed js_space [h, l, 32, c] = [h, l, 32, c]" using s c by (intro trimmed_id) simp
  moreover have "split_spaces [c] = [[c]]" using c by (subst split_spaces.simps) (simp add: Let_def)
  then have "split_spaces [h, l, 32, c] = [[h, l], [c]]"
    using s c by (subst split_spaces.simps) (simp add: Let_def)
  ultimately show ?thesis using h c by (simp add: initials_def)
qed

theorem initials_split_a_character_witness:
  "initials id (Some [0xD83D, 0xDE00, 32, 66]) = id [0xD83D, 66] \<and> well_formed [0xD83D, 0xDE00] \<and> \<not> well_formed [0xD83D, 66]"
  by (rule initials_split_a_character)
    (simp_all add: js_space_def high_surrogate_def low_surrogate_def in_range_def)

end
