(* ===== verification/Receive_State.thy ===== *)
theory Receive_State
  imports Http_Server App_Settings History_Model Known_Devices Rate_Limiter Transfer_Model
begin

text \<open>
  \<open>src/src/receiveservice.cpp\<close>, \<open>src/src/hashingfile.cpp\<close>: the state of the receiving service,
  the names it gives to files and what it does to the disk. Connections live in a table by number;
  a handler changes one only through the public functions of \<open>Http_Connection\<close>. The file system is
  a table from paths to contents; what the operating system decides (directories, permissions, a
  full disk) is asked of \<open>recv_env\<close>, a parameter of every step, as are the clocks and the
  translations.
\<close>

section \<open>State\<close>

definition AcceptTimeoutMs :: int where "AcceptTimeoutMs = 90 * 1000"
definition SessionIdleMs :: int where "SessionIdleMs = 60 * 1000"
definition MaxFilesPerSession :: nat where "MaxFilesPerSession = 2000"
definition PartSuffix :: qstring where "PartSuffix = qs ''.part''"

text \<open>A \<open>HashingFile\<close>: where it writes and what its hash has been given.\<close>

record HashingFile =
  hf_path :: qstring
  hf_hashed :: bytes

record Upload =
  up_row :: int
  up_file :: nat
  up_partPath :: qstring
  up_finalPath :: qstring

datatype recv_signal =
  ListeningChanged | RequestArrived qstring nat int | TransferStarted | TransferFinished qstring nat qstring

text \<open>
  \<open>rs_registered\<close> logs the calls of \<open>Discovery::registerPeer\<close>, \<open>rs_sent\<close> the cancel requests
  posted (address and session). \<open>rs_handles\<close> holds the open files; \<open>rs_fault\<close> is set when a
  block is written to a file that has been deleted.
\<close>

record ReceiveService =
  rs_settings :: AppSettings
  rs_transfer :: TransferModel
  rs_history :: HistoryModel
  rs_known :: "KnownDevices option"
  rs_registered :: "(jobject \<times> qstring) list"
  rs_server :: HttpServer
  rs_listenError :: qstring
  rs_pending :: "nat option"
  rs_peer :: DeviceInfo
  rs_sessionId :: qstring
  rs_sessionAddress :: qstring
  rs_sessionDirectory :: qstring
  rs_tokens :: "(qstring, qstring) qhash"
  rs_uploads :: "(nat, Upload) qhash"
  rs_acceptTimer :: "int option"
  rs_idleTimer :: "int option"
  rs_pinAttempts :: RateLimiter
  rs_conns :: "nat \<rightharpoonup> HttpConnection"
  rs_files :: "qstring \<rightharpoonup> bytes"
  rs_handles :: "nat \<rightharpoonup> HashingFile"
  rs_nextHandle :: nat
  rs_fault :: bool
  rs_rng :: rng
  rs_sent :: "(qstring \<times> qstring) list"
  rs_signals :: "recv_signal list"

record recv_env =
  e_lib :: qtlib
  e_net :: netlib
  e_ev :: evp
  e_sys :: sysenv
  e_now :: int
  e_wall :: int
  e_tr :: "string \<Rightarrow> nat list \<Rightarrow> qstring"
  e_listen :: "int \<Rightarrow> qstring + int"
  e_mkpath :: "qstring \<Rightarrow> bool"
  e_isDir :: "qstring \<Rightarrow> bool"
  e_mayOpen :: "qstring \<Rightarrow> bool"
  e_write :: "bytes \<Rightarrow> int"
  e_lost :: nat
  e_rename :: "qstring \<Rightarrow> qstring \<Rightarrow> bool"

definition new_ReceiveService :: "AppSettings \<Rightarrow> rng \<Rightarrow> (qstring \<rightharpoonup> bytes) \<Rightarrow> ReceiveService" where
  "new_ReceiveService st r fs = \<lparr>rs_settings = st, rs_transfer = new_TransferModel, rs_history = no_history,
     rs_known = None, rs_registered = [], rs_server = new_HttpServer, rs_listenError = [], rs_pending = None,
     rs_peer = new_DeviceInfo, rs_sessionId = [], rs_sessionAddress = [], rs_sessionDirectory = [],
     rs_tokens = [], rs_uploads = [], rs_acceptTimer = None, rs_idleTimer = None,
     rs_pinAttempts = new_limiter, rs_conns = Map.empty, rs_files = fs, rs_handles = Map.empty,
     rs_nextHandle = 0, rs_fault = False, rs_rng = r, rs_sent = [], rs_signals = []\<rparr>"

section \<open>Acting on the other objects\<close>

definition on_conn :: "nat \<Rightarrow> (HttpConnection \<Rightarrow> HttpConnection) \<Rightarrow> ReceiveService \<Rightarrow> ReceiveService" where
  "on_conn i f s = (case rs_conns s i of None \<Rightarrow> s | Some c \<Rightarrow> s\<lparr>rs_conns := (rs_conns s)(i \<mapsto> f c)\<rparr>)"

definition answer :: "recv_env \<Rightarrow> nat \<Rightarrow> int \<Rightarrow> ReceiveService \<Rightarrow> ReceiveService" where
  "answer env i status s = on_conn i (respond_status (e_now env) status) s"

definition answer_json :: "recv_env \<Rightarrow> nat \<Rightarrow> int \<Rightarrow> jobject \<Rightarrow> ReceiveService \<Rightarrow> ReceiveService" where
  "answer_json env i status ob s = on_conn i (respondJson (e_net env) (e_now env) status ob) s"

definition on_transfer :: "(TransferModel \<Rightarrow> TransferModel) \<Rightarrow> ReceiveService \<Rightarrow> ReceiveService" where
  "on_transfer f s = s\<lparr>rs_transfer := f (rs_transfer s)\<rparr>"

definition set_file :: "qstring \<Rightarrow> bytes option \<Rightarrow> ReceiveService \<Rightarrow> ReceiveService" where
  "set_file p v s = s\<lparr>rs_files := (rs_files s)(p := v)\<rparr>"

definition rs_emit :: "recv_signal \<Rightarrow> ReceiveService \<Rightarrow> ReceiveService" where
  "rs_emit x s = s\<lparr>rs_signals := rs_signals s @ [x]\<rparr>"

definition registerPeer :: "jobject \<Rightarrow> qstring \<Rightarrow> ReceiveService \<Rightarrow> ReceiveService" where
  "registerPeer ob addr s = s\<lparr>rs_registered := rs_registered s @ [(ob, addr)]\<rparr>"

text \<open>\<open>m_pending\<close> is a guarded pointer: it reads as null once the connection is gone.\<close>

definition pending_conn :: "ReceiveService \<Rightarrow> (nat \<times> HttpConnection) option" where
  "pending_conn s = (case rs_pending s of None \<Rightarrow> None
     | Some p \<Rightarrow> map_option (\<lambda>c. (p, c)) (rs_conns s p))"

definition file_count :: "ReceiveService \<Rightarrow> nat" where
  "file_count s = length (m_files (rs_transfer s))"

definition row_entry :: "ReceiveService \<Rightarrow> int \<Rightarrow> FileEntry" where
  "row_entry s row = m_files (rs_transfer s) ! nat row"

definition path_exists :: "recv_env \<Rightarrow> (qstring \<rightharpoonup> bytes) \<Rightarrow> qstring \<Rightarrow> bool" where
  "path_exists env fs p \<longleftrightarrow> fs p \<noteq> None \<or> e_isDir env p"

section \<open>Names and paths\<close>

definition hex_char :: "qchar \<Rightarrow> bool" where
  "hex_char c \<longleftrightarrow> 48 \<le> c \<and> c \<le> 57 \<or> 65 \<le> c \<and> c \<le> 70 \<or> 97 \<le> c \<and> c \<le> 102"

definition looksLikeSha256 :: "qstring \<Rightarrow> bool" where
  "looksLikeSha256 digest \<longleftrightarrow> length digest = 64 \<and> list_all hex_char digest"

definition slash :: qchar where "slash = 47"
definition dot :: qchar where "dot = 46"

text \<open>\<open>QFileInfo\<close>: what follows the last slash; what follows and precedes the last dot.\<close>

definition base_name :: "qstring \<Rightarrow> qstring" where
  "base_name s = rev (takeWhile (\<lambda>c. c \<noteq> slash) (rev s))"

definition suffix_of :: "qstring \<Rightarrow> qstring" where
  "suffix_of s = (if dot \<in> set s then rev (takeWhile (\<lambda>c. c \<noteq> dot) (rev s)) else [])"

definition completeBaseName :: "qstring \<Rightarrow> qstring" where
  "completeBaseName s = (if dot \<in> set s then rev (tl (dropWhile (\<lambda>c. c \<noteq> dot) (rev s))) else s)"

definition shorten_name :: "qstring \<Rightarrow> qstring" where
  "shorten_name clean =
     (if length clean > 200 then
        let ext = suffix_of clean;
            cut = (if ext = [] then take 200 clean
                   else if length ext + 1 \<le> 200 then take (200 - length ext - 1) clean else clean)
        in if ext = [] then cut else cut @ [dot] @ ext
      else clean)"

definition sanitizeFileName :: "qtlib \<Rightarrow> qstring \<Rightarrow> qstring" where
  "sanitizeFileName lib name =
     (let clean = base_name (sanitizeText lib name 200);
          clean1 = map (\<lambda>c. if c = 92 then 95 else c) clean;
          clean2 = map (\<lambda>c. if c = slash then 95 else c) clean1;
          clean3 = (if clean2 = [] \<or> clean2 = qs ''.'' \<or> clean2 = qs ''..'' then qs ''received-file'' else clean2)
      in shorten_name clean3)"

definition numbered_name :: "qstring \<Rightarrow> qstring \<Rightarrow> nat \<Rightarrow> qstring" where
  "numbered_name base ext n =
     base @ qs '' ('' @ number (int n) @ qs '')'' @ (if ext \<noteq> [] then [dot] @ ext else [])"

definition name_free :: "recv_env \<Rightarrow> (qstring \<rightharpoonup> bytes) \<Rightarrow> qstring \<Rightarrow> bool" where
  "name_free env fs candidate \<longleftrightarrow> \<not> path_exists env fs candidate \<and> \<not> path_exists env fs (candidate @ PartSuffix)"

text \<open>The numbers tried, and the loop over them.\<close>

definition tries :: "nat list" where "tries = [2..<1000]"

definition reserveFilePath :: "recv_env \<Rightarrow> (qstring \<rightharpoonup> bytes) \<Rightarrow> qstring \<Rightarrow> qstring \<Rightarrow> qstring" where
  "reserveFilePath env fs directory name =
     (let clean = sanitizeFileName (e_lib env) name; candidate = directory @ [slash] @ clean
      in if name_free env fs candidate then candidate
         else
           let base0 = completeBaseName clean;
               base = (if base0 = [] then clean else base0);
               ext = (if base0 = [] then [] else suffix_of clean)
           in (case List.find (name_free env fs) (map (\<lambda>n. directory @ [slash] @ numbered_name base ext n) tries) of
                 Some p \<Rightarrow> p | None \<Rightarrow> []))"

definition probe_name :: qstring where "probe_name = qs ''/.localsend-write-test''"

definition prepareDirectory :: "recv_env \<Rightarrow> ReceiveService \<Rightarrow> qstring \<times> ReceiveService" where
  "prepareDirectory env s =
     (let path0 = settings_destination (e_sys env) (rs_settings s);
          path = (if folderPerSender (rs_settings s) \<and> dev_alias (rs_peer s) \<noteq> []
                  then path0 @ [slash] @ sanitizeFileName (e_lib env) (dev_alias (rs_peer s)) else path0);
          probe = path @ probe_name
      in if \<not> e_mkpath env path then ([], s)
         else if \<not> (e_mayOpen env probe \<and> \<not> e_isDir env probe) then ([], s)
         else (path, set_file probe None s))"

section \<open>Files being written\<close>

definition start_idle :: "recv_env \<Rightarrow> ReceiveService \<Rightarrow> ReceiveService" where
  "start_idle env s = s\<lparr>rs_idleTimer := Some (e_now env + SessionIdleMs)\<rparr>"

definition set_status :: "recv_env \<Rightarrow> int \<Rightarrow> FileStatus \<Rightarrow> qstring \<Rightarrow> ReceiveService \<Rightarrow> ReceiveService" where
  "set_status env row status err s = on_transfer (setFileStatus (e_now env) row status err) s"

text \<open>\<open>open(WriteOnly | Truncate)\<close> of a new \<open>HashingFile\<close>: its number, or nothing.\<close>

definition open_file :: "recv_env \<Rightarrow> qstring \<Rightarrow> ReceiveService \<Rightarrow> nat option \<times> ReceiveService" where
  "open_file env path s =
     (if e_mayOpen env path \<and> \<not> e_isDir env path then
        let k = rs_nextHandle s
        in (Some k, (set_file path (Some []) s)\<lparr>rs_handles := (rs_handles s)(k \<mapsto> \<lparr>hf_path = path, hf_hashed = []\<rparr>),
              rs_nextHandle := Suc k\<rparr>)
      else (None, s))"

text \<open>
  \<open>HashingFile::writeData\<close>: \<open>e_write\<close> says how many bytes \<open>QFile::writeData\<close> took, at most all of
  them, negative for an error; only those are hashed.
\<close>

definition written_of :: "recv_env \<Rightarrow> bytes \<Rightarrow> int" where
  "written_of env data = min (e_write env data) (int (length data))"

definition file_content :: "ReceiveService \<Rightarrow> qstring \<Rightarrow> bytes" where
  "file_content s p = (case rs_files s p of Some b \<Rightarrow> b | None \<Rightarrow> [])"

definition writeData :: "recv_env \<Rightarrow> nat \<Rightarrow> bytes \<Rightarrow> ReceiveService \<Rightarrow> int \<times> ReceiveService" where
  "writeData env k data s =
     (case rs_handles s k of
        None \<Rightarrow> (-1, s\<lparr>rs_fault := True\<rparr>)
      | Some f \<Rightarrow>
          let written = written_of env data; kept = take (nat written) data
          in (written, if written > 0
                then (set_file (hf_path f) (Some (file_content s (hf_path f) @ kept)) s)
                       \<lparr>rs_handles := (rs_handles s)(k \<mapsto> f\<lparr>hf_hashed := hf_hashed f @ kept\<rparr>)\<rparr>
                else s))"

text \<open>
  \<open>flush\<close> and \<open>close\<close>: what was buffered and cannot be written after all, \<open>e_lost\<close> bytes, is missing
  at the end of the file. \<open>delete\<close> frees the object.
\<close>

definition flush_file :: "recv_env \<Rightarrow> qstring \<Rightarrow> ReceiveService \<Rightarrow> ReceiveService" where
  "flush_file env p s = (case rs_files s p of None \<Rightarrow> s
     | Some b \<Rightarrow> set_file p (Some (take (length b - e_lost env) b)) s)"

definition delete_handle :: "nat \<Rightarrow> ReceiveService \<Rightarrow> ReceiveService" where
  "delete_handle k s = s\<lparr>rs_handles := (rs_handles s)(k := None)\<rparr>"

definition digest_of :: "recv_env \<Rightarrow> nat \<Rightarrow> ReceiveService \<Rightarrow> qstring" where
  "digest_of env k s = (case rs_handles s k of Some f \<Rightarrow> to_hex (q_sha256 (e_lib env) (hf_hashed f)) | None \<Rightarrow> [])"

text \<open>\<open>QFile::rename\<close> never replaces an existing file.\<close>

definition rename_file :: "recv_env \<Rightarrow> qstring \<Rightarrow> qstring \<Rightarrow> ReceiveService \<Rightarrow> bool \<times> ReceiveService" where
  "rename_file env a b s =
     (if e_rename env a b \<and> rs_files s a \<noteq> None \<and> \<not> path_exists env (rs_files s) b
      then (True, set_file a None (set_file b (rs_files s a) s))
      else (False, s))"

end
