(* ===== verification/Http_Invariant.thy ===== *)
theory Http_Invariant
  imports Http_Connection
begin

text \<open>
  What a connection guarantees to whoever is connected to its signals. The locale \<open>http_inv\<close>
  turns a predicate that the primitive steps of a connection and the slots preserve into one that
  every event preserves; \<open>http_slots\<close> is the contract of well-behaved slots (they touch the
  connection only through its public functions), from which exactly-once delivery follows.
\<close>

section \<open>Preserving a predicate\<close>

text \<open>The part of a connection that a predicate may read.\<close>

definition core :: "HttpConnection \<Rightarrow> conn_state \<times> bool \<times> sock_event list \<times> nat option \<times> int \<times> int \<times> bool \<times> bool \<times> qstring \<times> qstring" where
  "core c = (h_state c, h_bodyComplete c, h_socket c, h_sink c, h_maxBodyBytes c, h_bodyReceived c,
     h_connected c, h_closedEmitted c, h_peerAddress c, h_path c)"

locale http_inv =
  fixes sl :: "'w slots" and I :: "HttpConnection \<Rightarrow> 'w \<Rightarrow> bool"
  assumes cong: "I c w \<Longrightarrow> core c' = core c \<Longrightarrow> I c' w"
    and head: "I c w \<Longrightarrow> h_state c = ReadingHeaders \<Longrightarrow> core c' = core (c\<lparr>h_path := h_path c'\<rparr>) \<Longrightarrow> I c' w"
    and responds: "I c w \<Longrightarrow> I (respond now s p ct c) w"
    and interim: "I c w \<Longrightarrow> h_state c = ReadingBody \<Longrightarrow> I (sock [Interim x] c) w"
    and options: "I c w \<Longrightarrow> h_state c = ReadingHeaders \<Longrightarrow> I (respond now s p ct (c\<lparr>h_state := ReadingBody\<rparr>)) w"
    and headers: "I c w \<Longrightarrow> h_state c = ReadingHeaders \<Longrightarrow> \<not> h_bodyComplete c \<Longrightarrow>
      on_headersReady sl (c\<lparr>h_state := ReadingBody\<rparr>) w = (c', w') \<Longrightarrow> I c' w'"
    and written: "I c w \<Longrightarrow> h_state c = ReadingBody \<Longrightarrow> \<not> h_bodyComplete c \<Longrightarrow> data \<noteq> [] \<Longrightarrow>
      h_sink c = Some k \<Longrightarrow> \<not> (h_maxBodyBytes c \<ge> 0 \<and> h_bodyReceived c + int (length data) > h_maxBodyBytes c) \<Longrightarrow>
      sink_write sl k data w = (n, w') \<Longrightarrow>
      (if n = int (length data)
       then I (c\<lparr>h_bodyReceived := h_bodyReceived c + n\<rparr>) (on_bodyProgress sl (h_bodyReceived c + n) tot w')
       else I (fail_with now 500 c) w')"
    and buffered: "I c w \<Longrightarrow> h_state c = ReadingBody \<Longrightarrow> \<not> h_bodyComplete c \<Longrightarrow> h_sink c = None \<Longrightarrow> 0 < n \<Longrightarrow>
      I (c\<lparr>h_bodyReceived := h_bodyReceived c + n\<rparr>) (on_bodyProgress sl (h_bodyReceived c + n) tot w)"
    and request: "I c w \<Longrightarrow> h_state c = ReadingBody \<Longrightarrow> \<not> h_bodyComplete c \<Longrightarrow>
      on_requestReady sl (c\<lparr>h_bodyComplete := True\<rparr>) w = (c', w') \<Longrightarrow> I c' w'"
    and aborted: "I c w \<Longrightarrow> h_state c = Responded \<Longrightarrow> I ((sock [Aborted] c)\<lparr>h_connected := False\<rparr>) w"
    and closes: "I c w \<Longrightarrow> \<not> h_closedEmitted c \<Longrightarrow>
      on_closed sl (c\<lparr>h_closedEmitted := True, h_state := Responded, h_connected := False\<rparr>) w = (c', w') \<Longrightarrow> I c' w'"
begin

lemma fails: "I c w \<Longrightarrow> I (fail_with now s c) w"
  by (simp add: fail_with_def respond_status_def responds)

lemma deliver_inv:
  assumes "I c w" "h_state c = ReadingBody" "\<not> h_bodyComplete c" "deliver sl now data c w = (ok, c', w')"
  shows "I c' w' \<and> (ok \<longrightarrow> h_state c' = ReadingBody \<and> \<not> h_bodyComplete c')"
proof (cases "data = [] \<or> \<not> ok")
  case True
  with assms written [OF assms(1-3), of data] show ?thesis
    by (auto simp: deliver_def Let_def fails split: if_splits option.splits prod.splits)
next
  case False
  then have data: "data \<noteq> []" and ok: ok by auto
  let ?n = "int (length data)"
  show ?thesis
  proof (cases "h_sink c")
    case None
    then have c': "c' = c\<lparr>h_body := h_body c @ data, h_bodyReceived := h_bodyReceived c + ?n\<rparr>"
      and w': "w' = on_bodyProgress sl (h_bodyReceived c + ?n) (h_contentLength c) w"
      using assms(4) data ok by (auto simp: deliver_def Let_def split: if_splits)
    have "I (c\<lparr>h_bodyReceived := h_bodyReceived c + ?n\<rparr>) w'"
      unfolding w' using data by (intro buffered [OF assms(1-3) None]) simp
    then have "I c' w'" by (rule cong) (simp add: core_def c')
    then show ?thesis using assms(2,3) c' by simp
  next
    case (Some k)
    obtain n w1 where wr: "sink_write sl k data w = (n, w1)" by fastforce
    then have cap: "\<not> (h_maxBodyBytes c \<ge> 0 \<and> h_bodyReceived c + ?n > h_maxBodyBytes c)"
      and n: "n = ?n" and c': "c' = c\<lparr>h_bodyReceived := h_bodyReceived c + ?n\<rparr>"
      and w': "w' = on_bodyProgress sl (h_bodyReceived c + ?n) (h_contentLength c) w1"
      using assms(4) data ok Some by (auto simp: deliver_def Let_def split: if_splits)
    from written [OF assms(1-3) data Some cap wr, of "h_contentLength c"] show ?thesis
      using assms(2,3) c' w' n by simp
  qed
qed

lemma deliver_declared_inv:
  "I c w \<Longrightarrow> h_state c = ReadingBody \<Longrightarrow> \<not> h_bodyComplete c \<Longrightarrow> deliver_declared sl now c w = (ok, c', w')
     \<Longrightarrow> I c' w' \<and> (ok \<longrightarrow> h_state c' = ReadingBody \<and> \<not> h_bodyComplete c')"
proof (induction "length (h_buffer c)" arbitrary: c w rule: less_induct)
  case less
  show ?case
  proof (cases "h_bodyReceived c < h_contentLength c \<and> h_buffer c \<noteq> []")
    case True
    define n where "n = min (nat (h_contentLength c - h_bodyReceived c)) (length (h_buffer c))"
    define c1 where "c1 = c\<lparr>h_buffer := drop n (h_buffer c)\<rparr>"
    obtain ok2 c2 w2 where del: "deliver sl now (take n (h_buffer c)) c1 w = (ok2, c2, w2)"
      by (metis prod.exhaust)
    have "I c1 w" by (rule cong [OF less.prems(1)]) (simp add: core_def c1_def)
    then have two: "I c2 w2 \<and> (ok2 \<longrightarrow> h_state c2 = ReadingBody \<and> \<not> h_bodyComplete c2)"
      using less.prems(2,3) del by (intro deliver_inv) (simp_all add: c1_def)
    have res: "deliver_declared sl now c w = (if ok2 then deliver_declared sl now c2 w2 else (False, c2, w2))"
      using True del by (subst deliver_declared.simps) (simp only: n_def c1_def if_True Let_def prod.case simp_thms)
    have "length (h_buffer c2) < length (h_buffer c)"
      using deliver_buffer [OF del] True by (simp add: c1_def n_def)
    with less two res show ?thesis by (cases ok2) auto
  next
    case False
    with less.prems show ?thesis by (subst (asm) deliver_declared.simps) auto
  qed
qed

lemma finishBody_inv:
  assumes "I c w" "h_state c = ReadingBody" "\<not> h_bodyComplete c"
  shows "I (fst (finishBody sl c w)) (snd (finishBody sl c w))"
proof -
  let ?c = "c\<lparr>h_idleTimer := None, h_buffer := []\<rparr>"
  have "I ?c w" by (rule cong [OF assms(1)]) (simp add: core_def)
  moreover have eq: "c\<lparr>h_bodyComplete := True, h_idleTimer := None, h_buffer := []\<rparr> = ?c\<lparr>h_bodyComplete := True\<rparr>"
    by (cases c) simp
  have "finishBody sl c w = on_requestReady sl (?c\<lparr>h_bodyComplete := True\<rparr>) w"
    by (simp only: finishBody_def assms(3) if_False eq)
  ultimately show ?thesis using assms request [of ?c w] by (simp add: prod_eq_iff)
qed

lemma consumeChunkedBody_inv:
  "I c w \<Longrightarrow> h_state c = ReadingBody \<Longrightarrow> \<not> h_bodyComplete c
     \<Longrightarrow> I (fst (consumeChunkedBody sl now c w)) (snd (consumeChunkedBody sl now c w))"
proof (induction "chunk_weight c" arbitrary: c w rule: less_induct)
  case less
  let ?goal = "\<lambda>r. I (fst r) (snd r)"
  have same: "I c' w" if "core c' = core c" for c' by (rule cong [OF less.prems(1) that])
  have again: "?goal (consumeChunkedBody sl now c' w')"
    if "I c' w'" "h_state c' = ReadingBody" "\<not> h_bodyComplete c'" "chunk_weight c' < chunk_weight c" for c' w'
    using less.hyps [OF that(4,1,2,3)] .
  have shrink: "2 * (length (h_buffer c) - (eol + 2)) + 1 < 2 * length (h_buffer c)"
    if "index_of crlf (h_buffer c) = Some eol" for eol
    using le_Suc_ex [OF index_of_length [OF that]] by (auto simp: crlf_def)
  show ?case
  proof (cases "h_chunkState c")
    case ChunkSize
    show ?thesis
    proof (cases "index_of crlf (h_buffer c)")
      case None
      then show ?thesis using ChunkSize less.prems(1)
        by (subst (1 2) consumeChunkedBody.simps) (simp add: fails)
    next
      case (Some eol)
      define c1 where "c1 = c\<lparr>h_buffer := drop (eol + 2) (h_buffer c)\<rparr>"
      define size where "size = toLongLong 16 (byte_trimmed (takeWhile (\<lambda>b. b \<noteq> 59) (take eol (h_buffer c))))"
      have res: "consumeChunkedBody sl now c w =
         (case size of Some n \<Rightarrow> if n < 0 then (fail_with now 400 c1, w)
            else consumeChunkedBody sl now (c1\<lparr>h_chunkRemaining := nat n,
                   h_chunkState := (if n = 0 then ChunkTrailer else ChunkData)\<rparr>) w
          | None \<Rightarrow> (fail_with now 400 (c1\<lparr>h_chunkRemaining := 0\<rparr>), w))"
        using ChunkSize Some
        by (subst consumeChunkedBody.simps) (simp only: chunk_state.case option.case Let_def size_def c1_def)
      have step: "?goal (consumeChunkedBody sl now (c1\<lparr>h_chunkRemaining := nat n,
           h_chunkState := (if n = 0 then ChunkTrailer else ChunkData)\<rparr>) w)" for n
        by (rule again)
          (use less.prems(2,3) shrink [OF Some] ChunkSize in \<open>auto simp: c1_def chunk_weight_def core_def intro!: same\<close>)
      have "I c1 w" "I (c1\<lparr>h_chunkRemaining := 0\<rparr>) w" by (auto intro!: same simp: c1_def core_def)
      then show ?thesis unfolding res using step by (cases size) (simp_all add: fails)
    qed
  next
    case ChunkData
    show ?thesis
    proof (cases "h_buffer c = []")
      case True
      then show ?thesis using ChunkData less.prems(1) by (subst (1 2) consumeChunkedBody.simps) simp
    next
      case False
      define n where "n = min (h_chunkRemaining c) (length (h_buffer c))"
      define c1 where "c1 = c\<lparr>h_buffer := drop n (h_buffer c), h_chunkRemaining := h_chunkRemaining c - n\<rparr>"
      obtain ok c2 w2 where del: "deliver sl now (take n (h_buffer c)) c1 w = (ok, c2, w2)" by (metis prod.exhaust)
      define c' where "c' = (if h_chunkRemaining c - n = 0 then c2\<lparr>h_chunkState := ChunkCrlf\<rparr> else c2)"
      have res: "consumeChunkedBody sl now c w = (if \<not> ok then (c2, w2) else consumeChunkedBody sl now c' w2)"
        using del
        by (subst consumeChunkedBody.simps)
          (simp only: ChunkData chunk_state.case False if_False Let_def n_def c1_def c'_def prod.case)
      have "I c1 w" by (rule same) (simp add: core_def c1_def)
      then have two: "I c2 w2 \<and> (ok \<longrightarrow> h_state c2 = ReadingBody \<and> \<not> h_bodyComplete c2)"
        using less.prems(2,3) del by (intro deliver_inv) (simp_all add: c1_def)
      then have "I c' w2" by (auto intro: cong simp: c'_def core_def)
      moreover have "chunk_weight c' < chunk_weight c"
      proof (cases "h_chunkRemaining c - n = 0")
        case True
        then show ?thesis using deliver_buffer [OF del] ChunkData by (simp add: c'_def c1_def chunk_weight_def)
      next
        case False
        then have "0 < n" "n \<le> length (h_buffer c)" using \<open>h_buffer c \<noteq> []\<close> by (auto simp: n_def)
        then show ?thesis using deliver_buffer [OF del] ChunkData False by (simp add: c'_def c1_def chunk_weight_def)
      qed
      ultimately show ?thesis unfolding res using two by (cases ok) (auto intro!: again simp: c'_def)
    qed
  next
    case ChunkCrlf
    show ?thesis
    proof (cases "length (h_buffer c) < 2")
      case True
      then show ?thesis using ChunkCrlf less.prems(1) by (subst (1 2) consumeChunkedBody.simps) simp
    next
      case False
      have "?goal (consumeChunkedBody sl now (c\<lparr>h_buffer := drop 2 (h_buffer c), h_chunkState := ChunkSize\<rparr>) w)"
        by (rule again)
          (use less.prems(2,3) False ChunkCrlf in \<open>auto simp: chunk_weight_def core_def intro!: same\<close>)
      then show ?thesis using ChunkCrlf False by (subst (1 2) consumeChunkedBody.simps) simp
    qed
  next
    case ChunkTrailer
    show ?thesis
    proof (cases "index_of crlf (h_buffer c)")
      case None
      then show ?thesis using ChunkTrailer less.prems(1) by (subst (1 2) consumeChunkedBody.simps) simp
    next
      case (Some eol)
      define c1 where "c1 = c\<lparr>h_trailerBytes := h_trailerBytes c + int eol + 2\<rparr>"
      define c2 where "c2 = c1\<lparr>h_buffer := drop (eol + 2) (h_buffer c)\<rparr>"
      define c3 where "c3 = c2\<lparr>h_chunkState := ChunkDone, h_contentLength := h_bodyReceived c2\<rparr>"
      have res: "consumeChunkedBody sl now c w =
         (if h_trailerBytes c1 > int MaxHeadSize then (fail_with now 431 c1, w)
          else if eol = 0 then finishBody sl c3 w else consumeChunkedBody sl now c2 w)"
        using ChunkTrailer Some
        by (subst consumeChunkedBody.simps) (simp only: chunk_state.case option.case Let_def c1_def c2_def c3_def)
      have I: "I c1 w" "I c2 w" "I c3 w" by (auto intro!: same simp: c1_def c2_def c3_def core_def)
      have "?goal (finishBody sl c3 w)"
        using less.prems(2,3) by (intro finishBody_inv I) (simp_all add: c3_def c2_def c1_def)
      moreover have "?goal (consumeChunkedBody sl now c2 w)"
        by (rule again [OF I(2)])
          (use less.prems(2,3) shrink [OF Some] ChunkTrailer in \<open>auto simp: c2_def c1_def chunk_weight_def\<close>)
      ultimately show ?thesis unfolding res using I by (simp add: fails)
    qed
  next
    case ChunkDone
    then show ?thesis using less.prems(1) by (subst (1 2) consumeChunkedBody.simps) simp
  qed
qed

lemma consumeBody_inv:
  assumes "I c w"
  shows "I (fst (consumeBody sl now c w)) (snd (consumeBody sl now c w))"
proof (cases "h_state c \<noteq> ReadingBody \<or> h_bodyComplete c \<or> h_chunked c")
  case True
  with assms consumeChunkedBody_inv [OF assms] show ?thesis by (auto simp: consumeBody_def)
next
  case False
  obtain ok c1 w1 where del: "deliver_declared sl now c w = (ok, c1, w1)" by (metis prod.exhaust)
  with False assms deliver_declared_inv [OF assms _ _ del]
    finishBody_inv [of c1 w1] show ?thesis by (auto simp: consumeBody_def)
qed

lemma parse_header_lines_core:
  "parse_header_lines now ls c = (ok, c') \<Longrightarrow>
     (if ok then core c' = core c else \<exists>c1. core c1 = core c \<and> c' = fail_with now 400 c1)"
proof (induction ls arbitrary: c)
  case (Cons l ls)
  have upd: "core (c\<lparr>h_headers := hs\<rparr>) = core c" for hs by (simp add: core_def)
  have "(\<exists>c1. core c1 = core c \<and> parse_header_lines now (l # ls) c = parse_header_lines now ls c1)
      \<or> parse_header_lines now (l # ls) c = (False, fail_with now 400 c)"
  proof (cases "index_of (bs '':'') (byte_trimmed l)")
    case None
    then show ?thesis by (auto simp: Let_def)
  next
    case (Some colon)
    show ?thesis
    proof (cases colon)
      case 0
      with Some show ?thesis by (auto simp: Let_def)
    next
      case (Suc k)
      let ?c1 = "c\<lparr>h_headers := AList.update (bytes_lower (byte_trimmed (take (Suc k) (byte_trimmed l))))
          (byte_trimmed (drop (Suc k + 1) (byte_trimmed l))) (h_headers c)\<rparr>"
      have "parse_header_lines now (l # ls) c = parse_header_lines now ls ?c1
          \<or> parse_header_lines now (l # ls) c = (False, fail_with now 400 c)"
        using Some Suc by (simp add: Let_def split: option.split)
      with upd show ?thesis by blast
    qed
  qed
  then show ?case
  proof
    assume "\<exists>c1. core c1 = core c \<and> parse_header_lines now (l # ls) c = parse_header_lines now ls c1"
    then obtain c1 where "core c1 = core c" "parse_header_lines now ls c1 = (ok, c')" using Cons.prems by auto
    with Cons.IH [of c1] show ?thesis by (auto split: if_splits)
  next
    assume "parse_header_lines now (l # ls) c = (False, fail_with now 400 c)"
    with Cons.prems show ?thesis by auto
  qed
qed simp

lemma parseHead_inv:
  assumes "I c w" "h_state c = ReadingHeaders" "\<not> h_bodyComplete c" "parseHead lib net now h c = (ok, c')"
  shows "I c' w \<and> (ok \<longrightarrow> h_state c' = ReadingHeaders \<and> \<not> h_bodyComplete c')"
proof (cases "length (split_on 32 (byte_trimmed (hd (split_on 10 h)))) < 2")
  case True
  with assms show ?thesis by (auto simp: parseHead_def Let_def fails)
next
  case False
  obtain path items where u: "u_target net (split_on 32 (byte_trimmed (hd (split_on 10 h))) ! 1) = (path, items)"
    by fastforce
  define c1 where "c1 = c\<lparr>h_method := q_toUpper lib (fromLatin1 (split_on 32 (byte_trimmed (hd (split_on 10 h))) ! 0)),
     h_path := path, h_query := fold (\<lambda>(k, v). AList.update k v) items (h_query c)\<rparr>"
  obtain ok2 c2 where p: "parse_header_lines now (tl (split_on 10 h)) c1 = (ok2, c2)" by fastforce
  have I1: "I x w" if "core x = core c1" for x
    by (rule head [OF assms(1,2)]) (use that in \<open>auto simp: core_def c1_def\<close>)
  have res: "parseHead lib net now h c = (if \<not> ok2 then (False, c2) else (True, set_body_length c2))"
    using False u p by (simp add: parseHead_def Let_def c1_def)
  have "core (set_body_length c2) = core c2" by (simp add: set_body_length_def Let_def core_def)
  then show ?thesis
    using parse_header_lines_core [OF p] res assms(2-4) I1
    by (auto simp: fails split: if_splits) (simp_all add: core_def c1_def)
qed

lemma onReadyRead_inv:
  assumes "I c w" and fresh: "h_state c = ReadingHeaders \<Longrightarrow> \<not> h_bodyComplete c"
  shows "I (fst (onReadyRead lib net sl now b c w)) (snd (onReadyRead lib net sl now b c w))"
proof -
  have same: "I c' w" if "core c' = core c" for c' by (rule cong [OF assms(1) that])
  define c1 where "c1 = c\<lparr>h_idleTimer := Some (now + h_idleInterval c), h_buffer := h_buffer c @ b\<rparr>"
  have c1: "I c1 w" by (rule same) (simp add: core_def c1_def)
  consider (drop) "h_state c = Responded \<or> h_bodyComplete c" | (body) "h_state c = ReadingBody" "\<not> h_bodyComplete c"
    | (short) "h_state c = ReadingHeaders" "\<not> h_bodyComplete c" "index_of (crlf @ crlf) (h_buffer c1) = None"
    | (full) e where "h_state c = ReadingHeaders" "\<not> h_bodyComplete c" "index_of (crlf @ crlf) (h_buffer c1) = Some e"
    using fresh by (cases "h_state c") auto
  then show ?thesis
  proof cases
    case drop
    have "I (c\<lparr>h_idleTimer := t\<rparr>) w" for t by (rule same) (simp add: core_def)
    with drop show ?thesis by (simp add: onReadyRead_def Let_def)
  next
    case body
    then show ?thesis using consumeBody_inv [OF c1] by (simp add: onReadyRead_def Let_def c1_def)
  next
    case short
    then have "onReadyRead lib net sl now b c w =
        (if length (h_buffer c1) > MaxHeadSize then (fail_with now 431 c1, w) else (c1, w))"
      by (simp add: onReadyRead_def Let_def c1_def)
    then show ?thesis using c1 by (simp add: fails)
  next
    case full
    define c2 where "c2 = c1\<lparr>h_buffer := drop (e + 4) (h_buffer c1)\<rparr>"
    obtain ok c3 where p: "parseHead lib net now (take e (h_buffer c1)) c2 = (ok, c3)" by fastforce
    have "I c2 w" by (rule same) (simp add: core_def c2_def c1_def)
    then have c3: "I c3 w \<and> (ok \<longrightarrow> h_state c3 = ReadingHeaders \<and> \<not> h_bodyComplete c3)"
      using full p by (intro parseHead_inv) (simp_all add: c2_def c1_def)
    let ?c4 = "c3\<lparr>h_state := ReadingBody\<rparr>"
    have res: "onReadyRead lib net sl now b c w = (if \<not> ok then (c3, w) else after_head sl now ?c4 w)"
      using full p by (simp add: onReadyRead_def Let_def c1_def c2_def)
    obtain c5 w5 where h: "on_headersReady sl ?c4 w = (c5, w5)" by fastforce
    define c6 where "c6 = (if bytes_lower (header_value c5 ''expect'') = bs ''100-continue''
      then sock [Interim (bs ''HTTP/1.1 100 Continue'' @ crlf @ crlf)] c5 else c5)"
    have ah: "after_head sl now ?c4 w = (if h_method ?c4 = qs ''OPTIONS'' then (respond now 204 [] [] ?c4, w)
       else if h_state c5 \<noteq> ReadingBody then (c5, w5) else consumeBody sl now c6 w5)"
      using h by (simp add: after_head_def c6_def Let_def)
    show ?thesis
    proof (cases ok)
      case True
      with c3 have i3: "I c3 w" "h_state c3 = ReadingHeaders" "\<not> h_bodyComplete c3" by auto
      have "I c5 w5" by (rule headers [OF i3 h])
      then have "h_state c5 = ReadingBody \<Longrightarrow> I c6 w5" by (simp add: c6_def interim)
      then show ?thesis using res True ah options [OF i3(1,2)] \<open>I c5 w5\<close>
        by (simp add: consumeBody_inv)
    next
      case False
      then show ?thesis using res c3 by simp
    qed
  qed
qed

lemma timers_inv:
  assumes "I c w"
  shows "I (onIdleTimeout now c) w" and "I (onHeaderDeadline now c) w"
proof -
  have "I (c\<lparr>h_idleTimer := t\<rparr>) w" "I (c\<lparr>h_headerDeadline := t\<rparr>) w" for t
    by (auto intro!: cong [OF assms] simp: core_def)
  then show "I (onIdleTimeout now c) w" and "I (onHeaderDeadline now c) w"
    using assms by (auto simp: onIdleTimeout_def onHeaderDeadline_def Let_def fails
        intro!: aborted split: option.split)
qed

theorem conn_step_inv:
  assumes "I c w" and "h_state c = ReadingHeaders \<Longrightarrow> \<not> h_bodyComplete c"
  shows "I (fst (conn_step lib net sl e (c, w))) (snd (conn_step lib net sl e (c, w)))"
proof (cases e)
  case (Readable now b)
  with assms onReadyRead_inv [OF assms] show ?thesis by simp
next
  case Disconnected
  obtain c' w' where "on_closed sl (c\<lparr>h_closedEmitted := True, h_state := Responded, h_connected := False\<rparr>) w = (c', w')"
    by fastforce
  with Disconnected assms(1) closes [OF assms(1)] show ?thesis by (simp add: onDisconnected_def)
qed (use assms(1) timers_inv in simp_all)

end

section \<open>Slots that keep to the public functions\<close>

inductive via_api :: "HttpConnection \<Rightarrow> HttpConnection \<Rightarrow> bool" where
  api_none: "via_api c c"
| api_respond: "via_api c c' \<Longrightarrow> via_api c (respond now status payload ctype c')"
| api_header: "via_api c c' \<Longrightarrow> via_api c (addHeader name v c')"
| api_stream: "via_api c c' \<Longrightarrow> via_api c (streamBodyTo now k maxBytes c')"

lemma via_api_trans: "via_api b c \<Longrightarrow> via_api a b \<Longrightarrow> via_api a c"
  by (induction rule: via_api.induct) (auto intro: via_api.intros)

definition answers :: "HttpConnection \<Rightarrow> nat" where
  "answers c = length (filter (\<lambda>e. case e of Response _ _ \<Rightarrow> True | _ \<Rightarrow> False) (h_socket c))"

definition answered_once :: "HttpConnection \<Rightarrow> bool" where
  "answered_once c \<longleftrightarrow> answers c \<le> 1 \<and> (h_state c \<noteq> Responded \<longrightarrow> answers c = 0)"

lemma answered_once_respond: "answered_once c \<Longrightarrow> answered_once (respond now s p ct c)"
  by (auto simp: answered_once_def answers_def respond_def sock_def Let_def)

lemma addHeader_core [simp]: "core (addHeader n v c) = core c"
  by (simp add: addHeader_def core_def Let_def)

lemma answered_once_cong: "core c' = core c \<Longrightarrow> answered_once c' = answered_once c"
  by (simp add: answered_once_def answers_def core_def)

lemma answered_once_stream:
  assumes "answered_once c"
  shows "answered_once (streamBodyTo now k m c)"
proof -
  have "answered_once (c\<lparr>h_sink := Some k, h_maxBodyBytes := m\<rparr>)"
    using assms by (simp add: answered_once_def answers_def)
  then show ?thesis
    by (simp add: streamBodyTo_def Let_def fail_with_def respond_status_def answered_once_respond)
qed

lemma answered_once_api: "via_api c c' \<Longrightarrow> answered_once c \<Longrightarrow> answered_once c'"
  by (induction rule: via_api.induct)
    (simp_all add: answered_once_respond answered_once_stream answered_once_cong [of "addHeader n v c" c for n v c])

lemma bodyComplete_stream [simp]: "h_bodyComplete (streamBodyTo now k m c) = h_bodyComplete c"
  by (simp add: streamBodyTo_def Let_def)

lemma bodyComplete_api: "via_api c c' \<Longrightarrow> h_bodyComplete c' = h_bodyComplete c"
  by (induction rule: via_api.induct) (simp_all add: addHeader_def Let_def)

text \<open>The same slots with a count of the requests they were given.\<close>

definition counted :: "'w slots \<Rightarrow> ('w \<times> nat) slots" where
  "counted sl = \<lparr>on_headersReady = \<lambda>c (w, n). let (c', w') = on_headersReady sl c w in (c', w', n),
     on_requestReady = \<lambda>c (w, n). let (c', w') = on_requestReady sl c w in (c', w', Suc n),
     on_bodyProgress = \<lambda>a b (w, n). (on_bodyProgress sl a b w, n),
     on_closed = \<lambda>c (w, n). let (c', w') = on_closed sl c w in (c', w', n),
     sink_write = \<lambda>k d (w, n). let (x, w') = sink_write sl k d w in (x, w', n)\<rparr>"

locale http_slots =
  fixes sl :: "'w slots"
  assumes headers_api: "via_api c (fst (on_headersReady sl c w))"
    and request_api: "via_api c (fst (on_requestReady sl c w))"
    and closed_api: "via_api c (fst (on_closed sl c w))"
begin

lemma api_of:
  "on_headersReady sl c w = (c', w') \<Longrightarrow> via_api c c'"
  "on_requestReady sl c w = (c', w') \<Longrightarrow> via_api c c'"
  "on_closed sl c w = (c', w') \<Longrightarrow> via_api c c'"
  using headers_api [of c w] request_api [of c w] closed_api [of c w] by simp_all

end

sublocale http_slots \<subseteq> answering: http_inv sl "\<lambda>c w. answered_once c"
proof (unfold_locales, goal_cases)
  case (1 c w c') then show ?case using answered_once_cong [OF 1(2)] by simp
next
  case (2 c w c') then show ?case by (simp add: answered_once_def answers_def core_def)
next
  case (3 c w now s p ct) then show ?case by (simp add: answered_once_respond)
next
  case (4 c w x) then show ?case by (simp add: answered_once_def answers_def sock_def)
next
  case (5 c w now s p ct)
  then have "answered_once (c\<lparr>h_state := ReadingBody\<rparr>)" by (simp add: answered_once_def answers_def)
  then show ?case by (rule answered_once_respond)
next
  case (6 c w c' w')
  then have "answered_once (c\<lparr>h_state := ReadingBody\<rparr>)" by (simp add: answered_once_def answers_def)
  with api_of(1) [OF 6(4)] show ?case by (rule answered_once_api)
next
  case (7 c w data k n w' tot now)
  then have "answered_once (fail_with now 500 c)" by (simp add: fail_with_def respond_status_def answered_once_respond)
  with 7(1) show ?case by (simp add: answered_once_def answers_def)
next
  case (8 c w n tot) then show ?case by (simp add: answered_once_def answers_def)
next
  case (9 c w c' w')
  then have "answered_once (c\<lparr>h_bodyComplete := True\<rparr>)" by (simp add: answered_once_def answers_def)
  with api_of(2) [OF 9(4)] show ?case by (rule answered_once_api)
next
  case (10 c w) then show ?case by (simp add: answered_once_def answers_def sock_def)
next
  case (11 c w c' w')
  then have "answered_once (c\<lparr>h_closedEmitted := True, h_state := Responded, h_connected := False\<rparr>)"
    by (simp add: answered_once_def answers_def)
  with api_of(3) [OF 11(3)] show ?case by (rule answered_once_api)
qed

lemma via_api_fields:
  "via_api c c' \<Longrightarrow> h_closedEmitted c' = h_closedEmitted c \<and> h_bodyComplete c' = h_bodyComplete c
     \<and> (h_state c' = h_state c \<or> h_state c' = Responded)"
  by (induction rule: via_api.induct) (auto simp: streamBodyTo_def addHeader_def Let_def)

definition delivered_once :: "HttpConnection \<Rightarrow> 'w \<times> nat \<Rightarrow> bool" where
  "delivered_once c wn \<longleftrightarrow> snd wn \<le> (if h_bodyComplete c then 1 else 0)
     \<and> (h_state c = ReadingHeaders \<longrightarrow> \<not> h_bodyComplete c)"

sublocale http_slots \<subseteq> delivering: http_inv "counted sl" delivered_once
proof (unfold_locales, goal_cases)
  case (6 c w c' w')
  then obtain u n u' where "w = (u, n)" "w' = (u', n)" "on_headersReady sl (c\<lparr>h_state := ReadingBody\<rparr>) u = (c', u')"
    by (auto simp: counted_def split: prod.splits)
  with via_api_fields [OF api_of(1) [OF this(3)]] 6(1) show ?case by (auto simp: delivered_once_def)
next
  case (9 c w c' w')
  then obtain u n u' where "w = (u, n)" "w' = (u', Suc n)" "on_requestReady sl (c\<lparr>h_bodyComplete := True\<rparr>) u = (c', u')"
    by (auto simp: counted_def split: prod.splits)
  with via_api_fields [OF api_of(2) [OF this(3)]] 9(1-3) show ?case by (auto simp: delivered_once_def)
next
  case (11 c w c' w')
  then obtain u n u' where "w = (u, n)" "w' = (u', n)"
      "on_closed sl (c\<lparr>h_closedEmitted := True, h_state := Responded, h_connected := False\<rparr>) u = (c', u')"
    by (auto simp: counted_def split: prod.splits)
  with via_api_fields [OF api_of(3) [OF this(3)]] 11(1) show ?case by (auto simp: delivered_once_def)
qed (auto simp: core_def counted_def sock_def delivered_once_def split: prod.splits if_splits)

context http_slots
begin

lemma delivered_at_most_once:
  "delivered_once c w \<Longrightarrow> delivered_once (fst (fold (conn_step lib net (counted sl)) es (c, w)))
     (snd (fold (conn_step lib net (counted sl)) es (c, w)))"
proof (induction es arbitrary: c w)
  case (Cons e es)
  obtain c1 w1 where s: "conn_step lib net (counted sl) e (c, w) = (c1, w1)" by (metis prod.exhaust)
  have "delivered_once (fst (c1, w1)) (snd (c1, w1))"
    unfolding s [symmetric] by (rule delivering.conn_step_inv [OF Cons.prems]) (use Cons.prems in \<open>simp add: delivered_once_def\<close>)
  with Cons.IH show ?case by (simp add: s)
qed simp

end

end
