(* ===== verification/Receive_Service.thy ===== *)
theory Receive_Service
  imports Receive_State Http_Invariant
begin

text \<open>
  \<open>src/src/receiveservice.cpp\<close>: the endpoints of the protocol, the one session and its uploads.
\<close>

section \<open>The simple endpoints\<close>

definition endpoint :: "qstring \<Rightarrow> qstring" where
  "endpoint path = ApiPrefix @ path"

definition handleInfo :: "recv_env \<Rightarrow> nat \<Rightarrow> ReceiveService \<Rightarrow> ReceiveService" where
  "handleInfo env i s = answer_json env i 200 (toInfoResponse (self_info (rs_settings s))) s"

definition handleRegister :: "recv_env \<Rightarrow> nat \<Rightarrow> HttpConnection \<Rightarrow> ReceiveService \<Rightarrow> ReceiveService" where
  "handleRegister env i c s =
     (let s1 = registerPeer (jsonBody (e_net env) c) (h_peerAddress c) s
      in answer_json env i 200 (toInfoResponse (self_info (rs_settings s1))) s1)"

section \<open>Accepting and declining\<close>

definition releasePending :: "ReceiveService \<Rightarrow> ReceiveService" where
  "releasePending s = s\<lparr>rs_pending := None\<rparr>"

text \<open>One row of the loop that hands out the tokens; \<open>ob\<close> is the JSON object of the answer.\<close>

definition issue_token :: "nat \<Rightarrow> ReceiveService \<times> jobject \<Rightarrow> ReceiveService \<times> jobject" where
  "issue_token row so =
     (let (s, ob) = so; (t, r) = generateToken (rs_rng s); fileId = fe_id (row_entry s (int row));
          s1 = on_transfer (setFileToken (int row) t) (s\<lparr>rs_rng := r\<rparr>)
      in (s1\<lparr>rs_tokens := AList.update fileId t (rs_tokens s1)\<rparr>, json_put fileId (JString t) ob))"

definition accept :: "recv_env \<Rightarrow> ReceiveService \<Rightarrow> ReceiveService" where
  "accept env s =
     (case pending_conn s of
        None \<Rightarrow> s
      | Some (p, c) \<Rightarrow>
          let (directory, s0) = prepareDirectory env s
          in if directory = [] then
               on_transfer (setState (e_now env) Failed (e_tr env ''Cannot write to the destination folder'' []))
                 ((releasePending (answer env p 500 s0))\<lparr>rs_acceptTimer := None\<rparr>)
             else
               let (sid, r) = generateToken (rs_rng s0);
                   s1 = s0\<lparr>rs_rng := r, rs_sessionId := sid, rs_sessionAddress := h_peerAddress c,
                           rs_sessionDirectory := directory, rs_tokens := []\<rparr>;
                   (s2, tokens) = fold issue_token [0..<file_count s1] (s1, []);
                   s3 = answer_json env p 200
                          (jinsert ''files'' (JObject tokens) (jinsert ''sessionId'' (JString sid) [])) s2;
                   s4 = (releasePending s3)\<lparr>rs_acceptTimer := None\<rparr>;
                   s5 = on_transfer (setState (e_now env) Active [])
                          (on_transfer (setDestination (rs_sessionDirectory s4)) s4)
               in rs_emit TransferStarted (s5\<lparr>rs_idleTimer := Some (e_now env + SessionIdleMs)\<rparr>))"

definition decline :: "recv_env \<Rightarrow> ReceiveService \<Rightarrow> ReceiveService" where
  "decline env s =
     (case pending_conn s of
        None \<Rightarrow> s
      | Some (p, c) \<Rightarrow>
          on_transfer (setState (e_now env) Idle [])
            ((releasePending (answer env p 403 s))\<lparr>rs_acceptTimer := None\<rparr>))"

definition onAcceptTimeout :: "recv_env \<Rightarrow> ReceiveService \<Rightarrow> ReceiveService" where
  "onAcceptTimeout env s =
     (case pending_conn s of
        None \<Rightarrow> s
      | Some (p, c) \<Rightarrow> on_transfer (setState (e_now env) Idle []) (releasePending (answer env p 403 s)))"

definition onPendingClosed :: "recv_env \<Rightarrow> nat \<Rightarrow> ReceiveService \<Rightarrow> ReceiveService" where
  "onPendingClosed env i s =
     (if rs_pending s \<noteq> Some i then s
      else
        let s1 = s\<lparr>rs_pending := None, rs_acceptTimer := None\<rparr>
        in if rs_sessionId s1 = [] then on_transfer (setState (e_now env) Idle []) s1 else s1)"

section \<open>Prepare-upload\<close>

definition make_entry :: "qtlib \<Rightarrow> jobject \<Rightarrow> qstring \<Rightarrow> FileEntry" where
  "make_entry lib files k =
     (let descriptor = to_object (jvalue_at files k);
          name = to_string (jvalue descriptor ''fileName'');
          size = qint64_of_double lib (to_double (jvalue descriptor ''size''))
      in new_FileEntry\<lparr>fe_id := to_string_or k (jvalue descriptor ''id''),
           fileName := (if name = [] then qs ''file'' else name),
           fe_size := (if size < 0 then 0 else size),
           fileType := sanitizeText lib (to_string (jvalue descriptor ''fileType'')) 128,
           sha256 := sanitizeText lib (to_string (jvalue descriptor ''sha256'')) 128\<rparr>)"

text \<open>What follows once every check has passed.\<close>

definition open_request ::
    "recv_env \<Rightarrow> nat \<Rightarrow> jobject \<Rightarrow> jobject \<Rightarrow> DeviceInfo \<Rightarrow> ReceiveService \<Rightarrow> ReceiveService" where
  "open_request env i info files peer s =
     (let s0 = registerPeer info (address peer) s;
          entries = map (make_entry (e_lib env) files) (map fst files);
          s1 = on_transfer (setState (e_now env) Pending [])
                 (on_transfer (begin_transfer (e_now env) Receiving (dev_alias peer) (address peer) (deviceType peer)
                                (fingerprint peer) entries) (s0\<lparr>rs_peer := peer\<rparr>));
          s2 = s1\<lparr>rs_pending := Some i\<rparr>
      in if quickSave (rs_settings s2) then accept env s2
         else rs_emit (RequestArrived (dev_alias peer) (length entries) (m_totalBytes (rs_transfer s2)))
                (s2\<lparr>rs_acceptTimer := Some (e_now env + AcceptTimeoutMs)\<rparr>))"

definition is_blocked :: "recv_env \<Rightarrow> qstring \<Rightarrow> ReceiveService \<Rightarrow> bool" where
  "is_blocked env fp s = (case rs_known s of None \<Rightarrow> False | Some kd \<Rightarrow> isBlocked (e_lib env) fp kd)"

definition handlePrepareUpload :: "recv_env \<Rightarrow> nat \<Rightarrow> HttpConnection \<Rightarrow> ReceiveService \<Rightarrow> ReceiveService" where
  "handlePrepareUpload env i c s =
     (if \<not> receiveEnabled (rs_settings s) then answer env i 403 s
      else if pending_conn s \<noteq> None \<or> rs_sessionId s \<noteq> [] then answer env i 409 s
      else
        let addr = h_peerAddress c
        in if \<not> allow (e_now env) addr (rs_pinAttempts s) then
             answer env i 429 (on_conn i (addHeader (bs ''Retry-After'')
               (byte_number (retryAfter (e_now env) addr (rs_pinAttempts s)))) s)
           else if \<not> checkPin (e_lib env) (e_ev env) (query c ''pin'') (rs_settings s) then
             answer env i 401 (s\<lparr>rs_pinAttempts := recordFailure (e_now env) addr (rs_pinAttempts s)\<rparr>)
           else
             let s1 = s\<lparr>rs_pinAttempts := recordSuccess addr (rs_pinAttempts s)\<rparr>;
                 body = jsonBody (e_net env) c;
                 info = to_object (jvalue body ''info'');
                 files = to_object (jvalue body ''files'')
             in if info = [] then answer env i 400 s1
                else if files = [] then answer env i 204 s1
                else if length files > MaxFilesPerSession then answer env i 400 s1
                else
                  let peer = (fromPayload (e_lib env) info)\<lparr>address := addr\<rparr>
                  in if h_peerCertificate c \<noteq> []
                        \<and> \<not> equalsFold (e_lib env) (fingerprintOf (e_lib env) (h_peerCertificate c)) (fingerprint peer)
                     then answer env i 403 s1
                     else if is_blocked env (fingerprint peer) s1 then answer env i 403 s1
                     else open_request env i info files peer s1)"

section \<open>Ending a session\<close>

definition closeUpload :: "recv_env \<Rightarrow> nat \<Rightarrow> bool \<Rightarrow> ReceiveService \<Rightarrow> ReceiveService" where
  "closeUpload env i keepFile s =
     (case map_of (rs_uploads s) i of
        None \<Rightarrow> s
      | Some u \<Rightarrow>
          let s1 = delete_handle (up_file u) (flush_file env (up_partPath u) (s\<lparr>rs_uploads := AList.delete i (rs_uploads s)\<rparr>))
          in if \<not> keepFile then set_file (up_partPath u) None s1 else s1)"

text \<open>One round of the loop over the open uploads.\<close>

definition stop_upload :: "recv_env \<Rightarrow> nat \<Rightarrow> ReceiveService \<Rightarrow> ReceiveService" where
  "stop_upload env i s =
     (let row = (case map_of (rs_uploads s) i of Some u \<Rightarrow> up_row u | None \<Rightarrow> -1)
      in answer env i 500 (set_status env row FileFailed (e_tr env ''Transfer stopped'' []) (closeUpload env i False s)))"

definition skip_row :: "recv_env \<Rightarrow> nat \<Rightarrow> ReceiveService \<Rightarrow> ReceiveService" where
  "skip_row env row s =
     (let st = fe_status (row_entry s (int row))
      in if st = FileWaiting \<or> st = FileTransferring then set_status env (int row) FileSkipped [] s else s)"

definition done_files :: "ReceiveService \<Rightarrow> FileEntry list" where
  "done_files s = filter (\<lambda>f. fe_status f = FileDone) (m_files (rs_transfer s))"

definition history_record :: "recv_env \<Rightarrow> ReceiveService \<Rightarrow> HistoryRecord" where
  "history_record env s = \<lparr>hr_id = rs_sessionId s, hr_direction = qs ''receive'',
     hr_peerAlias = dev_alias (rs_peer s), hr_peerDeviceType = deviceType (rs_peer s), hr_timestamp = e_wall env,
     hr_fileNames = map fileName (done_files s),
     hr_totalBytes = fold (\<lambda>f acc. wrap64 (acc + fe_size f)) (done_files s) 0,
     hr_status = stateName (rs_transfer s), hr_destination = rs_sessionDirectory s\<rparr>"

datatype finish_status = Sfinished | Sfailed | Scancelled

definition final_state :: "recv_env \<Rightarrow> finish_status \<Rightarrow> ReceiveService \<Rightarrow> ReceiveService" where
  "final_state env status s =
     (let finished = completedCount (rs_transfer s); all = file_count s
      in on_transfer
           (if status = Scancelled then setState (e_now env) Cancelled []
            else if finished = all then setState (e_now env) Finished []
            else if finished > 0
              then setState (e_now env) Failed (e_tr env ''%1 of %2 files were received'' [finished, all])
            else setState (e_now env) Failed (e_tr env ''Nothing was received'' [])) s)"

definition record_session :: "recv_env \<Rightarrow> ReceiveService \<Rightarrow> ReceiveService" where
  "record_session env s =
     (let finished = completedCount (rs_transfer s);
          s1 = (if finished > 0 then s\<lparr>rs_known := map_option (remember (e_lib env) (e_wall env) (fingerprint (rs_peer s))
                                          (dev_alias (rs_peer s))) (rs_known s)\<rparr> else s)
      in if historyEnabled (rs_settings s1) \<and> finished > 0
         then s1\<lparr>rs_history := append_record (history_record env s1) (rs_history s1)\<rparr> else s1)"

definition finishSession :: "recv_env \<Rightarrow> finish_status \<Rightarrow> ReceiveService \<Rightarrow> ReceiveService" where
  "finishSession env status s =
     (let hadSession = (rs_sessionId s \<noteq> [])
      in if \<not> hadSession \<and> pending_conn s = None then s
         else
           let s1 = s\<lparr>rs_idleTimer := None, rs_acceptTimer := None\<rparr>;
               s2 = fold (stop_upload env) (map fst (rs_uploads s1)) s1;
               s3 = (case pending_conn s2 of None \<Rightarrow> s2 | Some (p, c) \<Rightarrow> releasePending (answer env p 403 s2))
           in if \<not> hadSession then on_transfer (setState (e_now env) Cancelled []) s3
              else
                let s4 = fold (skip_row env) [0..<file_count s3] s3;
                    s5 = record_session env (final_state env status s4);
                    destination = rs_sessionDirectory s5;
                    s6 = s5\<lparr>rs_sessionId := [], rs_sessionAddress := [], rs_sessionDirectory := [], rs_tokens := []\<rparr>
                in rs_emit (TransferFinished (stateName (rs_transfer s6)) (completedCount (rs_transfer s4)) destination) s6)"

definition all_settled :: "ReceiveService \<Rightarrow> bool" where
  "all_settled s \<longleftrightarrow> completedCount (rs_transfer s) + failedCount (rs_transfer s) \<ge> file_count s"

section \<open>Uploads\<close>

definition start_upload :: "recv_env \<Rightarrow> nat \<Rightarrow> int \<Rightarrow> ReceiveService \<Rightarrow> ReceiveService" where
  "start_upload env i row s =
     (let finalPath = reserveFilePath env (rs_files s) (rs_sessionDirectory s) (fileName (row_entry s row))
      in if finalPath = [] then
           answer env i 500 (set_status env row FileFailed (e_tr env ''No free name for this file'' []) s)
         else
           let partPath = finalPath @ PartSuffix
           in case open_file env partPath s of
                (None, s1) \<Rightarrow> answer env i 500 (set_status env row FileFailed (e_tr env ''Cannot write the file'' []) s1)
              | (Some k, s1) \<Rightarrow>
                  let u = \<lparr>up_row = row, up_file = k, up_partPath = partPath, up_finalPath = finalPath\<rparr>;
                      s2 = s1\<lparr>rs_uploads := AList.update i u (rs_uploads s1)\<rparr>;
                      s3 = start_idle env (set_status env row FileTransferring [] s2)
                  in on_conn i (streamBodyTo (e_now env) k (fe_size (row_entry s3 row))) s3)"

definition handleUploadHeaders :: "recv_env \<Rightarrow> nat \<Rightarrow> HttpConnection \<Rightarrow> ReceiveService \<Rightarrow> ReceiveService" where
  "handleUploadHeaders env i c s =
     (let sessionId = query c ''sessionId''; fileId = query c ''fileId''; tok = query c ''token''
      in if sessionId = [] \<or> fileId = [] \<or> tok = [] then answer env i 400 s
         else if rs_sessionId s = [] \<or> sessionId \<noteq> rs_sessionId s then answer env i 409 s
         else if \<not> equals_q (e_lib env) (case map_of (rs_tokens s) fileId of Some t \<Rightarrow> t | None \<Rightarrow> []) tok
               \<or> h_peerAddress c \<noteq> rs_sessionAddress s
         then answer env i 403 s
         else
           let row = indexOfFile fileId (rs_transfer s)
           in if row < 0 then answer env i 400 s
              else if fe_status (row_entry s row) = FileDone then answer env i 200 s
              else start_upload env i row s)"

text \<open>The three ways a complete body can end, and the session with its last file.\<close>

definition store_upload :: "recv_env \<Rightarrow> nat \<Rightarrow> Upload \<Rightarrow> bool \<Rightarrow> bool \<Rightarrow> ReceiveService \<Rightarrow> ReceiveService" where
  "store_upload env i u whole digestMatches s =
     (if \<not> whole then
        answer env i 500 (set_status env (up_row u) FileFailed (e_tr env ''Transfer was cut short'' [])
          (set_file (up_partPath u) None s))
      else if \<not> digestMatches then
        answer env i 422 (set_status env (up_row u) FileFailed (e_tr env ''The file arrived damaged'' [])
          (set_file (up_partPath u) None s))
      else
        let (renamed, s1) = rename_file env (up_partPath u) (up_finalPath u) s;
            path = (if renamed then up_finalPath u else up_partPath u)
        in answer env i 200 (set_status env (up_row u) FileDone []
             (on_transfer (setFileLocalPath (up_row u) path) s1)))"

definition end_if_settled :: "recv_env \<Rightarrow> (ReceiveService \<Rightarrow> finish_status) \<Rightarrow> ReceiveService \<Rightarrow> ReceiveService" where
  "end_if_settled env status s = (if all_settled s then finishSession env (status s) s else s)"

definition handleUploadFinished :: "recv_env \<Rightarrow> nat \<Rightarrow> HttpConnection \<Rightarrow> ReceiveService \<Rightarrow> ReceiveService" where
  "handleUploadFinished env i c s =
     (case map_of (rs_uploads s) i of
        None \<Rightarrow> if \<not> hasResponded c then answer env i 400 s else s
      | Some u \<Rightarrow>
          let s1 = flush_file env (up_partPath u) (s\<lparr>rs_uploads := AList.delete i (rs_uploads s)\<rparr>);
              whole = (int (length (file_content s1 (up_partPath u))) \<ge> fe_size (row_entry s1 (up_row u)));
              declared = sha256 (row_entry s1 (up_row u));
              digestMatches = (if whole \<and> looksLikeSha256 declared
                               then equalsFold (e_lib env) (digest_of env (up_file u) s1) declared else True);
              s2 = store_upload env i u whole digestMatches (delete_handle (up_file u) s1)
          in end_if_settled env (\<lambda>s. if failedCount (rs_transfer s) > 0 then Sfailed else Sfinished) (start_idle env s2))"

definition onUploadClosed :: "recv_env \<Rightarrow> nat \<Rightarrow> ReceiveService \<Rightarrow> ReceiveService" where
  "onUploadClosed env i s =
     (case map_of (rs_uploads s) i of
        None \<Rightarrow> s
      | Some u \<Rightarrow>
          let s1 = set_file (up_partPath u) None (delete_handle (up_file u)
                     (flush_file env (up_partPath u) (s\<lparr>rs_uploads := AList.delete i (rs_uploads s)\<rparr>)));
              s2 = set_status env (up_row u) FileFailed (e_tr env ''The sender disconnected'' []) s1
          in end_if_settled env (\<lambda>_. Sfailed) s2)"

definition upload_progress :: "recv_env \<Rightarrow> nat \<Rightarrow> int \<Rightarrow> ReceiveService \<Rightarrow> ReceiveService" where
  "upload_progress env i received s =
     (case map_of (rs_uploads s) i of
        None \<Rightarrow> s
      | Some u \<Rightarrow> start_idle env (on_transfer (setFileTransferred (up_row u) received) s))"

section \<open>Cancelling\<close>

definition handleCancel :: "recv_env \<Rightarrow> nat \<Rightarrow> HttpConnection \<Rightarrow> ReceiveService \<Rightarrow> ReceiveService" where
  "handleCancel env i c s =
     (let sessionId = query c ''sessionId''; s1 = answer env i 200 s
      in if pending_conn s1 \<noteq> None \<and> rs_sessionId s1 = [] then
           on_transfer (setState (e_now env) Cancelled []) ((releasePending s1)\<lparr>rs_acceptTimer := None\<rparr>)
         else if rs_sessionId s1 \<noteq> [] \<and> (sessionId = [] \<or> sessionId = rs_sessionId s1)
         then finishSession env Scancelled s1 else s1)"

definition notifyPeerCancelled :: "ReceiveService \<Rightarrow> ReceiveService" where
  "notifyPeerCancelled s =
     (if address (rs_peer s) = [] \<or> rs_sessionId s = [] then s
      else s\<lparr>rs_sent := rs_sent s @ [(apiBase (rs_peer s) @ PathCancel, rs_sessionId s)]\<rparr>)"

definition cancel :: "recv_env \<Rightarrow> ReceiveService \<Rightarrow> ReceiveService" where
  "cancel env s =
     (if pending_conn s \<noteq> None \<and> rs_sessionId s = [] then decline env s
      else if rs_sessionId s = [] then s
      else finishSession env Scancelled (notifyPeerCancelled s))"

definition onSessionIdle :: "recv_env \<Rightarrow> ReceiveService \<Rightarrow> ReceiveService" where
  "onSessionIdle env s = (if rs_sessionId s = [] then s else finishSession env Sfailed s)"

section \<open>Listening\<close>

definition on_server :: "(HttpServer \<Rightarrow> HttpServer) \<Rightarrow> ReceiveService \<Rightarrow> ReceiveService" where
  "on_server f s = s\<lparr>rs_server := f (rs_server s)\<rparr>"

definition startListening :: "recv_env \<Rightarrow> ReceiveService \<Rightarrow> bool \<times> ReceiveService" where
  "startListening env s =
     (if server_isListening (rs_server s) then (True, s)
      else
        let st = rs_settings s; own = as_identity st;
            s1 = (if isEncrypted st then on_server (setIdentity (c_certificate own) (c_key own)) s
                  else on_server (setIdentity [] []) s);
            (ok, sv) = server_start (e_listen env) (settings_port st mod 2 ^ 16) (rs_server s1);
            s2 = s1\<lparr>rs_server := sv\<rparr>
        in if \<not> ok then (False, rs_emit ListeningChanged (s2\<lparr>rs_listenError := sv_lastError sv\<rparr>))
           else (True, rs_emit ListeningChanged (s2\<lparr>rs_listenError := []\<rparr>)))"

definition stopListening :: "recv_env \<Rightarrow> ReceiveService \<Rightarrow> ReceiveService" where
  "stopListening env s =
     (if \<not> server_isListening (rs_server s) then s
      else rs_emit ListeningChanged (on_server server_stop (finishSession env Scancelled s)))"

definition onSettingsChanged :: "recv_env \<Rightarrow> ReceiveService \<Rightarrow> ReceiveService" where
  "onSettingsChanged env s =
     (if \<not> server_isListening (rs_server s) then s else snd (startListening env (stopListening env s)))"

section \<open>Routing\<close>

definition onHeadersReady :: "recv_env \<Rightarrow> nat \<Rightarrow> HttpConnection \<Rightarrow> ReceiveService \<Rightarrow> ReceiveService" where
  "onHeadersReady env i c s =
     (if h_path c = endpoint PathUpload then handleUploadHeaders env i c s else s)"

definition onRequestReady :: "recv_env \<Rightarrow> nat \<Rightarrow> HttpConnection \<Rightarrow> ReceiveService \<Rightarrow> ReceiveService" where
  "onRequestReady env i c s =
     (let path = h_path c
      in if path = endpoint PathInfo \<or> path = PathLegacyInfo then handleInfo env i s
         else if path = endpoint PathRegister then handleRegister env i c s
         else if path = endpoint PathPrepareUpload then handlePrepareUpload env i c s
         else if path = endpoint PathUpload then handleUploadFinished env i c s
         else if path = endpoint PathCancel then handleCancel env i c s
         else answer env i 404 s)"

definition onClosed :: "recv_env \<Rightarrow> nat \<Rightarrow> ReceiveService \<Rightarrow> ReceiveService" where
  "onClosed env i s = onUploadClosed env i (onPendingClosed env i s)"

text \<open>
  The slots of connection \<open>i\<close>. While it works on an event the connection is the machine's; a
  handler finds it in the table, and what it did to it goes back to the machine.
\<close>

definition through :: "nat \<Rightarrow> (HttpConnection \<Rightarrow> ReceiveService \<Rightarrow> ReceiveService) \<Rightarrow>
    HttpConnection \<Rightarrow> ReceiveService \<Rightarrow> HttpConnection \<times> ReceiveService" where
  "through i handler c s =
     (let s1 = handler c (s\<lparr>rs_conns := (rs_conns s)(i \<mapsto> c)\<rparr>)
      in (case rs_conns s1 i of Some c' \<Rightarrow> c' | None \<Rightarrow> c, s1))"

definition rs_slots :: "recv_env \<Rightarrow> nat \<Rightarrow> ReceiveService slots" where
  "rs_slots env i = \<lparr>on_headersReady = through i (onHeadersReady env i),
     on_requestReady = through i (onRequestReady env i),
     on_bodyProgress = (\<lambda>received _. upload_progress env i received),
     on_closed = through i (\<lambda>_. onClosed env i),
     sink_write = writeData env\<rparr>"

section \<open>The service as one machine\<close>

text \<open>
  An event happens at \<open>e_now\<close> of its environment. \<open>Net\<close> is a socket arriving or finishing its
  handshake, with the peer's address and certificate; an error of a socket that a connection owns
  ends with the \<open>disconnected\<close> of that connection, which is the event \<open>Disconnected\<close> of it.
  \<open>FileAppears\<close> is another program creating a file. The timers are single-shot: an expiry before the deadline does nothing.
\<close>

datatype rs_event =
    Net server_event qstring bytes
  | Conn nat conn_event
  | Accept | Decline | Cancel | AcceptTimeout | SessionIdle
  | StartListening | StopListening | PortChanged
  | SetKnown "KnownDevices option"
  | Settings "AppSettings \<Rightarrow> AppSettings"
  | FileAppears qstring bytes

fun net_event :: "HttpServer \<Rightarrow> server_event \<Rightarrow> bool" where
  "net_event sv (Incoming _ _) = True"
| "net_event sv (Encrypted _) = True"
| "net_event sv (SocketError i) = (map_of (sv_sockets sv) i \<noteq> Some Adopted)"
| "net_event sv (HandshakeTimeout _ _) = True"
| "net_event sv _ = False"

definition net_step :: "recv_env \<Rightarrow> server_event \<Rightarrow> qstring \<Rightarrow> bytes \<Rightarrow> ReceiveService \<Rightarrow> ReceiveService" where
  "net_step env e addr cert s =
     (if \<not> net_event (rs_server s) e then s
      else
        let (sv, adopted) = server_step e (rs_server s); s1 = s\<lparr>rs_server := sv\<rparr>
        in case adopted of None \<Rightarrow> s1
           | Some i \<Rightarrow> s1\<lparr>rs_conns := (rs_conns s1)(i \<mapsto> new_HttpConnection (e_now env) addr cert)\<rparr>)"

definition conn_event_step :: "recv_env \<Rightarrow> nat \<Rightarrow> conn_event \<Rightarrow> ReceiveService \<Rightarrow> ReceiveService" where
  "conn_event_step env i e s =
     (case rs_conns s i of None \<Rightarrow> s
      | Some c \<Rightarrow>
          let (c', s1) = conn_step (e_lib env) (e_net env) (rs_slots env i) e (c, s)
          in if h_closedEmitted c'
             then s1\<lparr>rs_conns := (rs_conns s1)(i := None), rs_server := fst (server_step (ConnectionGone i) (rs_server s1))\<rparr>
             else s1\<lparr>rs_conns := (rs_conns s1)(i \<mapsto> c')\<rparr>)"

definition expired :: "recv_env \<Rightarrow> int option \<Rightarrow> bool" where
  "expired env t = (case t of None \<Rightarrow> False | Some deadline \<Rightarrow> deadline \<le> e_now env)"

fun rs_step :: "recv_env \<Rightarrow> rs_event \<Rightarrow> ReceiveService \<Rightarrow> ReceiveService" where
  "rs_step env (Net e addr cert) s = net_step env e addr cert s"
| "rs_step env (Conn i e) s = conn_event_step env i e s"
| "rs_step env Accept s = accept env s"
| "rs_step env Decline s = decline env s"
| "rs_step env Cancel s = cancel env s"
| "rs_step env AcceptTimeout s =
     (if expired env (rs_acceptTimer s) then onAcceptTimeout env (s\<lparr>rs_acceptTimer := None\<rparr>) else s)"
| "rs_step env SessionIdle s =
     (if expired env (rs_idleTimer s) then onSessionIdle env (s\<lparr>rs_idleTimer := None\<rparr>) else s)"
| "rs_step env StartListening s = snd (startListening env s)"
| "rs_step env StopListening s = stopListening env s"
| "rs_step env PortChanged s = onSettingsChanged env s"
| "rs_step env (SetKnown k) s = s\<lparr>rs_known := k\<rparr>"
| "rs_step env (Settings f) s = s\<lparr>rs_settings := f (rs_settings s)\<rparr>"
| "rs_step env (FileAppears p b) s = (if path_exists env (rs_files s) p then s else set_file p (Some b) s)"

definition rs_run :: "(recv_env \<times> rs_event) list \<Rightarrow> ReceiveService \<Rightarrow> ReceiveService" where
  "rs_run evs s = fold (\<lambda>(env, e). rs_step env e) evs s"

end
