(* ===== verification/Receive_Frame.thy ===== *)
theory Receive_Frame
  imports Receive_Service
begin

text \<open>
  What the handlers of \<open>Receive_Service\<close> leave alone. A calm change answers connections, moves
  the progress of rows on, releases the parked request or stops a timer: it touches neither the
  disk nor the table of uploads, opens and ends no session, and makes no row done.
\<close>

section \<open>Answering\<close>

inductive quiet :: "HttpConnection \<Rightarrow> HttpConnection \<Rightarrow> bool" where
  quiet_none: "quiet c c"
| quiet_respond: "quiet c c' \<Longrightarrow> quiet c (respond now status payload ctype c')"
| quiet_header: "quiet c c' \<Longrightarrow> quiet c (addHeader name v c')"

lemma quiet_trans: "quiet b c \<Longrightarrow> quiet a b \<Longrightarrow> quiet a c"
  by (induction rule: quiet.induct) (auto intro: quiet.intros)

lemma quiet_via_api: "quiet c c' \<Longrightarrow> via_api c c'"
  by (induction rule: quiet.induct) (auto intro: via_api.intros)

lemma addHeader_simps [simp]:
  "h_state (addHeader n v c) = h_state c" "h_sink (addHeader n v c) = h_sink c"
  "h_maxBodyBytes (addHeader n v c) = h_maxBodyBytes c" "h_bodyReceived (addHeader n v c) = h_bodyReceived c"
  "h_bodyComplete (addHeader n v c) = h_bodyComplete c" "h_closedEmitted (addHeader n v c) = h_closedEmitted c"
  by (simp_all add: addHeader_def Let_def)

lemma quiet_fields:
  "quiet c c' \<Longrightarrow> h_sink c' = h_sink c \<and> h_maxBodyBytes c' = h_maxBodyBytes c \<and> h_bodyReceived c' = h_bodyReceived c
     \<and> h_bodyComplete c' = h_bodyComplete c \<and> h_closedEmitted c' = h_closedEmitted c
     \<and> (h_state c' = h_state c \<or> h_state c' = Responded)"
  by (induction rule: quiet.induct) auto

lemma quiet_answered_once: "quiet c c' \<Longrightarrow> answered_once c \<Longrightarrow> answered_once c'"
  by (rule answered_once_api [OF quiet_via_api])

section \<open>Calm changes\<close>

text \<open>A row keeps what was agreed about it and where it was put, and does not become done.\<close>

definition row_calm :: "FileEntry \<Rightarrow> FileEntry \<Rightarrow> bool" where
  "row_calm f f' \<longleftrightarrow> fe_id f' = fe_id f \<and> fe_size f' = fe_size f \<and> sha256 f' = sha256 f \<and> fileName f' = fileName f
     \<and> localPath f' = localPath f \<and> (fe_status f' = FileDone \<longrightarrow> fe_status f = FileDone)"

definition rows :: "ReceiveService \<Rightarrow> FileEntry list" where
  "rows s = m_files (rs_transfer s)"

definition disk :: "ReceiveService \<Rightarrow> (nat, Upload) qhash \<times> (qstring \<rightharpoonup> bytes) \<times> (nat \<rightharpoonup> HashingFile) \<times> nat \<times> bool \<times> HttpServer" where
  "disk s = (rs_uploads s, rs_files s, rs_handles s, rs_nextHandle s, rs_fault s, rs_server s)"

definition calm :: "ReceiveService \<Rightarrow> ReceiveService \<Rightarrow> bool" where
  "calm s s' \<longleftrightarrow> disk s' = disk s \<and> rs_sessionId s' = rs_sessionId s
     \<and> (rs_pending s' = rs_pending s \<or> rs_pending s' = None)
     \<and> list_all2 row_calm (rows s) (rows s') \<and> (\<forall>j. rel_option quiet (rs_conns s j) (rs_conns s' j))"

lemma row_calm_refl [simp]: "row_calm f f"
  by (simp add: row_calm_def)

lemma rows_calm_refl [simp]: "list_all2 row_calm fs fs"
  by (rule list_all2_refl) simp

lemma quiet_refl_option [simp]: "rel_option quiet x x"
  by (cases x) (auto intro: quiet_none)

lemma calm_refl [simp]: "calm s s"
  by (simp add: calm_def)

lemma row_calm_trans: "row_calm f g \<Longrightarrow> row_calm g h \<Longrightarrow> row_calm f h"
  by (auto simp: row_calm_def)

lemma calm_trans:
  assumes "calm a b" "calm b c"
  shows "calm a c"
proof -
  have "list_all2 row_calm (rows a) (rows c)"
    using assms list_all2_trans [of row_calm row_calm row_calm "rows a" "rows b" "rows c"]
    by (auto simp: calm_def intro: row_calm_trans)
  moreover have "rel_option quiet (rs_conns a j) (rs_conns c j)" for j
  proof -
    from assms have "rel_option quiet (rs_conns a j) (rs_conns b j)" "rel_option quiet (rs_conns b j) (rs_conns c j)"
      by (simp_all add: calm_def)
    then show ?thesis by (cases "rs_conns a j"; cases "rs_conns b j"; cases "rs_conns c j") (auto intro: quiet_trans)
  qed
  ultimately show ?thesis using assms by (auto simp: calm_def)
qed

named_theorems calms "changes that are calm"

lemma calm_after: "calm s s' \<Longrightarrow> calm s' s'' \<Longrightarrow> calm s s''"
  by (rule calm_trans)

lemma calm_on_conn:
  assumes "\<And>c. quiet c (f c)"
  shows "calm s (on_conn i f s)"
  using assms by (auto simp: calm_def on_conn_def disk_def rows_def split: option.split)

lemma calm_answer [calms]: "calm s (answer env i status s)"
  unfolding answer_def respond_status_def by (intro calm_on_conn quiet_respond quiet_none)

lemma calm_answer_json [calms]: "calm s (answer_json env i status ob s)"
  unfolding answer_json_def respondJson_def by (intro calm_on_conn quiet_respond quiet_none)

lemma calm_addHeader [calms]: "calm s (on_conn i (addHeader n v) s)"
  by (intro calm_on_conn quiet_header quiet_none)

lemma calm_on_transfer:
  assumes "list_all2 row_calm (rows s) (m_files (f (rs_transfer s)))"
  shows "calm s (on_transfer f s)"
  using assms by (simp add: calm_def on_transfer_def disk_def rows_def)

lemma m_files_simps [simp]:
  "m_files (setState now st err tm) = m_files tm" "m_files (setDestination path tm) = m_files tm"
  by (simp_all add: setState_def setDestination_def Let_def)

lemma calm_update_row:
  assumes "row_ok row tm" "row_calm (m_files tm ! nat row) f"
  shows "list_all2 row_calm (m_files tm) ((m_files tm)[nat row := f])"
  using assms row_okD [OF assms(1)] by (auto simp: list_all2_conv_all_nth nth_list_update)

lemma calm_setState [calms]: "calm s (on_transfer (setState now st err) s)"
  by (rule calm_on_transfer) (simp add: rows_def)

lemma calm_setDestination [calms]: "calm s (on_transfer (setDestination path) s)"
  by (rule calm_on_transfer) (simp add: rows_def)

lemma calm_setFileToken [calms]: "calm s (on_transfer (setFileToken row t) s)"
  by (rule calm_on_transfer) (auto simp: rows_def setFileToken_def row_calm_def intro!: calm_update_row)

lemma calm_setFileTransferred [calms]: "calm s (on_transfer (setFileTransferred row n) s)"
  by (rule calm_on_transfer)
    (auto simp: rows_def setFileTransferred_def row_calm_def Let_def intro!: calm_update_row)

lemma calm_setFileStatus: "st \<noteq> FileDone \<Longrightarrow> calm s (on_transfer (setFileStatus now row st err) s)"
proof (rule calm_on_transfer)
  assume "st \<noteq> FileDone"
  then show "list_all2 row_calm (rows s) (m_files (setFileStatus now row st err (rs_transfer s)))"
    by (cases "row_ok row (rs_transfer s)")
      (auto simp: rows_def setFileStatus_row setFileStatus_bad_row row_calm_def intro!: calm_update_row)
qed

lemma calm_set_status [calms]: "st \<noteq> FileDone \<Longrightarrow> calm s (set_status env row st err s)"
  unfolding set_status_def by (rule calm_setFileStatus)

lemma calm_updates [calms]:
  "calm s (s\<lparr>rs_acceptTimer := a\<rparr>)" "calm s (s\<lparr>rs_idleTimer := b\<rparr>)" "calm s (s\<lparr>rs_rng := r\<rparr>)"
  "calm s (s\<lparr>rs_tokens := t\<rparr>)" "calm s (s\<lparr>rs_pinAttempts := l\<rparr>)" "calm s (s\<lparr>rs_known := k\<rparr>)"
  "calm s (s\<lparr>rs_history := h\<rparr>)" "calm s (s\<lparr>rs_settings := st\<rparr>)" "calm s (s\<lparr>rs_peer := p\<rparr>)"
  "calm s (s\<lparr>rs_sent := x\<rparr>)" "calm s (rs_emit sig s)" "calm s (registerPeer ob addr s)"
  "calm s (releasePending s)" "calm s (start_idle env s)" "calm s (s\<lparr>rs_listenError := e\<rparr>)"
  by (simp_all add: calm_def disk_def rows_def rs_emit_def registerPeer_def releasePending_def start_idle_def)

lemma calm_fold: "(\<And>x t. calm t (f x t)) \<Longrightarrow> calm s (fold f xs s)"
  by (induction xs arbitrary: s) (auto intro: calm_trans)

lemma calm_if: "(b \<Longrightarrow> calm s t) \<Longrightarrow> (\<not> b \<Longrightarrow> calm s u) \<Longrightarrow> calm s (if b then t else u)"
  by simp

text \<open>One lemma per handler: the whole change is calm.\<close>

lemma calm_skip_row [calms]: "calm s (skip_row env row s)"
  by (auto simp: skip_row_def Let_def intro: calms)

lemma calm_final_state [calms]: "calm s (final_state env status s)"
  by (auto simp: final_state_def Let_def intro: calms)

lemma calm_record_session [calms]: "calm s (record_session env s)"
  by (auto simp: record_session_def Let_def intro: calms calm_trans)

lemma calm_upload_progress [calms]: "calm s (upload_progress env i n s)"
  by (auto simp: upload_progress_def intro: calms calm_trans split: option.split)

text \<open>
  The parts of the end of a session: every upload is stopped, the parked request is released, the
  rows are settled and the session recorded, the session is forgotten.
\<close>

definition stopped :: "recv_env \<Rightarrow> ReceiveService \<Rightarrow> ReceiveService" where
  "stopped env s = fold (stop_upload env) (map fst (rs_uploads s)) (s\<lparr>rs_idleTimer := None, rs_acceptTimer := None\<rparr>)"

definition released :: "recv_env \<Rightarrow> ReceiveService \<Rightarrow> ReceiveService" where
  "released env s = (case pending_conn s of None \<Rightarrow> s | Some (p, c) \<Rightarrow> releasePending (answer env p 403 s))"

definition settled :: "recv_env \<Rightarrow> finish_status \<Rightarrow> ReceiveService \<Rightarrow> ReceiveService" where
  "settled env status s = record_session env (final_state env status (fold (skip_row env) [0..<file_count s] s))"

definition forgotten :: "recv_signal \<Rightarrow> ReceiveService \<Rightarrow> ReceiveService" where
  "forgotten x s = rs_emit x (s\<lparr>rs_sessionId := [], rs_sessionAddress := [], rs_sessionDirectory := [], rs_tokens := []\<rparr>)"

lemma finishSession_parts:
  obtains x where "finishSession env status s =
    (if rs_sessionId s = [] \<and> pending_conn s = None then s
     else if rs_sessionId s = [] then on_transfer (setState (e_now env) Cancelled []) (released env (stopped env s))
     else forgotten x (settled env status (released env (stopped env s))))"
proof -
  have keys: "map fst (rs_uploads (s\<lparr>rs_idleTimer := None, rs_acceptTimer := None\<rparr>)) = map fst (rs_uploads s)" by simp
  show thesis
    by (rule that) (unfold finishSession_def Let_def stopped_def released_def settled_def forgotten_def keys not_not, rule refl)
qed

lemma calm_released [calms]: "calm s (released env s)"
  unfolding released_def by (auto intro: calm_after [OF calm_answer calm_updates(13)] split: option.split)

lemma calm_settled [calms]: "calm s (settled env status s)"
  unfolding settled_def
  by (rule calm_after [OF calm_after [OF calm_fold calm_final_state] calm_record_session]) (rule calm_skip_row)

lemma calm_forgotten: "calm (s\<lparr>rs_sessionId := []\<rparr>) (forgotten x s)"
  by (simp add: calm_def disk_def rows_def rs_emit_def forgotten_def)

lemma calm_handleInfo [calms]: "calm s (handleInfo env i s)"
  unfolding handleInfo_def by (rule calms)

lemma calm_handleRegister [calms]: "calm s (handleRegister env i c s)"
  unfolding handleRegister_def Let_def by (rule calm_after, rule calms, rule calms)

lemma calm_decline [calms]: "calm s (decline env s)"
  unfolding decline_def
  by (auto intro!: calms split: option.split intro: calm_after [OF calm_after [OF calm_after [OF calm_answer calm_updates(13)] calm_updates(1)]])

lemma calm_onAcceptTimeout [calms]: "calm s (onAcceptTimeout env s)"
  unfolding onAcceptTimeout_def
  by (auto intro: calm_after [OF calm_after [OF calm_answer calm_updates(13)] calm_setState] split: option.split)

lemma calm_notifyPeerCancelled [calms]: "calm s (notifyPeerCancelled s)"
  by (auto simp: notifyPeerCancelled_def intro: calms)

lemma calm_onPendingClosed [calms]: "calm s (onPendingClosed env i s)"
proof -
  have "calm s (s\<lparr>rs_pending := None, rs_acceptTimer := None\<rparr>)" by (simp add: calm_def disk_def rows_def)
  then show ?thesis by (auto simp: onPendingClosed_def Let_def intro: calm_after calms)
qed

lemma calm_issue_tokens: "calm s (fst (fold issue_token xs (s, ob)))"
proof (induction xs arbitrary: s ob)
  case (Cons x xs)
  have one: "calm s (fst (issue_token x (s, ob)))"
  proof -
    obtain t r where g: "generateToken (rs_rng s) = (t, r)" by fastforce
    have "calm s (on_transfer (setFileToken (int x) t) (s\<lparr>rs_rng := r\<rparr>))" by (rule calm_after; rule calms)
    then show ?thesis using g by (auto simp: issue_token_def Let_def intro: calm_after calms)
  qed
  obtain s1 ob1 where s1: "issue_token x (s, ob) = (s1, ob1)" by fastforce
  show ?case using calm_after [OF one] Cons.IH [of s1 ob1] s1 by simp
qed simp

text \<open>A prepare-upload is refused, or it opens a request when there is none and no session.\<close>

lemma handlePrepareUpload_cases:
  "calm s (handlePrepareUpload env i c s) \<or>
     (pending_conn s = None \<and> rs_sessionId s = [] \<and> (\<exists>info files peer l.
        handlePrepareUpload env i c s = open_request env i info files peer (s\<lparr>rs_pinAttempts := l\<rparr>)))"
proof -
  define R where "R t \<longleftrightarrow> calm s t \<or> pending_conn s = None \<and> rs_sessionId s = [] \<and> (\<exists>info files peer l.
      t = open_request env i info files peer (s\<lparr>rs_pinAttempts := l\<rparr>))" for t
  have refused: "R (answer env i status (s\<lparr>rs_pinAttempts := l\<rparr>))" "R (answer env i status s)"
    "R (answer env i status (on_conn i (addHeader n v) s))" for status l n v
    using calm_after [OF calm_updates(5) calm_answer] calm_answer calm_after [OF calm_addHeader calm_answer]
    by (simp_all add: R_def)
  have opened: "pending_conn s = None \<Longrightarrow> rs_sessionId s = []
      \<Longrightarrow> R (open_request env i info files peer (s\<lparr>rs_pinAttempts := l\<rparr>))" for info files peer l
    unfolding R_def by blast
  have "R (handlePrepareUpload env i c s)"
    unfolding handlePrepareUpload_def Let_def by (simp add: refused opened del: not_None_eq)
  then show ?thesis by (simp add: R_def)
qed

end
