(* ===== verification/Receive_Slots.thy ===== *)
theory Receive_Slots
  imports Receive_Frame
begin

text \<open>
  The service as the owner of the slots: whatever a handler does, every connection is changed
  through its public functions only. That is the contract \<open>http_slots\<close> of \<open>Http_Invariant\<close>.
\<close>

definition api_rel :: "ReceiveService \<Rightarrow> ReceiveService \<Rightarrow> bool" where
  "api_rel s s' \<longleftrightarrow> (\<forall>j. rel_option via_api (rs_conns s j) (rs_conns s' j))"

named_theorems apis "changes that go through the public functions of the connections"

lemma api_refl [simp]: "api_rel s s"
  by (auto simp: api_rel_def intro: option.rel_refl api_none)

lemma api_trans: "api_rel a b \<Longrightarrow> api_rel b c \<Longrightarrow> api_rel a c"
proof -
  assume ab: "api_rel a b" and bc: "api_rel b c"
  have "rel_option via_api (rs_conns a j) (rs_conns c j)" for j
  proof -
    have "rel_option via_api (rs_conns a j) (rs_conns b j)" "rel_option via_api (rs_conns b j) (rs_conns c j)"
      using ab bc by (simp_all add: api_rel_def)
    then show ?thesis
      by (cases "rs_conns a j"; cases "rs_conns b j"; cases "rs_conns c j") (auto intro: via_api_trans)
  qed
  then show "api_rel a c" by (simp add: api_rel_def)
qed

lemma calm_api: "calm s s' \<Longrightarrow> api_rel s s'"
  unfolding calm_def api_rel_def by (metis option.rel_mono_strong quiet_via_api)

lemma same_conns_api: "rs_conns s' = rs_conns s \<Longrightarrow> api_rel s s'"
  by (auto simp: api_rel_def intro: option.rel_refl api_none)

lemma conns_simple [simp]:
  "rs_conns (set_file p v s) = rs_conns s" "rs_conns (on_transfer f s) = rs_conns s"
  "rs_conns (start_idle env s) = rs_conns s" "rs_conns (delete_handle k s) = rs_conns s"
  "rs_conns (rs_emit x s) = rs_conns s" "rs_conns (releasePending s) = rs_conns s"
  "rs_conns (registerPeer ob addr s) = rs_conns s"
  by (simp_all add: set_file_def on_transfer_def start_idle_def delete_handle_def rs_emit_def
      releasePending_def registerPeer_def)

lemma conns_flush [simp]: "rs_conns (flush_file env p s) = rs_conns s"
  by (simp add: flush_file_def split: option.split)

lemma conns_updates [simp]:
  "rs_conns (set_status env row st err s) = rs_conns s" "rs_conns (closeUpload env i keep s) = rs_conns s"
  "rs_conns (snd (prepareDirectory env s)) = rs_conns s" "rs_conns (snd (rename_file env a b s)) = rs_conns s"
  "rs_conns (snd (open_file env a s)) = rs_conns s" "rs_conns (final_state env status s) = rs_conns s"
  "rs_conns (record_session env s) = rs_conns s" "rs_conns (upload_progress env i n s) = rs_conns s"
  "rs_conns (snd (writeData env k data s)) = rs_conns s"
  by (simp_all add: set_status_def closeUpload_def prepareDirectory_def rename_file_def open_file_def
      final_state_def record_session_def upload_progress_def writeData_def Let_def split: option.split)

lemma api_fold: "(\<And>x t. api_rel t (f x t)) \<Longrightarrow> api_rel s (fold f xs s)"
  by (induction xs arbitrary: s) (auto intro: api_trans)

lemma api_then_calm: "api_rel s t \<Longrightarrow> calm t u \<Longrightarrow> api_rel s u"
  using api_trans calm_api by blast

lemma api_answer [apis]: "rs_conns t = rs_conns s \<Longrightarrow> api_rel s (answer env i status t)"
  by (rule api_then_calm [OF same_conns_api calm_answer])

lemma api_stop_upload [apis]: "api_rel s (stop_upload env i s)"
  unfolding stop_upload_def Let_def by (rule api_answer) simp

lemma api_finishSession [apis]: "api_rel s (finishSession env status s)"
proof -
  have "api_rel s (stopped env s)"
    unfolding stopped_def by (rule api_trans [OF same_conns_api api_fold]) (simp_all add: api_stop_upload)
  then have r: "api_rel s (released env (stopped env s))" by (rule api_then_calm) (rule calms)
  then have "api_rel s (forgotten x (settled env status (released env (stopped env s))))" for x
    by (rule api_trans [OF api_then_calm [OF _ calm_settled] same_conns_api]) (simp add: forgotten_def)
  moreover obtain x where "finishSession env status s =
    (if rs_sessionId s = [] \<and> pending_conn s = None then s
     else if rs_sessionId s = [] then on_transfer (setState (e_now env) Cancelled []) (released env (stopped env s))
     else forgotten x (settled env status (released env (stopped env s))))" by (rule finishSession_parts)
  ultimately show ?thesis using api_then_calm [OF r calm_setState] by simp
qed

lemma api_accept [apis]: "api_rel s (accept env s)"
proof (cases "pending_conn s")
  case (Some pc)
  obtain p c where pc: "pc = (p, c)" by fastforce
  obtain directory s0 where d: "prepareDirectory env s = (directory, s0)" by fastforce
  obtain sid r where g: "generateToken (rs_rng s0) = (sid, r)" by fastforce
  let ?s1 = "s0\<lparr>rs_rng := r, rs_sessionId := sid, rs_sessionAddress := h_peerAddress c,
                           rs_sessionDirectory := directory, rs_tokens := []\<rparr>"
  obtain s2 ob where f: "fold issue_token [0..<file_count ?s1] (?s1, []) = (s2, ob)" by fastforce
  have conns0: "rs_conns s0 = rs_conns s" using d by (metis conns_updates(3) snd_conv)
  have "calm ?s1 s2" using calm_issue_tokens [of ?s1 _ "[]"] f by (metis fst_conv)
  then have s2: "api_rel s s2" using conns0 by (intro api_then_calm [OF same_conns_api]) auto
  have good: "api_rel s (rs_emit TransferStarted ((on_transfer h (on_transfer k
      ((releasePending (answer_json env p 200 ob' s2))\<lparr>rs_acceptTimer := None\<rparr>)))\<lparr>rs_idleTimer := t\<rparr>))" for h k t ob'
    by (rule api_trans [OF api_then_calm [OF s2 calm_answer_json] same_conns_api]) simp
  have bad: "api_rel s (on_transfer h ((releasePending (answer env p 500 s0))\<lparr>rs_acceptTimer := None\<rparr>))" for h
    by (rule api_trans [OF api_answer [OF conns0] same_conns_api]) simp
  show ?thesis using Some pc d g f good bad by (simp add: accept_def Let_def)
qed (simp add: accept_def)

lemma api_open_request [apis]: "api_rel s (open_request env i info files peer s)"
proof -
  have "api_rel s (accept env t)" if "rs_conns t = rs_conns s" for t
    by (rule api_trans [OF same_conns_api [OF that] api_accept])
  then show ?thesis by (auto simp: open_request_def Let_def intro!: same_conns_api)
qed

lemma api_handlePrepareUpload [apis]: "api_rel s (handlePrepareUpload env i c s)"
proof -
  have "api_rel s (open_request env i info files peer (s\<lparr>rs_pinAttempts := l\<rparr>))" for info files peer l
    by (rule api_trans [OF same_conns_api api_open_request]) simp
  with handlePrepareUpload_cases [of s env i c] show ?thesis by (auto intro: calm_api)
qed

lemma api_on_stream: "api_rel s (on_conn i (streamBodyTo now k m) s)"
  by (auto simp: api_rel_def on_conn_def intro: api_stream api_none option.rel_refl split: option.split)

lemma api_start_upload [apis]: "api_rel s (start_upload env i row s)"
proof (cases "reserveFilePath env (rs_files s) (rs_sessionDirectory s) (fileName (row_entry s row)) = []")
  case True
  then show ?thesis by (auto simp: start_upload_def intro: api_answer)
next
  case False
  define final where "final = reserveFilePath env (rs_files s) (rs_sessionDirectory s) (fileName (row_entry s row))"
  obtain k s1 where o: "open_file env (final @ PartSuffix) s = (k, s1)" by fastforce
  have s1: "rs_conns s1 = rs_conns s" using o by (metis conns_updates(5) snd_conv)
  have stream: "api_rel s (on_conn i (streamBodyTo now n m) t)" if "rs_conns t = rs_conns s" for t now n m
    by (rule api_trans [OF same_conns_api [OF that] api_on_stream])
  show ?thesis
    using False o by (cases k) (simp_all add: start_upload_def Let_def s1 stream api_answer flip: final_def)
qed

lemma api_handleUploadHeaders [apis]: "api_rel s (handleUploadHeaders env i c s)"
  by (auto simp: handleUploadHeaders_def Let_def intro: apis)

lemma api_store_upload [apis]: "rs_conns t = rs_conns s \<Longrightarrow> api_rel s (store_upload env i u w d t)"
proof -
  assume t: "rs_conns t = rs_conns s"
  have "rs_conns s1 = rs_conns s" if "rename_file env a b t = (r, s1)" for a b r s1
    using that t by (metis conns_updates(4) snd_conv)
  with t show ?thesis by (auto simp: store_upload_def intro!: api_answer split: prod.split)
qed

lemma api_end_if_settled: "api_rel s t \<Longrightarrow> api_rel s (end_if_settled env st t)"
  by (auto simp: end_if_settled_def intro: api_trans apis)

lemma api_handleUploadFinished [apis]: "api_rel s (handleUploadFinished env i c s)"
proof (cases "map_of (rs_uploads s) i")
  case None
  then show ?thesis by (auto simp: handleUploadFinished_def intro: apis)
next
  case (Some u)
  have "api_rel s (end_if_settled env st (start_idle env (store_upload env i u w d t)))" if "rs_conns t = rs_conns s" for st w d t
    by (intro api_end_if_settled api_then_calm [OF api_store_upload calm_updates(14)] that)
  with Some show ?thesis by (simp add: handleUploadFinished_def Let_def)
qed

lemma api_onClosed [apis]: "api_rel s (onClosed env i s)"
proof -
  have "api_rel t (onUploadClosed env i t)" for t
  proof (cases "map_of (rs_uploads t) i")
    case (Some u)
    have "api_rel t (end_if_settled env st v)" if "rs_conns v = rs_conns t" for st v
      by (intro api_end_if_settled same_conns_api that)
    with Some show ?thesis by (simp add: onUploadClosed_def Let_def)
  qed (simp add: onUploadClosed_def)
  then show ?thesis unfolding onClosed_def by (rule api_trans [OF calm_api [OF calm_onPendingClosed]])
qed

lemma api_handleCancel [apis]: "api_rel s (handleCancel env i c s)"
proof -
  have after: "api_rel s t" if "api_rel (answer env i 200 s) t" for t
    by (rule api_trans [OF api_answer that]) simp
  have "api_rel s (on_transfer f ((releasePending (answer env i 200 s))\<lparr>rs_acceptTimer := None\<rparr>))" for f
    by (rule after, rule same_conns_api) simp
  moreover have "api_rel s (finishSession env st (answer env i 200 s))" for st by (rule after, rule apis)
  ultimately show ?thesis using after [of "answer env i 200 s"] by (simp add: handleCancel_def Let_def)
qed

lemma api_onRequestReady [apis]: "api_rel s (onRequestReady env i c s)"
  by (auto simp: onRequestReady_def Let_def intro: apis calm_api calms)

lemma api_onHeadersReady [apis]: "api_rel s (onHeadersReady env i c s)"
  by (auto simp: onHeadersReady_def intro: apis)

lemma through_api:
  assumes "\<And>s. api_rel s (handler c s)"
  shows "via_api c (fst (through i handler c s))"
    and "rs_conns (snd (through i handler c s)) i = Some (fst (through i handler c s))"
proof -
  let ?s = "s\<lparr>rs_conns := (rs_conns s)(i \<mapsto> c)\<rparr>"
  have "rel_option via_api (rs_conns ?s i) (rs_conns (handler c ?s) i)" using assms [of ?s] unfolding api_rel_def by blast
  then obtain c' where "rs_conns (handler c ?s) i = Some c'" "via_api c c'" by (auto simp: option_rel_Some1)
  then show "via_api c (fst (through i handler c s))"
    and "rs_conns (snd (through i handler c s)) i = Some (fst (through i handler c s))"
    by (simp_all add: through_def Let_def)
qed

interpretation receive: http_slots "rs_slots env i" for env i
  by unfold_locales (auto simp: rs_slots_def intro!: through_api apis)

end
