(* ===== verification/Receive_Contract.thy ===== *)
theory Receive_Contract
  imports Receive_Slots
begin

text \<open>
  The contract of an invariant of the receiving service. The locale \<open>service_inv\<close> asks a
  predicate to survive the few changes the service is made of (a calm change, an upload that
  starts, receives, is dropped or is stored, a request that opens, a session that opens or closes,
  a connection that moves on, comes or goes); then every event preserves it.
\<close>

text \<open>Calm changes one after the other, read from the last.\<close>

lemmas calm_onto = calms [THEN [2] calm_trans]

lemma pending_conn_cong:
  "rs_pending t = rs_pending s \<Longrightarrow> rs_conns t = rs_conns s \<Longrightarrow> pending_conn t = pending_conn s"
  by (simp add: pending_conn_def split: option.split)

section \<open>The changes a handler is made of\<close>

definition put :: "nat \<Rightarrow> HttpConnection \<Rightarrow> ReceiveService \<Rightarrow> ReceiveService" where
  "put i c s = s\<lparr>rs_conns := (rs_conns s)(i \<mapsto> c)\<rparr>"

definition reading :: "HttpConnection \<Rightarrow> bool" where
  "reading c \<longleftrightarrow> h_state c = ReadingBody \<and> \<not> h_bodyComplete c"

text \<open>An upload leaves the table, its file is closed, and \<open>v\<close> is left of what was written.\<close>

definition drop_upload :: "nat \<Rightarrow> Upload \<Rightarrow> bytes option \<Rightarrow> ReceiveService \<Rightarrow> ReceiveService" where
  "drop_upload i u v s = s\<lparr>rs_uploads := AList.delete i (rs_uploads s),
     rs_handles := (rs_handles s)(up_file u := None), rs_files := (rs_files s)(up_partPath u := v)\<rparr>"

definition start_entry :: "nat \<Rightarrow> int \<Rightarrow> qstring \<Rightarrow> ReceiveService \<Rightarrow> ReceiveService" where
  "start_entry i row final s = s\<lparr>rs_files := (rs_files s)(final @ PartSuffix \<mapsto> []),
     rs_handles := (rs_handles s)(rs_nextHandle s \<mapsto> \<lparr>hf_path = final @ PartSuffix, hf_hashed = []\<rparr>),
     rs_nextHandle := Suc (rs_nextHandle s),
     rs_uploads := AList.update i \<lparr>up_row = row, up_file = rs_nextHandle s,
       up_partPath = final @ PartSuffix, up_finalPath = final\<rparr> (rs_uploads s)\<rparr>"

text \<open>What is on the disk when an upload's file has been closed, and what its digest was.\<close>

definition left_of :: "recv_env \<Rightarrow> Upload \<Rightarrow> ReceiveService \<Rightarrow> bytes" where
  "left_of env u s = take (length (file_content s (up_partPath u)) - e_lost env) (file_content s (up_partPath u))"

definition accepted :: "recv_env \<Rightarrow> Upload \<Rightarrow> ReceiveService \<Rightarrow> bool" where
  "accepted env u s \<longleftrightarrow> int (length (left_of env u s)) \<ge> fe_size (row_entry s (up_row u))
     \<and> (looksLikeSha256 (sha256 (row_entry s (up_row u)))
        \<longrightarrow> equalsFold (e_lib env) (digest_of env (up_file u) s) (sha256 (row_entry s (up_row u))))"

definition keep_upload :: "recv_env \<Rightarrow> nat \<Rightarrow> Upload \<Rightarrow> ReceiveService \<Rightarrow> ReceiveService" where
  "keep_upload env i u s =
     (let (renamed, s1) = rename_file env (up_partPath u) (up_finalPath u) (drop_upload i u (Some (left_of env u s)) s)
      in set_status env (up_row u) FileDone []
           (on_transfer (setFileLocalPath (up_row u) (if renamed then up_finalPath u else up_partPath u)) s1))"

text \<open>How a connection moves between two signals.\<close>

definition moves :: "HttpConnection \<Rightarrow> HttpConnection \<Rightarrow> bool" where
  "moves c c' \<longleftrightarrow> h_sink c' = h_sink c \<and> h_maxBodyBytes c' = h_maxBodyBytes c \<and> h_bodyReceived c' = h_bodyReceived c
     \<and> answers c' = answers c \<and> (h_state c' = h_state c \<or> h_state c' = Responded \<or> h_state c = ReadingHeaders)
     \<and> (h_bodyComplete c \<longrightarrow> h_bodyComplete c') \<and> (h_state c' = ReadingHeaders \<longrightarrow> h_bodyComplete c' = h_bodyComplete c)"

lemma put_simps [simp]:
  "rs_conns (put i c s) = (rs_conns s)(i \<mapsto> c)" "rs_uploads (put i c s) = rs_uploads s"
  "rs_files (put i c s) = rs_files s" "rs_handles (put i c s) = rs_handles s"
  "rs_nextHandle (put i c s) = rs_nextHandle s" "rs_fault (put i c s) = rs_fault s"
  "rs_sessionId (put i c s) = rs_sessionId s" "rs_pending (put i c s) = rs_pending s"
  "rs_transfer (put i c s) = rs_transfer s" "rs_server (put i c s) = rs_server s"
  "rs_sessionDirectory (put i c s) = rs_sessionDirectory s" "put i c (put i d s) = put i c s"
  by (simp_all add: put_def)

lemma put_same: "rs_conns s i = Some c \<Longrightarrow> put i c s = s"
  by (simp add: put_def map_upd_triv)

section \<open>The handlers in these terms\<close>

lemma closeUpload_drop:
  "map_of (rs_uploads s) i = Some u \<Longrightarrow> closeUpload env i False s = drop_upload i u None s"
  by (simp add: closeUpload_def drop_upload_def delete_handle_def flush_file_def set_file_def split: option.split)

lemma stop_upload_drop:
  assumes "map_of (rs_uploads s) i = Some u"
  shows "stop_upload env i s = drop_upload i u None
    (answer env i 500 (set_status env (up_row u) FileFailed (e_tr env ''Transfer stopped'' []) s))"
  using assms
  by (simp add: stop_upload_def closeUpload_drop Let_def)
    (simp add: drop_upload_def answer_def on_conn_def set_status_def on_transfer_def split: option.split)

lemma stop_upload_absent:
  assumes "map_of (rs_uploads s) i = None"
  shows "calm s (stop_upload env i s)"
  using assms calm_after [OF calm_set_status calm_answer] by (simp add: stop_upload_def closeUpload_def)

lemma uploads_of_calm: "calm s s' \<Longrightarrow> rs_uploads s' = rs_uploads s"
  by (simp add: calm_def disk_def)

lemma stop_upload_uploads [simp]: "rs_uploads (stop_upload env i s) = AList.delete i (rs_uploads s)"
proof (cases "map_of (rs_uploads s) i")
  case None
  then have "AList.delete i (rs_uploads s) = rs_uploads s" by (intro AList.delete_id) (simp add: map_of_eq_None_iff)
  then show ?thesis using uploads_of_calm [OF stop_upload_absent [OF None]] by simp
next
  case (Some u)
  have "calm s (answer env i 500 (set_status env (up_row u) FileFailed (e_tr env ''Transfer stopped'' []) s))"
    by (rule calm_after [OF calm_set_status calm_answer]) simp
  from uploads_of_calm [OF this] Some show ?thesis by (simp add: stop_upload_drop drop_upload_def)
qed

lemma stop_all_uploads: "rs_uploads (fold (stop_upload env) ks s) = fold AList.delete ks (rs_uploads s)"
  by (induction ks arbitrary: s) simp_all

lemma delete_all_keys: "fst ` set t \<subseteq> set ks \<Longrightarrow> fold AList.delete ks t = []"
proof (induction ks arbitrary: t)
  case (Cons k ks)
  have "fst ` set (AList.delete k t) \<subseteq> set ks" using Cons.prems by (auto simp: AList.delete_eq)
  then show ?case using Cons.IH by simp
qed simp

lemma all_uploads_stopped [simp]: "rs_uploads (fold (stop_upload env) (map fst (rs_uploads s)) s) = []"
  unfolding stop_all_uploads by (rule delete_all_keys) auto

lemma stop_upload_pending [simp]: "rs_pending (stop_upload env i s) = rs_pending s"
  by (simp add: stop_upload_def closeUpload_def answer_def on_conn_def set_status_def on_transfer_def set_file_def
      delete_handle_def flush_file_def Let_def split: option.split)

lemma stop_all_pending [simp]: "rs_pending (fold (stop_upload env) ks s) = rs_pending s"
  by (induction ks arbitrary: s) simp_all

text \<open>The end of a session: nothing, or every upload is stopped and the rest is calm but for the session.\<close>

lemma finishSession_cases:
  "finishSession env status s = s \<or>
    (\<exists>t. calm (fold (stop_upload env) (map fst (rs_uploads s)) (s\<lparr>rs_idleTimer := None, rs_acceptTimer := None\<rparr>)) t
      \<and> (finishSession env status s = t \<and> rs_sessionId s = [] \<or> calm (t\<lparr>rs_sessionId := []\<rparr>) (finishSession env status s)))"
proof -
  obtain x where "finishSession env status s =
    (if rs_sessionId s = [] \<and> pending_conn s = None then s
     else if rs_sessionId s = [] then on_transfer (setState (e_now env) Cancelled []) (released env (stopped env s))
     else forgotten x (settled env status (released env (stopped env s))))" by (rule finishSession_parts)
  moreover have "calm (stopped env s) (on_transfer (setState (e_now env) Cancelled []) (released env (stopped env s)))"
    "calm (stopped env s) (settled env status (released env (stopped env s)))"
    by (rule calm_after [OF calm_released calm_setState], rule calm_after [OF calm_released calm_settled])
  ultimately show ?thesis using calm_forgotten unfolding stopped_def [symmetric] by auto
qed

lemma reserve_free:
  assumes "reserveFilePath env fs d n = p" "p \<noteq> []"
  shows "name_free env fs p"
proof -
  have found: "P x" if "List.find P xs = Some x" for P and xs :: "qstring list" and x
    using that by (auto simp: find_Some_iff)
  show ?thesis using assms by (auto simp: reserveFilePath_def Let_def split: if_splits option.splits dest: found)
qed

lemma part_path_free: "name_free env fs p \<Longrightarrow> fs p = None \<and> fs (p @ PartSuffix) = None"
  by (auto simp: name_free_def path_exists_def)

text \<open>A start of an upload: nothing but an answer, or an entry and a file under a free name.\<close>

lemma start_upload_cases:
  assumes c: "rs_conns s i = Some c"
  shows "calm s (start_upload env i row s) \<or>
    (\<exists>final t. rs_files s final = None \<and> rs_files s (final @ PartSuffix) = None
       \<and> calm (put i (streamBodyTo (e_now env) (rs_nextHandle s) (fe_size (row_entry s row)) c) (start_entry i row final s)) t
       \<and> t = start_upload env i row s)"
proof -
  define final where "final = reserveFilePath env (rs_files s) (rs_sessionDirectory s) (fileName (row_entry s row))"
  let ?part = "final @ PartSuffix" and ?k = "rs_nextHandle s"
  have failed: "calm s (answer env i 500 (set_status env row FileFailed msg s))" for msg
    by (rule calm_after [OF calm_set_status calm_answer]) simp
  show ?thesis
  proof (cases "final = [] \<or> \<not> (e_mayOpen env ?part \<and> \<not> e_isDir env ?part)")
    case True
    then have "\<exists>msg. start_upload env i row s = answer env i 500 (set_status env row FileFailed msg s)"
      by (auto simp: start_upload_def open_file_def Let_def simp flip: final_def)
    then show ?thesis using failed by auto
  next
    case False
    have free: "rs_files s final = None \<and> rs_files s ?part = None"
      using reserve_free [OF final_def [symmetric]] False by (intro part_path_free) auto
    let ?e = "start_entry i row final s"
    have open1: "open_file env ?part s = (Some ?k, (set_file ?part (Some []) s)
        \<lparr>rs_handles := (rs_handles s)(?k \<mapsto> \<lparr>hf_path = ?part, hf_hashed = []\<rparr>), rs_nextHandle := Suc ?k\<rparr>)"
      using False by (simp add: open_file_def Let_def)
    let ?s3 = "start_idle env (set_status env row FileTransferring [] ?e)"
    have size: "fe_size (row_entry ?s3 row) = fe_size (row_entry s row)"
      by (cases "row_ok row (rs_transfer s)")
        (auto dest: row_okD simp: row_entry_def start_idle_def set_status_def on_transfer_def start_entry_def setFileStatus_row setFileStatus_bad_row)
    have "start_upload env i row s = on_conn i (streamBodyTo (e_now env) ?k (fe_size (row_entry ?s3 row))) ?s3"
      using False open1
      by (simp add: start_upload_def Let_def flip: final_def) (simp add: start_entry_def set_file_def)
    also have "\<dots> = start_idle env (set_status env row FileTransferring []
        (put i (streamBodyTo (e_now env) ?k (fe_size (row_entry s row)) c) ?e))"
      unfolding size
      using c by (simp add: on_conn_def put_def start_idle_def set_status_def on_transfer_def start_entry_def)
    finally have "start_upload env i row s = start_idle env (set_status env row FileTransferring []
        (put i (streamBodyTo (e_now env) ?k (fe_size (row_entry s row)) c) ?e))" .
    moreover have "calm t (start_idle env (set_status env row FileTransferring [] t))" for t
      by (rule calm_after [OF calm_set_status calm_updates(14)]) simp
    ultimately show ?thesis using free by auto
  qed
qed

text \<open>The end of an upload: it is dropped or kept, then answered.\<close>

lemma closed_upload:
  assumes "rs_files s (up_partPath u) \<noteq> None"
  shows "delete_handle (up_file u) (flush_file env (up_partPath u) (s\<lparr>rs_uploads := AList.delete i (rs_uploads s)\<rparr>))
    = drop_upload i u (Some (left_of env u s)) s"
  using assms
  by (auto simp: drop_upload_def delete_handle_def flush_file_def set_file_def left_of_def file_content_def)

lemma prepareDirectory_cases:
  "snd (prepareDirectory env s) = s \<or> (\<exists>dir. snd (prepareDirectory env s) = set_file (dir @ probe_name) None s)"
  by (auto simp: prepareDirectory_def Let_def simp del: append_assoc)

section \<open>The contract\<close>

definition fresh_row :: "FileEntry \<Rightarrow> bool" where
  "fresh_row f \<longleftrightarrow> fe_status f = FileWaiting \<and> 0 \<le> fe_size f"

definition begin_request :: "int \<Rightarrow> nat \<Rightarrow> DeviceInfo \<Rightarrow> FileEntry list \<Rightarrow> ReceiveService \<Rightarrow> ReceiveService" where
  "begin_request now i peer entries s =
     (on_transfer (begin_transfer now Receiving (dev_alias peer) (address peer) (deviceType peer) (fingerprint peer) entries) s)
       \<lparr>rs_pending := Some i\<rparr>"

definition without :: "nat \<Rightarrow> ReceiveService \<Rightarrow> ReceiveService" where
  "without i s = s\<lparr>rs_conns := (rs_conns s)(i := None),
     rs_server := fst (server_step (ConnectionGone i) (rs_server s))\<rparr>"

locale service_inv =
  fixes lib :: qtlib and P :: "ReceiveService \<Rightarrow> bool"
  assumes calm_keeps: "P s \<Longrightarrow> calm s s' \<Longrightarrow> P s'"
    and drops: "P s \<Longrightarrow> map_of (rs_uploads s) i = Some u \<Longrightarrow> (\<And>c. rs_conns s i = Some c \<Longrightarrow> \<not> reading c)
      \<Longrightarrow> P (drop_upload i u None s)"
    and keeps: "P s \<Longrightarrow> map_of (rs_uploads s) i = Some u \<Longrightarrow> (\<And>c. rs_conns s i = Some c \<Longrightarrow> \<not> reading c)
      \<Longrightarrow> e_lib env = lib \<Longrightarrow> accepted env u s \<Longrightarrow> P (keep_upload env i u s)"
    and on_disk: "P s \<Longrightarrow> map_of (rs_uploads s) i = Some u \<Longrightarrow> rs_files s (up_partPath u) \<noteq> None"
    and starts: "P (put i c s) \<Longrightarrow> h_state c = ReadingHeaders \<Longrightarrow> \<not> h_bodyComplete c \<Longrightarrow> rs_sessionId s \<noteq> []
      \<Longrightarrow> row_ok row (rs_transfer s) \<Longrightarrow> rs_files s final = None \<Longrightarrow> rs_files s (final @ PartSuffix) = None
      \<Longrightarrow> P (put i (streamBodyTo now (rs_nextHandle s) (fe_size (row_entry s row)) (c\<lparr>h_state := ReadingBody\<rparr>))
            (start_entry i row final s))"
    and writes: "P (put i c s) \<Longrightarrow> reading c \<Longrightarrow> h_sink c = Some k \<Longrightarrow> data \<noteq> []
      \<Longrightarrow> \<not> (h_maxBodyBytes c \<ge> 0 \<and> h_bodyReceived c + int (length data) > h_maxBodyBytes c)
      \<Longrightarrow> writeData env k data s = (n, s')
      \<Longrightarrow> P (put i (if n = int (length data) then c\<lparr>h_bodyReceived := h_bodyReceived c + n\<rparr> else fail_with now 500 c) s')"
    and buffers: "P (put i c s) \<Longrightarrow> reading c \<Longrightarrow> h_sink c = None \<Longrightarrow> P (put i (c\<lparr>h_bodyReceived := x\<rparr>) s)"
    and moved: "P (put i c s) \<Longrightarrow> moves c c' \<Longrightarrow> P (put i c' s)"
    and begins: "P s \<Longrightarrow> pending_conn s = None \<Longrightarrow> rs_sessionId s = [] \<Longrightarrow> rs_conns s i = Some c
      \<Longrightarrow> list_all fresh_row entries \<Longrightarrow> P (begin_request now i peer entries s)"
    and probes: "P s \<Longrightarrow> pending_conn s \<noteq> None \<Longrightarrow> P (set_file (dir @ probe_name) None s)"
    and opens: "P s \<Longrightarrow> pending_conn s \<noteq> None \<Longrightarrow> calm (s\<lparr>rs_sessionId := sid\<rparr>) s' \<Longrightarrow> rs_pending s' = None \<Longrightarrow> P s'"
    and ends: "P s \<Longrightarrow> rs_uploads s = [] \<Longrightarrow> P (s\<lparr>rs_sessionId := []\<rparr>)"
    and arrives: "P s \<Longrightarrow> net_event (rs_server s) e \<Longrightarrow> P (net_step env e addr cert s)"
    and leaves: "P s \<Longrightarrow> map_of (rs_uploads s) i = None \<Longrightarrow> rs_pending s \<noteq> Some i \<Longrightarrow> P (without i s)"
    and appears: "P s \<Longrightarrow> rs_files s p = None \<Longrightarrow> P (set_file p (Some b) s)"
    and servers: "P s \<Longrightarrow> sv_sockets sv = sv_sockets (rs_server s) \<Longrightarrow> sv_next sv = sv_next (rs_server s)
      \<Longrightarrow> sv_liveConnections sv = sv_liveConnections (rs_server s) \<Longrightarrow> P (s\<lparr>rs_server := sv\<rparr>)"
begin

lemma stop_keeps: "P s \<Longrightarrow> P (stop_upload env i s)"
proof (cases "map_of (rs_uploads s) i")
  case None
  assume "P s"
  then show ?thesis by (rule calm_keeps [OF _ stop_upload_absent [OF None]])
next
  case (Some u)
  assume P: "P s"
  let ?t = "answer env i 500 (set_status env (up_row u) FileFailed (e_tr env ''Transfer stopped'' []) s)"
  have t: "calm s ?t" by (rule calm_after [OF calm_set_status calm_answer]) simp
  have "\<not> reading c" if "rs_conns ?t i = Some c" for c
    using that by (auto simp: answer_def on_conn_def reading_def respond_status_def split: option.splits)
  then show ?thesis
    unfolding stop_upload_drop [OF Some] by (intro drops calm_keeps [OF P t]) (simp_all add: uploads_of_calm [OF t] Some)
qed

lemma stop_all_keeps: "P s \<Longrightarrow> P (fold (stop_upload env) ks s)"
  by (induction ks arbitrary: s) (simp_all add: stop_keeps)

lemma finishSession_keeps:
  assumes "P s"
  shows "P (finishSession env status s)"
proof -
  let ?s1 = "s\<lparr>rs_idleTimer := None, rs_acceptTimer := None\<rparr>"
  let ?s2 = "fold (stop_upload env) (map fst (rs_uploads s)) ?s1"
  have "calm s ?s1" by (intro calm_onto calm_refl)
  then have P2: "P ?s2" by (intro stop_all_keeps calm_keeps [OF assms])
  from finishSession_cases [of env status s] show ?thesis
  proof (elim disjE exE conjE)
    fix t assume t: "calm ?s2 t" "calm (t\<lparr>rs_sessionId := []\<rparr>) (finishSession env status s)"
    have "rs_uploads t = []" using uploads_of_calm [OF t(1)] all_uploads_stopped [of env ?s1] by simp
    then have "P (t\<lparr>rs_sessionId := []\<rparr>)" by (intro ends calm_keeps [OF P2 t(1)])
    then show ?thesis by (rule calm_keeps [OF _ t(2)])
  qed (use assms P2 calm_keeps in auto)
qed

lemma end_if_settled_keeps: "P s \<Longrightarrow> P (end_if_settled env st s)"
  by (simp add: end_if_settled_def finishSession_keeps)

lemma prepareDirectory_keeps: "P s \<Longrightarrow> pending_conn s \<noteq> None \<Longrightarrow> P (snd (prepareDirectory env s))"
  using prepareDirectory_cases [of env s] probes [of s] by auto

lemma accept_keeps:
  assumes "P s"
  shows "P (accept env s)"
proof (cases "pending_conn s")
  case None
  with assms show ?thesis by (simp add: accept_def)
next
  case (Some pc)
  obtain p c where pc: "pc = (p, c)" by fastforce
  obtain directory s0 where d: "prepareDirectory env s = (directory, s0)" by fastforce
  have P0: "P s0" using prepareDirectory_keeps [OF assms, of env] Some d by simp
  have pending: "pending_conn s0 \<noteq> None"
    using prepareDirectory_cases [of env s] Some d by (auto simp: pending_conn_def set_file_def split: option.splits)
  obtain sid r where g: "generateToken (rs_rng s0) = (sid, r)" by fastforce
  let ?s1 = "s0\<lparr>rs_rng := r, rs_sessionId := sid, rs_sessionAddress := h_peerAddress c,
                           rs_sessionDirectory := directory, rs_tokens := []\<rparr>"
  obtain s2 ob where f: "fold issue_token [0..<file_count ?s1] (?s1, []) = (s2, ob)" by fastforce
  have "calm (s0\<lparr>rs_sessionId := sid\<rparr>) ?s1" by (simp add: calm_def disk_def rows_def)
  moreover have "calm ?s1 s2" using calm_issue_tokens [of ?s1 "[0..<file_count ?s1]" "[]"] unfolding f by simp
  ultimately have s2: "calm (s0\<lparr>rs_sessionId := sid\<rparr>) s2" by (rule calm_trans)
  have "P (rs_emit TransferStarted ((on_transfer (setState (e_now env) Active [])
      (on_transfer (setDestination dir) ((releasePending (answer_json env p 200 ob' s2))\<lparr>rs_acceptTimer := None\<rparr>)))\<lparr>rs_idleTimer := t\<rparr>))"
    for dir ob' t
  proof (rule opens [OF P0 pending])
    show "calm (s0\<lparr>rs_sessionId := sid\<rparr>) (rs_emit TransferStarted ((on_transfer (setState (e_now env) Active [])
      (on_transfer (setDestination dir) ((releasePending (answer_json env p 200 ob' s2))\<lparr>rs_acceptTimer := None\<rparr>)))\<lparr>rs_idleTimer := t\<rparr>))"
      by (intro calm_onto s2)
  qed (simp add: rs_emit_def on_transfer_def releasePending_def)
  moreover have "P (on_transfer (setState (e_now env) Failed msg)
      ((releasePending (answer env p 500 s0))\<lparr>rs_acceptTimer := None\<rparr>))" for msg
    by (rule calm_keeps [OF P0]) (intro calm_onto calm_refl)
  ultimately show ?thesis using Some pc d g f by (simp add: accept_def Let_def)
qed

lemma open_request_keeps:
  assumes "P s" "pending_conn s = None" "rs_sessionId s = []" "rs_conns s i = Some c"
  shows "P (open_request env i info files peer s)"
proof -
  let ?s0 = "(registerPeer info (address peer) s)\<lparr>rs_peer := peer\<rparr>"
  let ?entries = "map (make_entry (e_lib env) files) (map fst files)"
  let ?b = "begin_request (e_now env) i peer ?entries ?s0"
  have "calm s ?s0" by (rule calm_after [OF calm_updates(12) calm_updates(9)])
  then have "P ?s0" by (rule calm_keeps [OF assms(1)])
  moreover have "list_all fresh_row ?entries"
    by (auto simp: list_all_iff fresh_row_def make_entry_def new_FileEntry_def Let_def)
  ultimately have "P ?b"
    using assms(2-4) pending_conn_cong [of ?s0 s] by (intro begins) (simp_all add: registerPeer_def)
  then have b: "P (on_transfer (setState (e_now env) Pending []) ?b)" by (rule calm_keeps) (rule calm_setState)
  let ?t = "(on_transfer (setState (e_now env) Pending []) (on_transfer (begin_transfer (e_now env) Receiving (dev_alias peer)
      (address peer) (deviceType peer) (fingerprint peer) ?entries) ?s0))\<lparr>rs_pending := Some i\<rparr>"
  have eq: "on_transfer (setState (e_now env) Pending []) ?b = ?t"
    by (simp add: begin_request_def on_transfer_def)
  have "P (rs_emit sig (?t\<lparr>rs_acceptTimer := x\<rparr>))" for sig x
    by (rule calm_keeps [OF b [unfolded eq]]) (rule calm_after [OF calm_updates(1) calm_updates(11)])
  then show ?thesis
    using accept_keeps [OF b [unfolded eq]] by (simp add: open_request_def Let_def)
qed

lemma handlePrepareUpload_keeps:
  assumes "P s" "rs_conns s i = Some c"
  shows "P (handlePrepareUpload env i c s)"
proof -
  have "P (open_request env i info files peer (s\<lparr>rs_pinAttempts := l\<rparr>))"
    if "pending_conn s = None" "rs_sessionId s = []" for info files peer l
    using that assms(2)
    using pending_conn_cong [of "s\<lparr>rs_pinAttempts := l\<rparr>" s]
    by (intro open_request_keeps calm_keeps [OF assms(1) calm_updates(5)]) simp_all
  with handlePrepareUpload_cases [of s env i c] show ?thesis by (auto intro: calm_keeps [OF assms(1)])
qed

lemma handleUploadHeaders_keeps:
  assumes P: "P (put i c s)" "h_state c = ReadingHeaders" "\<not> h_bodyComplete c" and c1: "c1 = c\<lparr>h_state := ReadingBody\<rparr>"
  shows "P (handleUploadHeaders env i c1 (put i c1 s))"
proof -
  let ?s = "put i c1 s"
  have Ps: "P ?s" by (rule moved [OF P(1)]) (simp add: moves_def c1 P answers_def)
  have start: "P (start_upload env i row ?s)" if "rs_sessionId s \<noteq> []" "row_ok row (rs_transfer s)" for row
  proof -
    have conn: "rs_conns ?s i = Some c1" by simp
    have "put i x (start_entry i row final ?s) = put i x (start_entry i row final s)" for x final
      by (simp add: put_def start_entry_def)
    with starts [OF P that, of _ "e_now env"] start_upload_cases [OF conn, of env row] show ?thesis
      by (auto intro: calm_keeps [OF Ps] calm_keeps simp: c1 row_entry_def)
  qed
  have row: "row_ok (indexOfFile x (rs_transfer s)) (rs_transfer s)" if "\<not> indexOfFile x (rs_transfer s) < 0" for x
    using that by (auto simp: indexOfFile_def row_ok_def split: option.splits dest: index_where_SomeD)
  have "P (answer env i status ?s)" for status by (rule calm_keeps [OF Ps calm_answer])
  then show ?thesis using start row by (simp add: handleUploadHeaders_def Let_def)
qed

lemma handleUploadFinished_keeps:
  assumes P: "P s" and env: "e_lib env = lib" and c: "rs_conns s i = Some c" "\<not> reading c"
  shows "P (handleUploadFinished env i c s)"
proof (cases "map_of (rs_uploads s) i")
  case None
  with P show ?thesis by (auto simp: handleUploadFinished_def intro: calm_keeps calm_answer)
next
  case (Some u)
  let ?d = "drop_upload i u (Some (left_of env u s)) s"
  have still: "\<And>c. rs_conns s i = Some c \<Longrightarrow> \<not> reading c" using c by simp
  note closed = closed_upload [OF on_disk [OF P Some]]
  define s1 where "s1 = flush_file env (up_partPath u) (s\<lparr>rs_uploads := AList.delete i (rs_uploads s)\<rparr>)"
  define w where "w \<longleftrightarrow> int (length (file_content s1 (up_partPath u))) \<ge> fe_size (row_entry s1 (up_row u))"
  define d where "d \<longleftrightarrow> (if w \<and> looksLikeSha256 (sha256 (row_entry s1 (up_row u)))
      then equalsFold (e_lib env) (digest_of env (up_file u) s1) (sha256 (row_entry s1 (up_row u))) else True)"
  have res: "handleUploadFinished env i c s = end_if_settled env (\<lambda>s. if failedCount (rs_transfer s) > 0 then Sfailed else Sfinished)
      (start_idle env (store_upload env i u w d ?d))"
    using Some by (simp add: handleUploadFinished_def Let_def closed flip: s1_def closed) (simp add: w_def d_def)
  have s1: "file_content s1 (up_partPath u) = left_of env u s" "row_entry s1 = row_entry s" "digest_of env k s1 = digest_of env k s" for k
    using on_disk [OF P Some]
    by (auto simp: s1_def flush_file_def set_file_def left_of_def file_content_def row_entry_def digest_of_def split: option.splits)
  have gone: "P (drop_upload i u None s)" by (rule drops [OF P Some still])
  have removed: "set_file (up_partPath u) None ?d = drop_upload i u None s" by (simp add: set_file_def drop_upload_def)
  have "P (store_upload env i u w d ?d)"
  proof (cases "w \<and> d")
    case True
    then have acc: "accepted env u s" by (auto simp: accepted_def w_def d_def s1 split: if_splits)
    have "P (keep_upload env i u s)" by (rule keeps [OF P Some _ env acc]) (rule still)
    then show ?thesis using True
      by (auto simp: store_upload_def keep_upload_def Let_def intro: calm_keeps calm_answer split: prod.splits)
  next
    case False
    have "P (answer env i status (set_status env row FileFailed msg (drop_upload i u None s)))" for status row msg
      by (rule calm_keeps [OF gone calm_after [OF calm_set_status calm_answer]]) simp
    then show ?thesis using False by (auto simp: store_upload_def removed)
  qed
  then show ?thesis unfolding res by (intro end_if_settled_keeps calm_keeps [OF _ calm_updates(14)])
qed

lemma onUploadClosed_keeps:
  assumes P: "P s" and still: "\<And>c. rs_conns s i = Some c \<Longrightarrow> \<not> reading c"
  shows "P (onUploadClosed env i s)"
proof (cases "map_of (rs_uploads s) i")
  case None
  with P show ?thesis by (simp add: onUploadClosed_def)
next
  case (Some u)
  have "P (drop_upload i u None s)" by (rule drops [OF P Some still])
  then have "P (set_status env row FileFailed msg (drop_upload i u None s))" for row msg
    by (rule calm_keeps) (rule calm_set_status, simp)
  then show ?thesis
    using Some by (simp add: onUploadClosed_def Let_def closed_upload [OF on_disk [OF P Some]] end_if_settled_keeps)
      (simp add: set_file_def drop_upload_def end_if_settled_keeps)
qed

lemma onClosed_keeps:
  assumes P: "P s" and still: "\<And>c. rs_conns s i = Some c \<Longrightarrow> \<not> reading c"
  shows "P (onClosed env i s)"
  unfolding onClosed_def
  by (rule onUploadClosed_keeps [OF calm_keeps [OF P calm_onPendingClosed]])
    (use still in \<open>auto simp: onPendingClosed_def Let_def split: if_splits\<close>)

lemma handleCancel_keeps:
  assumes "P s"
  shows "P (handleCancel env i c s)"
proof -
  let ?s1 = "answer env i 200 s"
  have P1: "P ?s1" by (rule calm_keeps [OF assms calm_answer])
  have "P (on_transfer (setState (e_now env) Cancelled []) ((releasePending ?s1)\<lparr>rs_acceptTimer := None\<rparr>))"
    by (rule calm_keeps [OF P1]) (intro calm_onto calm_refl)
  with P1 finishSession_keeps [OF P1] show ?thesis by (simp add: handleCancel_def Let_def)
qed

lemma onRequestReady_keeps:
  assumes "P s" "e_lib env = lib" "rs_conns s i = Some c" "\<not> reading c"
  shows "P (onRequestReady env i c s)"
  using assms handlePrepareUpload_keeps [OF assms(1,3)] handleUploadFinished_keeps [OF assms]
    calm_keeps [OF assms(1) calm_handleInfo] calm_keeps [OF assms(1) calm_handleRegister]
    calm_keeps [OF assms(1) calm_answer] handleCancel_keeps [OF assms(1)]
  by (simp add: onRequestReady_def Let_def)

end

end
