(* ===== verification/Receive_Events.thy ===== *)
theory Receive_Events
  imports Receive_Contract
begin

text \<open>
  Every event preserves an invariant of the service: a predicate that meets the contract
  \<open>service_inv\<close> is preserved by the slots of every connection (\<open>http_inv\<close>), and so by every step
  and run of the service.
\<close>

section \<open>Every event preserves the invariant\<close>

definition conn_fine :: "HttpConnection \<Rightarrow> bool" where
  "conn_fine c \<longleftrightarrow> \<not> h_closedEmitted c \<and> (h_state c = ReadingHeaders \<longrightarrow> \<not> h_bodyComplete c)"

definition conn_ok :: "nat \<Rightarrow> HttpConnection \<Rightarrow> ReceiveService \<Rightarrow> bool" where
  "conn_ok i c s \<longleftrightarrow> (\<forall>j c. j \<noteq> i \<longrightarrow> rs_conns s j = Some c \<longrightarrow> conn_fine c)
     \<and> (h_state c = ReadingHeaders \<longrightarrow> \<not> h_bodyComplete c)
     \<and> (h_closedEmitted c \<longrightarrow> h_state c = Responded \<and> map_of (rs_uploads s) i = None \<and> rs_pending s \<noteq> Some i)"

lemma conn_fine_api: "via_api c c' \<Longrightarrow> conn_fine c \<Longrightarrow> conn_fine c'"
  using via_api_fields [of c c'] by (auto simp: conn_fine_def)

lemma others_fine_api:
  assumes "api_rel s s'" "\<forall>j c. j \<noteq> i \<longrightarrow> rs_conns s j = Some c \<longrightarrow> conn_fine c"
  shows "\<forall>j c. j \<noteq> i \<longrightarrow> rs_conns s' j = Some c \<longrightarrow> conn_fine c"
proof (intro allI impI)
  fix j c assume "j \<noteq> i" "rs_conns s' j = Some c"
  moreover have "rel_option via_api (rs_conns s j) (rs_conns s' j)" using assms(1) by (simp add: api_rel_def)
  ultimately show "conn_fine c" using assms(2) by (auto simp: option_rel_Some2 intro: conn_fine_api)
qed

lemma conn_ok_api:
  assumes "conn_ok i c s" "api_rel (put i c1 s) s'" "via_api c1 c'" "h_state c1 \<noteq> ReadingHeaders"
    and "h_closedEmitted c1 \<Longrightarrow> h_state c1 = Responded \<and> map_of (rs_uploads s') i = None \<and> rs_pending s' \<noteq> Some i"
  shows "conn_ok i c' s'"
proof -
  have "\<forall>j c. j \<noteq> i \<longrightarrow> rs_conns (put i c1 s) j = Some c \<longrightarrow> conn_fine c" using assms(1) by (simp add: conn_ok_def)
  from others_fine_api [OF assms(2) this] via_api_fields [OF assms(3)] assms(4,5)
  show ?thesis unfolding conn_ok_def by auto
qed

lemma calm_put: "quiet c c' \<Longrightarrow> calm (put i c s) (put i c' s)"
  by (auto simp: calm_def disk_def rows_def intro: option.rel_refl quiet_none)

lemma progress_put: "put i c (upload_progress env j n s) = upload_progress env j n (put i c s)"
  by (simp add: put_def upload_progress_def start_idle_def on_transfer_def split: option.split)

lemma finishSession_tables:
  "rs_uploads (finishSession env status s) = rs_uploads s \<or> rs_uploads (finishSession env status s) = []"
  "rs_pending (finishSession env status s) = rs_pending s \<or> rs_pending (finishSession env status s) = None"
proof -
  let ?s1 = "s\<lparr>rs_idleTimer := None, rs_acceptTimer := None\<rparr>"
  have "rs_uploads (fold (stop_upload env) (map fst (rs_uploads s)) ?s1) = []" using all_uploads_stopped [of env ?s1] by simp
  with finishSession_cases [of env status s] show
    "rs_uploads (finishSession env status s) = rs_uploads s \<or> rs_uploads (finishSession env status s) = []"
    "rs_pending (finishSession env status s) = rs_pending s \<or> rs_pending (finishSession env status s) = None"
    by (auto simp: calm_def disk_def)
qed

lemma through_put:
  assumes "\<And>s. api_rel s (handler c s)" "through i handler c s = (c', s')"
  shows "s' = handler c (put i c s)" "rs_conns s' i = Some c'" "put i c' s' = s'" "via_api c c'" "api_rel (put i c s) s'"
proof -
  show s': "s' = handler c (put i c s)" using assms(2) by (auto simp: through_def put_def Let_def)
  show c': "rs_conns s' i = Some c'" "via_api c c'" using through_api [of handler c i s, OF assms(1)] assms(2) by auto
  show "put i c' s' = s'" by (rule put_same [OF c'(1)])
  show "api_rel (put i c s) s'" unfolding s' by (rule assms(1))
qed

lemma closed_is_gone:
  "map_of (rs_uploads (onClosed env i s)) i = None" "rs_pending (onClosed env i s) \<noteq> Some i"
proof -
  let ?s = "onPendingClosed env i s"
  have settled: "rs_uploads (end_if_settled env st t) = rs_uploads t \<or> rs_uploads (end_if_settled env st t) = []"
    "rs_pending (end_if_settled env st t) = rs_pending t \<or> rs_pending (end_if_settled env st t) = None" for st t
    using finishSession_tables by (simp_all add: end_if_settled_def)
  have pending: "rs_pending ?s \<noteq> Some i" by (auto simp: onPendingClosed_def Let_def on_transfer_def)
  have up: "map_of (rs_uploads (onUploadClosed env i t)) i = None \<and> (rs_pending (onUploadClosed env i t) = rs_pending t
      \<or> rs_pending (onUploadClosed env i t) = None)" for t
  proof (cases "map_of (rs_uploads t) i")
    case (Some u)
    let ?t = "set_status env (up_row u) FileFailed (e_tr env ''The sender disconnected'' []) (set_file (up_partPath u) None
      (delete_handle (up_file u) (flush_file env (up_partPath u) (t\<lparr>rs_uploads := AList.delete i (rs_uploads t)\<rparr>))))"
    have res: "onUploadClosed env i t = end_if_settled env (\<lambda>_. Sfailed) ?t" using Some by (simp add: onUploadClosed_def Let_def)
    have "rs_uploads ?t = AList.delete i (rs_uploads t)" "rs_pending ?t = rs_pending t"
      by (simp_all add: set_status_def on_transfer_def set_file_def delete_handle_def flush_file_def split: option.split)
    with settled [of "\<lambda>_. Sfailed" ?t] show ?thesis unfolding res by (auto simp: delete_conv')
  qed (simp add: onUploadClosed_def)
  show "map_of (rs_uploads (onClosed env i s)) i = None" "rs_pending (onClosed env i s) \<noteq> Some i"
    using up [of ?s] pending by (auto simp: onClosed_def)
qed

sublocale service_inv \<subseteq> conn: http_inv "rs_slots env i"
  "\<lambda>c s. e_lib env = lib \<longrightarrow> P (put i c s) \<and> conn_ok i c s" for env i
proof (unfold_locales, goal_cases)
  case (1 c w c')
  then show ?case using moved [of i c w c'] by (auto simp: core_def moves_def conn_ok_def answers_def)
next
  case (2 c w c')
  then show ?case using moved [of i c w c'] by (auto simp: core_def moves_def conn_ok_def answers_def)
next
  case (3 c w now s p ct)
  then show ?case using calm_keeps [OF _ calm_put [OF quiet_respond [OF quiet_none]]] by (auto simp: conn_ok_def)
next
  case (4 c w x)
  then show ?case using moved [of i c w "sock [Interim x] c"] by (auto simp: moves_def conn_ok_def answers_def sock_def)
next
  case (5 c w now s p ct)
  then have "e_lib env = lib \<longrightarrow> P (put i (c\<lparr>h_state := ReadingBody\<rparr>) w)"
    using moved [of i c w "c\<lparr>h_state := ReadingBody\<rparr>"] by (auto simp: moves_def answers_def)
  then show ?case using 5 calm_keeps [OF _ calm_put [OF quiet_respond [OF quiet_none]]] by (auto simp: conn_ok_def)
next
  case (6 c w c' w')
  let ?c = "c\<lparr>h_state := ReadingBody\<rparr>"
  have th: "through i (onHeadersReady env i) ?c w = (c', w')" using 6(4) by (simp add: rs_slots_def)
  note t = through_put [OF api_onHeadersReady th]
  have "P (onHeadersReady env i ?c (put i ?c w))" if "e_lib env = lib"
    using that 6(1-3) handleUploadHeaders_keeps [of i c w ?c env] moved [of i c w ?c]
    by (auto simp: onHeadersReady_def moves_def answers_def)
  then have keeps: "P (put i c' w')" if "e_lib env = lib" using that unfolding t(3) by (subst t(1)) simp
  have "conn_ok i c' w'" if "e_lib env = lib"
    using that 6(1-3) by (intro conn_ok_api [of i c w, OF _ t(5,4)]) (simp_all add: conn_ok_def)
  with keeps show ?case by simp
next
  case (7 c w data k n w' tot now)
  then have w: "writeData env k data w = (n, w')" by (simp add: rs_slots_def)
  have same: "rs_conns w' = rs_conns w" using conns_updates(9) [of env k data w] w by simp
  have "e_lib env = lib \<longrightarrow> P (put i (if n = int (length data) then c\<lparr>h_bodyReceived := h_bodyReceived c + n\<rparr> else fail_with now 500 c) w')"
  proof
    assume "e_lib env = lib"
    with 7(1) have P: "P (put i c w)" by simp
    show "P (put i (if n = int (length data) then c\<lparr>h_bodyReceived := h_bodyReceived c + n\<rparr> else fail_with now 500 c) w')"
      by (rule writes [OF P _ 7(5,4,6) w]) (simp add: reading_def 7(2,3))
  qed
  then show ?case
    using 7(1-3) calm_keeps [OF _ calm_upload_progress] same
    by (auto simp: rs_slots_def conn_ok_def progress_put split: if_splits)
next
  case (8 c w n tot)
  then have "e_lib env = lib \<longrightarrow> P (put i (c\<lparr>h_bodyReceived := h_bodyReceived c + n\<rparr>) w)"
    using buffers [of i c w] by (auto simp: reading_def)
  then show ?case
    using 8(1-3) calm_keeps [OF _ calm_upload_progress] by (auto simp: rs_slots_def conn_ok_def progress_put)
next
  case (9 c w c' w')
  let ?c = "c\<lparr>h_bodyComplete := True\<rparr>"
  have th: "through i (onRequestReady env i) ?c w = (c', w')" using 9(4) by (simp add: rs_slots_def)
  note t = through_put [OF api_onRequestReady th]
  have "P (onRequestReady env i ?c (put i ?c w))" if "e_lib env = lib"
    using that 9(1-3) moved [of i c w ?c] by (intro onRequestReady_keeps) (auto simp: moves_def answers_def reading_def)
  then have keeps: "P (put i c' w')" if "e_lib env = lib" using that unfolding t(3) by (subst t(1)) simp
  have "conn_ok i c' w'" if "e_lib env = lib"
    using that 9(1-3) by (intro conn_ok_api [of i c w, OF _ t(5,4)]) (simp_all add: conn_ok_def)
  with keeps show ?case by simp
next
  case (10 c w)
  then show ?case using moved [of i c w "(sock [Aborted] c)\<lparr>h_connected := False\<rparr>"]
    by (auto simp: moves_def conn_ok_def answers_def sock_def)
next
  case (11 c w c' w')
  let ?c = "c\<lparr>h_closedEmitted := True, h_state := Responded, h_connected := False\<rparr>"
  have th: "through i (\<lambda>_. onClosed env i) ?c w = (c', w')" using 11(3) by (simp add: rs_slots_def)
  note t = through_put [OF api_onClosed th]
  have "P (onClosed env i (put i ?c w))" if "e_lib env = lib"
    using that 11(1,2) moved [of i c w ?c] by (intro onClosed_keeps) (auto simp: moves_def answers_def reading_def)
  then have keeps: "P (put i c' w')" if "e_lib env = lib" using that unfolding t(3) by (subst t(1)) simp
  have "map_of (rs_uploads w') i = None" "rs_pending w' \<noteq> Some i"
    unfolding t(1) by (rule closed_is_gone)+
  then have "conn_ok i c' w'" if "e_lib env = lib" using that 11(1) by (intro conn_ok_api [of i c w, OF _ t(5,4)]) simp_all
  with keeps show ?case by simp
qed

lemma server_ops:
  "sv_sockets (setIdentity a b sv) = sv_sockets sv" "sv_next (setIdentity a b sv) = sv_next sv"
  "sv_liveConnections (setIdentity a b sv) = sv_liveConnections sv"
  "sv_sockets (server_stop sv) = sv_sockets sv" "sv_next (server_stop sv) = sv_next sv"
  "sv_liveConnections (server_stop sv) = sv_liveConnections sv"
  "sv_sockets (snd (server_start l p sv)) = sv_sockets sv" "sv_next (snd (server_start l p sv)) = sv_next sv"
  "sv_liveConnections (snd (server_start l p sv)) = sv_liveConnections sv"
  by (simp_all add: setIdentity_def server_stop_def server_start_def Let_def split: sum.split)

definition all_fine :: "ReceiveService \<Rightarrow> bool" where
  "all_fine s \<longleftrightarrow> (\<forall>j c. rs_conns s j = Some c \<longrightarrow> conn_fine c)"

lemma all_fine_api:
  assumes "api_rel s s'" "all_fine s"
  shows "all_fine s'"
  unfolding all_fine_def
proof (intro allI impI)
  fix j c assume "rs_conns s' j = Some c"
  moreover have "rel_option via_api (rs_conns s j) (rs_conns s' j)" using assms(1) by (simp add: api_rel_def)
  ultimately show "conn_fine c" using assms(2) by (auto simp: option_rel_Some2 all_fine_def intro: conn_fine_api)
qed

lemma all_fine_net: "all_fine s \<Longrightarrow> all_fine (net_step env e addr cert s)"
  by (auto simp: all_fine_def net_step_def Let_def conn_fine_def new_HttpConnection_def split: prod.split option.split)

lemma api_startListening: "api_rel s (snd (startListening env s))"
  by (rule same_conns_api) (simp add: startListening_def Let_def on_server_def split: prod.split)

lemma api_stopListening: "api_rel s (stopListening env s)"
proof -
  have "api_rel s (rs_emit x (on_server f (finishSession env st s)))" for x f st
    by (rule api_trans [OF api_finishSession same_conns_api]) (simp add: on_server_def)
  then show ?thesis by (simp add: stopListening_def)
qed

lemma api_cancel: "api_rel s (cancel env s)"
  by (auto simp: cancel_def intro!: calm_api calm_decline api_trans [OF calm_api [OF calm_notifyPeerCancelled] api_finishSession])

text \<open>Every event but those of one connection and of the network.\<close>

lemma api_rs_step:
  assumes "\<And>i ce. e \<noteq> Conn i ce" "\<And>ne a c. e \<noteq> Net ne a c"
  shows "api_rel s (rs_step env e s)"
proof (cases e)
  case AcceptTimeout
  then show ?thesis by (auto intro: api_trans [OF calm_api [OF calm_updates(1)] calm_api [OF calm_onAcceptTimeout]])
next
  case SessionIdle
  have "api_rel t (onSessionIdle env t)" for t by (simp add: onSessionIdle_def api_finishSession)
  with SessionIdle show ?thesis by (auto intro: api_trans [OF calm_api [OF calm_updates(2)]])
next
  case PortChanged
  then show ?thesis using api_trans [OF api_stopListening api_startListening] by (simp add: onSettingsChanged_def)
qed (use assms in \<open>auto intro: api_accept calm_api calm_decline api_cancel api_startListening api_stopListening calm_updates
  same_conns_api\<close>)

context service_inv
begin

lemma startListening_keeps:
  assumes "P s"
  shows "P (snd (startListening env s))"
proof (cases "server_isListening (rs_server s)")
  case True
  with assms show ?thesis by (simp add: startListening_def)
next
  case False
  define sv1 where "sv1 = (if isEncrypted (rs_settings s) then setIdentity (c_certificate (as_identity (rs_settings s)))
      (c_key (as_identity (rs_settings s))) (rs_server s) else setIdentity [] [] (rs_server s))"
  obtain ok sv where sv: "server_start (e_listen env) (settings_port (rs_settings s) mod 2 ^ 16) sv1 = (ok, sv)" by fastforce
  have "snd (server_start (e_listen env) (settings_port (rs_settings s) mod 2 ^ 16) sv1) = sv" unfolding sv by simp
  then have "P (s\<lparr>rs_server := sv\<rparr>)"
    using server_ops by (intro servers [OF assms]) (auto simp: sv1_def)
  then have "P (rs_emit ListeningChanged (s\<lparr>rs_server := sv, rs_listenError := e\<rparr>))" for e
    by (rule calm_keeps) (intro calm_onto calm_refl)
  then show ?thesis
    using False sv
    by (cases "isEncrypted (rs_settings s)") (simp_all add: startListening_def Let_def on_server_def sv1_def)
qed

lemma stopListening_keeps:
  assumes "P s"
  shows "P (stopListening env s)"
proof -
  let ?t = "finishSession env Scancelled s"
  have "P (?t\<lparr>rs_server := server_stop (rs_server ?t)\<rparr>)"
    using server_ops by (intro servers finishSession_keeps [OF assms]) simp_all
  then have "P (rs_emit ListeningChanged (on_server server_stop ?t))"
    unfolding on_server_def by (rule calm_keeps) (rule calm_updates)
  with assms show ?thesis by (simp add: stopListening_def)
qed

lemma cancel_keeps:
  assumes "P s"
  shows "P (cancel env s)"
  using assms calm_keeps [OF assms calm_decline] finishSession_keeps [OF calm_keeps [OF assms calm_notifyPeerCancelled]]
  by (simp add: cancel_def)

lemma conn_event_keeps:
  assumes env: "e_lib env = lib" and s: "P s" "all_fine s"
  shows "P (conn_event_step env i e s) \<and> all_fine (conn_event_step env i e s)"
proof (cases "rs_conns s i")
  case None
  with s show ?thesis by (simp add: conn_event_step_def)
next
  case (Some c)
  have fine: "conn_fine c" using s(2) Some by (simp add: all_fine_def)
  obtain c' s1 where st: "conn_step (e_lib env) (e_net env) (rs_slots env i) e (c, s) = (c', s1)" by fastforce
  have "P (put i c s) \<and> conn_ok i c s"
    using s fine by (auto simp: put_same [OF Some] conn_ok_def conn_fine_def all_fine_def)
  then have "e_lib env = lib \<longrightarrow> P (put i (fst (c', s1)) (snd (c', s1))) \<and> conn_ok i (fst (c', s1)) (snd (c', s1))"
    using fine unfolding st [symmetric] by (intro conn.conn_step_inv) (auto simp: conn_fine_def)
  then have I: "P (put i c' s1)" "conn_ok i c' s1" using env by simp_all
  show ?thesis
  proof (cases "h_closedEmitted c'")
    case True
    then have "P (without i (put i c' s1))" using I by (intro leaves) (simp_all add: conn_ok_def)
    moreover have "without i (put i c' s1) = conn_event_step env i e s"
      using Some st True by (simp add: conn_event_step_def without_def put_def)
    moreover have "all_fine (conn_event_step env i e s)"
      using Some st True I(2) by (auto simp: conn_event_step_def all_fine_def conn_ok_def)
    ultimately show ?thesis by simp
  next
    case False
    then have "conn_event_step env i e s = put i c' s1" using Some st by (simp add: conn_event_step_def put_def)
    moreover have "all_fine (put i c' s1)" using I(2) False by (auto simp: all_fine_def conn_ok_def conn_fine_def)
    ultimately show ?thesis using I by simp
  qed
qed

lemma rs_step_keeps:
  assumes "e_lib env = lib" "P s" "all_fine s"
  shows "P (rs_step env e s) \<and> all_fine (rs_step env e s)"
proof -
  have fine: "all_fine (rs_step env e s)"
    using conn_event_keeps [OF assms] all_fine_net [OF assms(3)] all_fine_api [OF api_rs_step assms(3), of e env]
    by (cases e) auto
  have "P (rs_step env e s)"
  proof (cases e)
    case (Net ne a c)
    then show ?thesis using arrives [OF assms(2)] assms(2) by (cases "net_event (rs_server s) ne") (auto simp: net_step_def)
  next
    case (Conn i ce)
    then show ?thesis using conn_event_keeps [OF assms] by simp
  next
    case AcceptTimeout
    then show ?thesis
      using assms(2) calm_keeps [OF calm_keeps [OF assms(2) calm_updates(1)] calm_onAcceptTimeout] by simp
  next
    case SessionIdle
    have "P (onSessionIdle env t)" if "P t" for t using that by (simp add: onSessionIdle_def finishSession_keeps)
    with SessionIdle show ?thesis using assms(2) calm_keeps [OF assms(2) calm_updates(2)] by simp
  next
    case (FileAppears p b)
    then show ?thesis using assms(2) appears [OF assms(2)] by (auto simp: path_exists_def)
  qed (use assms(2) in \<open>auto simp: onSettingsChanged_def intro: accept_keeps cancel_keeps calm_keeps calm_decline calm_updates
    startListening_keeps stopListening_keeps\<close>)
  with fine show ?thesis by simp
qed

lemma rs_run_keeps:
  assumes "P s" "all_fine s" "\<forall>(env, e) \<in> set evs. e_lib env = lib"
  shows "P (rs_run evs s) \<and> all_fine (rs_run evs s)"
  using assms
proof (induction evs arbitrary: s)
  case (Cons x evs)
  obtain env e where x: "x = (env, e)" by fastforce
  with Cons.prems rs_step_keeps [of env s e] have "P (rs_step env e s)" "all_fine (rs_step env e s)" by auto
  with Cons.IH Cons.prems(3) x show ?case by (simp add: rs_run_def)
qed (simp add: rs_run_def)

end

end
