(* ===== verification/Receive_Safety.thy ===== *)
theory Receive_Safety
  imports Receive_Events
begin

text \<open>
  The invariant of the receiving service: every running upload has its own open file, which holds
  exactly what its connection has delivered and never more than was announced; every row that is
  done has its file on the disk, of the announced size and digest; a connection never writes to a
  file that is gone.
\<close>

section \<open>The invariant\<close>

definition inv_server :: "ReceiveService \<Rightarrow> bool" where
  "inv_server s \<longleftrightarrow> server_inv (rs_server s)
     \<and> (\<forall>i c. rs_conns s i = Some c \<longrightarrow> map_of (sv_sockets (rs_server s)) i = Some Adopted)"

definition inv_pending :: "ReceiveService \<Rightarrow> bool" where
  "inv_pending s \<longleftrightarrow> (\<forall>p. rs_pending s = Some p \<longrightarrow> rs_conns s p \<noteq> None)
     \<and> (rs_pending s \<noteq> None \<longrightarrow> rs_sessionId s = [] \<and> (\<forall>f \<in> set (rows s). fe_status f \<noteq> FileDone))
     \<and> (rs_uploads s \<noteq> [] \<longrightarrow> rs_sessionId s \<noteq> [])"

definition upload_inv :: "ReceiveService \<Rightarrow> nat \<Rightarrow> Upload \<Rightarrow> bool" where
  "upload_inv s i u \<longleftrightarrow> (\<exists>f c. rs_handles s (up_file u) = Some f \<and> hf_path f = up_partPath u
     \<and> rs_files s (up_partPath u) = Some (hf_hashed f) \<and> row_ok (up_row u) (rs_transfer s)
     \<and> int (length (hf_hashed f)) \<le> fe_size (row_entry s (up_row u))
     \<and> rs_conns s i = Some c \<and> h_sink c = Some (up_file u) \<and> h_maxBodyBytes c = fe_size (row_entry s (up_row u))
     \<and> (reading c \<longrightarrow> h_bodyReceived c = int (length (hf_hashed f))))"

definition inv_uploads :: "ReceiveService \<Rightarrow> bool" where
  "inv_uploads s \<longleftrightarrow> (\<forall>i u. map_of (rs_uploads s) i = Some u \<longrightarrow> upload_inv s i u)
     \<and> (\<forall>i u j v. map_of (rs_uploads s) i = Some u \<longrightarrow> map_of (rs_uploads s) j = Some v \<longrightarrow> i \<noteq> j
          \<longrightarrow> up_file u \<noteq> up_file v \<and> up_partPath u \<noteq> up_partPath v)"

definition inv_handles :: "ReceiveService \<Rightarrow> bool" where
  "inv_handles s \<longleftrightarrow> \<not> rs_fault s \<and> (\<forall>k f. rs_handles s k = Some f \<longrightarrow> k < rs_nextHandle s
     \<and> (\<exists>i u. map_of (rs_uploads s) i = Some u \<and> up_file u = k))"

definition conn_inv :: "ReceiveService \<Rightarrow> nat \<Rightarrow> HttpConnection \<Rightarrow> bool" where
  "conn_inv s j c \<longleftrightarrow> (\<forall>k. h_sink c = Some k \<longrightarrow> k < rs_nextHandle s
       \<and> (rs_handles s k \<noteq> None \<longrightarrow> (\<exists>u. map_of (rs_uploads s) j = Some u \<and> up_file u = k))
       \<and> (reading c \<longrightarrow> rs_handles s k \<noteq> None))
     \<and> (h_state c = ReadingHeaders \<longrightarrow> h_sink c = None \<and> h_bodyReceived c = 0)"

definition inv_conns :: "ReceiveService \<Rightarrow> bool" where
  "inv_conns s \<longleftrightarrow> (\<forall>j c. rs_conns s j = Some c \<longrightarrow> conn_inv s j c)"

text \<open>What a row that is done promises.\<close>

definition as_declared :: "qtlib \<Rightarrow> FileEntry \<Rightarrow> bytes \<Rightarrow> bool" where
  "as_declared lib f b \<longleftrightarrow> int (length b) = fe_size f
     \<and> (looksLikeSha256 (sha256 f) \<longrightarrow> equalsFold lib (to_hex (q_sha256 lib b)) (sha256 f))"

definition row_inv :: "qtlib \<Rightarrow> ReceiveService \<Rightarrow> FileEntry \<Rightarrow> bool" where
  "row_inv lib s f \<longleftrightarrow> 0 \<le> fe_size f \<and> (fe_status f = FileDone \<longrightarrow>
     (\<exists>b. rs_files s (localPath f) = Some b \<and> as_declared lib f b)
     \<and> (\<forall>i u. map_of (rs_uploads s) i = Some u \<longrightarrow> up_partPath u \<noteq> localPath f))"

definition inv_rows :: "qtlib \<Rightarrow> ReceiveService \<Rightarrow> bool" where
  "inv_rows lib s \<longleftrightarrow> (\<forall>f \<in> set (rows s). row_inv lib s f)"

definition rs_inv :: "qtlib \<Rightarrow> ReceiveService \<Rightarrow> bool" where
  "rs_inv lib s \<longleftrightarrow> inv_server s \<and> inv_pending s \<and> inv_uploads s \<and> inv_handles s \<and> inv_conns s \<and> inv_rows lib s"

lemmas inv_defs = inv_server_def inv_pending_def inv_uploads_def inv_handles_def inv_conns_def inv_rows_def

lemma rs_invI:
  "inv_server s \<Longrightarrow> inv_pending s \<Longrightarrow> inv_uploads s \<Longrightarrow> inv_handles s \<Longrightarrow> inv_conns s \<Longrightarrow> inv_rows lib s \<Longrightarrow> rs_inv lib s"
  by (simp add: rs_inv_def)

lemma rs_invD:
  assumes "rs_inv lib s"
  shows "inv_server s" "inv_pending s" "inv_uploads s" "inv_handles s" "inv_conns s" "inv_rows lib s"
  using assms by (simp_all add: rs_inv_def)

lemma uploadD:
  assumes "inv_uploads s" "map_of (rs_uploads s) i = Some u"
  obtains f c where "rs_handles s (up_file u) = Some f" "hf_path f = up_partPath u"
    "rs_files s (up_partPath u) = Some (hf_hashed f)" "row_ok (up_row u) (rs_transfer s)"
    "int (length (hf_hashed f)) \<le> fe_size (row_entry s (up_row u))" "rs_conns s i = Some c"
    "h_sink c = Some (up_file u)" "h_maxBodyBytes c = fe_size (row_entry s (up_row u))"
    "reading c \<Longrightarrow> h_bodyReceived c = int (length (hf_hashed f))"
  using assms unfolding inv_uploads_def upload_inv_def by blast

lemma upload_distinct:
  "inv_uploads s \<Longrightarrow> map_of (rs_uploads s) i = Some u \<Longrightarrow> map_of (rs_uploads s) j = Some v \<Longrightarrow> i \<noteq> j
     \<Longrightarrow> up_file u \<noteq> up_file v \<and> up_partPath u \<noteq> up_partPath v"
  unfolding inv_uploads_def by blast

lemma done_path:
  "inv_rows lib s \<Longrightarrow> f \<in> set (rows s) \<Longrightarrow> fe_status f = FileDone \<Longrightarrow> map_of (rs_uploads s) i = Some u
     \<Longrightarrow> localPath f \<noteq> up_partPath u"
  unfolding inv_rows_def row_inv_def by metis

section \<open>Calm changes\<close>

lemma quiet_reading: "quiet c c' \<Longrightarrow> reading c' \<Longrightarrow> reading c"
  using quiet_fields [of c c'] by (auto simp: reading_def)

lemma calm_conn:
  assumes "calm s s'" "rs_conns s' j = Some c'"
  obtains c where "rs_conns s j = Some c" "quiet c c'"
proof -
  have "rel_option quiet (rs_conns s j) (rs_conns s' j)" using assms(1) unfolding calm_def by blast
  then show thesis using that assms(2) by (auto simp: option_rel_Some2)
qed

lemma calm_conn_forward:
  assumes "calm s s'" "rs_conns s j = Some c"
  obtains c' where "rs_conns s' j = Some c'" "quiet c c'"
proof -
  have "rel_option quiet (rs_conns s j) (rs_conns s' j)" using assms(1) unfolding calm_def by blast
  then show thesis using that assms(2) by (auto simp: option_rel_Some1)
qed

lemma calm_rows:
  assumes "calm s s'"
  shows "row_ok r (rs_transfer s') = row_ok r (rs_transfer s)"
    and "row_ok r (rs_transfer s) \<Longrightarrow> row_calm (row_entry s r) (row_entry s' r)"
proof -
  have l: "list_all2 row_calm (m_files (rs_transfer s)) (m_files (rs_transfer s'))"
    using assms by (simp add: calm_def rows_def)
  then show "row_ok r (rs_transfer s') = row_ok r (rs_transfer s)" by (simp add: row_ok_def list_all2_lengthD)
  show "row_calm (row_entry s r) (row_entry s' r)" if "row_ok r (rs_transfer s)"
    using l row_okD [OF that] by (auto simp: row_entry_def list_all2_conv_all_nth)
qed

lemma calm_row_back:
  assumes "calm s s'" "f' \<in> set (rows s')"
  obtains f where "f \<in> set (rows s)" "row_calm f f'"
proof -
  have rows: "list_all2 row_calm (rows s) (rows s')" using assms(1) by (simp add: calm_def)
  obtain i where "i < length (rows s')" "rows s' ! i = f'" using assms(2) by (auto simp: in_set_conv_nth)
  with rows show thesis using that [of "rows s ! i"] by (auto simp: list_all2_conv_all_nth)
qed

lemma calm_disk:
  assumes "calm s s'"
  shows "rs_uploads s' = rs_uploads s" "rs_files s' = rs_files s" "rs_handles s' = rs_handles s"
    "rs_nextHandle s' = rs_nextHandle s" "rs_fault s' = rs_fault s" "rs_server s' = rs_server s"
    "rs_sessionId s' = rs_sessionId s" "rs_pending s' = rs_pending s \<or> rs_pending s' = None"
  using assms by (simp_all add: calm_def disk_def)

lemma rs_inv_calm:
  assumes inv: "rs_inv lib s" and calm: "calm s s'"
  shows "rs_inv lib s'"
proof (rule rs_invI)
  note d = calm_disk [OF calm]
  show "inv_server s'" using rs_invD(1) [OF inv] d(6) calm_conn [OF calm] unfolding inv_server_def by metis
  show "inv_handles s'" using rs_invD(4) [OF inv] d by (simp add: inv_handles_def)
  show "inv_conns s'"
    unfolding inv_conns_def
  proof (intro allI impI)
    fix j c' assume c': "rs_conns s' j = Some c'"
    obtain c where c: "rs_conns s j = Some c" "quiet c c'" by (rule calm_conn [OF calm c'])
    then have "conn_inv s j c" using rs_invD(5) [OF inv] by (simp add: inv_conns_def)
    then show "conn_inv s' j c'" using quiet_fields [OF c(2)] quiet_reading [OF c(2)] d by (auto simp: conn_inv_def)
  qed
  show "inv_rows lib s'"
    unfolding inv_rows_def
  proof
    fix f' assume f': "f' \<in> set (rows s')"
    obtain f where f: "f \<in> set (rows s)" "row_calm f f'" by (rule calm_row_back [OF calm f'])
    then have "row_inv lib s f" using rs_invD(6) [OF inv] by (simp add: inv_rows_def)
    then show "row_inv lib s' f'" using f(2) d by (auto simp: row_inv_def row_calm_def as_declared_def)
  qed
  show "inv_pending s'"
  proof -
    have "rs_conns s' p \<noteq> None" if "rs_pending s' = Some p" for p
    proof -
      from that d(8) have "rs_pending s = Some p" by auto
      then obtain c where "rs_conns s p = Some c" using rs_invD(2) [OF inv] by (auto simp: inv_pending_def)
      then show ?thesis using calm_conn_forward [OF calm] by (metis option.distinct(1))
    qed
    moreover have "fe_status f' \<noteq> FileDone" if "rs_pending s' \<noteq> None" "f' \<in> set (rows s')" for f'
      using that d(8) rs_invD(2) [OF inv] calm_row_back [OF calm that(2)]
      unfolding inv_pending_def row_calm_def by (metis (no_types))
    ultimately show ?thesis using rs_invD(2) [OF inv] d(1,7,8) by (auto simp: inv_pending_def)
  qed
  show "inv_uploads s'"
    unfolding inv_uploads_def
  proof (intro conjI allI impI)
    fix i u assume "map_of (rs_uploads s') i = Some u"
    then have u: "map_of (rs_uploads s) i = Some u" by (simp add: d)
    obtain f c where h: "rs_handles s (up_file u) = Some f" "hf_path f = up_partPath u"
      "rs_files s (up_partPath u) = Some (hf_hashed f)" "row_ok (up_row u) (rs_transfer s)"
      "int (length (hf_hashed f)) \<le> fe_size (row_entry s (up_row u))" "rs_conns s i = Some c"
      "h_sink c = Some (up_file u)" "h_maxBodyBytes c = fe_size (row_entry s (up_row u))"
      "reading c \<Longrightarrow> h_bodyReceived c = int (length (hf_hashed f))"
      by (rule uploadD [OF rs_invD(3) [OF inv] u]) blast
    obtain c' where c': "rs_conns s' i = Some c'" "quiet c c'" by (rule calm_conn_forward [OF calm h(6)])
    have "row_calm (row_entry s (up_row u)) (row_entry s' (up_row u))" by (rule calm_rows(2) [OF calm h(4)])
    then show "upload_inv s' i u"
      using h c'(1) quiet_fields [OF c'(2)] quiet_reading [OF c'(2)] calm_rows(1) [OF calm]
      by (auto simp: upload_inv_def d row_calm_def)
  next
    fix i u j v
    assume "map_of (rs_uploads s') i = Some u" "map_of (rs_uploads s') j = Some v" "i \<noteq> j"
    then show "up_file u \<noteq> up_file v" "up_partPath u \<noteq> up_partPath v"
      using upload_distinct [OF rs_invD(3) [OF inv], of i u j v] by (simp_all add: d)
  qed
qed

section \<open>Uploads leave, connections move\<close>

lemma drop_simps [simp]:
  "map_of (AList.delete i t) = (map_of t)(i := None)"
  "rs_uploads (drop_upload i u v s) = AList.delete i (rs_uploads s)"
  "rs_handles (drop_upload i u v s) = (rs_handles s)(up_file u := None)"
  "rs_files (drop_upload i u v s) = (rs_files s)(up_partPath u := v)"
  "rs_conns (drop_upload i u v s) = rs_conns s" "rs_server (drop_upload i u v s) = rs_server s"
  "rs_transfer (drop_upload i u v s) = rs_transfer s" "rs_nextHandle (drop_upload i u v s) = rs_nextHandle s"
  "rs_fault (drop_upload i u v s) = rs_fault s" "rs_pending (drop_upload i u v s) = rs_pending s"
  "rs_sessionId (drop_upload i u v s) = rs_sessionId s" "rows (drop_upload i u v s) = rows s"
  "row_entry (drop_upload i u v s) r = row_entry s r"
  by (simp_all add: drop_upload_def delete_conv' rows_def row_entry_def)

lemma delete_Nil_iff: "AList.delete i t \<noteq> [] \<Longrightarrow> t \<noteq> []"
  by auto

lemma rs_inv_drop:
  assumes inv: "rs_inv lib s" and u: "map_of (rs_uploads s) i = Some u"
    and still: "\<And>c. rs_conns s i = Some c \<Longrightarrow> \<not> reading c"
  shows "rs_inv lib (drop_upload i u v s)"
proof (rule rs_invI)
  let ?s = "drop_upload i u v s"
  note I = rs_invD [OF inv]
  have other: "up_file w \<noteq> up_file u \<and> up_partPath w \<noteq> up_partPath u" if "map_of (rs_uploads s) j = Some w" "j \<noteq> i" for j w
    using upload_distinct [OF I(3) that(1) u that(2)] by simp
  show "inv_server ?s" using I(1) by (simp add: inv_server_def)
  show "inv_pending ?s" using I(2) by (auto simp: inv_pending_def)
  show "inv_uploads ?s"
    unfolding inv_uploads_def
  proof (intro conjI allI impI)
    fix j w assume "map_of (rs_uploads ?s) j = Some w"
    then have w: "map_of (rs_uploads s) j = Some w" "j \<noteq> i" by (auto split: if_splits)
    then have "upload_inv s j w" using I(3) by (simp add: inv_uploads_def)
    then show "upload_inv ?s j w" using other [OF w] unfolding upload_inv_def by simp
  next
    fix j w k x assume "map_of (rs_uploads ?s) j = Some w" "map_of (rs_uploads ?s) k = Some x" "j \<noteq> k"
    then show "up_file w \<noteq> up_file x" "up_partPath w \<noteq> up_partPath x"
      using upload_distinct [OF I(3), of j w k x] by (auto split: if_splits)
  qed
  show "inv_handles ?s"
    unfolding inv_handles_def
  proof (intro conjI allI impI)
    fix k f assume k: "rs_handles ?s k = Some f"
    then have "rs_handles s k = Some f" "k \<noteq> up_file u" by (auto split: if_splits)
    with I(4) obtain j w where "map_of (rs_uploads s) j = Some w" "up_file w = k" "k < rs_nextHandle s"
      unfolding inv_handles_def by blast
    then show "k < rs_nextHandle ?s" "\<exists>j w. map_of (rs_uploads ?s) j = Some w \<and> up_file w = k"
      using u \<open>k \<noteq> up_file u\<close> by (auto intro!: exI [of _ j])
  qed (use I(4) in \<open>simp add: inv_handles_def\<close>)
  show "inv_conns ?s"
    unfolding inv_conns_def
  proof (intro allI impI)
    fix j c assume c: "rs_conns ?s j = Some c"
    then have ci: "conn_inv s j c" using I(5) by (simp add: inv_conns_def)
    have alive: "rs_handles s (up_file u) \<noteq> None" by (rule uploadD [OF I(3) u]) simp
    have same: "j = i" if "h_sink c = Some (up_file u)"
      using ci that alive other [of j] unfolding conn_inv_def by metis
    show "conn_inv ?s j c"
      using ci same still c u by (auto simp: conn_inv_def)
  qed
  show "inv_rows lib ?s"
    using I(6) u unfolding inv_rows_def row_inv_def by (auto split: if_splits) (metis fun_upd_other)+
qed

lemma row_entry_put [simp]: "row_entry (put i c s) = row_entry s" "rows (put i c s) = rows s"
  by (simp_all add: fun_eq_iff row_entry_def rows_def)

lemma conn_inv_put [simp]: "conn_inv (put i c s) j d = conn_inv s j d"
  by (simp add: conn_inv_def)

lemma conn_inv_moves:
  assumes "conn_inv s j c" "moves c c'"
  shows "conn_inv s j c'"
proof (cases "h_sink c")
  case None
  with assms show ?thesis by (auto simp: conn_inv_def moves_def)
next
  case (Some k)
  then have "h_state c \<noteq> ReadingHeaders" using assms(1) by (auto simp: conn_inv_def)
  then have "reading c' \<Longrightarrow> reading c" "h_state c' \<noteq> ReadingHeaders" using assms(2) by (auto simp: moves_def reading_def)
  with assms Some show ?thesis by (simp add: conn_inv_def moves_def)
qed

lemma upload_inv_put:
  assumes "upload_inv (put i c s) j u"
    and "j = i \<Longrightarrow> h_sink c' = h_sink c \<and> h_maxBodyBytes c' = h_maxBodyBytes c
      \<and> (reading c' \<longrightarrow> reading c \<and> h_bodyReceived c' = h_bodyReceived c)"
  shows "upload_inv (put i c' s) j u"
  using assms unfolding upload_inv_def by (cases "j = i") auto

lemma inv_uploads_put:
  assumes "inv_uploads (put i c s)"
    and "\<And>u. map_of (rs_uploads s) i = Some u \<Longrightarrow> h_sink c' = h_sink c \<and> h_maxBodyBytes c' = h_maxBodyBytes c
      \<and> (reading c' \<longrightarrow> reading c \<and> h_bodyReceived c' = h_bodyReceived c)"
  shows "inv_uploads (put i c' s)"
  using assms upload_inv_put [of i c s _ _ c'] unfolding inv_uploads_def put_simps by blast

lemma rs_inv_moved:
  assumes inv: "rs_inv lib (put i c s)" and m: "moves c c'"
  shows "rs_inv lib (put i c' s)"
proof (rule rs_invI)
  note I = rs_invD [OF inv]
  have r: "reading c \<or> h_state c = ReadingHeaders" if "reading c'" using m that by (auto simp: reading_def moves_def)
  show "inv_server (put i c' s)" using I(1) by (simp add: inv_server_def split: if_splits)
  show "inv_pending (put i c' s)" using I(2) by (fastforce simp: inv_pending_def split: if_splits)
  show "inv_handles (put i c' s)" using I(4) by (simp add: inv_handles_def)
  show "inv_rows lib (put i c' s)" using I(6) by (simp add: inv_rows_def row_inv_def)
  have ci: "conn_inv s i c" using I(5) by (simp add: inv_conns_def)
  show "inv_conns (put i c' s)" using I(5) conn_inv_moves [OF _ m] by (auto simp: inv_conns_def)
  show "inv_uploads (put i c' s)"
  proof (rule inv_uploads_put [OF I(3)])
    fix u assume u: "map_of (rs_uploads s) i = Some u"
    then have "upload_inv (put i c s) i u" using I(3) by (simp add: inv_uploads_def)
    then have "h_sink c \<noteq> None" by (auto simp: upload_inv_def)
    then show "h_sink c' = h_sink c \<and> h_maxBodyBytes c' = h_maxBodyBytes c
      \<and> (reading c' \<longrightarrow> reading c \<and> h_bodyReceived c' = h_bodyReceived c)"
      using ci m r by (auto simp: moves_def conn_inv_def)
  qed
qed

section \<open>The small changes\<close>

lemma rs_inv_buffers:
  assumes inv: "rs_inv lib (put i c s)" and c: "reading c" "h_sink c = None"
  shows "rs_inv lib (put i (c\<lparr>h_bodyReceived := x\<rparr>) s)"
proof (rule rs_invI)
  note I = rs_invD [OF inv]
  let ?c = "c\<lparr>h_bodyReceived := x\<rparr>"
  show "inv_server (put i ?c s)" using I(1) by (simp add: inv_server_def split: if_splits)
  show "inv_pending (put i ?c s)" using I(2) by (fastforce simp: inv_pending_def split: if_splits)
  show "inv_handles (put i ?c s)" using I(4) by (simp add: inv_handles_def)
  show "inv_rows lib (put i ?c s)" using I(6) by (simp add: inv_rows_def row_inv_def)
  have "conn_inv s i ?c" using c by (simp add: conn_inv_def reading_def)
  then show "inv_conns (put i ?c s)" using I(5) by (auto simp: inv_conns_def)
  show "inv_uploads (put i ?c s)"
  proof (rule inv_uploads_put [OF I(3)])
    fix u assume "map_of (rs_uploads s) i = Some u"
    then have "upload_inv (put i c s) i u" using I(3) by (simp add: inv_uploads_def)
    then show "h_sink ?c = h_sink c \<and> h_maxBodyBytes ?c = h_maxBodyBytes c
      \<and> (reading ?c \<longrightarrow> reading c \<and> h_bodyReceived ?c = h_bodyReceived c)"
      using c by (auto simp: upload_inv_def)
  qed
qed

lemma rs_inv_ends: "rs_inv lib s \<Longrightarrow> rs_uploads s = [] \<Longrightarrow> rs_inv lib (s\<lparr>rs_sessionId := []\<rparr>)"
  by (auto simp: rs_inv_def inv_defs upload_inv_def conn_inv_def row_inv_def rows_def)

lemma pending_idle:
  assumes "inv_pending s" "pending_conn s \<noteq> None"
  shows "rs_pending s \<noteq> None" "rs_sessionId s = []" "rs_uploads s = []" "\<forall>f \<in> set (rows s). fe_status f \<noteq> FileDone"
proof -
  show p: "rs_pending s \<noteq> None" using assms(2) by (auto simp: pending_conn_def split: option.splits)
  with assms(1) show "rs_sessionId s = []" "\<forall>f \<in> set (rows s). fe_status f \<noteq> FileDone" by (auto simp: inv_pending_def)
  with assms(1) show "rs_uploads s = []" by (auto simp: inv_pending_def)
qed

lemma rs_inv_opens:
  assumes inv: "rs_inv lib s" and p: "pending_conn s \<noteq> None" and calm: "calm (s\<lparr>rs_sessionId := sid\<rparr>) s'"
    and released: "rs_pending s' = None"
  shows "rs_inv lib s'"
proof (rule rs_inv_calm)
  note idle = pending_idle [OF rs_invD(2) [OF inv] p]
  let ?t = "s\<lparr>rs_sessionId := sid, rs_pending := None\<rparr>"
  show "rs_inv lib ?t" using inv idle(3)
    by (auto simp: rs_inv_def inv_defs upload_inv_def conn_inv_def row_inv_def rows_def)
  show "calm ?t s'" using calm released by (simp add: calm_def disk_def rows_def)
qed

lemma rs_inv_servers:
  "rs_inv lib s \<Longrightarrow> sv_sockets sv = sv_sockets (rs_server s) \<Longrightarrow> sv_next sv = sv_next (rs_server s)
     \<Longrightarrow> sv_liveConnections sv = sv_liveConnections (rs_server s) \<Longrightarrow> rs_inv lib (s\<lparr>rs_server := sv\<rparr>)"
  by (auto simp: rs_inv_def inv_defs upload_inv_def conn_inv_def row_inv_def rows_def server_inv_def row_entry_def)

lemma rs_inv_set_file:
  assumes inv: "rs_inv lib s" and free: "\<And>i u. map_of (rs_uploads s) i = Some u \<Longrightarrow> up_partPath u \<noteq> p"
    and kept: "\<And>f. f \<in> set (rows s) \<Longrightarrow> fe_status f = FileDone \<Longrightarrow> localPath f \<noteq> p"
  shows "rs_inv lib (set_file p v s)"
proof (rule rs_invI)
  note I = rs_invD [OF inv]
  let ?s = "set_file p v s"
  show "inv_server ?s" "inv_pending ?s" "inv_handles ?s" "inv_conns ?s"
    using I(1,2,4,5) by (simp_all add: set_file_def inv_defs conn_inv_def rows_def)
  show "inv_rows lib ?s" using I(6) kept by (auto simp: set_file_def inv_rows_def row_inv_def rows_def)
  show "inv_uploads ?s"
    using I(3) free unfolding inv_uploads_def upload_inv_def by (simp add: set_file_def row_entry_def)
qed

lemma part_exists: "inv_uploads s \<Longrightarrow> map_of (rs_uploads s) i = Some u \<Longrightarrow> rs_files s (up_partPath u) \<noteq> None"
  by (erule (1) uploadD) simp

lemma rs_inv_appears:
  assumes inv: "rs_inv lib s" and "rs_files s p = None"
  shows "rs_inv lib (set_file p (Some b) s)"
proof (rule rs_inv_set_file [OF inv])
  show "up_partPath u \<noteq> p" if "map_of (rs_uploads s) i = Some u" for i u
    using part_exists [OF rs_invD(3) [OF inv] that] assms(2) by auto
  show "localPath f \<noteq> p" if "f \<in> set (rows s)" "fe_status f = FileDone" for f
    using rs_invD(6) [OF inv] assms(2) that by (auto simp: inv_rows_def row_inv_def)
qed

lemma rs_inv_probes:
  assumes inv: "rs_inv lib s" and p: "pending_conn s \<noteq> None"
  shows "rs_inv lib (set_file (dir @ probe_name) None s)"
  using pending_idle [OF rs_invD(2) [OF inv] p] by (intro rs_inv_set_file [OF inv]) auto

lemma rs_inv_conns:
  assumes inv: "rs_inv lib s" and sv: "inv_server s'"
    and s': "s' = s\<lparr>rs_conns := (rs_conns s)(i := x), rs_server := sv'\<rparr>"
    and i: "map_of (rs_uploads s) i = None" and p: "rs_pending s \<noteq> Some i" and x: "\<And>c. x = Some c \<Longrightarrow> h_sink c = None \<and> h_bodyReceived c = 0"
  shows "rs_inv lib s'"
proof (rule rs_invI)
  note I = rs_invD [OF inv]
  show "inv_server s'" by (rule sv)
  show "inv_pending s'" using I(2) p by (auto simp: s' inv_pending_def rows_def)
  show "inv_handles s'" using I(4) by (simp add: s' inv_handles_def)
  show "inv_rows lib s'" using I(6) by (simp add: s' inv_rows_def row_inv_def rows_def)
  show "inv_conns s'"
    unfolding inv_conns_def
  proof (intro allI impI)
    fix j c assume c: "rs_conns s' j = Some c"
    show "conn_inv s' j c"
    proof (cases "j = i")
      case True
      with c x show ?thesis by (simp add: s' conn_inv_def)
    next
      case False
      with c I(5) have "conn_inv s j c" by (simp add: s' inv_conns_def)
      then show ?thesis by (simp add: s' conn_inv_def)
    qed
  qed
  show "inv_uploads s'"
    unfolding inv_uploads_def
  proof (intro conjI allI impI)
    fix j u assume u: "map_of (rs_uploads s') j = Some u"
    then have "upload_inv s j u" "j \<noteq> i" using I(3) i by (auto simp: s' inv_uploads_def)
    then show "upload_inv s' j u" by (simp add: s' upload_inv_def row_entry_def)
  next
    fix j u k v assume "map_of (rs_uploads s') j = Some u" "map_of (rs_uploads s') k = Some v" "j \<noteq> k"
    then show "up_file u \<noteq> up_file v" "up_partPath u \<noteq> up_partPath v"
      using upload_distinct [OF I(3), of j u k v] by (simp_all add: s')
  qed
qed

lemma rs_inv_leaves:
  assumes inv: "rs_inv lib s" and i: "map_of (rs_uploads s) i = None" "rs_pending s \<noteq> Some i"
  shows "rs_inv lib (without i s)"
proof (rule rs_inv_conns [OF inv _ without_def i])
  have "map_of (sv_sockets (fst (server_step (ConnectionGone i) (rs_server s)))) j = map_of (sv_sockets (rs_server s)) j" if "j \<noteq> i" for j
    using that by (simp add: socket_destroyed_def delete_conv')
  then show "inv_server (without i s)"
    using rs_invD(1) [OF inv] server_step_inv [of "rs_server s" "ConnectionGone i"]
    by (auto simp: inv_server_def without_def split: if_splits)
qed simp

lemma rs_inv_arrives:
  assumes inv: "rs_inv lib s" and e: "net_event (rs_server s) e"
  shows "rs_inv lib (net_step env e addr cert s)"
proof -
  note I = rs_invD [OF inv]
  obtain sv a where st: "server_step e (rs_server s) = (sv, a)" by fastforce
  have sinv: "server_inv sv" using server_step_inv [of "rs_server s" e] I(1) st by (simp add: inv_server_def)
  have fresh_number: "map_of (sv_sockets (rs_server s)) (sv_next (rs_server s)) = None"
    using I(1) by (auto simp: inv_server_def server_inv_def list_all_iff map_of_eq_None_iff)
  have both: "(map_of (sv_sockets (rs_server s)) j = Some Adopted \<longrightarrow> map_of (sv_sockets sv) j = Some Adopted)
      \<and> (a = Some j \<longrightarrow> map_of (sv_sockets sv) j = Some Adopted \<and> map_of (sv_sockets (rs_server s)) j \<noteq> Some Adopted)" for j
  proof (cases e)
    case (Incoming now d)
    then show ?thesis using st fresh_number
      by (auto simp: incomingConnection_def track_def Let_def split: if_splits)
  next
    case (Encrypted i)
    then show ?thesis using st by (auto simp: onEncrypted_def update_conv' split: option.splits sock_phase.splits)
  next
    case (SocketError i)
    then show ?thesis using st e by (auto simp: socket_destroyed_def delete_conv' split: if_splits)
  next
    case (HandshakeTimeout now i)
    then show ?thesis using st
      by (auto simp: onHandshakeTimeout_def update_conv' split: option.splits sock_phase.splits if_splits)
  qed (use e in simp_all)
  then have old: "map_of (sv_sockets (rs_server s)) j = Some Adopted \<Longrightarrow> map_of (sv_sockets sv) j = Some Adopted"
    and fresh: "a = Some j \<Longrightarrow> map_of (sv_sockets sv) j = Some Adopted \<and> map_of (sv_sockets (rs_server s)) j \<noteq> Some Adopted" for j
    by blast+
  show ?thesis
  proof (cases a)
    case None
    have "inv_server (s\<lparr>rs_server := sv\<rparr>)" using I(1) sinv old by (simp add: inv_server_def)
    with inv have "rs_inv lib (s\<lparr>rs_server := sv\<rparr>)"
      by (auto simp: rs_inv_def inv_defs upload_inv_def conn_inv_def row_inv_def rows_def row_entry_def)
    then show ?thesis using e st None by (simp add: net_step_def)
  next
    case (Some i)
    let ?s = "s\<lparr>rs_conns := (rs_conns s)(i \<mapsto> new_HttpConnection (e_now env) addr cert), rs_server := sv\<rparr>"
    have none: "rs_conns s i = None" using fresh [OF Some] I(1) by (auto simp: inv_server_def)
    have "map_of (rs_uploads s) i = None"
    proof (rule ccontr)
      assume "map_of (rs_uploads s) i \<noteq> None"
      then obtain u where "map_of (rs_uploads s) i = Some u" by auto
      from uploadD [OF I(3) this] none show False by (metis option.distinct(1))
    qed
    moreover have "rs_pending s \<noteq> Some i" using I(2) none by (auto simp: inv_pending_def)
    moreover have "inv_server ?s" using I(1) sinv old fresh [OF Some] by (simp add: inv_server_def)
    ultimately have "rs_inv lib ?s" by (intro rs_inv_conns [OF inv _ refl]) (auto simp: new_HttpConnection_def)
    moreover have "net_step env e addr cert s = ?s" using e st Some by (cases s) (simp add: net_step_def)
    ultimately show ?thesis by simp
  qed
qed

section \<open>Requests and uploads begin\<close>

lemma rs_inv_begins:
  assumes inv: "rs_inv lib s" and idle: "rs_sessionId s = []" and c: "rs_conns s i = Some c"
    and rows: "list_all fresh_row entries"
  shows "rs_inv lib (begin_request now i peer entries s)"
proof (rule rs_invI)
  note I = rs_invD [OF inv]
  let ?s = "begin_request now i peer entries s"
  have files: "rows ?s = entries"
    by (simp add: begin_request_def on_transfer_def rows_def begin_transfer_def recomputeTotals_def)
  have none: "rs_uploads s = []" using I(2) idle by (auto simp: inv_pending_def)
  show "inv_server ?s" "inv_handles ?s" "inv_conns ?s"
    using I(1,4,5) by (simp_all add: begin_request_def on_transfer_def inv_defs conn_inv_def)
  show "inv_pending ?s"
    using none idle c rows files unfolding inv_pending_def
    by (auto simp: begin_request_def on_transfer_def list_all_iff fresh_row_def)
  show "inv_uploads ?s" using none by (simp add: inv_uploads_def begin_request_def on_transfer_def)
  show "inv_rows lib ?s" using rows unfolding inv_rows_def files by (auto simp: list_all_iff fresh_row_def row_inv_def)
qed

lemma stream_simps:
  "h_sink (streamBodyTo now k m c) = Some k" "h_maxBodyBytes (streamBodyTo now k m c) = m"
  "h_bodyReceived (streamBodyTo now k m c) = h_bodyReceived c" "h_bodyComplete (streamBodyTo now k m c) = h_bodyComplete c"
  "h_state (streamBodyTo now k m c) = ReadingHeaders \<Longrightarrow> h_state c = ReadingHeaders"
  by (simp_all add: streamBodyTo_def Let_def split: if_splits)

lemma start_simps [simp]:
  "rs_uploads (start_entry i row final s) = AList.update i \<lparr>up_row = row, up_file = rs_nextHandle s,
     up_partPath = final @ PartSuffix, up_finalPath = final\<rparr> (rs_uploads s)"
  "rs_handles (start_entry i row final s) = (rs_handles s)(rs_nextHandle s \<mapsto> \<lparr>hf_path = final @ PartSuffix, hf_hashed = []\<rparr>)"
  "rs_files (start_entry i row final s) = (rs_files s)(final @ PartSuffix \<mapsto> [])"
  "rs_nextHandle (start_entry i row final s) = Suc (rs_nextHandle s)" "rs_conns (start_entry i row final s) = rs_conns s"
  "rs_server (start_entry i row final s) = rs_server s" "rs_transfer (start_entry i row final s) = rs_transfer s"
  "rs_fault (start_entry i row final s) = rs_fault s" "rs_pending (start_entry i row final s) = rs_pending s"
  "rs_sessionId (start_entry i row final s) = rs_sessionId s" "rows (start_entry i row final s) = rows s"
  "row_entry (start_entry i row final s) = row_entry s"
  by (simp_all add: start_entry_def rows_def row_entry_def fun_eq_iff)

lemma rs_inv_starts:
  assumes inv: "rs_inv lib (put i c s)" and c: "h_state c = ReadingHeaders" "\<not> h_bodyComplete c"
    and session: "rs_sessionId s \<noteq> []" and row: "row_ok row (rs_transfer s)"
    and free: "rs_files s (final @ PartSuffix) = None"
  shows "rs_inv lib (put i (streamBodyTo now (rs_nextHandle s) (fe_size (row_entry s row)) (c\<lparr>h_state := ReadingBody\<rparr>))
    (start_entry i row final s))" (is "rs_inv lib (put i ?c ?s)")
proof (rule rs_invI)
  note I = rs_invD [OF inv]
  let ?k = "rs_nextHandle s"
  have ci: "conn_inv s i c" using I(5) by (simp add: inv_conns_def)
  then have fresh: "h_sink c = None" "h_bodyReceived c = 0" using c by (simp_all add: conn_inv_def)
  have none: "map_of (rs_uploads s) i = None"
  proof (rule ccontr)
    assume "map_of (rs_uploads s) i \<noteq> None"
    then obtain u where "map_of (rs_uploads s) i = Some u" by auto
    then have "upload_inv (put i c s) i u" using I(3) by (simp add: inv_uploads_def)
    then show False using fresh by (simp add: upload_inv_def)
  qed
  have dead: "rs_handles s ?k = None" using I(4) by (cases "rs_handles s ?k") (auto simp: inv_handles_def)
  have below: "up_file u < ?k" "up_partPath u \<noteq> final @ PartSuffix" if "map_of (rs_uploads s) j = Some u" for j u
  proof -
    have u: "map_of (rs_uploads (put i c s)) j = Some u" using that by simp
    show "up_file u < ?k" by (rule uploadD [OF I(3) u]) (use I(4) in \<open>simp add: inv_handles_def\<close>)
    show "up_partPath u \<noteq> final @ PartSuffix" using part_exists [OF I(3) u] free by auto
  qed
  have size: "0 \<le> fe_size (row_entry s row)"
    using I(6) row_okD [OF row] by (simp add: inv_rows_def row_inv_def rows_def row_entry_def)
  show "inv_server (put i ?c ?s)" using I(1) by (simp add: inv_server_def split: if_splits)
  show "inv_pending (put i ?c ?s)"
    using I(2) session unfolding inv_pending_def by (auto split: if_splits)
  show "inv_rows lib (put i ?c ?s)"
    using I(6) free below by (auto simp: inv_rows_def row_inv_def update_conv')
  have "k < rs_nextHandle (put i ?c ?s) \<and> (\<exists>j u. map_of (rs_uploads (put i ?c ?s)) j = Some u \<and> up_file u = k)"
    if k: "rs_handles (put i ?c ?s) k = Some f" for k f
  proof (cases "k = ?k")
    case True
    then show ?thesis by (auto simp: update_conv' intro!: exI [of _ i])
  next
    case False
    then have "rs_handles (put i c s) k = Some f" using k by simp
    then obtain j u where ju: "k < ?k" "map_of (rs_uploads s) j = Some u" "up_file u = k"
      using I(4) unfolding inv_handles_def put_simps by blast
    then have "j \<noteq> i" using none by auto
    with ju show ?thesis by (auto simp: update_conv' intro!: exI [of _ j])
  qed
  then show "inv_handles (put i ?c ?s)" using I(4) by (simp add: inv_handles_def)
  show "inv_conns (put i ?c ?s)"
    unfolding inv_conns_def
  proof (intro allI impI)
    fix j d assume d: "rs_conns (put i ?c ?s) j = Some d"
    show "conn_inv (put i ?c ?s) j d"
    proof (cases "j = i")
      case True
      then have "d = ?c" using d by simp
      then show ?thesis using True stream_simps(5) [of now ?k "fe_size (row_entry s row)" "c\<lparr>h_state := ReadingBody\<rparr>"]
        by (auto simp: conn_inv_def stream_simps(1-4) update_conv')
    next
      case False
      then have "conn_inv s j d" using d I(5) by (simp add: inv_conns_def)
      then show ?thesis using False dead by (auto simp: conn_inv_def update_conv')
    qed
  qed
  show "inv_uploads (put i ?c ?s)"
    unfolding inv_uploads_def
  proof (intro conjI allI impI)
    fix j u assume u: "map_of (rs_uploads (put i ?c ?s)) j = Some u"
    show "upload_inv (put i ?c ?s) j u"
    proof (cases "j = i")
      case True
      with u row size fresh show ?thesis by (auto simp: upload_inv_def update_conv' stream_simps)
    next
      case False
      with u have u': "map_of (rs_uploads s) j = Some u" by (simp add: update_conv')
      then have "upload_inv (put i c s) j u" using I(3) by (simp add: inv_uploads_def)
      then show ?thesis using False below [OF u'] unfolding upload_inv_def by auto
    qed
  next
    fix j u k v assume uv: "map_of (rs_uploads (put i ?c ?s)) j = Some u" "map_of (rs_uploads (put i ?c ?s)) k = Some v" "j \<noteq> k"
    have "up_file u \<noteq> up_file v \<and> up_partPath u \<noteq> up_partPath v"
    proof (cases "j = i \<or> k = i")
      case True
      then show ?thesis using uv below by (auto simp: update_conv' split: if_splits) (metis less_irrefl)+
    next
      case False
      then show ?thesis using uv upload_distinct [OF I(3), of j u k v] by (simp add: update_conv')
    qed
    then show "up_file u \<noteq> up_file v" "up_partPath u \<noteq> up_partPath v" by simp_all
  qed
qed

section \<open>Uploads grow\<close>

definition grow :: "nat \<Rightarrow> HashingFile \<Rightarrow> bytes \<Rightarrow> ReceiveService \<Rightarrow> ReceiveService" where
  "grow k f h s = s\<lparr>rs_files := (rs_files s)(hf_path f \<mapsto> h), rs_handles := (rs_handles s)(k \<mapsto> f\<lparr>hf_hashed := h\<rparr>)\<rparr>"

lemma grow_simps [simp]:
  "rs_files (grow k f h s) = (rs_files s)(hf_path f \<mapsto> h)" "rs_handles (grow k f h s) = (rs_handles s)(k \<mapsto> f\<lparr>hf_hashed := h\<rparr>)"
  "rs_uploads (grow k f h s) = rs_uploads s" "rs_conns (grow k f h s) = rs_conns s" "rs_server (grow k f h s) = rs_server s"
  "rs_transfer (grow k f h s) = rs_transfer s" "rs_nextHandle (grow k f h s) = rs_nextHandle s"
  "rs_fault (grow k f h s) = rs_fault s" "rs_pending (grow k f h s) = rs_pending s"
  "rs_sessionId (grow k f h s) = rs_sessionId s" "rows (grow k f h s) = rows s" "row_entry (grow k f h s) = row_entry s"
  by (simp_all add: grow_def rows_def row_entry_def fun_eq_iff)

lemma conn_inv_grow: "rs_handles s k \<noteq> None \<Longrightarrow> conn_inv (grow k f h s) j c = conn_inv s j c"
proof -
  assume "rs_handles s k \<noteq> None"
  then have "rs_handles (grow k f h s) x \<noteq> None \<longleftrightarrow> rs_handles s x \<noteq> None" for x by simp
  then show ?thesis unfolding conn_inv_def by (simp only: grow_simps)
qed

lemma conn_inv_less:
  "conn_inv s j c \<Longrightarrow> h_sink c' = h_sink c \<Longrightarrow> (reading c' \<Longrightarrow> reading c) \<Longrightarrow> h_state c' \<noteq> ReadingHeaders \<Longrightarrow> conn_inv s j c'"
  unfolding conn_inv_def by metis

lemma rs_inv_grow:
  assumes inv: "rs_inv lib (put i c s)" and u: "map_of (rs_uploads s) i = Some u" and f: "rs_handles s (up_file u) = Some f"
    and len: "int (length h) \<le> fe_size (row_entry s (up_row u))"
    and c': "h_sink c' = h_sink c" "h_maxBodyBytes c' = h_maxBodyBytes c" "h_state c' \<noteq> ReadingHeaders"
      "reading c' \<Longrightarrow> reading c \<and> h_bodyReceived c' = int (length h)"
  shows "rs_inv lib (put i c' (grow (up_file u) f h s))" (is "rs_inv lib (put i c' ?s)")
proof (rule rs_invI)
  note I = rs_invD [OF inv]
  have ui: "upload_inv (put i c s) i u" using I(3) u by (simp add: inv_uploads_def)
  then have path: "hf_path f = up_partPath u" using f by (simp add: upload_inv_def)
  show "inv_server (put i c' ?s)" using I(1) by (simp add: inv_server_def split: if_splits)
  show "inv_pending (put i c' ?s)" using I(2) by (fastforce simp: inv_pending_def split: if_splits)
  have "localPath g \<noteq> hf_path f" if "g \<in> set (rows s)" "fe_status g = FileDone" for g
    using done_path [OF I(6), of g i u] that u path by simp
  then show "inv_rows lib (put i c' ?s)" using I(6) by (simp add: inv_rows_def row_inv_def)
  show "inv_handles (put i c' ?s)" using I(4) f by (auto simp: inv_handles_def)
  have ci: "conn_inv s i c" using I(5) by (simp add: inv_conns_def)
  have "conn_inv s i c'" by (rule conn_inv_less [OF ci c'(1) _ c'(3)]) (use c'(4) in simp)
  then show "inv_conns (put i c' ?s)" using I(5) f by (auto simp: inv_conns_def conn_inv_grow split: if_splits)
  show "inv_uploads (put i c' ?s)"
    unfolding inv_uploads_def
  proof (intro conjI allI impI)
    fix j w assume "map_of (rs_uploads (put i c' ?s)) j = Some w"
    then have w: "map_of (rs_uploads (put i c s)) j = Some w" by simp
    then have wi: "upload_inv (put i c s) j w" using I(3) by (simp add: inv_uploads_def)
    show "upload_inv (put i c' ?s) j w"
    proof (cases "j = i")
      case True
      then have "w = u" using u w by simp
      then show ?thesis using True wi f path len c' by (auto simp: upload_inv_def)
    next
      case False
      then have "up_file w \<noteq> up_file u" "up_partPath w \<noteq> up_partPath u"
        using upload_distinct [OF I(3) w, of i u] u by simp_all
      then show ?thesis using False wi path by (auto simp: upload_inv_def)
    qed
  next
    fix j w k x assume "map_of (rs_uploads (put i c' ?s)) j = Some w" "map_of (rs_uploads (put i c' ?s)) k = Some x" "j \<noteq> k"
    then show "up_file w \<noteq> up_file x" "up_partPath w \<noteq> up_partPath x"
      using upload_distinct [OF I(3), of j w k x] by simp_all
  qed
qed

lemma rs_inv_writes:
  assumes inv: "rs_inv lib (put i c s)" and c: "reading c" "h_sink c = Some k" and data: "data \<noteq> []"
    and cap: "\<not> (h_maxBodyBytes c \<ge> 0 \<and> h_bodyReceived c + int (length data) > h_maxBodyBytes c)"
    and w: "writeData env k data s = (n, s')"
  shows "rs_inv lib (put i (if n = int (length data) then c\<lparr>h_bodyReceived := h_bodyReceived c + n\<rparr> else fail_with now 500 c) s')"
proof -
  note I = rs_invD [OF inv]
  have ci: "conn_inv s i c" using I(5) by (simp add: inv_conns_def)
  with c obtain f u where f: "rs_handles s k = Some f" and u: "map_of (rs_uploads s) i = Some u" "up_file u = k"
    unfolding conn_inv_def by blast
  have ui: "upload_inv (put i c s) i u" using I(3) u by (simp add: inv_uploads_def)
  then have path: "hf_path f = up_partPath u" and disk: "rs_files s (up_partPath u) = Some (hf_hashed f)"
    and got: "h_bodyReceived c = int (length (hf_hashed f))" and max: "h_maxBodyBytes c = fe_size (row_entry s (up_row u))"
    and row: "row_ok (up_row u) (rs_transfer s)"
    using f u c by (auto simp: upload_inv_def)
  let ?h = "hf_hashed f @ take (nat n) data"
  have n: "n = written_of env data" using w f by (simp add: writeData_def Let_def)
  have same: "s = grow k f (hf_hashed f) s" using f disk path by (simp add: grow_def map_upd_triv)
  have s': "s' = grow k f ?h s"
  proof (cases "n > 0")
    case True
    then show ?thesis using w f n path disk
      by (simp add: writeData_def Let_def grow_def set_file_def file_content_def)
  next
    case False
    then have "s' = s" using w f n by (simp add: writeData_def Let_def)
    then show ?thesis using False same by simp
  qed
  have "0 \<le> fe_size (row_entry s (up_row u))"
    using I(6) row_okD [OF row] by (simp add: inv_rows_def row_inv_def rows_def row_entry_def)
  then have len: "int (length ?h) \<le> fe_size (row_entry s (up_row u))"
    using cap got max n by (auto simp: written_of_def)
  have full: "int (length ?h) = h_bodyReceived c + n" if "n = int (length data)" using that got by simp
  show ?thesis
    unfolding s' u(2) [symmetric]
    by (rule rs_inv_grow [OF inv u(1) _ len])
      (use f u(2) c full in \<open>auto simp: reading_def\<close>)
qed

section \<open>Uploads are kept\<close>

lemma rs_inv_mark_done:
  assumes inv: "rs_inv lib s" and row: "row_ok row (rs_transfer s)" and stored: "rs_files s p = Some b"
    and good: "as_declared lib (row_entry s row) b" and idle: "rs_pending s = None"
    and free: "\<And>i u. map_of (rs_uploads s) i = Some u \<Longrightarrow> up_partPath u \<noteq> p"
  shows "rs_inv lib (set_status env row FileDone err (on_transfer (setFileLocalPath row p) s))" (is "rs_inv lib ?s")
proof (rule rs_invI)
  note I = rs_invD [OF inv]
  let ?tm = "setFileStatus (e_now env) row FileDone err (setFileLocalPath row p (rs_transfer s))"
  have s: "?s = s\<lparr>rs_transfer := ?tm\<rparr>" by (simp add: set_status_def on_transfer_def)
  have row': "row_ok row (setFileLocalPath row p (rs_transfer s))" using row by (simp add: setFileLocalPath_def row_ok_def)
  obtain g where files: "m_files ?tm = (rows s)[nat row := g]"
    and g: "fe_size g = fe_size (row_entry s row)" "sha256 g = sha256 (row_entry s row)" "localPath g = p"
    using setFileStatus_row [OF row', of "e_now env" FileDone err] row row_okD [OF row]
    by (simp add: setFileLocalPath_def rows_def row_entry_def)
  have ok: "row_ok r ?tm = row_ok r (rs_transfer s)" for r using files by (simp add: row_ok_def rows_def)
  have size: "fe_size (row_entry ?s r) = fe_size (row_entry s r)" for r
    using files g row_okD [OF row] unfolding s row_entry_def
    by (cases "nat r = nat row") (simp_all add: rows_def)
  show "inv_server ?s" "inv_handles ?s" "inv_conns ?s" using I(1,4,5) by (simp_all add: s inv_defs conn_inv_def)
  show "inv_pending ?s" using I(2) idle by (simp add: s inv_pending_def)
  show "inv_uploads ?s"
    using I(3) unfolding inv_uploads_def upload_inv_def size by (simp add: s ok)
  show "inv_rows lib ?s"
    unfolding inv_rows_def
  proof
    fix f assume "f \<in> set (rows ?s)"
    then have "f \<in> set ((rows s)[nat row := g])" using files by (simp add: s rows_def)
    then consider "f \<in> set (rows s)" | "f = g" using set_update_subset_insert [of "rows s" "nat row" g] by auto
    then show "row_inv lib ?s f"
    proof cases
      case 1
      then have "row_inv lib s f" using I(6) by (simp add: inv_rows_def)
      then show ?thesis by (simp add: s row_inv_def)
    next
      case 2
      have "0 \<le> fe_size g" using I(6) row_okD [OF row] g by (simp add: inv_rows_def row_inv_def rows_def row_entry_def)
      then show ?thesis using 2 g stored good free by (auto simp: s row_inv_def as_declared_def)
    qed
  qed
qed

lemma rs_inv_keeps:
  assumes inv: "rs_inv lib s" and u: "map_of (rs_uploads s) i = Some u"
    and still: "\<And>c. rs_conns s i = Some c \<Longrightarrow> \<not> reading c"
    and env: "e_lib env = lib" and acc: "accepted env u s"
  shows "rs_inv lib (keep_upload env i u s)"
proof -
  note I = rs_invD [OF inv]
  let ?b = "left_of env u s" and ?part = "up_partPath u" and ?final = "up_finalPath u"
  let ?d = "drop_upload i u (Some ?b) s"
  obtain f where f: "rs_handles s (up_file u) = Some f" "rs_files s ?part = Some (hf_hashed f)"
    and row: "row_ok (up_row u) (rs_transfer s)" and len: "int (length (hf_hashed f)) \<le> fe_size (row_entry s (up_row u))"
    by (rule uploadD [OF I(3) u]) blast
  have "fe_size (row_entry s (up_row u)) \<le> int (length ?b)" using acc by (simp add: accepted_def)
  then have b: "?b = hf_hashed f" and size: "int (length ?b) = fe_size (row_entry s (up_row u))"
    using len f by (auto simp: left_of_def file_content_def)
  have good: "as_declared lib (row_entry s (up_row u)) ?b"
    using acc size f env unfolding as_declared_def accepted_def b digest_of_def by auto
  have d: "rs_inv lib ?d" by (rule rs_inv_drop [OF inv u still])
  have idle: "rs_pending s = None" using I(2) u by (cases "rs_uploads s") (auto simp: inv_pending_def)
  have parts: "up_partPath w \<noteq> ?part" if "map_of (rs_uploads ?d) j = Some w" for j w
    using upload_distinct [OF I(3), of j w i u] u that by (auto split: if_splits)
  have rows: "localPath g \<noteq> ?part" if "g \<in> set (rows s)" "fe_status g = FileDone" for g
    using done_path [OF I(6) that u] .
  have there: "up_partPath w \<noteq> p" "g \<in> set (rows s) \<Longrightarrow> fe_status g = FileDone \<Longrightarrow> localPath g \<noteq> p"
    if "map_of (rs_uploads ?d) j = Some w" "rs_files ?d p = None" for j w g p
    using part_exists [OF rs_invD(3) [OF d] that(1)] rs_invD(6) [OF d] that(2) by (auto simp: inv_rows_def row_inv_def)
  show ?thesis
  proof (cases "e_rename env ?part ?final \<and> \<not> path_exists env (rs_files ?d) ?final")
    case True
    then have none: "rs_files ?d ?final = None" by (simp add: path_exists_def)
    then have ne: "?final \<noteq> ?part" by auto
    let ?s1 = "set_file ?part None (set_file ?final (Some ?b) ?d)"
    have "rs_inv lib (set_file ?final (Some ?b) ?d)" by (rule rs_inv_appears [OF d none])
    then have s1: "rs_inv lib ?s1"
    proof (rule rs_inv_set_file)
      show "up_partPath w \<noteq> ?part" if "map_of (rs_uploads (set_file ?final (Some ?b) ?d)) j = Some w" for j w
        using parts [of j w] that by (simp add: set_file_def)
      show "localPath g \<noteq> ?part" if "g \<in> set (Receive_Frame.rows (set_file ?final (Some ?b) ?d))" "fe_status g = FileDone" for g
        using rows [of g] that by (simp add: set_file_def rows_def)
    qed
    have free: "up_partPath w \<noteq> ?final" if "map_of (rs_uploads ?s1) j = Some w" for j w
    proof -
      have "map_of (rs_uploads ?d) j = Some w" using that by (simp add: set_file_def)
      then show ?thesis using there(1) none by blast
    qed
    have "keep_upload env i u s = set_status env (up_row u) FileDone [] (on_transfer (setFileLocalPath (up_row u) ?final) ?s1)"
      using True by (simp add: keep_upload_def rename_file_def)
    moreover have "rs_inv lib \<dots>"
    proof (rule rs_inv_mark_done [OF s1, of _ _ ?b])
      show "as_declared lib (row_entry ?s1 (up_row u)) ?b" using good by (simp add: set_file_def row_entry_def)
      show "up_partPath w \<noteq> ?final" if "map_of (rs_uploads ?s1) j = Some w" for j w by (rule free [OF that])
    qed (use row ne idle in \<open>simp_all add: set_file_def\<close>)
    ultimately show ?thesis by simp
  next
    case False
    then have "keep_upload env i u s = set_status env (up_row u) FileDone [] (on_transfer (setFileLocalPath (up_row u) ?part) ?d)"
      by (auto simp: keep_upload_def rename_file_def)
    moreover have "rs_inv lib \<dots>"
      by (rule rs_inv_mark_done [OF d, of _ _ ?b]) (use row good idle parts in \<open>auto simp: row_entry_def\<close>)
    ultimately show ?thesis by simp
  qed
qed

interpretation service: service_inv lib "rs_inv lib" for lib
proof (unfold_locales, goal_cases)
  case 1 then show ?case by (rule rs_inv_calm)
next
  case 2 then show ?case by (rule rs_inv_drop)
next
  case 3 then show ?case by (rule rs_inv_keeps)
next
  case 4 then show ?case by (rule part_exists [OF rs_invD(3)])
next
  case 5 then show ?case by (intro rs_inv_starts)
next
  case 6 then show ?case by (intro rs_inv_writes)
next
  case 7 then show ?case by (rule rs_inv_buffers)
next
  case 8 then show ?case by (rule rs_inv_moved)
next
  case 9 then show ?case by (intro rs_inv_begins)
next
  case 10 then show ?case by (rule rs_inv_probes)
next
  case 11 then show ?case by (rule rs_inv_opens)
next
  case 12 then show ?case by (rule rs_inv_ends)
next
  case 13 then show ?case by (rule rs_inv_arrives)
next
  case 14 then show ?case by (rule rs_inv_leaves)
next
  case 15 then show ?case by (rule rs_inv_appears)
next
  case 16 then show ?case by (rule rs_inv_servers)
qed

lemma rs_inv_new: "rs_inv lib (new_ReceiveService st r fs)"
  by (simp add: rs_inv_def inv_defs new_ReceiveService_def new_TransferModel_def rows_def server_inv_def
      new_HttpServer_def MaxConnections_def)

lemma fine_new: "all_fine (new_ReceiveService st r fs)"
  by (simp add: all_fine_def new_ReceiveService_def)

lemma rs_inv_run:
  "\<forall>(env, e) \<in> set evs. e_lib env = lib \<Longrightarrow> rs_inv lib (rs_run evs (new_ReceiveService st r fs))
     \<and> all_fine (rs_run evs (new_ReceiveService st r fs))"
  by (rule service.rs_run_keeps [OF rs_inv_new fine_new])

end
