(* ===== verification/Receive_Kept.thy ===== *)
theory Receive_Kept
  imports Receive_Safety
begin

text \<open>
  Two more invariants of the receiving service over the contract of \<open>Receive_Contract\<close>: files that
  are on the disk stay as they are, and no connection is answered twice.
\<close>

section \<open>Files that are there stay there\<close>

text \<open>
  \<open>K\<close> are the files to be kept. A path that ends like the write probe is not among them: the probe
  is deleted.
\<close>

definition kept :: "(qstring \<rightharpoonup> bytes) \<Rightarrow> ReceiveService \<Rightarrow> bool" where
  "kept K s \<longleftrightarrow> (\<forall>p b. K p = Some b \<longrightarrow> rs_files s p = Some b \<and> (\<forall>dir. p \<noteq> dir @ probe_name))
     \<and> (\<forall>i u. map_of (rs_uploads s) i = Some u \<longrightarrow> K (up_partPath u) = None)"

lemma kept_disk:
  assumes "kept K s" "rs_uploads s' = rs_uploads s" "rs_files s' = rs_files s"
  shows "kept K s'"
  using assms by (simp add: kept_def)

lemma kept_set_file: "kept K s \<Longrightarrow> K p = None \<Longrightarrow> kept K (set_file p v s)"
  by (auto simp: kept_def set_file_def)

lemma kept_drop: "kept K s \<Longrightarrow> map_of (rs_uploads s) i = Some u \<Longrightarrow> kept K (drop_upload i u v s)"
  by (auto simp: kept_def split: if_splits)

lemma kept_keep:
  assumes K: "kept K s" and u: "map_of (rs_uploads s) i = Some u"
  shows "kept K (keep_upload env i u s)"
proof -
  let ?d = "drop_upload i u (Some (left_of env u s)) s"
  have d: "kept K ?d" by (rule kept_drop [OF K u])
  have part: "K (up_partPath u) = None" using K u by (simp add: kept_def)
  obtain r s1 where r: "rename_file env (up_partPath u) (up_finalPath u) ?d = (r, s1)" by fastforce
  have "kept K s1"
  proof (cases "rs_files ?d (up_finalPath u) = None")
    case True
    then have "K (up_finalPath u) = None" using d by (cases "K (up_finalPath u)") (auto simp: kept_def)
    then have "kept K (set_file (up_partPath u) None (set_file (up_finalPath u) v ?d))" for v
      by (intro kept_set_file d part)
    with d r show ?thesis by (auto simp: rename_file_def split: if_splits)
  next
    case False
    with d r show ?thesis by (auto simp: rename_file_def path_exists_def split: if_splits)
  qed
  then show ?thesis
    unfolding keep_upload_def r by (auto intro: kept_disk simp: set_status_def on_transfer_def)
qed

lemma kept_start:
  assumes "kept K s" "rs_files s (final @ PartSuffix) = None"
  shows "kept K (put i c (start_entry i row final s))"
proof -
  have "K (final @ PartSuffix) = None" using assms by (cases "K (final @ PartSuffix)") (auto simp: kept_def)
  with assms(1) show ?thesis by (auto simp: kept_def update_conv')
qed

lemma kept_put [simp]: "kept K (put i c s) = kept K s"
  by (simp add: kept_def)

lemma kept_writes:
  assumes inv: "rs_inv lib (put i c s)" and K: "kept K s" and c: "reading c" "h_sink c = Some k"
    and w: "writeData env k data s = (n, s')"
  shows "kept K s'"
proof -
  have "conn_inv s i c" using rs_invD(5) [OF inv] by (simp add: inv_conns_def)
  with c obtain f u where f: "rs_handles s k = Some f" and u: "map_of (rs_uploads s) i = Some u" "up_file u = k"
    unfolding conn_inv_def by blast
  have "upload_inv (put i c s) i u" using rs_invD(3) [OF inv] u by (simp add: inv_uploads_def)
  then have "hf_path f = up_partPath u" using f u by (simp add: upload_inv_def)
  then have path: "K (hf_path f) = None" using K u by (simp add: kept_def)
  have "kept K (set_file (hf_path f) v s)" for v by (rule kept_set_file [OF K path])
  then have "kept K ((set_file (hf_path f) v s)\<lparr>rs_handles := h\<rparr>)" for v h by (rule kept_disk) simp_all
  then show ?thesis using w f K by (auto simp: writeData_def Let_def split: if_splits)
qed

interpretation keeping: service_inv lib "\<lambda>s. rs_inv lib s \<and> kept K s" for lib K
proof (unfold_locales, goal_cases)
  case (1 s s') then show ?case using calm_disk [of s s'] by (auto intro: service.calm_keeps kept_disk)
next
  case (2 s i u) then show ?case by (auto intro: service.drops kept_drop)
next
  case (3 s i u env) then show ?case by (auto intro: service.keeps kept_keep)
next
  case (4 s i u) then show ?case by (intro service.on_disk [of lib]) auto
next
  case (5 i c s row final now)
  have "kept K s" using 5(1) by simp
  from service.starts [OF conjunct1 [OF 5(1)] 5(2-7)] kept_start [OF this 5(7)] show ?case by simp
next
  case (6 i c s k data env n s' now)
  then have "kept K s'" using kept_writes [OF conjunct1 [OF 6(1)] _ 6(2,3,6)] by simp
  with service.writes [OF conjunct1 [OF 6(1)] 6(2-6)] show ?case by simp
next
  case (7 i c s x) then show ?case by (intro conjI service.buffers) auto
next
  case (8 i c s c') then show ?case by (auto intro: service.moved)
next
  case (9 s i c entries now peer)
  have "kept K (begin_request now i peer entries s)"
    by (rule kept_disk [OF conjunct2 [OF 9(1)]]) (simp_all add: begin_request_def on_transfer_def)
  with service.begins [OF conjunct1 [OF 9(1)] 9(2-5)] show ?case by simp
next
  case (10 s dir)
  then have "K (dir @ probe_name) = None" by (cases "K (dir @ probe_name)") (auto simp: kept_def)
  with 10 show ?case by (auto intro: service.probes kept_set_file)
next
  case (11 s sid s')
  then have "kept K s'" using calm_disk [OF 11(3)] by (auto intro: kept_disk)
  with 11 show ?case by (auto intro: service.opens)
next
  case (12 s) then show ?case by (auto intro: service.ends kept_disk)
next
  case (13 s e env addr cert)
  then have "kept K (net_step env e addr cert s)"
    by (auto intro!: kept_disk [of K s] simp: net_step_def Let_def split: prod.split option.split)
  with 13 show ?case by (auto intro: service.arrives)
next
  case (14 s i)
  have "kept K (without i s)" by (rule kept_disk [OF conjunct2 [OF 14(1)]]) (simp_all add: without_def)
  with 14 show ?case by (auto intro: service.leaves)
next
  case (15 s p b)
  then have "K p = None" by (cases "K p") (auto simp: kept_def)
  with 15 show ?case by (auto intro: service.appears kept_set_file)
next
  case (16 s sv) then show ?case by (auto intro: service.servers kept_disk)
qed

section \<open>No connection is answered twice\<close>

definition answered_ok :: "ReceiveService \<Rightarrow> bool" where
  "answered_ok s \<longleftrightarrow> (\<forall>i c. rs_conns s i = Some c \<longrightarrow> answered_once c)"

lemma answered_ok_conns: "answered_ok s \<Longrightarrow> rs_conns s' = rs_conns s \<Longrightarrow> answered_ok s'"
  by (simp add: answered_ok_def)

lemma answered_ok_api:
  assumes "answered_ok s" "api_rel s s'"
  shows "answered_ok s'"
  unfolding answered_ok_def
proof (intro allI impI)
  fix i c assume c: "rs_conns s' i = Some c"
  have "rel_option via_api (rs_conns s i) (rs_conns s' i)" using assms(2) by (simp add: api_rel_def)
  with c assms(1) show "answered_once c" by (auto simp: option_rel_Some2 answered_ok_def intro: answered_once_api)
qed

lemma answered_put: "answered_ok (put i c s) \<Longrightarrow> (answered_once c \<Longrightarrow> answered_once c') \<Longrightarrow> rs_conns s' = rs_conns s
    \<Longrightarrow> answered_ok (put i c' s')"
  by (auto simp: answered_ok_def split: if_splits)

lemma answered_moves: "moves c c' \<Longrightarrow> answered_once c \<Longrightarrow> answered_once c'"
  by (auto simp: moves_def answered_once_def)

interpretation answering: service_inv lib "\<lambda>s. rs_inv lib s \<and> answered_ok s" for lib
proof (unfold_locales, goal_cases)
  case (1 s s') then show ?case by (auto intro: service.calm_keeps answered_ok_api calm_api)
next
  case (2 s i u) then show ?case by (auto intro: service.drops answered_ok_conns)
next
  case (3 s i u env)
  have "rs_conns (keep_upload env i u s) = rs_conns s"
    by (simp add: keep_upload_def rename_file_def)
  with 3 show ?case by (auto intro: service.keeps answered_ok_conns)
next
  case (4 s i u) then show ?case by (intro service.on_disk [of lib]) auto
next
  case (5 i c s row final now)
  have "answered_once (streamBodyTo now k m (c\<lparr>h_state := ReadingBody\<rparr>))" if "answered_once c" for k m
    by (rule answered_once_stream) (use that 5(2) in \<open>simp add: answered_once_def answers_def\<close>)
  then have "answered_ok (put i (streamBodyTo now (rs_nextHandle s) (fe_size (row_entry s row)) (c\<lparr>h_state := ReadingBody\<rparr>))
      (start_entry i row final s))"
    by (rule answered_put [OF conjunct2 [OF 5(1)]]) simp_all
  with service.starts [OF conjunct1 [OF 5(1)] 5(2-7)] show ?case by simp
next
  case (6 i c s k data env n s' now)
  have "answered_ok (put i (if n = int (length data) then c\<lparr>h_bodyReceived := h_bodyReceived c + n\<rparr> else fail_with now 500 c) s')"
  proof (rule answered_put [OF conjunct2 [OF 6(1)]])
    show "rs_conns s' = rs_conns s" using 6(6) conns_updates(9) [of env k data s] by simp
    assume "answered_once c"
    then have "answered_once (c\<lparr>h_bodyReceived := x\<rparr>)" for x by (simp add: answered_once_def answers_def)
    with \<open>answered_once c\<close> show "answered_once (if n = int (length data) then c\<lparr>h_bodyReceived := h_bodyReceived c + n\<rparr> else fail_with now 500 c)"
      by (simp add: fail_with_def respond_status_def answered_once_respond)
  qed
  with service.writes [OF conjunct1 [OF 6(1)] 6(2-6)] show ?case by simp
next
  case (7 i c s x)
  have "answered_ok (put i (c\<lparr>h_bodyReceived := x\<rparr>) s)"
    by (rule answered_put [OF conjunct2 [OF 7(1)]]) (simp_all add: answered_once_def answers_def)
  with 7 show ?case by (intro conjI service.buffers) auto
next
  case (8 i c s c')
  have "answered_ok (put i c' s)"
    by (rule answered_put [OF conjunct2 [OF 8(1)]]) (simp_all add: answered_moves [OF 8(2)])
  with 8 show ?case by (auto intro: service.moved)
next
  case (9 s i c entries now peer)
  have "answered_ok (begin_request now i peer entries s)"
    by (rule answered_ok_conns [OF conjunct2 [OF 9(1)]]) (simp_all add: begin_request_def on_transfer_def)
  with service.begins [OF conjunct1 [OF 9(1)] 9(2-5)] show ?case by simp
next
  case (10 s dir) then show ?case by (auto intro: service.probes answered_ok_conns)
next
  case (11 s sid s')
  have "answered_ok (s\<lparr>rs_sessionId := sid\<rparr>)" using 11(1) by (auto intro: answered_ok_conns)
  then have "answered_ok s'" by (rule answered_ok_api) (rule calm_api [OF 11(3)])
  with 11 show ?case by (auto intro: service.opens)
next
  case (12 s) then show ?case by (auto intro: service.ends answered_ok_conns)
next
  case (13 s e env addr cert)
  then have "answered_ok (net_step env e addr cert s)"
    by (auto simp: answered_ok_def net_step_def Let_def new_HttpConnection_def answered_once_def answers_def
        split: prod.splits option.splits if_splits)
  with 13 show ?case by (auto intro: service.arrives)
next
  case (14 s i)
  then have "answered_ok (without i s)" by (auto simp: answered_ok_def without_def split: if_splits)
  with 14 show ?case by (auto intro: service.leaves)
next
  case (15 s p b) then show ?case by (auto intro: service.appears answered_ok_conns)
next
  case (16 s sv) then show ?case by (auto intro: service.servers answered_ok_conns)
qed

end
