(* ===== verification/Receive_Demo.thy ===== *)
theory Receive_Demo
  imports Receive_Kept
begin

text \<open>
  One transfer from beginning to end, evaluated: the server starts, a peer asks to send the file
  \<open>a\<close> of three bytes, quick save accepts, a second connection uploads it in two packets. Every
  parameter of the model is a concrete function. \<open>/d/b\<close> was on the disk before.
\<close>

definition demo_target :: "bytes \<Rightarrow> qstring \<times> (qstring \<times> qstring) list" where
  "demo_target t = (if t = bs ''p'' then (endpoint PathPrepareUpload, [])
     else (endpoint PathUpload, [(qs ''sessionId'', qs ''aa''), (qs ''fileId'', qs ''f''), (qs ''token'', qs ''aa'')]))"

definition demo_offer :: json where
  "demo_offer = JObject [(qs ''info'', JObject [(qs ''alias'', JString (qs ''Ann''))]),
     (qs ''files'', JObject [(qs ''f'', JObject [(qs ''fileName'', JString (qs ''a'')), (qs ''size'', JDouble 3)])])]"

definition demo_env :: recv_env where
  "demo_env = \<lparr>e_lib = ascii_qt, e_net = \<lparr>u_target = demo_target, j_text = (\<lambda>_. []), j_parse = (\<lambda>_. Some demo_offer)\<rparr>,
     e_ev = \<lparr>e_pbkdf2 = (\<lambda>_ _ _ _. None), e_seal = (\<lambda>_ _ _. None), e_open = (\<lambda>_ _ _ _. None)\<rparr>,
     e_sys = \<lparr>s_downloads = [], s_home = [], s_appData = [], s_hwRelease = None, s_productName = [], s_toLocalFile = (\<lambda>s. s)\<rparr>,
     e_now = 0, e_wall = 0, e_tr = (\<lambda>s _. qs s), e_listen = Inr, e_mkpath = (\<lambda>_. True), e_isDir = (\<lambda>_. False),
     e_mayOpen = (\<lambda>_. True), e_write = (\<lambda>b. int (length b)), e_lost = 0, e_rename = (\<lambda>_ _. True)\<rparr>"

definition demo_settings :: AppSettings where
  "demo_settings = \<lparr>as_values = [(KeyQuickSave, VBool True), (KeyDestination, VString (qs ''/d'')), (KeySecureTransport, VBool False)],
     as_deviceModel = [], as_randomFingerprint = qs ''AA'', as_identity = new_Certificate, as_transportError = [], as_signals = []\<rparr>"

definition demo_rng :: rng where
  "demo_rng = \<lparr>r_source = (\<lambda>_ _. Some [170]), r_calls = 0, r_seen = True\<rparr>"

definition demo_files :: "qstring \<rightharpoonup> bytes" where
  "demo_files = [qs ''/d/b'' \<mapsto> bs ''x'']"

definition demo_new :: ReceiveService where
  "demo_new = new_ReceiveService demo_settings demo_rng demo_files"

definition demo_begin :: "(recv_env \<times> rs_event) list" where
  "demo_begin = [(demo_env, StartListening), (demo_env, Net (Incoming 0 True) (qs ''h'') []),
     (demo_env, Conn 0 (Readable 0 (bs ''P p'' @ crlf @ crlf))),
     (demo_env, Net (Incoming 0 True) (qs ''h'') []),
     (demo_env, Conn 1 (Readable 0 (bs ''P u'' @ crlf @ bs ''Content-Length:3'' @ crlf @ crlf @ bs ''a'')))]"

definition demo_end :: "(recv_env \<times> rs_event) list" where
  "demo_end = [(demo_env, Conn 1 (Readable 0 (bs ''bc'')))]"

definition demo_seen :: "ReceiveService \<Rightarrow> (FileStatus \<times> qstring \<times> int) list \<times> (nat \<times> Upload) list \<times> bytes option \<times> nat option" where
  "demo_seen s = (map (\<lambda>f. (fe_status f, localPath f, fe_size f)) (m_files (rs_transfer s)), rs_uploads s,
     rs_files s (qs ''/d/a''), map_option answers (rs_conns s 1))"

text \<open>Both in one evaluation: \<open>demo_then\<close> is given the state as a value.\<close>

definition demo_then :: "ReceiveService \<Rightarrow> ((FileStatus \<times> qstring \<times> int) list \<times> (nat \<times> Upload) list \<times> bytes option \<times> nat option)
    \<times> ((FileStatus \<times> qstring \<times> int) list \<times> (nat \<times> Upload) list \<times> bytes option \<times> nat option)" where
  "demo_then s = (demo_seen s, demo_seen (rs_run demo_end s))"

lemma demo_both: "demo_then (rs_run demo_begin demo_new) =
    (([(FileTransferring, [], 3)],
      [(1, \<lparr>up_row = 0, up_file = 0, up_partPath = qs ''/d/a.part'', up_finalPath = qs ''/d/a''\<rparr>)], None, Some 0),
     ([(FileDone, qs ''/d/a'', 3)], [], Some (bs ''abc''), Some 1))"
  by code_simp

lemma rs_run_append: "rs_run (xs @ ys) s = rs_run ys (rs_run xs s)"
  by (simp add: rs_run_def)

lemma demo_midway:
  "demo_seen (rs_run demo_begin demo_new) =
     ([(FileTransferring, [], 3)],
      [(1, \<lparr>up_row = 0, up_file = 0, up_partPath = qs ''/d/a.part'', up_finalPath = qs ''/d/a''\<rparr>)], None, Some 0)"
  using demo_both by (simp add: demo_then_def)

lemma demo_outcome:
  "demo_seen (rs_run (demo_begin @ demo_end) demo_new) =
     ([(FileDone, qs ''/d/a'', 3)], [], Some (bs ''abc''), Some 1)"
  using demo_both by (simp add: demo_then_def rs_run_append)

end
