(* ===== verification/Receive_Claims.thy ===== *)
theory Receive_Claims
  imports Receive_Demo
begin

text \<open>
  What the receiving service promises over whole runs: the claims are the invariants of
  \<open>Receive_Safety\<close> and \<open>Receive_Kept\<close>, applied to the reachable states.
\<close>

lemma demo_lib: "\<forall>(env, e) \<in> set (demo_begin @ demo_end). e_lib env = ascii_qt" "\<forall>(env, e) \<in> set demo_begin. e_lib env = ascii_qt"
  by (simp_all add: demo_begin_def demo_end_def demo_env_def)

lemma demo_new_eq: "demo_new = new_ReceiveService demo_settings demo_rng demo_files"
  by (simp add: demo_new_def)

section \<open>What arrives\<close>

text \<open>
  C1. A file that a session shows as done is the file that was announced: in every reachable state the
  path recorded for it holds a file of exactly the announced size, and when the sender gave a
  SHA-256 digest the file has that digest. This covers parallel uploads of the same file, short
  writes, writes lost on closing, failed renames and cancelled sessions.
\<close>

theorem received_file_is_as_declared:
  assumes "\<forall>(env, e) \<in> set evs. e_lib env = lib" and "s = rs_run evs (new_ReceiveService st r fs)"
    and "f \<in> set (m_files (rs_transfer s))" and "fe_status f = FileDone"
  shows "\<exists>b. rs_files s (localPath f) = Some b \<and> int (length b) = fe_size f
    \<and> (looksLikeSha256 (sha256 f) \<longrightarrow> equalsFold lib (to_hex (q_sha256 lib b)) (sha256 f))"
proof -
  have "inv_rows lib s" using rs_inv_run [OF assms(1), of st r fs] assms(2) by (simp add: rs_inv_def)
  then have "row_inv lib s f" using assms(3) by (simp add: inv_rows_def rows_def)
  then show ?thesis using assms(4) by (auto simp: row_inv_def as_declared_def)
qed

theorem received_file_is_as_declared_witness:
  "\<exists>f b. f \<in> set (m_files (rs_transfer (rs_run (demo_begin @ demo_end) demo_new))) \<and> localPath f = qs ''/d/a''
     \<and> rs_files (rs_run (demo_begin @ demo_end) demo_new) (qs ''/d/a'') = Some b \<and> length b = 3"
proof -
  let ?s = "rs_run (demo_begin @ demo_end) demo_new"
  obtain f where f: "f \<in> set (m_files (rs_transfer ?s))" "fe_status f = FileDone" "localPath f = qs ''/d/a''" "fe_size f = 3"
    using demo_outcome by (auto simp: demo_seen_def map_eq_Cons_conv)
  from received_file_is_as_declared [OF demo_lib(1) _ f(1,2), of demo_settings demo_rng demo_files] f
  show ?thesis by (auto simp: demo_new_eq)
qed

text \<open>
  C3. But for two kinds, no file on the disk is overwritten, shortened or deleted: from any reachable state
  on, a file keeps its content through every run, whatever the peers send and the person does. The two
  kinds are the unfinished files of the uploads running in that state, and the files named
  \<open>.localsend-write-test\<close>, which the service deletes (\<open>received_probe_is_deleted\<close>).
\<close>

theorem existing_files_survive:
  assumes "\<forall>(env, e) \<in> set (evs @ later). e_lib env = lib" and "s = rs_run evs (new_ReceiveService st r fs)"
    and "rs_files s p = Some b" and "\<forall>dir. p \<noteq> dir @ probe_name"
    and "\<forall>i u. map_of (rs_uploads s) i = Some u \<longrightarrow> up_partPath u \<noteq> p"
  shows "rs_files (rs_run later s) p = Some b"
proof -
  have "rs_inv lib s \<and> all_fine s" unfolding assms(2) by (rule rs_inv_run) (use assms(1) in auto)
  moreover have "kept [p \<mapsto> b] s" using assms(3-5) by (auto simp: kept_def)
  moreover have "\<forall>(env, e) \<in> set later. e_lib env = lib" using assms(1) by auto
  ultimately have "kept [p \<mapsto> b] (rs_run later s)"
    using keeping.rs_run_keeps [where lib = lib and K = "[p \<mapsto> b]" and s = s and evs = later] by blast
  then show ?thesis by (simp add: kept_def)
qed

theorem existing_files_survive_witness:
  "rs_files (rs_run (demo_begin @ demo_end) demo_new) (qs ''/d/b'') = Some (bs ''x'')"
proof (rule existing_files_survive [of "[]" "demo_begin @ demo_end" ascii_qt demo_new demo_settings demo_rng demo_files])
  show "\<forall>dir. qs ''/d/b'' \<noteq> dir @ probe_name"
  proof
    fix dir show "qs ''/d/b'' \<noteq> dir @ probe_name"
    proof
      assume "qs ''/d/b'' = dir @ probe_name"
      then have "length (qs ''/d/b'') = length dir + length probe_name" by simp
      then show False by (simp add: probe_name_def)
    qed
  qed
qed (use demo_lib in \<open>simp_all add: rs_run_def demo_new_def new_ReceiveService_def demo_files_def\<close>)

text \<open>
  C9. While an upload runs its file is the part file, it holds no more than the size the person agreed
  to, the row it belongs to exists, and there is a session.
\<close>

theorem running_upload_within_size:
  assumes "\<forall>(env, e) \<in> set evs. e_lib env = lib" and "s = rs_run evs (new_ReceiveService st r fs)"
    and "map_of (rs_uploads s) i = Some u"
  shows "\<exists>b. rs_files s (up_partPath u) = Some b \<and> int (length b) \<le> fe_size (row_entry s (up_row u))
    \<and> row_ok (up_row u) (rs_transfer s) \<and> rs_sessionId s \<noteq> []"
proof -
  have inv: "rs_inv lib s" using rs_inv_run [OF assms(1), of st r fs] assms(2) by simp
  have "rs_sessionId s \<noteq> []" using rs_invD(2) [OF inv] assms(3) by (cases "rs_uploads s") (auto simp: inv_pending_def)
  then show ?thesis by (auto intro: uploadD [OF rs_invD(3) [OF inv] assms(3)])
qed

theorem running_upload_within_size_witness:
  "\<exists>b. rs_files (rs_run demo_begin demo_new) (qs ''/d/a.part'') = Some b \<and> length b \<le> 3"
proof -
  let ?s = "rs_run demo_begin demo_new"
  let ?u = "\<lparr>up_row = 0, up_file = 0, up_partPath = qs ''/d/a.part'', up_finalPath = qs ''/d/a''\<rparr>"
  have u: "map_of (rs_uploads ?s) 1 = Some ?u" using demo_midway by (simp add: demo_seen_def)
  have "fe_size (row_entry ?s 0) = 3"
    using demo_midway by (auto simp: demo_seen_def row_entry_def map_eq_Cons_conv)
  with running_upload_within_size [OF demo_lib(2) _ u, of demo_settings demo_rng demo_files]
  show ?thesis by (auto simp: demo_new_eq)
qed

text \<open>
  C15. Nothing is ever written through a file that has been closed and deleted, every open file belongs
  to a running upload, and between sessions no file is open: the pointers kept by the connections
  and the upload table never dangle.
\<close>

theorem no_write_after_close:
  assumes "\<forall>(env, e) \<in> set evs. e_lib env = lib" and "s = rs_run evs (new_ReceiveService st r fs)"
  shows "\<not> rs_fault s \<and> (rs_sessionId s = [] \<longrightarrow> rs_uploads s = [] \<and> rs_handles s = Map.empty)
    \<and> (\<forall>k \<in> dom (rs_handles s). \<exists>i u. map_of (rs_uploads s) i = Some u \<and> up_file u = k)"
proof -
  have inv: "rs_inv lib s" using rs_inv_run [OF assms(1), of st r fs] assms(2) by simp
  have h: "\<not> rs_fault s" "\<forall>k \<in> dom (rs_handles s). \<exists>i u. map_of (rs_uploads s) i = Some u \<and> up_file u = k"
    using rs_invD(4) [OF inv] by (auto simp: inv_handles_def)
  moreover have "rs_uploads s = []" if "rs_sessionId s = []"
    using rs_invD(2) [OF inv] that by (auto simp: inv_pending_def)
  moreover from this h(2) have "rs_handles s = Map.empty" if "rs_sessionId s = []"
    using that by (auto simp: fun_eq_iff dom_def)
  ultimately show ?thesis by blast
qed

theorem no_write_after_close_witness: "\<not> rs_fault (rs_run (demo_begin @ demo_end) demo_new)"
  using no_write_after_close [OF demo_lib(1) refl, of demo_settings demo_rng demo_files] by (simp add: demo_new_eq)

section \<open>Answers\<close>

text \<open>
  C16. Over any run of the whole service every connection is answered at most once, also when a session
  that ends answers the connections of others.
\<close>

theorem answered_at_most_once:
  assumes "\<forall>(env, e) \<in> set evs. e_lib env = lib"
    and "rs_conns (rs_run evs (new_ReceiveService st r fs)) i = Some c"
  shows "answers c \<le> 1"
proof -
  let ?n = "new_ReceiveService st r fs"
  have "answered_ok ?n" by (simp add: answered_ok_def new_ReceiveService_def)
  with answering.rs_run_keeps [of lib ?n evs] rs_inv_new [of lib st r fs] fine_new [of st r fs] assms(1)
  have "answered_ok (rs_run evs ?n)" by blast
  with assms(2) show ?thesis by (auto simp: answered_ok_def answered_once_def)
qed

theorem answered_at_most_once_witness:
  "\<exists>c. rs_conns (rs_run (demo_begin @ demo_end) demo_new) 1 = Some c \<and> answers c \<le> 1"
proof -
  obtain c where "rs_conns (rs_run (demo_begin @ demo_end) demo_new) 1 = Some c"
    using demo_outcome by (auto simp: demo_seen_def)
  with answered_at_most_once [OF demo_lib(1), of demo_settings demo_rng demo_files] show ?thesis
    by (auto simp: demo_new_eq)
qed

text \<open>How often connection \<open>i\<close> hands its request over in a sequence of events.\<close>

definition count_requests :: "recv_env \<Rightarrow> nat \<Rightarrow> conn_event list \<Rightarrow> int \<Rightarrow> qstring \<Rightarrow> bytes \<Rightarrow> ReceiveService \<Rightarrow> nat" where
  "count_requests env i es now addr cert s = snd (snd (fold (conn_step (e_lib env) (e_net env) (counted (rs_slots env i))) es
     (new_HttpConnection now addr cert, s, 0)))"

text \<open>
  C17. A connection hands its request to the service at most once, whatever arrives on the socket and
  however its timers fire.
\<close>

theorem request_handled_once: "count_requests env i es now addr cert s \<le> 1"
proof -
  have "delivered_once (new_HttpConnection now addr cert) (s, 0)" by (simp add: delivered_once_def new_HttpConnection_def)
  from receive.delivered_at_most_once [OF this, of "e_lib env" "e_net env" env i es]
  show ?thesis by (simp add: count_requests_def delivered_once_def split: if_splits)
qed

end
