(* ===== verification/Receive_Waiting.thy ===== *)
theory Receive_Waiting
  imports Receive_Claims
begin

text \<open>
  Nothing waits for ever: while a request is on screen the accept timer runs, while a session is
  open the idle timer runs, and each ends what it watches when it expires.
\<close>

section \<open>The timers run\<close>

definition in_time :: "int \<Rightarrow> ReceiveService \<Rightarrow> bool" where
  "in_time T s \<longleftrightarrow> (\<forall>t. rs_idleTimer s = Some t \<longrightarrow> t \<le> T + SessionIdleMs) \<and> (\<forall>t. rs_acceptTimer s = Some t \<longrightarrow> t \<le> T + AcceptTimeoutMs)"

definition waits :: "int \<Rightarrow> ReceiveService \<Rightarrow> bool" where
  "waits T s \<longleftrightarrow> (rs_sessionId s \<noteq> [] \<longrightarrow> rs_idleTimer s \<noteq> None) \<and> (rs_pending s \<noteq> None \<longrightarrow> rs_acceptTimer s \<noteq> None)
     \<and> in_time T s"

definition clock :: "ReceiveService \<Rightarrow> qstring \<times> int option \<times> nat option \<times> int option" where
  "clock s = (rs_sessionId s, rs_idleTimer s, rs_pending s, rs_acceptTimer s)"

lemma waits_clock: "clock s' = clock s \<Longrightarrow> waits T s' = waits T s"
  by (simp add: clock_def waits_def in_time_def)

lemma clock_on_conn [simp]: "clock (on_conn i f s) = clock s"
  by (simp add: on_conn_def clock_def split: option.split)

lemma clock_simps [simp]:
  "clock (answer env i status s) = clock s" "clock (answer_json env i status ob s) = clock s"
  "clock (on_transfer f s) = clock s" "clock (set_file p v s) = clock s" "clock (rs_emit x s) = clock s"
  "clock (registerPeer ob addr s) = clock s" "clock (set_status env row st err s) = clock s"
  "clock (delete_handle k s) = clock s" "clock (put i c s) = clock s" "clock (on_server g s) = clock s"
  by (simp_all add: answer_def answer_json_def) (simp_all add: clock_def on_transfer_def set_file_def rs_emit_def
      registerPeer_def set_status_def delete_handle_def put_def on_server_def)

lemma clock_flush [simp]: "clock (flush_file env p s) = clock s"
  by (simp add: flush_file_def split: option.split)

lemma clock_updates [simp]:
  "clock (s\<lparr>rs_uploads := u\<rparr>) = clock s" "clock (s\<lparr>rs_pinAttempts := l\<rparr>) = clock s"
  "clock (s\<lparr>rs_conns := cs\<rparr>) = clock s" "clock (s\<lparr>rs_known := k\<rparr>) = clock s" "clock (s\<lparr>rs_history := h\<rparr>) = clock s"
  "clock (s\<lparr>rs_settings := g\<rparr>) = clock s" "clock (s\<lparr>rs_server := sv\<rparr>) = clock s" "clock (s\<lparr>rs_peer := p\<rparr>) = clock s"
  "clock (s\<lparr>rs_sent := m\<rparr>) = clock s" "clock (s\<lparr>rs_listenError := e\<rparr>) = clock s" "clock (s\<lparr>rs_rng := r\<rparr>) = clock s"
  "clock (s\<lparr>rs_tokens := t\<rparr>) = clock s"
  by (simp_all add: clock_def)

lemma clock_rename [simp]: "clock (snd (rename_file env a b s)) = clock s"
  by (simp add: rename_file_def)

lemma clock_prepareDirectory [simp]: "clock (snd (prepareDirectory env s)) = clock s"
  by (simp add: prepareDirectory_def Let_def)

lemma clock_closeUpload [simp]: "clock (closeUpload env i keep s) = clock s"
  by (simp add: closeUpload_def Let_def split: option.split)

lemma clock_stop_upload [simp]: "clock (stop_upload env i s) = clock s"
  by (simp add: stop_upload_def Let_def)

lemma clock_issue_tokens: "clock (fst (fold issue_token xs so)) = clock (fst so)"
proof (induction xs arbitrary: so)
  case (Cons x xs)
  have "clock (fst (issue_token x so)) = clock (fst so)"
    by (cases so) (simp add: issue_token_def Let_def split: prod.split)
  with Cons show ?case by simp
qed simp

lemma clock_writeData [simp]: "clock (snd (writeData env k data s)) = clock s"
proof -
  have "clock (t\<lparr>rs_handles := h\<rparr>) = clock t" "clock (t\<lparr>rs_fault := b\<rparr>) = clock t" for t h b by (simp_all add: clock_def)
  then show ?thesis by (simp add: writeData_def Let_def split: option.split)
qed

text \<open>A request whose connection is there.\<close>

definition pend_ok :: "ReceiveService \<Rightarrow> bool" where
  "pend_ok s \<longleftrightarrow> (\<forall>p. rs_pending s = Some p \<longrightarrow> rs_conns s p \<noteq> None)"

lemma pend_ok_inv: "rs_inv lib s \<Longrightarrow> pend_ok s"
  using rs_invD(2) [of lib s] by (simp add: inv_pending_def pend_ok_def)

lemma pend_ok_conn: "pend_ok s \<Longrightarrow> pending_conn s = None \<Longrightarrow> rs_pending s = None"
  by (auto simp: pend_ok_def pending_conn_def split: option.splits)

lemma pend_ok_api:
  assumes "pend_ok s" "api_rel s s'" "rs_pending s' = rs_pending s \<or> rs_pending s' = None"
  shows "pend_ok s'"
  unfolding pend_ok_def
proof (intro allI impI)
  fix p assume "rs_pending s' = Some p"
  then have "rs_conns s p \<noteq> None" using assms(1,3) by (auto simp: pend_ok_def)
  moreover have "rel_option via_api (rs_conns s p) (rs_conns s' p)" using assms(2) by (simp add: api_rel_def)
  ultimately show "rs_conns s' p \<noteq> None" by (auto simp: option_rel_Some1)
qed

lemma clock_final [simp]:
  "clock (skip_row env row s) = clock s" "clock (final_state env st s) = clock s" "clock (record_session env s) = clock s"
  by (simp_all add: skip_row_def final_state_def record_session_def Let_def)

lemma clock_fold: "(\<And>x t. clock (f x t) = clock t) \<Longrightarrow> clock (fold f xs s) = clock s"
  by (induction xs arbitrary: s) simp_all

lemma finishSession_over:
  assumes "pend_ok s"
  shows "finishSession env status s = s \<and> rs_sessionId s = [] \<and> rs_pending s = None
    \<or> clock (finishSession env status s) = ([], None, None, None)"
proof -
  let ?s1 = "s\<lparr>rs_idleTimer := None, rs_acceptTimer := None\<rparr>"
  have api: "api_rel ?s1 (stopped env s)" unfolding stopped_def by (rule api_fold) (rule api_stop_upload)
  have c2: "clock (stopped env s) = clock ?s1" unfolding stopped_def by (rule clock_fold) simp
  have "pend_ok ?s1" using assms by (simp add: pend_ok_def)
  from pend_ok_api [OF this api] c2 have p2: "pend_ok (stopped env s)" by (simp add: clock_def)
  have free: "clock (releasePending t) = (rs_sessionId t, rs_idleTimer t, None, rs_acceptTimer t)" for t
    by (simp add: clock_def releasePending_def)
  have c3: "clock (released env (stopped env s)) = (rs_sessionId s, None, None, None)"
  proof (cases "pending_conn (stopped env s)")
    case None
    with pend_ok_conn [OF p2 None] c2 show ?thesis by (simp add: clock_def released_def)
  next
    case (Some pc)
    have "clock (releasePending (answer env p 403 (stopped env s))) = (rs_sessionId s, None, None, None)" for p
      using clock_simps(1) [of env p 403 "stopped env s"] c2 unfolding free by (simp add: clock_def)
    with Some show ?thesis by (cases pc) (simp add: released_def)
  qed
  have "clock (settled env status t) = clock t" for t by (simp add: settled_def clock_fold)
  with c3 have "clock (forgotten x (settled env status (released env (stopped env s)))) = ([], None, None, None)" for x
    by (simp add: forgotten_def) (simp add: clock_def)
  moreover obtain x where "finishSession env status s =
    (if rs_sessionId s = [] \<and> pending_conn s = None then s
     else if rs_sessionId s = [] then on_transfer (setState (e_now env) Cancelled []) (released env (stopped env s))
     else forgotten x (settled env status (released env (stopped env s))))" by (rule finishSession_parts)
  ultimately show ?thesis using c3 pend_ok_conn [OF assms] by auto
qed

lemma waits_finishSession: "pend_ok s \<Longrightarrow> waits T s \<Longrightarrow> waits T (finishSession env status s)"
  using finishSession_over [of s env status] by (auto simp: waits_def in_time_def clock_def)

lemma waits_clock_simps [simp]:
  "waits T (answer env i status s) = waits T s" "waits T (answer_json env i status ob s) = waits T s"
  "waits T (on_transfer f s) = waits T s" "waits T (set_file p v s) = waits T s" "waits T (rs_emit x s) = waits T s"
  "waits T (registerPeer ob addr s) = waits T s" "waits T (set_status env row st err s) = waits T s"
  "waits T (delete_handle k s) = waits T s" "waits T (put i c s) = waits T s" "waits T (on_server g s) = waits T s"
  "waits T (flush_file env p s) = waits T s" "waits T (on_conn i h s) = waits T s"
  by (intro waits_clock; simp)+

section \<open>The handlers keep them running\<close>

lemma waits_start_idle: "waits T s \<Longrightarrow> e_now env \<le> T \<Longrightarrow> waits T (start_idle env s)"
  by (simp add: waits_def in_time_def start_idle_def)

lemma waits_released: "waits T s \<Longrightarrow> waits T ((releasePending s)\<lparr>rs_acceptTimer := None\<rparr>)" "waits T s \<Longrightarrow> waits T (releasePending s)"
  by (simp_all add: waits_def in_time_def releasePending_def)

lemma waits_accept:
  assumes "rs_sessionId s \<noteq> [] \<longrightarrow> rs_idleTimer s \<noteq> None" "pending_conn s = None \<longrightarrow> waits T s" "in_time T s" "e_now env \<le> T"
  shows "waits T (accept env s)"
proof (cases "pending_conn s")
  case (Some pc)
  obtain p c where pc: "pc = (p, c)" by fastforce
  obtain directory s0 where d: "prepareDirectory env s = (directory, s0)" by fastforce
  have "clock s0 = clock s" using clock_prepareDirectory [of env s] d by simp
  then have "waits T ((releasePending (answer env p 500 s0))\<lparr>rs_acceptTimer := None\<rparr>)"
    using assms(1,3) clock_simps(1) [of env p 500 s0] by (simp add: waits_def in_time_def releasePending_def clock_def)
  moreover have "waits T (rs_emit x ((on_transfer f (on_transfer g ((releasePending t)\<lparr>rs_acceptTimer := None\<rparr>)))
      \<lparr>rs_idleTimer := Some (e_now env + SessionIdleMs)\<rparr>))" for x f g t
    using assms(4) by (simp add: waits_def in_time_def releasePending_def on_transfer_def rs_emit_def)
  ultimately show ?thesis using Some pc d by (simp add: accept_def Let_def split: prod.split)
qed (use assms(2) in \<open>simp add: accept_def\<close>)

lemma waits_decline: "waits T s \<Longrightarrow> waits T (decline env s)"
  by (simp add: decline_def waits_released split: option.split)

lemma waits_onAcceptTimeout:
  assumes "pend_ok s" "waits T s"
  shows "waits T (onAcceptTimeout env (s\<lparr>rs_acceptTimer := None\<rparr>))"
proof (cases "pending_conn (s\<lparr>rs_acceptTimer := None\<rparr>)")
  case None
  moreover have "pend_ok (s\<lparr>rs_acceptTimer := None\<rparr>)" using assms(1) by (simp add: pend_ok_def)
  ultimately show ?thesis
    using pend_ok_conn [of "s\<lparr>rs_acceptTimer := None\<rparr>"] assms(2) by (simp add: onAcceptTimeout_def waits_def in_time_def)
next
  case (Some pc)
  have "waits T (releasePending t)" if "clock t = clock (s\<lparr>rs_acceptTimer := None\<rparr>)" for t
    using assms(2) that by (simp add: clock_def waits_def in_time_def releasePending_def)
  with Some show ?thesis by (cases pc) (simp add: onAcceptTimeout_def)
qed

lemma waits_onPendingClosed: "waits T s \<Longrightarrow> waits T (onPendingClosed env i s)"
  by (simp add: onPendingClosed_def Let_def) (simp add: waits_def in_time_def)

lemma waits_open_request:
  assumes "rs_sessionId s = []" "rs_conns s i = Some c" "in_time T s" "e_now env \<le> T"
  shows "waits T (open_request env i info files peer s)"
proof -
  define t where "t = on_transfer (setState (e_now env) Pending []) (on_transfer (begin_transfer (e_now env) Receiving
      (dev_alias peer) (address peer) (deviceType peer) (fingerprint peer) (map (make_entry (e_lib env) files) (map fst files)))
      ((registerPeer info (address peer) s)\<lparr>rs_peer := peer\<rparr>))"
  have t: "rs_sessionId t = []" "in_time T t" "rs_conns t = rs_conns s"
    using assms by (simp_all add: t_def on_transfer_def registerPeer_def in_time_def)
  then have "waits T (accept env (t\<lparr>rs_pending := Some i\<rparr>))"
    using assms(2,4) by (intro waits_accept) (simp_all add: pending_conn_def in_time_def)
  moreover have "waits T (rs_emit x (t\<lparr>rs_pending := Some i, rs_acceptTimer := Some (e_now env + AcceptTimeoutMs)\<rparr>))" for x
    using t(1,2) assms(4) by (simp add: waits_def in_time_def rs_emit_def)
  ultimately show ?thesis unfolding open_request_def Let_def by (simp only: flip: t_def) simp
qed

lemma waits_handlePrepareUpload:
  assumes "waits T s" "rs_conns s i = Some c" "e_now env \<le> T"
  shows "waits T (handlePrepareUpload env i c s)"
proof -
  have "waits T (s\<lparr>rs_pinAttempts := l\<rparr>)" for l using assms(1) by (simp add: waits_def in_time_def)
  moreover have "rs_sessionId s = [] \<Longrightarrow> waits T (open_request env i info files peer (s\<lparr>rs_pinAttempts := l\<rparr>))" for info files peer l
    by (rule waits_open_request) (use assms in \<open>simp_all add: waits_def in_time_def\<close>)
  ultimately show ?thesis unfolding handlePrepareUpload_def Let_def using assms(1) by simp
qed

lemma waits_start_upload:
  assumes "waits T s" "e_now env \<le> T"
  shows "waits T (start_upload env i row s)"
proof -
  have "clock (t\<lparr>rs_handles := h, rs_nextHandle := n\<rparr>) = clock t" for t h n by (simp add: clock_def)
  then have "clock (snd (open_file env p s)) = clock s" for p by (simp add: open_file_def Let_def)
  then have o: "waits T (snd (open_file env p s))" for p using waits_clock assms(1) by blast
  then have "waits T (start_idle env (set_status env row st err ((snd (open_file env p s))\<lparr>rs_uploads := u\<rparr>)))" for p u st err
    using assms(2) waits_clock [OF clock_updates(1)] by (intro waits_start_idle) simp_all
  with o assms show ?thesis by (auto simp: start_upload_def Let_def split: prod.split option.split) (metis snd_conv)+
qed

lemma waits_handleUploadHeaders: "waits T s \<Longrightarrow> e_now env \<le> T \<Longrightarrow> waits T (handleUploadHeaders env i c s)"
  by (simp add: handleUploadHeaders_def Let_def waits_start_upload)


lemma waits_end_if_settled: "pend_ok s \<Longrightarrow> waits T s \<Longrightarrow> waits T (end_if_settled env st s)"
  by (simp add: end_if_settled_def waits_finishSession)

lemma clock_store_upload [simp]: "clock (store_upload env i u w d s) = clock s"
proof -
  have "clock s1 = clock s" if "rename_file env a b s = (r, s1)" for a b r s1 using that clock_rename [of env a b s] by simp
  then show ?thesis by (auto simp: store_upload_def split: prod.split)
qed

lemma waits_handleUploadFinished:
  assumes "pend_ok s" "waits T s" "e_now env \<le> T"
  shows "waits T (handleUploadFinished env i c s)"
proof (cases "map_of (rs_uploads s) i")
  case (Some u)
  have ready: "pend_ok (start_idle env (store_upload env i u w d t)) \<and> waits T (start_idle env (store_upload env i u w d t))"
    if t: "rs_conns t = rs_conns s" "clock t = clock s" for t w d
  proof
    have "clock (store_upload env i u w d t) = clock s" using t(2) by simp
    then show "waits T (start_idle env (store_upload env i u w d t))" using assms(2,3) waits_clock waits_start_idle by blast
    have "api_rel s (start_idle env (store_upload env i u w d t))"
      by (rule api_trans [OF api_store_upload [OF t(1)] same_conns_api]) simp
    moreover have "rs_pending (start_idle env (store_upload env i u w d t)) = rs_pending s"
      using t(2) clock_store_upload [of env i u w d t] by (simp add: clock_def start_idle_def)
    ultimately show "pend_ok (start_idle env (store_upload env i u w d t))" using pend_ok_api [OF assms(1)] by blast
  qed
  then have "waits T (end_if_settled env st (start_idle env (store_upload env i u w d t)))"
    if "rs_conns t = rs_conns s" "clock t = clock s" for t w d st using that by (blast intro: waits_end_if_settled)
  then show ?thesis using Some by (simp add: handleUploadFinished_def Let_def)
qed (use assms(2) in \<open>simp add: handleUploadFinished_def\<close>)

lemma waits_onClosed:
  assumes "pend_ok s" "waits T s"
  shows "waits T (onClosed env i s)"
proof -
  let ?s = "onPendingClosed env i s"
  have w: "waits T ?s" by (rule waits_onPendingClosed [OF assms(2)])
  have p: "pend_ok ?s"
    by (rule pend_ok_api [OF assms(1) calm_api [OF calm_onPendingClosed]]) (auto simp: onPendingClosed_def Let_def on_transfer_def)
  have "waits T (end_if_settled env st t)" if "rs_conns t = rs_conns ?s" "clock t = clock ?s" for st t
  proof (rule waits_end_if_settled)
    show "pend_ok t" using p that by (simp add: pend_ok_def clock_def)
    show "waits T t" using waits_clock [OF that(2)] w by simp
  qed
  with w show ?thesis by (simp add: onClosed_def onUploadClosed_def Let_def split: option.split)
qed

lemma waits_handleCancel:
  assumes "pend_ok s" "waits T s"
  shows "waits T (handleCancel env i c s)"
proof -
  have "pend_ok (answer env i 200 s)"
    by (rule pend_ok_api [OF assms(1) api_answer]) (simp_all add: answer_def on_conn_def split: option.split)
  then have "waits T (finishSession env st (answer env i 200 s))" for st using assms(2) by (intro waits_finishSession) simp_all
  with assms(2) show ?thesis by (simp add: handleCancel_def Let_def waits_released)
qed

lemma waits_onRequestReady:
  assumes "pend_ok s" "waits T s" "rs_conns s i = Some c" "e_now env \<le> T"
  shows "waits T (onRequestReady env i c s)"
  using assms waits_handlePrepareUpload waits_handleUploadFinished waits_handleCancel
  by (simp add: onRequestReady_def handleInfo_def handleRegister_def Let_def)

lemma waits_cancel: "pend_ok s \<Longrightarrow> waits T s \<Longrightarrow> waits T (cancel env s)"
proof -
  assume a: "pend_ok s" "waits T s"
  then have "pend_ok (notifyPeerCancelled s)" "waits T (notifyPeerCancelled s)"
    by (simp_all add: notifyPeerCancelled_def) (simp_all add: pend_ok_def waits_def in_time_def)
  with a show ?thesis by (simp add: cancel_def waits_decline waits_finishSession)
qed

lemma clock_startListening: "clock (snd (startListening env s)) = clock s"
  by (simp add: startListening_def Let_def split: prod.split)

lemma waits_stopListening: "pend_ok s \<Longrightarrow> waits T s \<Longrightarrow> waits T (stopListening env s)"
  by (simp add: stopListening_def waits_finishSession)

lemma waits_progress: "waits T s \<Longrightarrow> e_now env \<le> T \<Longrightarrow> waits T (upload_progress env i n s)"
  by (simp add: upload_progress_def waits_start_idle split: option.split)

section \<open>Over whole runs\<close>

lemma pend_ok_put: "pend_ok (put i c s) \<Longrightarrow> pend_ok (put i d s)"
  by (auto simp: pend_ok_def put_def split: if_splits)

interpretation waiting: http_inv "rs_slots env i"
  "\<lambda>c s. e_lib env = lib \<and> e_now env \<le> T \<longrightarrow> (rs_inv lib (put i c s) \<and> conn_ok i c s) \<and> waits T s" for env i lib T
proof (unfold_locales, goal_cases)
  case (1 c w c') then show ?case using service.conn.cong [of env lib i c w c'] by blast
next
  case (2 c w c') then show ?case using service.conn.head [of env lib i c w c'] by blast
next
  case (3 c w now s p ct) then show ?case using service.conn.responds [of env lib i c w now s p ct] by blast
next
  case (4 c w x) then show ?case using service.conn.interim [of env lib i c w x] by blast
next
  case (5 c w now s p ct) then show ?case using service.conn.options [of env lib i c w now s p ct] by blast
next
  case (6 c w c' w')
  have th: "through i (onHeadersReady env i) (c\<lparr>h_state := ReadingBody\<rparr>) w = (c', w')" using 6(4) by (simp add: rs_slots_def)
  have "waits T w'" if "e_lib env = lib" "e_now env \<le> T"
    unfolding through_put(1) [OF api_onHeadersReady th] onHeadersReady_def
    using that 6(1) by (simp add: waits_handleUploadHeaders)
  then show ?case using 6 service.conn.headers [of env lib i c w c' w'] by blast
next
  case (7 c w data k n w' tot now)
  have "clock w' = clock w" using 7(7) clock_writeData [of env k data w] by (simp add: rs_slots_def)
  then have "waits T w' = waits T w" by (rule waits_clock)
  moreover have "waits T (on_bodyProgress (rs_slots env i) m tot w')" if "waits T w'" "e_now env \<le> T" for m
    using that by (simp add: rs_slots_def waits_progress)
  ultimately show ?case using 7 service.conn.written [of env lib i c w data k n w' tot now] by (auto split: if_splits)
next
  case (8 c w n tot)
  have "waits T (on_bodyProgress (rs_slots env i) m tot w)" if "waits T w" "e_now env \<le> T" for m using that by (simp add: rs_slots_def waits_progress)
  then show ?case using 8 service.conn.buffered [of env lib i c w n tot] by blast
next
  case (9 c w c' w')
  let ?c = "c\<lparr>h_bodyComplete := True\<rparr>"
  have th: "through i (onRequestReady env i) ?c w = (c', w')" using 9(4) by (simp add: rs_slots_def)
  have "waits T w'" if "e_lib env = lib" "e_now env \<le> T"
    unfolding through_put(1) [OF api_onRequestReady th]
    by (rule waits_onRequestReady [where c = ?c]) (use that 9(1) pend_ok_inv [of lib "put i c w"] pend_ok_put in auto)
  then show ?case using 9 service.conn.request [of env lib i c w c' w'] by blast
next
  case (10 c w) then show ?case using service.conn.aborted [of env lib i c w] by blast
next
  case (11 c w c' w')
  let ?c = "c\<lparr>h_closedEmitted := True, h_state := Responded, h_connected := False\<rparr>"
  have th: "through i (\<lambda>_. onClosed env i) ?c w = (c', w')" using 11(3) by (simp add: rs_slots_def)
  have "waits T w'" if "e_lib env = lib" "e_now env \<le> T"
    unfolding through_put(1) [OF api_onClosed th]
    by (rule waits_onClosed) (use that 11(1) pend_ok_inv [of lib "put i c w"] pend_ok_put in auto)
  then show ?case using 11 service.conn.closes [of env lib i c w c' w'] by blast
qed


lemma waits_conn_event:
  assumes "e_lib env = lib" "rs_inv lib s" "all_fine s" "waits T s" "e_now env \<le> T"
  shows "waits T (conn_event_step env i e s)"
proof (cases "rs_conns s i")
  case None
  with assms(4) show ?thesis by (simp add: conn_event_step_def)
next
  case (Some c)
  obtain c' s1 where st: "conn_step (e_lib env) (e_net env) (rs_slots env i) e (c, s) = (c', s1)" by fastforce
  have fine: "conn_fine c" using assms(3) Some by (simp add: all_fine_def)
  have "(rs_inv lib (put i c s) \<and> conn_ok i c s) \<and> waits T s"
    using assms fine by (auto simp: put_same [OF Some] conn_ok_def conn_fine_def all_fine_def)
  then have "e_lib env = lib \<and> e_now env \<le> T \<longrightarrow> (rs_inv lib (put i (fst (c', s1)) (snd (c', s1))) \<and> conn_ok i (fst (c', s1)) (snd (c', s1)))
      \<and> waits T (snd (c', s1))"
    using fine unfolding st [symmetric] by (intro waiting.conn_step_inv) (auto simp: conn_fine_def)
  with assms(1,5) have "waits T s1" by simp
  then show ?thesis using Some st by (simp add: conn_event_step_def) (simp add: waits_def in_time_def)
qed

lemma waits_rs_step:
  assumes "e_lib env = lib" "rs_inv lib s" "all_fine s" "waits T s" "e_now env \<le> T"
  shows "waits T (rs_step env e s)"
proof -
  have p: "pend_ok s" by (rule pend_ok_inv [OF assms(2)])
  show ?thesis
  proof (cases e)
    case (Net ne a c)
    then show ?thesis using assms(4) by (auto simp: net_step_def Let_def waits_def in_time_def split: prod.split option.split)
  next
    case (Conn i ce)
    then show ?thesis using waits_conn_event [OF assms] by simp
  next
    case Accept
    then show ?thesis using waits_accept [of s T env] assms(4,5) by (simp add: waits_def)
  next
    case AcceptTimeout
    have "waits T (onAcceptTimeout env (s\<lparr>rs_acceptTimer := None\<rparr>))"
      by (rule waits_onAcceptTimeout [OF p assms(4)])
    with AcceptTimeout assms(4) show ?thesis by simp
  next
    case PortChanged
    have "waits T (snd (startListening env (stopListening env s)))"
      using waits_clock [OF clock_startListening] waits_stopListening [OF p assms(4)] by blast
    with PortChanged assms(4) show ?thesis by (simp add: onSettingsChanged_def)
  next
    case SessionIdle
    have "pend_ok (s\<lparr>rs_idleTimer := None\<rparr>)" using p by (simp add: pend_ok_def)
    from finishSession_over [OF this, of env Sfailed] have "rs_sessionId s \<noteq> [] \<Longrightarrow> waits T (finishSession env Sfailed (s\<lparr>rs_idleTimer := None\<rparr>))"
      by (simp add: clock_def waits_def in_time_def)
    moreover have "rs_sessionId s = [] \<Longrightarrow> waits T (s\<lparr>rs_idleTimer := None\<rparr>)" using assms(4) by (simp add: waits_def in_time_def)
    ultimately show ?thesis using SessionIdle assms(4) by (simp add: onSessionIdle_def)
  qed (use assms(4) p waits_clock [OF clock_startListening] in
      \<open>simp_all add: waits_decline waits_cancel waits_stopListening\<close>, simp_all add: waits_def in_time_def)
qed


lemma waits_run:
  assumes "\<forall>(env, e) \<in> set evs. e_lib env = lib \<and> e_now env \<le> T" "rs_inv lib s" "all_fine s" "waits T s"
  shows "waits T (rs_run evs s)"
  using assms
proof (induction evs arbitrary: s)
  case (Cons x evs)
  obtain env e where x: "x = (env, e)" by fastforce
  with Cons.prems have "rs_inv lib (rs_step env e s) \<and> all_fine (rs_step env e s)" "waits T (rs_step env e s)"
    using service.rs_step_keeps [of env lib s e] waits_rs_step [of env lib s T e] by auto
  with Cons.IH [of "rs_step env e s"] Cons.prems(1) x show ?case by (simp add: rs_run_def)
qed (simp add: rs_run_def)

lemma reached_waits:
  assumes "\<forall>(env, e) \<in> set evs. e_lib env = lib \<and> e_now env \<le> T"
  shows "waits T (rs_run evs (new_ReceiveService st r fs))"
  by (rule waits_run [OF assms rs_inv_new fine_new]) (simp add: waits_def in_time_def new_ReceiveService_def)

lemma session_ends:
  assumes "pend_ok s" "rs_sessionId s \<noteq> []"
  shows "clock (onSessionIdle env (s\<lparr>rs_idleTimer := None\<rparr>)) = ([], None, None, None)"
proof -
  have "pend_ok (s\<lparr>rs_idleTimer := None\<rparr>)" using assms(1) by (simp add: pend_ok_def)
  from finishSession_over [OF this, of env Sfailed] assms(2) show ?thesis by (simp add: onSessionIdle_def)
qed

lemma prompt_ends:
  assumes "pending_conn s = Some (p, c)"
  shows "rs_pending (onAcceptTimeout env s) = None \<and> rs_conns (onAcceptTimeout env s) p = Some (respond_status (e_now env) 403 c)"
  using assms by (auto simp: onAcceptTimeout_def pending_conn_def releasePending_def on_transfer_def answer_def on_conn_def split: option.splits)

text \<open>
  C6. Nothing waits for ever. If nothing has happened after time \<open>T\<close>, an open session has an idle timer
  that runs out within a minute of \<open>T\<close>, and when it does the session is over; a request that
  waits for the person has a timer that runs out within ninety seconds, and when it does the
  parked connection is answered with 403 and the next sender can ask.
\<close>

theorem nothing_waits_for_ever:
  assumes "\<forall>(env, e) \<in> set evs. e_lib env = lib \<and> e_now env \<le> T" and "s = rs_run evs (new_ReceiveService st r fs)"
  shows "(rs_sessionId s \<noteq> [] \<longrightarrow> (\<exists>t \<le> T + SessionIdleMs. rs_idleTimer s = Some t
      \<and> (\<forall>env. t \<le> e_now env \<longrightarrow> rs_sessionId (rs_step env SessionIdle s) = [])))
    \<and> (rs_pending s \<noteq> None \<longrightarrow> (\<exists>t \<le> T + AcceptTimeoutMs. \<exists>p c. rs_acceptTimer s = Some t \<and> pending_conn s = Some (p, c)
      \<and> (\<forall>env. t \<le> e_now env \<longrightarrow> rs_pending (rs_step env AcceptTimeout s) = None
          \<and> rs_conns (rs_step env AcceptTimeout s) p = Some (respond_status (e_now env) 403 c))))"
proof -
  have w: "waits T s" unfolding assms(2) by (rule reached_waits [OF assms(1)])
  have "\<forall>(env, e) \<in> set evs. e_lib env = lib" using assms(1) by auto
  then have p: "pend_ok s" using pend_ok_inv rs_inv_run assms(2) by blast
  have idle: "rs_sessionId (rs_step env SessionIdle s) = []" if "rs_sessionId s \<noteq> []" "rs_idleTimer s = Some t" "t \<le> e_now env" for env t
    using session_ends [OF p that(1)] that(2,3) by (simp add: clock_def expired_def)
  have parked: "rs_pending (rs_step env AcceptTimeout s) = None \<and> rs_conns (rs_step env AcceptTimeout s) q = Some (respond_status (e_now env) 403 c)"
    if "pending_conn s = Some (q, c)" "rs_acceptTimer s = Some t" "t \<le> e_now env" for env t q c
    using prompt_ends [of "s\<lparr>rs_acceptTimer := None\<rparr>" q c env] pending_conn_cong [of "s\<lparr>rs_acceptTimer := None\<rparr>" s] that
    by (simp add: expired_def)
  show ?thesis using w idle parked pend_ok_conn [OF p] unfolding waits_def in_time_def by fast
qed

theorem nothing_waits_for_ever_witness:
  "\<exists>t \<le> SessionIdleMs. rs_idleTimer (rs_run demo_begin demo_new) = Some t"
proof -
  let ?s = "rs_run demo_begin demo_new"
  have "rs_uploads ?s \<noteq> []" using demo_midway by (auto simp: demo_seen_def)
  then have "rs_sessionId ?s \<noteq> []"
    using rs_invD(2) [OF conjunct1 [OF rs_inv_run [OF demo_lib(2), of demo_settings demo_rng demo_files]]]
    by (auto simp: inv_pending_def demo_new_eq)
  moreover have "\<forall>(env, e) \<in> set demo_begin. e_lib env = ascii_qt \<and> e_now env \<le> 0"
    by (simp add: demo_begin_def demo_env_def)
  from nothing_waits_for_ever [OF this refl, of demo_settings demo_rng demo_files] show ?thesis
    using calculation by (auto simp: demo_new_eq)
qed

end
