(* ===== verification/Receive_Endpoints.thy ===== *)
theory Receive_Endpoints
  imports Receive_Waiting
begin

text \<open>
  What the endpoints let through, handler by handler: who may upload, who may ask, what the end
  of a session leaves, which path a file gets.
\<close>

section \<open>Uploading\<close>

text \<open>
  C5. An upload request changes the disk, the table of uploads or the transfer only if it names the open
  session, comes from the address that opened it, carries the token issued for its file, and the
  file is not already there; otherwise all it does is answer its connection.
\<close>

theorem upload_needs_the_token:
  assumes "qt_ok (e_lib env)" and "s' = handleUploadHeaders env i c s"
    and "rs_files s' \<noteq> rs_files s \<or> rs_uploads s' \<noteq> rs_uploads s \<or> rs_transfer s' \<noteq> rs_transfer s
      \<or> rs_idleTimer s' \<noteq> rs_idleTimer s"
  shows "rs_sessionId s \<noteq> [] \<and> query c ''sessionId'' = rs_sessionId s \<and> h_peerAddress c = rs_sessionAddress s
    \<and> (\<exists>t. map_of (rs_tokens s) (query c ''fileId'') = Some t \<and> equals_q (e_lib env) t (query c ''token''))
    \<and> (\<exists>row \<ge> 0. row = indexOfFile (query c ''fileId'') (rs_transfer s) \<and> fe_status (row_entry s row) \<noteq> FileDone)"
proof -
  have frame: "rs_files (answer env i st s) = rs_files s" "rs_uploads (answer env i st s) = rs_uploads s"
    "rs_transfer (answer env i st s) = rs_transfer s" "rs_idleTimer (answer env i st s) = rs_idleTimer s" for st
    by (simp_all add: answer_def on_conn_def split: option.split)
  have "equals_q (e_lib env) [] t \<Longrightarrow> t = []" for t
    using equals_q_sym [OF assms(1)] equals_q_plain [OF assms(1), of "[]"] by (auto simp: plain_ascii_def)
  with assms(2,3) frame show ?thesis
    unfolding handleUploadHeaders_def Let_def by (auto split: if_splits option.splits)
qed


definition demo_upload :: HttpConnection where
  "demo_upload = (new_HttpConnection 0 (qs ''h'') [])\<lparr>h_query := [(qs ''sessionId'', qs ''aa''), (qs ''fileId'', qs ''f''), (qs ''token'', qs ''aa'')]\<rparr>"

definition upload_seen :: "ReceiveService \<Rightarrow> bool \<times> bool" where
  "upload_seen s = (rs_uploads s = [], rs_uploads (handleUploadHeaders demo_env 1 demo_upload s) = [])"

theorem upload_needs_the_token_witness:
  "rs_sessionId (rs_run (take 3 demo_begin) demo_new) = query demo_upload ''sessionId''"
proof -
  let ?s = "rs_run (take 3 demo_begin) demo_new"
  have "upload_seen ?s = (True, False)" by code_simp
  then have "rs_uploads ?s = [] \<and> rs_uploads (handleUploadHeaders demo_env 1 demo_upload ?s) \<noteq> []" by (simp add: upload_seen_def)
  moreover have "qt_ok (e_lib demo_env)" by (simp add: demo_env_def ascii_qt_ok)
  ultimately show ?thesis using upload_needs_the_token [of demo_env _ 1 demo_upload ?s, OF _ refl] by auto
qed

section \<open>Asking\<close>

definition undisturbed :: "ReceiveService \<Rightarrow> ReceiveService \<Rightarrow> bool" where
  "undisturbed s t \<longleftrightarrow> rs_pending t = rs_pending s \<and> rs_sessionId t = rs_sessionId s \<and> rs_transfer t = rs_transfer s
     \<and> rs_files t = rs_files s \<and> rs_signals t = rs_signals s"

lemma undisturbed_simps [simp]:
  "undisturbed s s" "undisturbed s (answer env i st t) = undisturbed s t" "undisturbed s (on_conn i f t) = undisturbed s t"
  "undisturbed s (t\<lparr>rs_pinAttempts := l\<rparr>) = undisturbed s t"
  by (simp_all add: undisturbed_def answer_def on_conn_def split: option.split)

text \<open>
  C8. A request reaches the transfer model, and so the person, only if receiving is on, nothing else is
  going on, the address is not held back, the PIN is right, the request says who asks and offers
  between one and two thousand files, the certificate of the connection is the one claimed, and the
  claimed key is not blocked; and then the request is on screen or, with quick save, accepted.
\<close>

theorem prompt_only_if_allowed:
  assumes "s' = handlePrepareUpload env i c s"
    and "rs_pending s' \<noteq> rs_pending s \<or> rs_sessionId s' \<noteq> rs_sessionId s \<or> rs_transfer s' \<noteq> rs_transfer s
      \<or> rs_files s' \<noteq> rs_files s \<or> rs_signals s' \<noteq> rs_signals s"
  shows "receiveEnabled (rs_settings s) \<and> pending_conn s = None \<and> rs_sessionId s = []
    \<and> allow (e_now env) (h_peerAddress c) (rs_pinAttempts s)
    \<and> checkPin (e_lib env) (e_ev env) (query c ''pin'') (rs_settings s)
    \<and> (\<exists>info files. to_object (jvalue (jsonBody (e_net env) c) ''info'') = info \<and> info \<noteq> []
        \<and> to_object (jvalue (jsonBody (e_net env) c) ''files'') = files \<and> files \<noteq> [] \<and> length files \<le> MaxFilesPerSession
        \<and> (h_peerCertificate c \<noteq> [] \<longrightarrow> equalsFold (e_lib env) (fingerprintOf (e_lib env) (h_peerCertificate c))
              (fingerprint (fromPayload (e_lib env) info)))
        \<and> (\<forall>kd. rs_known s = Some kd \<longrightarrow> \<not> isBlocked (e_lib env) (fingerprint (fromPayload (e_lib env) info)) kd))"
proof -
  have ns: "\<not> undisturbed s (handlePrepareUpload env i c s)" using assms by (auto simp: undisturbed_def)
  note D = handlePrepareUpload_def [of env i c s, unfolded Let_def]
  have 1: "receiveEnabled (rs_settings s)" by (rule ccontr) (use ns D in simp)
  have 2: "\<not> (pending_conn s \<noteq> None \<or> rs_sessionId s \<noteq> [])"
    by (rule notI) (use ns D 1 in \<open>simp del: not_None_eq\<close>)
  then have idle: "pending_conn s = None" "rs_sessionId s = []" by blast+
  have 3: "allow (e_now env) (h_peerAddress c) (rs_pinAttempts s)" by (rule ccontr) (use ns D 1 2 in simp)
  have 4: "checkPin (e_lib env) (e_ev env) (query c ''pin'') (rs_settings s)"
    by (rule ccontr) (use ns D 1 2 3 in simp)
  define info where "info = to_object (jvalue (jsonBody (e_net env) c) ''info'')"
  define files where "files = to_object (jvalue (jsonBody (e_net env) c) ''files'')"
  note D' = D [folded info_def files_def]
  have 5: "info \<noteq> []" by (rule notI) (use ns D' 1 2 3 4 in simp)
  have 6: "files \<noteq> []" by (rule notI) (use ns D' 1 2 3 4 5 in simp)
  have 7: "length files \<le> MaxFilesPerSession" by (rule ccontr) (use ns D' 1 2 3 4 5 6 in simp)
  have 8: "h_peerCertificate c \<noteq> [] \<longrightarrow> equalsFold (e_lib env) (fingerprintOf (e_lib env) (h_peerCertificate c))
              (fingerprint (fromPayload (e_lib env) info))"
    by (rule ccontr) (use ns D' 1 2 3 4 5 6 7 in simp)
  have 9: "\<not> is_blocked env (fingerprint (fromPayload (e_lib env) info)) s"
  proof
    assume b: "is_blocked env (fingerprint (fromPayload (e_lib env) info)) s"
    have same: "is_blocked env fp (s\<lparr>rs_pinAttempts := l\<rparr>) = is_blocked env fp s" for fp l by (simp add: is_blocked_def)
    have "handlePrepareUpload env i c s = answer env i 403 (s\<lparr>rs_pinAttempts := recordSuccess (h_peerAddress c) (rs_pinAttempts s)\<rparr>)"
      using D' 1 2 3 4 5 6 7 8 b by (simp add: same)
    with ns show False by simp
  qed
  show ?thesis using 1 idle 3 4 5 6 7 8 9 by (auto simp: is_blocked_def info_def files_def split: option.splits)
qed

theorem prompt_only_if_allowed_witness:
  "receiveEnabled (rs_settings demo_new) \<and> allow 0 (qs ''h'') (rs_pinAttempts demo_new)"
proof -
  have "rs_pending (handlePrepareUpload demo_env 0 demo_upload demo_new) = Some 0 \<and> rs_pending demo_new = None" by code_simp
  then show ?thesis using prompt_only_if_allowed [of _ demo_env 0 demo_upload demo_new, OF refl]
    by (simp add: demo_env_def demo_upload_def new_HttpConnection_def)
qed

section \<open>The end of a session\<close>

lemma skip_row_rows:
  "m_files (rs_transfer (skip_row env row s)) = (if row < file_count s \<and> fe_status (row_entry s (int row)) \<in> {FileWaiting, FileTransferring}
     then (m_files (rs_transfer s))[row := (row_entry s (int row))\<lparr>fe_status := FileSkipped, fe_error := []\<rparr>] else m_files (rs_transfer s))"
proof -
  have ok: "row_ok (int row) (rs_transfer s) \<longleftrightarrow> row < file_count s" by (auto simp: row_ok_def file_count_def)
  have same: "f\<lparr>fe_status := FileSkipped, fe_error := e, transferred := transferred f\<rparr> = f\<lparr>fe_status := FileSkipped, fe_error := e\<rparr>"
    for f :: FileEntry and e by (cases f) simp
  show ?thesis
    by (cases "row < file_count s")
      (auto simp: skip_row_def Let_def set_status_def on_transfer_def setFileStatus_row setFileStatus_bad_row ok row_entry_def same)
qed

lemma skip_rows_settle:
  "length (m_files (rs_transfer (fold (skip_row env) [0..<n] s))) = file_count s \<and>
   (\<forall>j < min n (file_count s). fe_status (m_files (rs_transfer (fold (skip_row env) [0..<n] s)) ! j) \<notin> {FileWaiting, FileTransferring})
   \<and> (\<forall>j < file_count s. fe_status (m_files (rs_transfer s) ! j) = FileDone
        \<longrightarrow> m_files (rs_transfer (fold (skip_row env) [0..<n] s)) ! j = m_files (rs_transfer s) ! j)"
proof (induction n)
  case (Suc n)
  let ?t = "fold (skip_row env) [0..<n] s"
  have c: "file_count ?t = file_count s" using Suc by (simp add: file_count_def)
  have f: "fold (skip_row env) [0..<Suc n] s = skip_row env n ?t" by simp
  have e: "row_entry ?t (int n) = m_files (rs_transfer ?t) ! n" by (simp add: row_entry_def)
  show ?case unfolding f skip_row_rows c e using Suc
    by (auto simp: nth_list_update less_Suc_eq)
qed (simp add: file_count_def)

lemma rows_simple [simp]:
  "m_files (rs_transfer (final_state env st s)) = m_files (rs_transfer s)"
  "m_files (rs_transfer (record_session env s)) = m_files (rs_transfer s)"
  "m_state (rs_transfer (record_session env s)) = m_state (rs_transfer s)"
  by (simp_all add: final_state_def record_session_def on_transfer_def Let_def)


lemma final_state_is:
  "m_state (rs_transfer (final_state env st s)) =
     (if st = Scancelled then Cancelled else if completedCount (rs_transfer s) = file_count s then Finished else Failed)"
  by (simp add: final_state_def on_transfer_def Let_def)

lemma all_done_count: "completedCount tm = length (m_files tm) \<longleftrightarrow> (\<forall>f \<in> set (m_files tm). fe_status f = FileDone)"
proof -
  have "length (filter P xs) = length xs \<longleftrightarrow> (\<forall>x \<in> set xs. P x)" for P and xs :: "FileEntry list"
  proof (induction xs)
    case (Cons x xs)
    have "length (filter P xs) \<le> length xs" by (rule length_filter_le)
    with Cons show ?case by (auto simp del: length_filter_le)
  qed simp
  then show ?thesis by (simp add: completedCount_def)
qed

lemma stop_upload_files:
  assumes "rs_files s p = None"
  shows "rs_files (stop_upload env j s) p = None"
  using assms
  by (simp add: stop_upload_def closeUpload_def answer_def on_conn_def set_status_def on_transfer_def set_file_def delete_handle_def
      flush_file_def Let_def split: option.split)

lemma stop_all_files: "rs_files s p = None \<Longrightarrow> rs_files (fold (stop_upload env) ks s) p = None"
  by (induction ks arbitrary: s) (simp_all add: stop_upload_files)

lemma stop_own_file: "map_of (rs_uploads s) i = Some u \<Longrightarrow> rs_files (stop_upload env i s) (up_partPath u) = None"
  by (simp add: stop_upload_drop drop_upload_def)

lemma part_files_gone:
  "map_of (rs_uploads s) i = Some u \<Longrightarrow> i \<in> set ks \<Longrightarrow> rs_files (fold (stop_upload env) ks s) (up_partPath u) = None"
proof (induction ks arbitrary: s)
  case (Cons k ks)
  show ?case
  proof (cases "k = i")
    case True
    with Cons.prems(1) show ?thesis by (simp add: stop_all_files stop_own_file)
  next
    case False
    have "map_of (rs_uploads (stop_upload env k s)) i = Some u" using Cons.prems(1) False by (simp add: stop_upload_uploads delete_conv')
    with Cons.IH Cons.prems(2) False show ?thesis by simp
  qed
qed simp

text \<open>
  C18. However a session ends, nothing of it is left: no upload, no open file, no token, no running
  timer, no part file; every row is done, failed or skipped, what was done stays done, and the
  transfer is finished exactly when every file is, unless it was cancelled.
\<close>

theorem session_ends_settled:
  assumes "\<forall>(env, e) \<in> set evs. e_lib env = lib" and "s = rs_run evs (new_ReceiveService st r fs)"
    and "rs_sessionId s \<noteq> []" and "s' = finishSession env status s"
  shows "rs_sessionId s' = [] \<and> rs_uploads s' = [] \<and> rs_handles s' = Map.empty \<and> rs_tokens s' = []
    \<and> rs_idleTimer s' = None \<and> rs_acceptTimer s' = None
    \<and> (\<forall>i u. map_of (rs_uploads s) i = Some u \<longrightarrow> rs_files s' (up_partPath u) = None)
    \<and> (\<forall>f \<in> set (m_files (rs_transfer s')). fe_status f \<in> {FileDone, FileFailed, FileSkipped})
    \<and> m_state (rs_transfer s') = (if status = Scancelled then Cancelled
         else if \<forall>f \<in> set (m_files (rs_transfer s')). fe_status f = FileDone then Finished else Failed)"
proof -
  let ?t = "released env (stopped env s)"
  let ?rows = "fold (skip_row env) [0..<file_count ?t] ?t"
  have inv: "rs_inv lib s" using rs_inv_run [OF assms(1), of st r fs] assms(2) by simp
  obtain x where s': "s' = forgotten x (settled env status ?t)"
    using finishSession_parts [of env status s] assms(3,4) by (metis (no_types, lifting))
  have "calm (stopped env s) (settled env status ?t)" by (rule calm_after [OF calm_released calm_settled])
  note calm = calm_disk [OF this]
  have disk: "rs_uploads s' = []" "rs_files s' = rs_files (stopped env s)"
    using calm(1,2) all_uploads_stopped [of env "s\<lparr>rs_idleTimer := None, rs_acceptTimer := None\<rparr>"]
    by (simp_all add: s' forgotten_def rs_emit_def stopped_def)
  have "inv_handles s'" unfolding assms(4) by (rule rs_invD(4) [OF service.finishSession_keeps [OF inv]])
  with disk(1) have handles: "rs_handles s' = Map.empty" by (auto simp: inv_handles_def fun_eq_iff)
  have parts: "rs_files s' (up_partPath u) = None" if "map_of (rs_uploads s) i = Some u" for i u
    unfolding disk(2) stopped_def using that by (intro part_files_gone [where i = i]) (auto dest: map_of_SomeD intro: rev_image_eqI)
  have clock: "clock s' = ([], None, None, None)"
    using finishSession_over [OF pend_ok_inv [OF inv], of env status] assms(3,4) by auto
  have tokens: "rs_tokens s' = []" by (simp add: s' forgotten_def rs_emit_def)
  have files: "m_files (rs_transfer s') = m_files (rs_transfer ?rows)" "m_state (rs_transfer s') = m_state (rs_transfer (final_state env status ?rows))"
    by (simp_all add: s' forgotten_def rs_emit_def settled_def)
  have rows: "fe_status f \<in> {FileDone, FileFailed, FileSkipped}" if "f \<in> set (m_files (rs_transfer s'))" for f
  proof -
    note settle = skip_rows_settle [of env "file_count ?t" ?t, unfolded min.idem]
    have "f \<in> set (m_files (rs_transfer ?rows))" using that unfolding files .
    then obtain j where "j < length (m_files (rs_transfer ?rows))" "m_files (rs_transfer ?rows) ! j = f"
      unfolding in_set_conv_nth by blast
    then have "fe_status f \<notin> {FileWaiting, FileTransferring}"
      using conjunct1 [OF settle] conjunct1 [OF conjunct2 [OF settle]] by metis
    then show ?thesis by (cases "fe_status f") simp_all
  qed
  have "m_state (rs_transfer s') = (if status = Scancelled then Cancelled
      else if \<forall>f \<in> set (m_files (rs_transfer s')). fe_status f = FileDone then Finished else Failed)"
    unfolding files final_state_is file_count_def all_done_count by simp
  with disk(1) handles parts clock tokens rows show ?thesis by (simp add: clock_def)
qed

theorem session_ends_settled_witness:
  "rs_uploads (finishSession demo_env Sfailed (rs_run demo_begin demo_new)) = []
   \<and> rs_files (finishSession demo_env Sfailed (rs_run demo_begin demo_new)) (qs ''/d/a.part'') = None"
proof -
  let ?s = "rs_run demo_begin demo_new"
  let ?u = "\<lparr>up_row = 0, up_file = 0, up_partPath = qs ''/d/a.part'', up_finalPath = qs ''/d/a''\<rparr>"
  have u: "map_of (rs_uploads ?s) 1 = Some ?u" using demo_midway by (simp add: demo_seen_def)
  then have "rs_uploads ?s \<noteq> []" by auto
  then have "rs_sessionId ?s \<noteq> []"
    using rs_invD(2) [OF conjunct1 [OF rs_inv_run [OF demo_lib(2), of demo_settings demo_rng demo_files]]]
    by (auto simp: inv_pending_def demo_new_eq)
  from session_ends_settled [OF demo_lib(2) refl, of demo_settings demo_rng demo_files, folded demo_new_eq, OF this refl, of demo_env Sfailed] u
  show ?thesis by fastforce
qed

section \<open>Names\<close>

lemma base_name_set: "set (base_name s) \<subseteq> set s - {slash}"
  unfolding base_name_def by (auto dest: set_takeWhileD)

lemma length_base_name: "length (base_name s) \<le> length s"
  unfolding base_name_def using length_takeWhile_le [of "\<lambda>c. c \<noteq> slash" "rev s"] by simp

lemma sanitized_name:
  assumes "n = sanitizeFileName lib name"
  shows "slash \<notin> set n \<and> n \<noteq> [] \<and> n \<noteq> qs ''.'' \<and> n \<noteq> qs ''..'' \<and> length n \<le> 200 \<and> (\<forall>c \<in> set n. \<not> stripped c)"
proof -
  let ?clean = "base_name (sanitizeText lib name 200)"
  let ?under = "\<lambda>c::qchar. if c = 92 then 95 else c"
  let ?flat = "map (\<lambda>c. if c = slash then 95 else c) (map ?under ?clean)"
  let ?n = "if ?flat = [] \<or> ?flat = qs ''.'' \<or> ?flat = qs ''..'' then qs ''received-file'' else ?flat"
  have chars: "slash \<notin> set ?clean" "\<forall>c \<in> set ?clean. \<not> stripped c"
    using base_name_set [of "sanitizeText lib name 200"] sanitizeText_not_stripped by blast+
  have len: "length ?clean \<le> 200"
    using length_base_name [of "sanitizeText lib name 200"] length_sanitizeText [of lib name 200] by simp
  have "\<not> stripped 95" "slash \<noteq> 95" by (simp_all add: stripped_def slash_def qc_def)
  then have flat: "slash \<notin> set ?flat" "\<forall>c \<in> set ?flat. \<not> stripped c" "length ?flat \<le> 200"
    using chars len by auto
  have fallback: "slash \<notin> set (qs ''received-file'')" "\<forall>c \<in> set (qs ''received-file''). \<not> stripped c"
    by (simp_all add: slash_def stripped_def qs_def qc_def)
  have "length ?n \<le> 200" using flat(3) by auto
  then have "n = ?n" unfolding assms sanitizeFileName_def Let_def shorten_name_def by simp
  then show ?thesis using flat fallback by auto
qed


lemma suffix_set: "set (suffix_of s) \<subseteq> set s"
  unfolding suffix_of_def by (auto dest: set_takeWhileD)

lemma completeBaseName_set: "set (completeBaseName s) \<subseteq> set s"
proof -
  have "set (tl ys) \<subseteq> set ys" for ys :: qstring by (cases ys) auto
  then have "set (tl (dropWhile P xs)) \<subseteq> set xs" for P and xs :: qstring by (blast dest: set_dropWhileD)
  from this [of "\<lambda>c. c \<noteq> dot" "rev s"] show ?thesis by (auto simp: completeBaseName_def)
qed

lemma nat_digits_set: "\<forall>c \<in> set (qs (nat_digits n)). 48 \<le> c \<and> c \<le> 57"
proof (induction n rule: nat_digits.induct)
  case (1 n)
  have digit: "48 \<le> qc (char_of (48 + d)) \<and> qc (char_of (48 + d)) \<le> 57" if "d < 10" for d :: nat
  proof -
    have "d = 0 \<or> d = 1 \<or> d = 2 \<or> d = 3 \<or> d = 4 \<or> d = 5 \<or> d = 6 \<or> d = 7 \<or> d = 8 \<or> d = 9" using that by arith
    then show ?thesis by (elim disjE) (simp_all add: qc_def)
  qed
  show ?case
  proof (cases "n < 10")
    case True
    then show ?thesis using digit [of n] by (subst nat_digits.simps) (simp add: qs_def)
  next
    case False
    then show ?thesis using 1 digit [of "n mod 10"] by (subst nat_digits.simps) (auto simp: qs_def)
  qed
qed

lemma number_set: "c \<in> set (number (int k)) \<Longrightarrow> 48 \<le> c \<and> c \<le> 57"
  using nat_digits_set [of k] by (simp add: number_def)

text \<open>A numbered name is as clean as the name it is made of.\<close>

lemma numbered_clean:
  assumes "slash \<notin> set base" "slash \<notin> set ext" "\<forall>c \<in> set base \<union> set ext. \<not> stripped c"
  shows "slash \<notin> set (numbered_name base ext k) \<and> 3 \<le> length (numbered_name base ext k) \<and> (\<forall>c \<in> set (numbered_name base ext k). \<not> stripped c)"
proof -
  have "\<not> stripped c" "c \<noteq> slash" if "48 \<le> c \<and> c \<le> 57" for c
    using that by (auto simp: slash_def stripped_def qc_def word_le_nat_alt word_less_nat_alt)
  then have digits: "slash \<notin> set (number (int k))" "\<forall>c \<in> set (number (int k)). \<not> stripped c"
    using number_set [of _ k] by blast+
  have marks: "slash \<notin> set (qs '' ('')" "slash \<notin> set (qs '')'')" "slash \<noteq> dot" "\<not> stripped dot"
    "\<forall>c \<in> set (qs '' ('') \<union> set (qs '')''). \<not> stripped c"
    by (auto simp: slash_def dot_def stripped_def qs_def qc_def)
  show ?thesis using assms digits marks by (auto simp: numbered_name_def)
qed

text \<open>
  C19. Whatever name a peer chooses, the path a file is written to lies directly in the folder of the
  session: a slash and a name without slash, not empty, not a dot or two, and free of control and
  bidirectional characters; and neither it nor its part file exists.
\<close>

theorem reserved_path_is_free:
  assumes "p = reserveFilePath env fs directory name" and "p \<noteq> []"
  shows "\<exists>n. p = directory @ [slash] @ n \<and> slash \<notin> set n \<and> n \<noteq> [] \<and> n \<noteq> qs ''.'' \<and> n \<noteq> qs ''..''
    \<and> (\<forall>c \<in> set n. \<not> stripped c) \<and> \<not> path_exists env fs p \<and> \<not> path_exists env fs (p @ PartSuffix)"
proof -
  let ?clean = "sanitizeFileName (e_lib env) name"
  let ?base = "if completeBaseName ?clean = [] then ?clean else completeBaseName ?clean"
  let ?ext = "if completeBaseName ?clean = [] then [] else suffix_of ?clean"
  note clean = sanitized_name [of ?clean, OF refl]
  have free: "\<not> path_exists env fs p \<and> \<not> path_exists env fs (p @ PartSuffix)"
    using reserve_free [OF assms(1) [symmetric] assms(2)] by (simp add: name_free_def)
  have "slash \<notin> set ?base" "slash \<notin> set ?ext" "\<forall>c \<in> set ?base \<union> set ?ext. \<not> stripped c"
    using clean completeBaseName_set [of ?clean] suffix_set [of ?clean] by auto
  note numbered = numbered_clean [OF this]
  have "p = directory @ [slash] @ ?clean \<or> (\<exists>k. p = directory @ [slash] @ numbered_name ?base ?ext k)"
    using assms by (auto simp: reserveFilePath_def Let_def find_Some_iff split: if_splits option.splits)
  then show ?thesis
  proof
    assume "p = directory @ [slash] @ ?clean"
    with clean free show ?thesis by blast
  next
    assume "\<exists>k. p = directory @ [slash] @ numbered_name ?base ?ext k"
    then obtain k where "p = directory @ [slash] @ numbered_name ?base ?ext k" by blast
    moreover have "n \<noteq> []" "n \<noteq> qs ''.''" "n \<noteq> qs ''..''" if "3 \<le> length n" for n using that by auto
    ultimately show ?thesis using numbered [of k] free by blast
  qed
qed

theorem reserved_path_is_free_witness:
  "\<exists>n. reserveFilePath demo_env demo_files (qs ''/d'') (qs ''../c'') = qs ''/d'' @ [slash] @ n \<and> slash \<notin> set n"
proof -
  have "reserveFilePath demo_env demo_files (qs ''/d'') (qs ''../c'') \<noteq> []" by code_simp
  from reserved_path_is_free [OF refl this] show ?thesis by blast
qed

section \<open>Two surprises\<close>

text \<open>
  C35. Any connection can end the request that is on screen, and its sender never hears of it: a cancel
  from whoever it is releases the parked connection without an answer.
\<close>

theorem cancel_strands_the_sender:
  assumes "rs_sessionId s = []" and "pending_conn s = Some (p, parked)" and "p \<noteq> i"
  shows "rs_pending (handleCancel env i c s) = None \<and> rs_conns (handleCancel env i c s) p = Some parked
    \<and> m_state (rs_transfer (handleCancel env i c s)) = Cancelled"
proof -
  have "pending_conn (answer env i 200 s) = Some (p, parked)" "rs_sessionId (answer env i 200 s) = []"
    "rs_conns (answer env i 200 s) p = Some parked"
    using assms by (auto simp: answer_def on_conn_def pending_conn_def split: option.splits)
  then show ?thesis by (simp add: handleCancel_def Let_def releasePending_def on_transfer_def)
qed

text \<open>
  A file that arrives under the name of the write probe is kept under that name, and accepting the
  next transfer into the same folder deletes it.
\<close>

theorem received_probe_is_deleted:
  assumes "\<forall>c \<in> set (qs ''.localsend-write-test''). \<not> q_isSpace (e_lib env) c"
    and "rs_files s (path @ probe_name) = Some b" and "prepareDirectory env s = (path, s')" and "path \<noteq> []"
  shows "path @ [slash] @ sanitizeFileName (e_lib env) (qs ''.localsend-write-test'') = path @ probe_name
    \<and> rs_files s' (path @ probe_name) = None"
proof -
  let ?n = "qs ''.localsend-write-test''"
  have "trimmed (q_isSpace (e_lib env)) ?n = ?n" using assms(1) by (intro trimmed_id) simp_all
  moreover have "\<forall>c \<in> set ?n. \<not> stripped c" by (simp add: stripped_def qs_def qc_def)
  ultimately have t: "sanitizeText (e_lib env) ?n 200 = ?n" by (intro sanitizeText_stable) simp_all
  have "base_name ?n = ?n" by code_simp
  moreover have "map (\<lambda>c. if c = slash then 95 else c) (map (\<lambda>c. if c = 92 then 95 else c) ?n) = ?n" by code_simp
  ultimately have "sanitizeFileName (e_lib env) ?n = ?n" unfolding sanitizeFileName_def Let_def t by (simp add: shorten_name_def)
  moreover have "[slash] @ ?n = probe_name" by code_simp
  moreover have "rs_files s' (path @ probe_name) = None"
    using assms(3,4) by (auto simp: prepareDirectory_def Let_def set_file_def split: if_splits)
  ultimately show ?thesis by simp
qed

theorem received_probe_is_deleted_witness:
  "rs_files (snd (prepareDirectory demo_env (new_ReceiveService demo_settings demo_rng [qs ''/d'' @ probe_name \<mapsto> bs ''x''])))
     (qs ''/d'' @ probe_name) = None"
proof -
  let ?s = "new_ReceiveService demo_settings demo_rng [qs ''/d'' @ probe_name \<mapsto> bs ''x'']"
  have "fst (prepareDirectory demo_env ?s) = qs ''/d''" by code_simp
  then have p: "prepareDirectory demo_env ?s = (qs ''/d'', snd (prepareDirectory demo_env ?s))" by (metis prod.collapse)
  have "\<forall>c \<in> set (qs ''.localsend-write-test''). \<not> q_isSpace (e_lib demo_env) c" by code_simp
  from received_probe_is_deleted [OF this _ p, of "bs ''x''"] show ?thesis by (simp add: new_ReceiveService_def)
qed

text \<open>A sender parked on connection 7, and a stranger on connection 8.\<close>

definition demo_parked :: ReceiveService where
  "demo_parked = demo_new\<lparr>rs_pending := Some 7, rs_conns := [7 \<mapsto> new_HttpConnection 0 [] [], 8 \<mapsto> new_HttpConnection 0 [] []]\<rparr>"

theorem cancel_strands_the_sender_witness:
  "rs_pending (handleCancel demo_env 8 (new_HttpConnection 0 [] []) demo_parked) = None"
  using cancel_strands_the_sender [of demo_parked 7 "new_HttpConnection 0 [] []" 8 demo_env "new_HttpConnection 0 [] []"]
  by (simp add: demo_parked_def demo_new_def new_ReceiveService_def pending_conn_def)


end
