(* ===== verification/Http_Client.thy ===== *)
theory Http_Client
  imports Secure_Store Device_Info Http_Connection
begin

text \<open>
  The outgoing side: requests as the program hands them to \<open>QNetworkAccessManager\<close>, and
  \<open>src/src/tlsclient.cpp\<close>, which decides over TLS whether one of them leaves the device. What a
  server answers is the parameter of the event that finishes a reply.
\<close>

section \<open>Requests and replies\<close>

datatype request_body = NoBody | JsonBody json | FileBody qstring

text \<open>What \<open>TlsClient::pin\<close> and \<open>TlsClient::acceptUnknown\<close> connect to \<open>sslErrors\<close>.\<close>

datatype tls_policy = NoHandler | PinTo qstring | AcceptUnknown

record request =
  rq_url :: qstring
  rq_query :: "(string \<times> qstring) list"
  rq_identity :: "(bytes \<times> bytes) option"
  rq_policy :: tls_policy
  rq_body :: request_body

text \<open>
  \<open>rp_status\<close> is 0 when there was no HTTP answer. \<open>rp_cert\<close> is the certificate the TLS
  configuration names (empty for none), \<open>rp_errorCerts\<close> those the errors name, \<open>rp_verified\<close> says
  that the handshake met no error at all.
\<close>

record reply =
  rp_error :: bool
  rp_errorString :: qstring
  rp_status :: int
  rp_body :: bytes
  rp_cert :: bytes
  rp_errorCerts :: "bytes list"
  rp_verified :: bool

definition configure :: "bytes \<Rightarrow> bytes \<Rightarrow> (bytes \<times> bytes) option" where
  "configure certificate key = (if certificate \<noteq> [] \<and> key \<noteq> [] then Some (certificate, key) else None)"

definition is_https :: "qstring \<Rightarrow> bool" where
  "is_https url \<longleftrightarrow> take (length (qs ''https:'')) url = qs ''https:''"

text \<open>
  Under \<open>VerifyPeer\<close> a handshake that meets an error goes on only if the handler ignores the
  errors; otherwise the connection is aborted and nothing was sent.
\<close>

definition errors_ignored :: "qtlib \<Rightarrow> tls_policy \<Rightarrow> bytes \<Rightarrow> bytes list \<Rightarrow> bool" where
  "errors_ignored lib policy cert errorCerts =
     (case policy of NoHandler \<Rightarrow> False | AcceptUnknown \<Rightarrow> True | PinTo fp \<Rightarrow> pin_allows lib fp cert errorCerts)"

definition goes_out :: "qtlib \<Rightarrow> request \<Rightarrow> reply \<Rightarrow> bool" where
  "goes_out lib rq rp \<longleftrightarrow> \<not> is_https (rq_url rq) \<or> rp_verified rp \<or> errors_ignored lib (rq_policy rq) (rp_cert rp) (rp_errorCerts rp)"

definition refused_reply :: "reply \<Rightarrow> reply" where
  "refused_reply rp = rp\<lparr>rp_error := True, rp_status := 0, rp_body := []\<rparr>"

definition answered :: "qtlib \<Rightarrow> request \<Rightarrow> reply \<Rightarrow> reply" where
  "answered lib rq rp = (if goes_out lib rq rp then rp else refused_reply rp)"

lemma answered_status: "rp_status (answered lib rq rp) \<noteq> 0 \<Longrightarrow> goes_out lib rq rp \<and> answered lib rq rp = rp"
  by (simp add: answered_def refused_reply_def split: if_splits)

text \<open>
  C26. What the pin decides. A pinned request over https goes out exactly when the peer presented the
  certificate with the announced fingerprint, case aside and as far as the digest tells certificates
  apart, or when the library verified the certificate by itself: then the handler is never asked and
  nothing is compared. With no announced fingerprint only that second way is left, and over plain
  http every request goes out.
\<close>

theorem pinned_request_goes_out:
  assumes "qt_ok lib" "der \<noteq> []" "q_toUpper lib expected = q_toUpper lib (fingerprintOf lib der)"
    and "\<And>s. set s \<subseteq> set (qs ''0123456789abcdef'') \<Longrightarrow> plain_ascii (q_toUpper lib s)"
    and "\<And>other. sha256Hex lib other = sha256Hex lib der \<Longrightarrow> other = der"
    and "sha256Hex lib der \<noteq> []"
  shows "(goes_out lib (rq\<lparr>rq_policy := PinTo expected\<rparr>) rp \<longleftrightarrow> \<not> is_https (rq_url rq) \<or> rp_verified rp
      \<or> presentedCertificate (rp_cert rp) (rp_errorCerts rp) = der)
    \<and> (goes_out lib (rq\<lparr>rq_policy := PinTo []\<rparr>) rp \<longleftrightarrow> \<not> is_https (rq_url rq) \<or> rp_verified rp)"
  using pin_allows_iff [OF assms(1-3), of "rp_cert rp" "rp_errorCerts rp"] assms(4-6)
  by (simp_all add: goes_out_def errors_ignored_def)

definition pinned_request :: request where
  "pinned_request = \<lparr>rq_url = qs ''https:h'', rq_query = [], rq_identity = None, rq_policy = NoHandler, rq_body = NoBody\<rparr>"

definition shown :: "bytes \<Rightarrow> reply" where
  "shown cert = \<lparr>rp_error = False, rp_errorString = [], rp_status = 200, rp_body = [], rp_cert = cert, rp_errorCerts = [], rp_verified = False\<rparr>"

theorem pinned_request_goes_out_witness:
  "goes_out one_hash_qt (pinned_request\<lparr>rq_policy := PinTo (qs ''01'')\<rparr>) (shown [1])
    \<and> \<not> goes_out one_hash_qt (pinned_request\<lparr>rq_policy := PinTo (qs ''01'')\<rparr>) (shown [3])"
proof -
  have len: "length (sha256Hex one_hash_qt d) = (if d = [1] then 2 else 4)" for d
    by (simp add: sha256Hex_def one_hash_qt_def to_hex_def)
  have fp: "fingerprintOf one_hash_qt [1] = qs ''01''"
    by (simp add: fingerprintOf_def sha256Hex_def one_hash_qt_def to_hex_def hex_digit_def qs_def qc_def ascii_upper_char_def)
  have https: "is_https (rq_url pinned_request)" by (simp add: is_https_def pinned_request_def qs_def)
  have "goes_out one_hash_qt (pinned_request\<lparr>rq_policy := PinTo (qs ''01'')\<rparr>) (shown d) \<longleftrightarrow> \<not> is_https (rq_url pinned_request)
      \<or> rp_verified (shown d) \<or> presentedCertificate (rp_cert (shown d)) (rp_errorCerts (shown d)) = [1]" for d
  proof (rule pinned_request_goes_out [OF one_hash_qt_ok, THEN conjunct1])
    show "other = [1]" if "sha256Hex one_hash_qt other = sha256Hex one_hash_qt [1]" for other
      using arg_cong [OF that, of length] by (simp add: len split: if_splits)
    show "sha256Hex one_hash_qt [1] \<noteq> []" using len [of "[1]"] by auto
    show "plain_ascii (q_toUpper one_hash_qt s)" if "set s \<subseteq> set (qs ''0123456789abcdef'')" for s
      using ascii_upper_hex [OF that] by (simp add: one_hash_qt_def)
  qed (simp_all add: fp)
  with https show ?thesis by (simp add: shown_def presentedCertificate_def)
qed

end
