(* ===== verification/Selection_Model.thy ===== *)
theory Selection_Model
  imports App_Settings
begin

text \<open>
  \<open>src/src/selectionmodel.cpp\<close>: the files chosen to be sent. What the file system says of a path
  is the parameter \<open>filelib\<close>: \<open>Some\<close> for a readable regular file, with the facts \<open>QFileInfo\<close> and
  \<open>QMimeDatabase\<close> give. Sizes add up as \<open>qint64\<close>.
\<close>

section \<open>State\<close>

record file_info =
  fi_canonical :: qstring
  fi_name :: qstring
  fi_size :: int
  fi_mime :: qstring

type_synonym filelib = "qstring \<Rightarrow> file_info option"

record Item =
  it_path :: qstring
  it_fileName :: qstring
  it_fileType :: qstring
  it_size :: int

datatype selection_signal = SelInserted nat | SelRemoved nat | SelReset | SelChanged

record SelectionModel =
  m_items :: "Item list"
  sm_signals :: "selection_signal list"

definition no_selection :: SelectionModel where
  "no_selection = \<lparr>m_items = [], sm_signals = []\<rparr>"

definition sm_emit :: "selection_signal list \<Rightarrow> SelectionModel \<Rightarrow> SelectionModel" where
  "sm_emit sigs sm = sm\<lparr>sm_signals := sm_signals sm @ sigs\<rparr>"

definition sm_count :: "SelectionModel \<Rightarrow> nat" where
  "sm_count sm = length (m_items sm)"

definition sm_totalBytes :: "SelectionModel \<Rightarrow> int" where
  "sm_totalBytes sm = fold (\<lambda>it acc. wrap64 (acc + it_size it)) (m_items sm) 0"

section \<open>Operations\<close>

text \<open>A \<open>file://\<close> URL becomes the local path \<open>QUrl::toLocalFile\<close> makes of it.\<close>

definition localPathOf :: "sysenv \<Rightarrow> qstring \<Rightarrow> qstring" where
  "localPathOf sys pathOrUrl = (if startsWith (qs ''file://'') pathOrUrl then s_toLocalFile sys pathOrUrl else pathOrUrl)"

definition sm_add :: "sysenv \<Rightarrow> filelib \<Rightarrow> qstring \<Rightarrow> SelectionModel \<Rightarrow> bool \<times> SelectionModel" where
  "sm_add sys fl pathOrUrl sm =
     (let path = localPathOf sys pathOrUrl
      in if path = [] then (False, sm)
         else case fl path of
                None \<Rightarrow> (False, sm)
              | Some info \<Rightarrow>
                  if list_ex (\<lambda>it. it_path it = fi_canonical info) (m_items sm) then (False, sm)
                  else
                    let item = \<lparr>it_path = fi_canonical info, it_fileName = fi_name info, it_fileType = fi_mime info, it_size = fi_size info\<rparr>
                    in (True, sm_emit [SelInserted (length (m_items sm)), SelChanged] (sm\<lparr>m_items := m_items sm @ [item]\<rparr>)))"

fun sm_addAll :: "sysenv \<Rightarrow> filelib \<Rightarrow> qstring list \<Rightarrow> SelectionModel \<Rightarrow> nat \<times> SelectionModel" where
  "sm_addAll sys fl [] sm = (0, sm)"
| "sm_addAll sys fl (p # ps) sm =
     (let (ok, sm1) = sm_add sys fl p sm; (added, sm2) = sm_addAll sys fl ps sm1
      in ((if ok then Suc added else added), sm2))"

definition sm_removeAt :: "int \<Rightarrow> SelectionModel \<Rightarrow> SelectionModel" where
  "sm_removeAt row sm =
     (if row < 0 \<or> row \<ge> int (length (m_items sm)) then sm
      else sm_emit [SelRemoved (nat row), SelChanged] (sm\<lparr>m_items := remove_at (nat row) (m_items sm)\<rparr>))"

definition sm_clear :: "SelectionModel \<Rightarrow> SelectionModel" where
  "sm_clear sm = (if m_items sm = [] then sm else sm_emit [SelReset, SelChanged] (sm\<lparr>m_items := []\<rparr>))"

definition sm_paths :: "SelectionModel \<Rightarrow> qstring list" where
  "sm_paths sm = map it_path (m_items sm)"

section \<open>A set of files, in the order they were chosen\<close>

datatype sm_op = SmAdd qstring | SmAddAll "qstring list" | SmRemove int | SmClear

fun sm_step :: "sysenv \<Rightarrow> filelib \<Rightarrow> sm_op \<Rightarrow> SelectionModel \<Rightarrow> SelectionModel" where
  "sm_step sys fl (SmAdd p) sm = snd (sm_add sys fl p sm)"
| "sm_step sys fl (SmAddAll ps) sm = snd (sm_addAll sys fl ps sm)"
| "sm_step sys fl (SmRemove row) sm = sm_removeAt row sm"
| "sm_step sys fl SmClear sm = sm_clear sm"

definition sm_inv :: "SelectionModel \<Rightarrow> bool" where
  "sm_inv sm \<longleftrightarrow> distinct (sm_paths sm)"

lemma sm_emit_items [simp]: "m_items (sm_emit sigs sm) = m_items sm"
  by (simp add: sm_emit_def)

lemma sm_inv_add: "sm_inv sm \<Longrightarrow> sm_inv (snd (sm_add sys fl p sm))"
  by (auto simp: sm_inv_def sm_add_def sm_paths_def Let_def list_ex_iff split: option.split)

lemma sm_inv_addAll: "sm_inv sm \<Longrightarrow> sm_inv (snd (sm_addAll sys fl ps sm))"
proof (induction ps arbitrary: sm)
  case (Cons p ps)
  then show ?case using sm_inv_add [OF Cons.prems, of sys fl p] by (auto simp: Let_def split: prod.splits) (metis snd_conv)+
qed simp

lemma sm_inv_removeAt: "sm_inv sm \<Longrightarrow> sm_inv (sm_removeAt row sm)"
  by (simp add: sm_inv_def sm_removeAt_def sm_paths_def mset_remove_at_map distinct_remove_at)

lemma sm_step_inv: "sm_inv sm \<Longrightarrow> sm_inv (sm_step sys fl op sm)"
  by (cases op) (simp_all add: sm_inv_add sm_inv_addAll sm_inv_removeAt sm_clear_def, simp_all add: sm_inv_def sm_paths_def)


lemma sm_add_paths:
  "sm_add sys fl p sm = (ok, sm') \<Longrightarrow>
     (ok \<and> (\<exists>info. localPathOf sys p \<noteq> [] \<and> fl (localPathOf sys p) = Some info \<and> fi_canonical info \<notin> set (sm_paths sm)
            \<and> sm_paths sm' = sm_paths sm @ [fi_canonical info]))
     \<or> (\<not> ok \<and> sm' = sm \<and> (localPathOf sys p = [] \<or> (\<forall>info. fl (localPathOf sys p) = Some info \<longrightarrow> fi_canonical info \<in> set (sm_paths sm))))"
  by (auto simp: sm_add_def Let_def sm_paths_def list_ex_iff image_iff split: if_splits option.splits; metis)

text \<open>The file a path names, by its canonical path; the first of every kind in a list.\<close>

definition file_of :: "sysenv \<Rightarrow> filelib \<Rightarrow> qstring \<Rightarrow> qstring option" where
  "file_of sys fl p = (if localPathOf sys p = [] then None else map_option fi_canonical (fl (localPathOf sys p)))"

fun firsts :: "'a list \<Rightarrow> 'a list" where
  "firsts [] = []"
| "firsts (x # xs) = x # filter (\<lambda>y. y \<noteq> x) (firsts xs)"

lemma firsts_facts: "set (firsts xs) = set xs" "distinct (firsts xs)"
  by (induction xs) auto

lemma firsts_filter: "firsts (filter P xs) = filter P (firsts xs)"
proof (induction xs)
  case (Cons x xs)
  then show ?case by (auto simp: filter_filter conj_commute intro: filter_cong)
qed simp

text \<open>
  C33. Choosing files adds every readable file among them exactly once, behind what was chosen before and
  in the order in which the list first names it, whatever spelling or how often it is named; files
  chosen before are not added again, and the number returned is the number added.
\<close>

theorem selection_adds_each_file_once:
  assumes "sm_inv sm" and "sm_addAll sys fl ps sm = (n, sm')"
  shows "sm_paths sm' = sm_paths sm @ firsts (filter (\<lambda>x. x \<notin> set (sm_paths sm)) (List.map_filter (file_of sys fl) ps))
    \<and> length (sm_paths sm') = length (sm_paths sm) + n \<and> distinct (sm_paths sm')"
  using assms
proof (induction ps arbitrary: sm n)
  case Nil
  then show ?case by (simp add: sm_inv_def)
next
  case (Cons p ps)
  obtain ok sm1 where a: "sm_add sys fl p sm = (ok, sm1)" by fastforce
  obtain k where k: "sm_addAll sys fl ps sm1 = (k, sm')" and n: "n = (if ok then Suc k else k)"
    using Cons.prems(2) a by (auto split: prod.splits)
  have inv: "sm_inv sm1" using sm_inv_add [OF Cons.prems(1), of sys fl p] a by simp
  let ?rest = "List.map_filter (file_of sys fl) ps"
  note IH = Cons.IH [OF inv k]
  consider (added) info where "ok" "localPathOf sys p \<noteq> []" "fl (localPathOf sys p) = Some info"
      "fi_canonical info \<notin> set (sm_paths sm)" "sm_paths sm1 = sm_paths sm @ [fi_canonical info]"
    | (skipped) "\<not> ok" "sm1 = sm"
      "localPathOf sys p = [] \<or> (\<forall>info. fl (localPathOf sys p) = Some info \<longrightarrow> fi_canonical info \<in> set (sm_paths sm))"
    using sm_add_paths [OF a] by blast
  then show ?case
  proof cases
    case (added info)
    let ?x = "fi_canonical info"
    have "filter (\<lambda>x. x \<notin> set (sm_paths sm1)) ?rest = filter (\<lambda>y. y \<noteq> ?x) (filter (\<lambda>x. x \<notin> set (sm_paths sm)) ?rest)"
      using added(5) by (simp add: conj_commute)
    then have "firsts (filter (\<lambda>x. x \<notin> set (sm_paths sm1)) ?rest)
        = filter (\<lambda>y. y \<noteq> ?x) (firsts (filter (\<lambda>x. x \<notin> set (sm_paths sm)) ?rest))"
      by (simp only: firsts_filter)
    moreover have "file_of sys fl p = Some ?x" using added(2,3) by (simp add: file_of_def)
    ultimately have "sm_paths sm' = sm_paths sm @ firsts (filter (\<lambda>x. x \<notin> set (sm_paths sm)) (List.map_filter (file_of sys fl) (p # ps)))"
      using IH added(4,5) by (simp add: List.map_filter_simps)
    moreover have "length (sm_paths sm') = length (sm_paths sm) + n" "distinct (sm_paths sm')"
      using IH [THEN conjunct2] added(1,5) n by simp_all
    ultimately show ?thesis by blast
  next
    case skipped
    then have "file_of sys fl p = None \<or> (\<exists>x \<in> set (sm_paths sm). file_of sys fl p = Some x)"
      by (cases "fl (localPathOf sys p)") (auto simp: file_of_def)
    with IH skipped n show ?thesis by (auto simp: List.map_filter_simps)
  qed
qed

definition demo_fl :: filelib where
  "demo_fl p = (if p = qs ''/a'' \<or> p = qs ''/b'' then Some \<lparr>fi_canonical = qs ''/a'', fi_name = qs ''a'', fi_size = 3, fi_mime = []\<rparr> else None)"

definition demo_sys :: sysenv where
  "demo_sys = \<lparr>s_downloads = [], s_home = [], s_appData = [], s_hwRelease = None, s_productName = [], s_toLocalFile = (\<lambda>s. s)\<rparr>"

theorem selection_adds_each_file_once_witness:
  "sm_paths (snd (sm_addAll demo_sys demo_fl [qs ''/a'', qs ''/c'', qs ''/b''] no_selection)) = [qs ''/a'']"
proof -
  have inv: "sm_inv no_selection" by (simp add: sm_inv_def sm_paths_def no_selection_def)
  have old: "sm_paths no_selection = []" by (simp add: sm_paths_def no_selection_def)
  have "firsts (List.map_filter (file_of demo_sys demo_fl) [qs ''/a'', qs ''/c'', qs ''/b'']) = [qs ''/a'']" by code_simp
  then show ?thesis
    using selection_adds_each_file_once [OF inv surjective_pairing, of demo_sys demo_fl "[qs ''/a'', qs ''/c'', qs ''/b'']"]
    unfolding old by (simp del: sm_addAll.simps List.map_filter_simps)
qed

end
