(* ===== verification/Send_Service.thy ===== *)
theory Send_Service
  imports Http_Client Selection_Model History_Model Known_Devices Transfer_Model
begin

text \<open>
  \<open>src/src/sendservice.cpp\<close>: an outgoing transfer, the prepare-upload handshake and then one file
  at a time. Replies live in a table by number; a \<open>QPointer\<close> to one is its number.
\<close>

section \<open>State\<close>

datatype send_signal = BusyChanged | PinRequired bool | Declined | SendFinished qstring nat

text \<open>What is connected to the \<open>finished\<close> of a reply; an upload knows the row it tracks.\<close>

datatype reply_slot = OnPrepare | OnUpload int | OnNotice

record SendService =
  sd_settings :: AppSettings
  sd_transfer :: TransferModel
  sd_history :: HistoryModel
  sd_known :: "KnownDevices option"
  sd_peer :: DeviceInfo
  sd_sessionId :: qstring
  sd_reply :: "nat option"
  sd_currentFile :: "qstring option"
  sd_currentRow :: int
  sd_busy :: bool
  sd_cancelled :: bool
  sd_pinAttempted :: bool
  sd_inFlight :: "(nat, request \<times> reply_slot) qhash"
  sd_nextReply :: nat
  sd_posted :: "request list"
  sd_rng :: rng
  sd_signals :: "send_signal list"

record send_env =
  n_lib :: qtlib
  n_net :: netlib
  n_sys :: sysenv
  n_files :: filelib
  n_open :: "qstring \<Rightarrow> bool"
  n_now :: int
  n_wall :: int
  n_tr :: "string \<Rightarrow> qstring list \<Rightarrow> qstring"

definition new_SendService :: "AppSettings \<Rightarrow> rng \<Rightarrow> SendService" where
  "new_SendService st r = \<lparr>sd_settings = st, sd_transfer = new_TransferModel, sd_history = no_history, sd_known = None,
     sd_peer = new_DeviceInfo, sd_sessionId = [], sd_reply = None, sd_currentFile = None, sd_currentRow = -1,
     sd_busy = False, sd_cancelled = False, sd_pinAttempted = False, sd_inFlight = [], sd_nextReply = 0,
     sd_posted = [], sd_rng = r, sd_signals = []\<rparr>"

definition sd_emit :: "send_signal \<Rightarrow> SendService \<Rightarrow> SendService" where
  "sd_emit x s = s\<lparr>sd_signals := sd_signals s @ [x]\<rparr>"

definition on_tm :: "(TransferModel \<Rightarrow> TransferModel) \<Rightarrow> SendService \<Rightarrow> SendService" where
  "on_tm f s = s\<lparr>sd_transfer := f (sd_transfer s)\<rparr>"

definition sd_state :: "send_env \<Rightarrow> State \<Rightarrow> qstring \<Rightarrow> SendService \<Rightarrow> SendService" where
  "sd_state env st err s = on_tm (setState (n_now env) st err) s"

definition sd_status :: "send_env \<Rightarrow> int \<Rightarrow> FileStatus \<Rightarrow> qstring \<Rightarrow> SendService \<Rightarrow> SendService" where
  "sd_status env row status err s = on_tm (setFileStatus (n_now env) row status err) s"

definition sd_files :: "SendService \<Rightarrow> FileEntry list" where
  "sd_files s = m_files (sd_transfer s)"

text \<open>\<open>QNetworkAccessManager::post\<close> with the identity of the settings: the number of the reply.\<close>

definition post :: "request \<Rightarrow> reply_slot \<Rightarrow> SendService \<Rightarrow> nat \<times> SendService" where
  "post rq slot s =
     (let k = sd_nextReply s
      in (k, s\<lparr>sd_inFlight := AList.update k (rq, slot) (sd_inFlight s), sd_nextReply := Suc k,
               sd_posted := sd_posted s @ [rq]\<rparr>))"

definition own_identity :: "SendService \<Rightarrow> (bytes \<times> bytes) option" where
  "own_identity s = configure (c_certificate (as_identity (sd_settings s))) (c_key (as_identity (sd_settings s)))"

section \<open>Asking\<close>

definition peer_of :: "(string, variant) qhash \<Rightarrow> DeviceInfo" where
  "peer_of device = new_DeviceInfo\<lparr>dev_alias := v_toString (map_of device ''alias''),
     deviceModel := v_toString (map_of device ''hardware''), deviceType := v_toString (map_of device ''deviceType''),
     fingerprint := v_toString (map_of device ''fingerprint''),
     port := (case map_of device ''port'' of None \<Rightarrow> DefaultPort | Some v \<Rightarrow> v_toInt v),
     protocol := (case map_of device ''protocol'' of None \<Rightarrow> qs ''http'' | Some v \<Rightarrow> v_toString (Some v)),
     address := v_toString (map_of device ''address'')\<rparr>"

definition descriptor_of :: "FileEntry \<Rightarrow> jobject" where
  "descriptor_of f = jinsert ''fileType'' (JString (fileType f)) (jinsert ''size'' (JDouble (double_of_int (fe_size f)))
     (jinsert ''fileName'' (JString (fileName f)) (jinsert ''id'' (JString (fe_id f)) [])))"

definition offer_of :: "SendService \<Rightarrow> jobject" where
  "offer_of s = jinsert ''files'' (JObject (fold (\<lambda>f ob. json_put (fe_id f) (JObject (descriptor_of f)) ob) (sd_files s) []))
     (jinsert ''info'' (JObject (toRegisterBody (self_info (sd_settings s)))) [])"

definition requestUpload :: "qstring \<Rightarrow> SendService \<Rightarrow> SendService" where
  "requestUpload pin s =
     (let (k, s1) = post \<lparr>rq_url = apiBase (sd_peer s) @ PathPrepareUpload,
            rq_query = (if pin \<noteq> [] then [(''pin'', pin)] else []), rq_identity = own_identity s,
            rq_policy = PinTo (fingerprint (sd_peer s)), rq_body = JsonBody (JObject (offer_of s))\<rparr> OnPrepare s
      in s1\<lparr>sd_reply := Some k\<rparr>)"

text \<open>The entries of the paths, numbered from \<open>i\<close>; a path that is no readable file is left out.\<close>

fun make_entries :: "send_env \<Rightarrow> nat \<Rightarrow> qstring list \<Rightarrow> rng \<Rightarrow> FileEntry list \<times> rng" where
  "make_entries env i [] r = ([], r)"
| "make_entries env i (p # ps) r =
     (let path = localPathOf (n_sys env) p
      in case n_files env path of
           None \<Rightarrow> make_entries env (Suc i) ps r
         | Some info \<Rightarrow>
             let (t, r1) = generateToken r;
                 entry = new_FileEntry\<lparr>fe_id := number (int i) @ qs ''-'' @ take 12 t, fileName := fi_name info,
                   fe_size := fi_size info, fileType := fi_mime info, localPath := path\<rparr>;
                 (rest, r2) = make_entries env (Suc i) ps r1
             in (entry # rest, r2))"

definition begin_sending :: "send_env \<Rightarrow> DeviceInfo \<Rightarrow> FileEntry list \<Rightarrow> SendService \<Rightarrow> SendService" where
  "begin_sending env peer entries s =
     on_tm (begin_transfer (n_now env) Sending (dev_alias peer) (address peer) (deviceType peer) (fingerprint peer) entries) s"

definition sendFiles :: "send_env \<Rightarrow> (string, variant) qhash \<Rightarrow> qstring list \<Rightarrow> SendService \<Rightarrow> SendService" where
  "sendFiles env device paths s =
     (if sd_busy s then s
      else
        let peer = peer_of device
        in if address peer = [] \<or> paths = [] then s
           else if (case sd_known s of None \<Rightarrow> False | Some kd \<Rightarrow> isBlocked (n_lib env) (fingerprint peer) kd)
           then sd_state env Failed (n_tr env ''This device is blocked'' []) (begin_sending env peer [] s)
           else
             let (entries, r) = make_entries env 0 paths (sd_rng s); s0 = s\<lparr>sd_rng := r\<rparr>
             in if entries = [] then s0
                else
                  let s1 = sd_emit BusyChanged (s0\<lparr>sd_peer := peer, sd_sessionId := [], sd_cancelled := False,
                             sd_pinAttempted := False, sd_busy := True\<rparr>)
                  in requestUpload [] (sd_state env Requesting [] (begin_sending env peer entries s1)))"

definition submitPin :: "send_env \<Rightarrow> qstring \<Rightarrow> SendService \<Rightarrow> SendService" where
  "submitPin env pin s =
     (if \<not> sd_busy s \<or> pin = [] then s
      else requestUpload pin (sd_state env Requesting [] (s\<lparr>sd_pinAttempted := True\<rparr>)))"

section \<open>Ending\<close>

definition closeCurrentFile :: "SendService \<Rightarrow> SendService" where
  "closeCurrentFile s = s\<lparr>sd_currentFile := None\<rparr>"

definition send_record :: "send_env \<Rightarrow> qstring \<Rightarrow> SendService \<Rightarrow> HistoryRecord" where
  "send_record env rid s = \<lparr>hr_id = rid, hr_direction = qs ''send'', hr_peerAlias = dev_alias (sd_peer s),
     hr_peerDeviceType = deviceType (sd_peer s), hr_timestamp = n_wall env,
     hr_fileNames = map fileName (filter (\<lambda>f. fe_status f = FileDone) (sd_files s)),
     hr_totalBytes = fold (\<lambda>f acc. wrap64 (acc + fe_size f)) (filter (\<lambda>f. fe_status f = FileDone) (sd_files s)) 0,
     hr_status = stateName (sd_transfer s), hr_destination = []\<rparr>"

definition writeHistory :: "send_env \<Rightarrow> SendService \<Rightarrow> SendService" where
  "writeHistory env s =
     (if \<not> historyEnabled (sd_settings s) then s
      else
        let (rid, r) = (if sd_sessionId s = [] then generateToken (sd_rng s) else (sd_sessionId s, sd_rng s));
            s1 = s\<lparr>sd_rng := r\<rparr>; h = send_record env rid s1
        in if hr_fileNames h \<noteq> [] then s1\<lparr>sd_history := append_record h (sd_history s1)\<rparr> else s1)"

definition completeTransfer :: "send_env \<Rightarrow> SendService \<Rightarrow> SendService" where
  "completeTransfer env s =
     (let finished = completedCount (sd_transfer s); all = length (sd_files s);
          s1 = (if finished = all then sd_state env Finished [] s
                else if finished > 0
                  then sd_state env Failed (n_tr env ''%1 of %2 files were sent'' [number (int finished), number (int all)]) s
                else sd_state env Failed (n_tr env ''Nothing was sent'' []) s);
          s2 = (if finished > 0 then s1\<lparr>sd_known := map_option (remember (n_lib env) (n_wall env) (fingerprint (sd_peer s1))
                                          (dev_alias (sd_peer s1))) (sd_known s1)\<rparr> else s1);
          s3 = (writeHistory env s2)\<lparr>sd_busy := False, sd_sessionId := []\<rparr>
      in sd_emit (SendFinished (stateName (sd_transfer s3)) finished) (sd_emit BusyChanged s3))"

definition skip_waiting :: "send_env \<Rightarrow> FileStatus set \<Rightarrow> nat \<Rightarrow> SendService \<Rightarrow> SendService" where
  "skip_waiting env which row s =
     (if fe_status (sd_files s ! row) \<in> which then sd_status env (int row) FileSkipped [] s else s)"

definition failTransfer :: "send_env \<Rightarrow> qstring \<Rightarrow> SendService \<Rightarrow> SendService" where
  "failTransfer env message s =
     (let s0 = closeCurrentFile s;
          s1 = fold (skip_waiting env {FileWaiting}) [0..<length (sd_files s0)] s0;
          s2 = sd_state env Failed message s1;
          s3 = (if completedCount (sd_transfer s2) > 0 then writeHistory env s2 else s2);
          s4 = sd_emit BusyChanged (s3\<lparr>sd_busy := False, sd_sessionId := []\<rparr>)
      in sd_emit (SendFinished (qs ''failed'') (completedCount (sd_transfer s4))) s4)"

section \<open>Uploading\<close>

text \<open>The \<open>while\<close> loop that looks for the next waiting row.\<close>

function next_row :: "FileEntry list \<Rightarrow> nat \<Rightarrow> nat" where
  "next_row fs row = (if row < length fs \<and> fe_status (fs ! row) \<noteq> FileWaiting then next_row fs (Suc row) else row)"
  by auto
termination by (relation "measure (\<lambda>(fs, row). length fs - row)") auto

declare next_row.simps [simp del]

definition upload_request :: "FileEntry \<Rightarrow> SendService \<Rightarrow> request" where
  "upload_request f s = \<lparr>rq_url = apiBase (sd_peer s) @ PathUpload,
     rq_query = [(''sessionId'', sd_sessionId s), (''fileId'', fe_id f), (''token'', token f)],
     rq_identity = own_identity s, rq_policy = PinTo (fingerprint (sd_peer s)), rq_body = FileBody (localPath f)\<rparr>"

text \<open>The upload of row \<open>row\<close>, whose file has been opened.\<close>

definition upload_row :: "send_env \<Rightarrow> int \<Rightarrow> SendService \<Rightarrow> SendService" where
  "upload_row env row s =
     (let entry = sd_files s ! nat row;
          s1 = sd_status env row FileTransferring [] (s\<lparr>sd_currentFile := Some (localPath entry)\<rparr>);
          (k, s2) = post (upload_request entry s1) (OnUpload row) s1
      in s2\<lparr>sd_reply := Some k\<rparr>)"

lemma sd_simps [simp]:
  "sd_currentRow (sd_status env row st err s) = sd_currentRow s" "sd_currentRow (closeCurrentFile s) = sd_currentRow s"
  "length (sd_files (sd_status env row st err s)) = length (sd_files s)" "sd_files (closeCurrentFile s) = sd_files s"
  "sd_files (s\<lparr>sd_currentRow := n\<rparr>) = sd_files s"
  by (simp_all add: sd_status_def on_tm_def closeCurrentFile_def sd_files_def)

lemma next_row_ge: "row \<le> next_row fs row"
proof (induction fs row rule: next_row.induct)
  case (1 fs row)
  then show ?case by (subst next_row.simps) (auto intro: Suc_leD)
qed

function startNextFile :: "send_env \<Rightarrow> SendService \<Rightarrow> SendService" where
  "startNextFile env s0 =
     (let s = closeCurrentFile s0
      in if sd_cancelled s then s
         else
           let row = next_row (sd_files s) (nat (sd_currentRow s + 1))
           in if row \<ge> length (sd_files s) then completeTransfer env s
              else
                let s1 = s\<lparr>sd_currentRow := int row\<rparr>
                in if \<not> n_open env (localPath (sd_files s1 ! row))
                   then startNextFile env (sd_status env (int row) FileFailed (n_tr env ''Could not open the file'' []) s1)
                   else upload_row env (int row) s1)"
  by auto
termination
proof (relation "measure (\<lambda>(env, s). length (sd_files s) - nat (sd_currentRow s + 1))", goal_cases)
  case (2 env s0 s row s1)
  have "nat (sd_currentRow s + 1) \<le> row" using next_row_ge 2(3) by simp
  with 2 show ?case by simp
qed simp

declare startNextFile.simps [simp del]

section \<open>Replies\<close>

definition note_token :: "send_env \<Rightarrow> jobject \<Rightarrow> nat \<Rightarrow> SendService \<times> nat \<Rightarrow> SendService \<times> nat" where
  "note_token env tokens row sn =
     (let (s, accepted) = sn; t = to_string (jvalue_at tokens (fe_id (sd_files s ! row)))
      in if t = [] then (sd_status env (int row) FileSkipped [] s, accepted)
         else (on_tm (setFileToken (int row) t) s, Suc accepted))"

definition nothing_to_send :: "send_env \<Rightarrow> SendService \<Rightarrow> SendService" where
  "nothing_to_send env s = sd_emit (SendFinished (qs ''finished'') 0) (sd_emit BusyChanged
     ((sd_state env Finished [] s)\<lparr>sd_busy := False\<rparr>))"

text \<open>What follows a 200.\<close>

definition onAccepted :: "send_env \<Rightarrow> reply \<Rightarrow> SendService \<Rightarrow> SendService" where
  "onAccepted env rp s =
     (let unreadable = n_tr env ''%1 sent an unreadable reply'' [dev_alias (sd_peer s)]
      in case j_parse (n_net env) (rp_body rp) of
           Some (JObject response) \<Rightarrow>
             let s1 = s\<lparr>sd_sessionId := to_string (jvalue response ''sessionId'')\<rparr>;
                 tokens = to_object (jvalue response ''files'')
             in if sd_sessionId s1 = [] \<or> tokens = [] then failTransfer env unreadable s1
                else
                  let (s2, accepted) = fold (note_token env tokens) [0..<length (sd_files s1)] (s1, 0)
                  in if accepted = 0 then nothing_to_send env s2
                     else startNextFile env ((sd_state env Active [] s2)\<lparr>sd_currentRow := -1\<rparr>)
         | _ \<Rightarrow> failTransfer env unreadable s)"

definition onPrepareFinished :: "send_env \<Rightarrow> nat \<Rightarrow> reply \<Rightarrow> SendService \<Rightarrow> SendService" where
  "onPrepareFinished env k rp s0 =
     (let s = (if sd_reply s0 = Some k then s0\<lparr>sd_reply := None\<rparr> else s0);
          name = dev_alias (sd_peer s); status = rp_status rp
      in if sd_cancelled s then s
         else if rp_error rp \<and> status = 0 then failTransfer env (n_tr env ''Could not reach %1'' [name]) s
         else if status = 200 then onAccepted env rp s
         else if status = 204 then nothing_to_send env s
         else if status = 401 then sd_emit (PinRequired (sd_pinAttempted s)) (sd_state env Idle [] s)
         else if status = 403 then
           sd_emit (SendFinished (qs ''declined'') 0) (sd_emit Declined (sd_emit BusyChanged
             ((sd_state env Cancelled [] s)\<lparr>sd_busy := False\<rparr>)))
         else if status = 409 then failTransfer env (n_tr env ''%1 is busy with another transfer'' [name]) s
         else if status = 429 then failTransfer env (n_tr env ''%1 is refusing new requests'' [name]) s
         else failTransfer env (n_tr env ''%1 refused the transfer (%2)'' [name, number status]) s)"

definition onUploadFinished :: "send_env \<Rightarrow> nat \<Rightarrow> reply \<Rightarrow> SendService \<Rightarrow> SendService" where
  "onUploadFinished env k rp s0 =
     (let s = (if sd_reply s0 = Some k then s0\<lparr>sd_reply := None\<rparr> else s0); status = rp_status rp
      in if sd_cancelled s then s
         else if \<not> rp_error rp \<and> status \<ge> 200 \<and> status < 300
           then startNextFile env (sd_status env (sd_currentRow s) FileDone [] s)
         else if status = 409
           then failTransfer env (n_tr env ''%1 stopped the transfer'' [dev_alias (sd_peer s)])
                  (sd_status env (sd_currentRow s) FileFailed (n_tr env ''The transfer was stopped'' []) s)
         else startNextFile env (sd_status env (sd_currentRow s) FileFailed (rp_errorString rp) s))"

definition on_finished :: "send_env \<Rightarrow> nat \<Rightarrow> reply_slot \<Rightarrow> reply \<Rightarrow> SendService \<Rightarrow> SendService" where
  "on_finished env k slot rp s =
     (case slot of OnPrepare \<Rightarrow> onPrepareFinished env k rp s | OnUpload _ \<Rightarrow> onUploadFinished env k rp s | OnNotice \<Rightarrow> s)"

section \<open>Cancelling\<close>

text \<open>\<open>abort()\<close> emits \<open>finished\<close> before it returns.\<close>

definition aborted_reply :: reply where
  "aborted_reply = \<lparr>rp_error = True, rp_errorString = [], rp_status = 0, rp_body = [], rp_cert = [],
     rp_errorCerts = [], rp_verified = False\<rparr>"

definition abort_reply :: "send_env \<Rightarrow> SendService \<Rightarrow> SendService" where
  "abort_reply env s =
     (case sd_reply s of None \<Rightarrow> s
      | Some k \<Rightarrow>
          (case map_of (sd_inFlight s) k of None \<Rightarrow> s
           | Some (rq, slot) \<Rightarrow> on_finished env k slot aborted_reply (s\<lparr>sd_inFlight := AList.delete k (sd_inFlight s)\<rparr>)))"

definition sd_notifyPeer :: "SendService \<Rightarrow> SendService" where
  "sd_notifyPeer s =
     (if sd_sessionId s = [] \<or> address (sd_peer s) = [] then s
      else snd (post \<lparr>rq_url = apiBase (sd_peer s) @ PathCancel, rq_query = [(''sessionId'', sd_sessionId s)],
             rq_identity = own_identity s, rq_policy = PinTo (fingerprint (sd_peer s)), rq_body = NoBody\<rparr> OnNotice s))"

definition sd_cancel :: "send_env \<Rightarrow> SendService \<Rightarrow> SendService" where
  "sd_cancel env s =
     (if \<not> sd_busy s then s
      else
        let s1 = sd_notifyPeer (closeCurrentFile (abort_reply env (s\<lparr>sd_cancelled := True\<rparr>)));
            s2 = fold (skip_waiting env {FileWaiting, FileTransferring}) [0..<length (sd_files s1)] s1;
            s3 = sd_state env Cancelled [] s2;
            s4 = (if completedCount (sd_transfer s3) > 0 then writeHistory env s3 else s3);
            s5 = sd_emit BusyChanged (s4\<lparr>sd_busy := False, sd_sessionId := []\<rparr>)
        in sd_emit (SendFinished (qs ''cancelled'') (completedCount (sd_transfer s5))) s5)"

section \<open>The service as one machine\<close>

text \<open>
  \<open>ReplyDone\<close> is a reply finishing with what the server answered, \<open>Progress\<close> its
  \<open>uploadProgress\<close>; both are of a reply in flight.
\<close>

datatype sd_event =
    SendFiles "(string, variant) qhash" "qstring list"
  | SubmitPin qstring
  | SendCancel
  | ReplyDone nat reply
  | Progress nat int
  | SsSettings "AppSettings \<Rightarrow> AppSettings"
  | SsKnown "KnownDevices option"

fun sd_step :: "send_env \<Rightarrow> sd_event \<Rightarrow> SendService \<Rightarrow> SendService" where
  "sd_step env (SendFiles device paths) s = sendFiles env device paths s"
| "sd_step env (SubmitPin pin) s = submitPin env pin s"
| "sd_step env SendCancel s = sd_cancel env s"
| "sd_step env (ReplyDone k rp) s =
     (case map_of (sd_inFlight s) k of None \<Rightarrow> s
      | Some (rq, slot) \<Rightarrow> on_finished env k slot (answered (n_lib env) rq rp) (s\<lparr>sd_inFlight := AList.delete k (sd_inFlight s)\<rparr>))"
| "sd_step env (Progress k sent) s =
     (case map_of (sd_inFlight s) k of Some (rq, OnUpload row) \<Rightarrow> on_tm (setFileTransferred row sent) s | _ \<Rightarrow> s)"
| "sd_step env (SsSettings f) s = s\<lparr>sd_settings := f (sd_settings s)\<rparr>"
| "sd_step env (SsKnown kd) s = s\<lparr>sd_known := kd\<rparr>"

definition sd_run :: "(send_env \<times> sd_event) list \<Rightarrow> SendService \<Rightarrow> SendService" where
  "sd_run evs s = fold (\<lambda>(env, e). sd_step env e) evs s"

end
