(* ===== verification/Send_Safety.thy ===== *)
theory Send_Safety
  imports Send_Service
begin

text \<open>
  The invariant of the sending service: one reply at a time is awaited, the open file is the one it
  uploads, nothing else is shown as being transferred, and every request posted so far went to a
  device the person chose, pinned to its fingerprint.
\<close>

section \<open>What the small operations leave alone\<close>

text \<open>Everything but the transfer model and the log of signals.\<close>

definition engine :: "SendService \<Rightarrow> (qstring \<times> nat option \<times> qstring option \<times> int \<times> bool \<times> bool)
    \<times> (nat, request \<times> reply_slot) qhash \<times> nat \<times> request list \<times> DeviceInfo" where
  "engine s = ((sd_sessionId s, sd_reply s, sd_currentFile s, sd_currentRow s, sd_busy s, sd_cancelled s),
     sd_inFlight s, sd_nextReply s, sd_posted s, sd_peer s)"

lemma engine_simps [simp]:
  "engine (sd_emit x s) = engine s" "engine (on_tm f s) = engine s" "engine (sd_state env st err s) = engine s"
  "engine (sd_status env row fs err s) = engine s" "engine (skip_waiting env which j s) = engine s"
  "engine (s\<lparr>sd_rng := r\<rparr>) = engine s" "engine (s\<lparr>sd_known := k\<rparr>) = engine s" "engine (s\<lparr>sd_history := h\<rparr>) = engine s"
  "engine (s\<lparr>sd_pinAttempted := b\<rparr>) = engine s" "engine (s\<lparr>sd_settings := g\<rparr>) = engine s"
  by (simp_all add: engine_def sd_emit_def on_tm_def sd_state_def sd_status_def skip_waiting_def)

lemma engine_writeHistory [simp]: "engine (writeHistory env s) = engine s"
  by (simp add: writeHistory_def Let_def split: prod.split)

lemma engine_fold: "(\<And>x t. engine (f x t) = engine t) \<Longrightarrow> engine (fold f xs s) = engine s"
  by (induction xs arbitrary: s) simp_all

lemma files_simps [simp]:
  "sd_files (sd_emit x s) = sd_files s" "sd_files (sd_state env st err s) = sd_files s"
  "sd_files (s\<lparr>sd_rng := r\<rparr>) = sd_files s" "sd_files (s\<lparr>sd_known := k\<rparr>) = sd_files s" "sd_files (s\<lparr>sd_history := h\<rparr>) = sd_files s"
  "sd_files (s\<lparr>sd_pinAttempted := b\<rparr>) = sd_files s" "sd_files (s\<lparr>sd_settings := g\<rparr>) = sd_files s"
  "sd_files (s\<lparr>sd_busy := b\<rparr>) = sd_files s" "sd_files (s\<lparr>sd_sessionId := sid\<rparr>) = sd_files s"
  "sd_files (s\<lparr>sd_reply := r'\<rparr>) = sd_files s" "sd_files (s\<lparr>sd_inFlight := fl\<rparr>) = sd_files s"
  "sd_files (s\<lparr>sd_cancelled := b\<rparr>) = sd_files s" "sd_files (s\<lparr>sd_currentFile := cf\<rparr>) = sd_files s"
  by (simp_all add: sd_files_def sd_emit_def sd_state_def on_tm_def setState_def Let_def)

lemma files_writeHistory [simp]: "sd_files (writeHistory env s) = sd_files s"
  by (simp add: writeHistory_def Let_def split: prod.split)

lemma files_post [simp]: "sd_files (snd (post rq slot s)) = sd_files s"
  by (simp add: post_def sd_files_def Let_def)

text \<open>A row that changes its status.\<close>

lemma files_status:
  "sd_files (sd_status env row st err s) = (if 0 \<le> row \<and> nat row < length (sd_files s)
     then (sd_files s)[nat row := (sd_files s ! nat row)\<lparr>fe_status := st, fe_error := err,
        transferred := (if st = FileDone then fe_size (sd_files s ! nat row) else transferred (sd_files s ! nat row))\<rparr>] else sd_files s)"
proof -
  have "row_ok row (sd_transfer s) \<longleftrightarrow> 0 \<le> row \<and> nat row < length (sd_files s)" by (auto simp: row_ok_def sd_files_def)
  then show ?thesis
    by (auto simp: sd_status_def on_tm_def sd_files_def setFileStatus_row setFileStatus_bad_row)
qed

lemma files_token: "sd_files (on_tm (setFileToken (int row) t) s) =
    (if row < length (sd_files s) then (sd_files s)[row := (sd_files s ! row)\<lparr>token := t\<rparr>] else sd_files s)"
  by (simp add: on_tm_def setFileToken_def row_ok_def sd_files_def update_file_def)

section \<open>The rows\<close>

definition waiting_rows :: "SendService \<Rightarrow> nat" where
  "waiting_rows s = length (filter (\<lambda>f. fe_status f = FileWaiting) (sd_files s))"

definition no_row_moving :: "SendService \<Rightarrow> bool" where
  "no_row_moving s \<longleftrightarrow> (\<forall>f \<in> set (sd_files s). fe_status f \<noteq> FileTransferring)"

definition same_file :: "FileEntry \<Rightarrow> FileEntry \<Rightarrow> bool" where
  "same_file f g \<longleftrightarrow> fe_id g = fe_id f \<and> fileName g = fileName f \<and> fe_size g = fe_size f \<and> localPath g = localPath f"

definition same_files :: "SendService \<Rightarrow> SendService \<Rightarrow> bool" where
  "same_files s t \<longleftrightarrow> list_all2 same_file (sd_files s) (sd_files t)"

lemma same_file_refl [simp]: "same_file f f"
  by (simp add: same_file_def)

lemma same_files_refl [simp]: "same_files s s"
  by (simp add: same_files_def list_all2_same)

lemma same_files_eq: "sd_files t = sd_files s \<Longrightarrow> same_files s t"
  by (simp add: same_files_def list_all2_same)

lemma same_files_trans: "same_files a b \<Longrightarrow> same_files b c \<Longrightarrow> same_files a c"
  unfolding same_files_def by (erule (1) list_all2_trans [rotated]) (simp add: same_file_def)

lemma same_files_update:
  "same_file (sd_files s ! j) f \<Longrightarrow> list_all2 same_file (sd_files s) ((sd_files s)[j := f])"
proof -
  assume f: "same_file (sd_files s ! j) f"
  have "same_file (sd_files s ! i) ((sd_files s)[j := f] ! i)" if "i < length (sd_files s)" for i
    using f that by (cases "i = j") simp_all
  then show ?thesis by (simp add: list_all2_conv_all_nth)
qed

lemma same_files_status [simp]: "same_files s (sd_status env row st err s)"
  by (simp add: same_files_def files_status same_files_update same_file_def list_all2_same)

lemma same_files_token: "same_files s (on_tm (setFileToken (int row) t) s)"
  by (simp add: same_files_def files_token same_files_update same_file_def list_all2_same)

lemma waiting_update:
  assumes "j < length fs"
  shows "length (filter (\<lambda>f. fe_status f = FileWaiting) (fs[j := g])) + (if fe_status (fs ! j) = FileWaiting then 1 else 0)
    = length (filter (\<lambda>f. fe_status f = FileWaiting) fs) + (if fe_status g = FileWaiting then 1 else 0)"
proof -
  have "fs = take j fs @ fs ! j # drop (Suc j) fs" using assms by (rule id_take_nth_drop)
  then have "length (filter P fs) = length (filter P (take j fs @ fs ! j # drop (Suc j) fs))" for P by simp
  then show ?thesis using assms by (simp add: upd_conv_take_nth_drop)
qed

lemma waiting_less:
  assumes "fe_status g \<noteq> FileWaiting"
  shows "length (filter (\<lambda>f. fe_status f = FileWaiting) (fs[j := g])) \<le> length (filter (\<lambda>f. fe_status f = FileWaiting) fs)"
    and "j < length fs \<Longrightarrow> fe_status (fs ! j) = FileWaiting \<Longrightarrow>
      length (filter (\<lambda>f. fe_status f = FileWaiting) (fs[j := g])) < length (filter (\<lambda>f. fe_status f = FileWaiting) fs)"
proof -
  show "length (filter (\<lambda>f. fe_status f = FileWaiting) (fs[j := g])) \<le> length (filter (\<lambda>f. fe_status f = FileWaiting) fs)"
    using assms waiting_update [of j fs g] by (cases "j < length fs") (simp_all add: list_update_beyond not_less)
  show "j < length fs \<Longrightarrow> fe_status (fs ! j) = FileWaiting \<Longrightarrow>
      length (filter (\<lambda>f. fe_status f = FileWaiting) (fs[j := g])) < length (filter (\<lambda>f. fe_status f = FileWaiting) fs)"
    using assms waiting_update [of j fs g] by simp
qed

lemma waiting_status:
  assumes "st \<noteq> FileWaiting"
  shows "waiting_rows (sd_status env row st err s) \<le> waiting_rows s"
    and "j < length (sd_files s) \<Longrightarrow> fe_status (sd_files s ! j) = FileWaiting
      \<Longrightarrow> waiting_rows (sd_status env (int j) st err s) < waiting_rows s"
  using assms by (simp_all add: waiting_rows_def files_status waiting_less)


section \<open>Fields of the engine\<close>

lemma engineD:
  assumes "engine t = engine s"
  shows engine_session: "sd_sessionId t = sd_sessionId s" and engine_reply: "sd_reply t = sd_reply s"
    and engine_file: "sd_currentFile t = sd_currentFile s" and engine_row: "sd_currentRow t = sd_currentRow s"
    and engine_busy: "sd_busy t = sd_busy s" and engine_cancelled: "sd_cancelled t = sd_cancelled s"
    and engine_flight: "sd_inFlight t = sd_inFlight s" and engine_next: "sd_nextReply t = sd_nextReply s"
    and engine_posted: "sd_posted t = sd_posted s" and engine_peer: "sd_peer t = sd_peer s"
  using assms by (simp_all add: engine_def)

lemmas engine_all = engine_simps(1-5) engine_writeHistory

lemmas engine_fields [simp] = engine_all [THEN engine_session] engine_all [THEN engine_reply] engine_all [THEN engine_file]
  engine_all [THEN engine_row] engine_all [THEN engine_busy] engine_all [THEN engine_cancelled] engine_all [THEN engine_flight]
  engine_all [THEN engine_next] engine_all [THEN engine_posted] engine_all [THEN engine_peer]

section \<open>The invariant\<close>

text \<open>\<open>A\<close> holds the devices the person chose, each with the files chosen for it.\<close>

type_synonym choices = "(DeviceInfo \<times> qstring set) set"

definition request_for :: "DeviceInfo \<Rightarrow> qstring set \<Rightarrow> request \<Rightarrow> bool" where
  "request_for p S rq \<longleftrightarrow> rq_policy rq = PinTo (fingerprint p) \<and>
     (case rq_body rq of
        FileBody path \<Rightarrow> rq_url rq = apiBase p @ PathUpload \<and> path \<in> S
          \<and> (\<exists>sid fid t. rq_query rq = [(''sessionId'', sid), (''fileId'', fid), (''token'', t)] \<and> sid \<noteq> [] \<and> t \<noteq> [])
      | JsonBody _ \<Rightarrow> rq_url rq = apiBase p @ PathPrepareUpload
      | NoBody \<Rightarrow> rq_url rq = apiBase p @ PathCancel)"

definition fine_request :: "choices \<Rightarrow> request \<Rightarrow> bool" where
  "fine_request A rq \<longleftrightarrow> (\<exists>(p, S) \<in> A. request_for p S rq)"

definition chosen :: "choices \<Rightarrow> SendService \<Rightarrow> bool" where
  "chosen A s \<longleftrightarrow> (\<exists>S. (sd_peer s, S) \<in> A \<and> (\<forall>f \<in> set (sd_files s). localPath f \<in> S))"

definition only_notices :: "(nat \<Rightarrow> bool) \<Rightarrow> SendService \<Rightarrow> bool" where
  "only_notices P s \<longleftrightarrow> (\<forall>k rq slot. P k \<longrightarrow> map_of (sd_inFlight s) k = Some (rq, slot) \<longrightarrow> slot = OnNotice)
     \<and> (\<forall>k \<ge> sd_nextReply s. map_of (sd_inFlight s) k = None)"

text \<open>Nothing is awaited but the replies to cancel notices.\<close>

definition unattended :: "choices \<Rightarrow> SendService \<Rightarrow> bool" where
  "unattended A s \<longleftrightarrow> sd_reply s = None \<and> only_notices (\<lambda>_. True) s \<and> no_row_moving s
     \<and> (\<forall>rq \<in> set (sd_posted s). fine_request A rq)
     \<and> (sd_busy s \<longrightarrow> \<not> sd_cancelled s \<and> chosen A s)"

definition may_upload :: "SendService \<Rightarrow> bool" where
  "may_upload s \<longleftrightarrow> sd_sessionId s \<noteq> [] \<and> (\<forall>f \<in> set (sd_files s). fe_status f = FileWaiting \<longrightarrow> token f \<noteq> [])"

definition uploading :: "SendService \<Rightarrow> nat \<Rightarrow> request \<Rightarrow> bool" where
  "uploading s j rq \<longleftrightarrow> sd_currentRow s = int j \<and> j < length (sd_files s)
     \<and> (\<forall>i < length (sd_files s). fe_status (sd_files s ! i) = FileTransferring \<longleftrightarrow> i = j)
     \<and> sd_currentFile s = Some (localPath (sd_files s ! j)) \<and> may_upload s
     \<and> rq_body rq = FileBody (localPath (sd_files s ! j))
     \<and> rq_query rq = [(''sessionId'', sd_sessionId s), (''fileId'', fe_id (sd_files s ! j)), (''token'', token (sd_files s ! j))]"

text \<open>One reply is awaited: the answer to the request, or the end of the upload of row \<open>j\<close>.\<close>

definition attended :: "choices \<Rightarrow> SendService \<Rightarrow> nat \<Rightarrow> request \<Rightarrow> reply_slot \<Rightarrow> bool" where
  "attended A s k rq slot \<longleftrightarrow> sd_reply s = Some k \<and> map_of (sd_inFlight s) k = Some (rq, slot) \<and> sd_busy s \<and> \<not> sd_cancelled s
     \<and> only_notices (\<lambda>i. i \<noteq> k) s
     \<and> (\<forall>rq \<in> set (sd_posted s). fine_request A rq) \<and> chosen A s
     \<and> (slot = OnPrepare \<and> sd_currentFile s = None \<and> no_row_moving s \<or> (\<exists>j. slot = OnUpload (int j) \<and> uploading s j rq))"

definition send_inv :: "choices \<Rightarrow> SendService \<Rightarrow> bool" where
  "send_inv A s \<longleftrightarrow> (unattended A s \<and> sd_currentFile s = None) \<or> (\<exists>k rq slot. attended A s k rq slot)"

lemma chosen_cong: "sd_peer t = sd_peer s \<Longrightarrow> same_files s t \<Longrightarrow> chosen A s \<Longrightarrow> chosen A t"
proof -
  assume p: "sd_peer t = sd_peer s" and f: "same_files s t" and c: "chosen A s"
  have "\<forall>f \<in> set (sd_files t). \<exists>g \<in> set (sd_files s). localPath f = localPath g"
    using f by (auto simp: same_files_def list_all2_conv_all_nth in_set_conv_nth same_file_def) (metis nth_mem)
  with c show "chosen A t" unfolding chosen_def p by metis
qed

lemma only_notices_cong:
  "sd_inFlight t = sd_inFlight s \<Longrightarrow> sd_nextReply t = sd_nextReply s \<Longrightarrow> only_notices P t = only_notices P s"
  by (simp add: only_notices_def)

lemma unattended_cong:
  assumes "engine t = engine s" "same_files s t" "no_row_moving s \<Longrightarrow> no_row_moving t" "unattended A s"
  shows "unattended A t"
  using assms(4) engineD [OF assms(1)] assms(3) chosen_cong [OF engine_peer [OF assms(1)] assms(2)]
    only_notices_cong [OF engine_flight [OF assms(1)] engine_next [OF assms(1)]] by (simp add: unattended_def)

lemma moving_status:
  assumes "st \<noteq> FileTransferring" "no_row_moving s"
  shows "no_row_moving (sd_status env row st err s)"
proof -
  have "fe_status f \<noteq> FileTransferring" if "f \<in> set ((sd_files s)[nat row := g])" "fe_status g = st" for f g
    using that assms set_update_subset_insert [of "sd_files s" "nat row" g] by (auto simp: no_row_moving_def)
  then show ?thesis using assms(2) by (auto simp: no_row_moving_def files_status)
qed

lemma moving_eq: "sd_files t = sd_files s \<Longrightarrow> no_row_moving t = no_row_moving s"
  by (simp add: no_row_moving_def)

lemma unattended_status:
  "st \<noteq> FileTransferring \<Longrightarrow> unattended A s \<Longrightarrow> unattended A (sd_status env row st err s)"
  by (rule unattended_cong [where s = s]) (auto intro: moving_status)

lemma unattended_skip:
  "unattended A s \<Longrightarrow> unattended A (fold (skip_waiting env which) rows s)"
proof (induction rows arbitrary: s)
  case (Cons r rows)
  have "unattended A (skip_waiting env which r s)" using Cons.prems unattended_status [of FileSkipped A s] by (auto simp: skip_waiting_def)
  with Cons.IH show ?case by simp
qed simp

lemma unattended_files_eq:
  "engine t = engine s \<Longrightarrow> sd_files t = sd_files s \<Longrightarrow> unattended A s \<Longrightarrow> unattended A t"
  using unattended_cong [of t s A] same_files_eq [of t s] moving_eq [of t s] by blast

lemma unattended_frame:
  assumes "unattended A s" "sd_reply t = sd_reply s" "sd_inFlight t = sd_inFlight s" "sd_nextReply t = sd_nextReply s"
    "sd_posted t = sd_posted s" "sd_files t = sd_files s" "sd_peer t = sd_peer s"
    "sd_busy t \<Longrightarrow> sd_busy s \<and> sd_cancelled t = sd_cancelled s"
  shows "unattended A t"
proof -
  have "only_notices (\<lambda>_. True) t = only_notices (\<lambda>_. True) s" by (rule only_notices_cong [OF assms(3,4)])
  moreover have "no_row_moving t = no_row_moving s" "chosen A t = chosen A s" by (simp_all add: no_row_moving_def chosen_def assms)
  ultimately show ?thesis using assms(1,2,5,8) by (auto simp: unattended_def)
qed

lemma unattended_ended:
  "unattended A s \<Longrightarrow> unattended A (s\<lparr>sd_busy := False, sd_sessionId := sid\<rparr>)" "unattended A s \<Longrightarrow> unattended A (s\<lparr>sd_busy := False\<rparr>)"
  "unattended A s \<Longrightarrow> unattended A (closeCurrentFile s)" "unattended A s \<Longrightarrow> unattended A (s\<lparr>sd_sessionId := sid\<rparr>)"
  "unattended A s \<Longrightarrow> unattended A (s\<lparr>sd_currentRow := row\<rparr>)"
  by (erule unattended_frame; simp add: closeCurrentFile_def sd_files_def)+

lemma unattended_state: "unattended A s \<Longrightarrow> unattended A (sd_state env st err s)"
  by (rule unattended_files_eq [where s = s]) simp_all

lemma unattended_emit: "unattended A s \<Longrightarrow> unattended A (sd_emit x s)"
  by (rule unattended_files_eq [where s = s]) simp_all

lemma unattended_history: "unattended A s \<Longrightarrow> unattended A (writeHistory env s)"
  by (rule unattended_files_eq [where s = s]) simp_all

lemma unattended_known: "unattended A s \<Longrightarrow> unattended A (s\<lparr>sd_known := k\<rparr>)"
  by (rule unattended_files_eq [where s = s]) simp_all

lemmas unattendeds = unattended_status unattended_skip unattended_ended unattended_state unattended_emit unattended_history unattended_known

lemma unattended_completeTransfer: "unattended A s \<Longrightarrow> unattended A (completeTransfer env s)"
  unfolding completeTransfer_def Let_def by (intro unattendeds) (auto intro: unattendeds)

lemma unattended_failTransfer: "unattended A s \<Longrightarrow> unattended A (failTransfer env msg s)"
  unfolding failTransfer_def Let_def by (intro unattendeds) (auto intro!: unattendeds)

lemma unattended_nothing: "unattended A s \<Longrightarrow> unattended A (nothing_to_send env s)"
  unfolding nothing_to_send_def by (intro unattendeds)

lemma ended_fields [simp]:
  "\<not> sd_busy (completeTransfer env s)" "\<not> sd_busy (failTransfer env msg s)" "\<not> sd_busy (nothing_to_send env s)"
  "sd_currentFile (completeTransfer env s) = sd_currentFile s" "sd_currentFile (failTransfer env msg s) = None"
  "sd_currentFile (nothing_to_send env s) = sd_currentFile s"
  using engine_file [OF engine_fold [of "skip_waiting env {FileWaiting}" "[0..<length (sd_files s)]" "closeCurrentFile s"]]
  by (simp_all add: completeTransfer_def failTransfer_def nothing_to_send_def Let_def) (simp_all add: closeCurrentFile_def)


section \<open>Posting\<close>

lemma post_fields [simp]:
  "fst (post rq slot s) = sd_nextReply s"
  "sd_inFlight (snd (post rq slot s)) = AList.update (sd_nextReply s) (rq, slot) (sd_inFlight s)"
  "sd_nextReply (snd (post rq slot s)) = Suc (sd_nextReply s)" "sd_posted (snd (post rq slot s)) = sd_posted s @ [rq]"
  "sd_peer (snd (post rq slot s)) = sd_peer s" "sd_busy (snd (post rq slot s)) = sd_busy s"
  "sd_cancelled (snd (post rq slot s)) = sd_cancelled s" "sd_reply (snd (post rq slot s)) = sd_reply s"
  "sd_currentFile (snd (post rq slot s)) = sd_currentFile s" "sd_currentRow (snd (post rq slot s)) = sd_currentRow s"
  "sd_sessionId (snd (post rq slot s)) = sd_sessionId s" "sd_signals (snd (post rq slot s)) = sd_signals s"
  by (simp_all add: post_def Let_def)

lemma notices_post:
  assumes "only_notices (\<lambda>_. True) s" "sd_inFlight t = AList.update (sd_nextReply s) (rq, slot) (sd_inFlight s)"
    "sd_nextReply t = Suc (sd_nextReply s)"
  shows "only_notices (\<lambda>i. i \<noteq> sd_nextReply s) t" "map_of (sd_inFlight t) (sd_nextReply s) = Some (rq, slot)"
    "slot = OnNotice \<Longrightarrow> only_notices (\<lambda>_. True) t"
  using assms unfolding only_notices_def by (auto simp: update_conv')

lemma request_attended:
  assumes "unattended A s" "sd_busy s" "sd_currentFile s = None"
  shows "\<exists>rq. attended A (requestUpload pin s) (sd_nextReply s) rq OnPrepare"
proof -
  define rq where "rq = \<lparr>rq_url = apiBase (sd_peer s) @ PathPrepareUpload,
            rq_query = (if pin \<noteq> [] then [(''pin'', pin)] else []), rq_identity = own_identity s,
            rq_policy = PinTo (fingerprint (sd_peer s)), rq_body = JsonBody (JObject (offer_of s))\<rparr>"
  define t where "t = (snd (post rq OnPrepare s))\<lparr>sd_reply := Some (sd_nextReply s)\<rparr>"
  have t: "requestUpload pin s = t"
    unfolding t_def by (simp add: requestUpload_def case_prod_unfold flip: rq_def)
  have notices: "only_notices (\<lambda>_. True) s" and chosen: "chosen A s" and fine: "\<forall>rq \<in> set (sd_posted s). fine_request A rq"
    using assms(1,2) by (simp_all add: unattended_def)
  have "fine_request A rq" using chosen by (auto simp: fine_request_def request_for_def chosen_def rq_def)
  moreover have "chosen A t" using chosen by (simp add: chosen_def t_def)
  moreover have "no_row_moving t" using assms(1) by (simp add: unattended_def no_row_moving_def t_def)
  moreover have "only_notices (\<lambda>i. i \<noteq> sd_nextReply s) t" "map_of (sd_inFlight t) (sd_nextReply s) = Some (rq, OnPrepare)"
    by (rule notices_post [OF notices]; simp add: t_def)+
  ultimately have "attended A t (sd_nextReply s) rq OnPrepare"
    using assms fine by (simp add: attended_def) (simp add: t_def unattended_def)
  then show ?thesis unfolding t by blast
qed

lemma upload_attended:
  assumes "unattended A s" "sd_busy s" "may_upload s" "j < length (sd_files s)" "fe_status (sd_files s ! j) = FileWaiting"
    "sd_currentRow s = int j"
  shows "\<exists>rq. attended A (upload_row env (int j) s) (sd_nextReply s) rq (OnUpload (int j))"
    "waiting_rows (upload_row env (int j) s) < waiting_rows s" "same_files s (upload_row env (int j) s)"
proof -
  let ?e = "sd_files s ! j"
  define s1 where "s1 = sd_status env (int j) FileTransferring [] (s\<lparr>sd_currentFile := Some (localPath ?e)\<rparr>)"
  define rq where "rq = upload_request ?e s1"
  define t where "t = (snd (post rq (OnUpload (int j)) s1))\<lparr>sd_reply := Some (sd_nextReply s)\<rparr>"
  have same: "sd_nextReply s1 = sd_nextReply s" "sd_inFlight s1 = sd_inFlight s" "sd_posted s1 = sd_posted s" "sd_peer s1 = sd_peer s"
    "sd_sessionId s1 = sd_sessionId s" "sd_busy s1 = sd_busy s" "sd_cancelled s1 = sd_cancelled s" "sd_currentRow s1 = sd_currentRow s"
    "sd_currentFile s1 = Some (localPath ?e)" by (simp_all add: s1_def)
  have t: "upload_row env (int j) s = t"
    unfolding t_def rq_def by (simp add: upload_row_def Let_def case_prod_unfold same flip: s1_def)
  have files: "sd_files t = (sd_files s)[j := ?e\<lparr>fe_status := FileTransferring, fe_error := [], transferred := transferred ?e\<rparr>]"
    using assms(4) by (simp add: t_def s1_def files_status)
  show "waiting_rows (upload_row env (int j) s) < waiting_rows s"
    unfolding t waiting_rows_def files by (rule waiting_less(2)) (use assms in simp_all)
  show sf: "same_files s (upload_row env (int j) s)"
    unfolding t same_files_def files by (rule same_files_update) (simp add: same_file_def)
  have notices: "only_notices (\<lambda>_. True) s" and chosen: "chosen A s" and fine: "\<forall>rq \<in> set (sd_posted s). fine_request A rq"
    and still: "no_row_moving s" and calm: "\<not> sd_cancelled s"
    using assms(1,2) by (simp_all add: unattended_def)
  have chosen_t: "chosen A t" by (rule chosen_cong [OF _ sf [unfolded t] chosen]) (simp add: t_def same)
  have fine_rq: "fine_request A rq"
  proof -
    obtain S where S: "(sd_peer s, S) \<in> A" "localPath ?e \<in> S" using chosen assms(4) by (auto simp: chosen_def)
    have "token ?e \<noteq> []" "sd_sessionId s \<noteq> []" using assms(3-5) by (auto simp: may_upload_def)
    then have "request_for (sd_peer s) S rq" using S(2) by (simp add: request_for_def rq_def upload_request_def same)
    with S(1) show ?thesis by (auto simp: fine_request_def)
  qed
  have notices_t: "only_notices (\<lambda>i. i \<noteq> sd_nextReply s) t" "map_of (sd_inFlight t) (sd_nextReply s) = Some (rq, OnUpload (int j))"
    by (rule notices_post [OF notices]; simp add: t_def same)+
  have may: "may_upload t"
  proof -
    have "token f \<noteq> []" if "f \<in> set (sd_files t)" "fe_status f = FileWaiting" for f
    proof -
      have "f \<in> set (sd_files s)" using that set_update_subset_insert [of "sd_files s" j] unfolding files by fastforce
      with that(2) assms(3) show ?thesis by (simp add: may_upload_def)
    qed
    with assms(3) show ?thesis by (simp add: may_upload_def t_def same)
  qed
  have "uploading t j rq"
    using assms(4,6) still may
    by (auto simp: uploading_def files nth_list_update no_row_moving_def rq_def upload_request_def same) (simp_all add: t_def same)
  then have "attended A t (sd_nextReply s) rq (OnUpload (int j))"
    using assms(2) calm fine fine_rq chosen_t notices_t by (simp add: attended_def) (simp add: t_def same)
  then show "\<exists>rq. attended A (upload_row env (int j) s) (sd_nextReply s) rq (OnUpload (int j))" unfolding t by blast
qed


section \<open>The next file\<close>

fun carries_file :: "request \<Rightarrow> bool" where
  "carries_file rq = (case rq_body rq of FileBody _ \<Rightarrow> True | _ \<Rightarrow> False)"

definition uploads :: "SendService \<Rightarrow> nat" where
  "uploads s = length (filter carries_file (sd_posted s))"

definition ended :: "choices \<Rightarrow> SendService \<Rightarrow> bool" where
  "ended A s \<longleftrightarrow> unattended A s \<and> \<not> sd_busy s \<and> sd_currentFile s = None"

text \<open>One step on: the end, or the upload of another waiting row; rows stay the files they are.\<close>

definition served :: "choices \<Rightarrow> SendService \<Rightarrow> SendService \<Rightarrow> bool" where
  "served A s t \<longleftrightarrow> same_files s t \<and> waiting_rows t \<le> waiting_rows s \<and> uploads t + waiting_rows t \<le> uploads s + waiting_rows s
     \<and> (ended A t \<or> (\<exists>k rq j. attended A t k rq (OnUpload (int j)) \<and> waiting_rows t < waiting_rows s))"

lemma served_after:
  "same_files s t \<Longrightarrow> waiting_rows t \<le> waiting_rows s \<Longrightarrow> uploads t = uploads s \<Longrightarrow> served A t u \<Longrightarrow> served A s u"
  unfolding served_def using same_files_trans by fastforce

lemma same_files_skip: "same_files s (fold (skip_waiting env which) rows s)"
proof (induction rows arbitrary: s)
  case (Cons r rows)
  have "same_files s (skip_waiting env which r s)" by (simp add: skip_waiting_def)
  from same_files_trans [OF this Cons.IH] show ?case by simp
qed simp

lemma waiting_skip: "waiting_rows (fold (skip_waiting env which) rows s) \<le> waiting_rows s"
proof (induction rows arbitrary: s)
  case (Cons r rows)
  have "waiting_rows (skip_waiting env which r s) \<le> waiting_rows s"
    using waiting_status(1) [of FileSkipped env "int r" "[]" s] by (simp add: skip_waiting_def)
  with Cons.IH [of "skip_waiting env which r s"] show ?case by simp
qed simp

lemma engine_skip [simp]: "engine (fold (skip_waiting env which) rows s) = engine s"
  by (rule engine_fold) simp

lemma files_end [simp]:
  "sd_files (completeTransfer env s) = sd_files s" "sd_files (nothing_to_send env s) = sd_files s"
  "sd_files (failTransfer env msg s) = sd_files (fold (skip_waiting env {FileWaiting}) [0..<length (sd_files s)] (closeCurrentFile s))"
  by (simp_all add: completeTransfer_def nothing_to_send_def failTransfer_def Let_def)

lemma posted_end [simp]:
  "sd_posted (completeTransfer env s) = sd_posted s" "sd_posted (nothing_to_send env s) = sd_posted s"
  "sd_posted (failTransfer env msg s) = sd_posted s"
  using engine_posted [OF engine_skip [of env "{FileWaiting}" "[0..<length (sd_files s)]" "closeCurrentFile s"]]
  by (simp_all add: completeTransfer_def nothing_to_send_def failTransfer_def Let_def) (simp add: closeCurrentFile_def)

lemma waiting_rows_cong: "sd_files t = sd_files s \<Longrightarrow> waiting_rows t = waiting_rows s"
  by (simp add: waiting_rows_def)

lemma served_completeTransfer:
  assumes "unattended A s"
  shows "served A s (completeTransfer env (closeCurrentFile s))"
proof -
  let ?t = "completeTransfer env (closeCurrentFile s)"
  have "ended A ?t"
    using unattended_completeTransfer [OF unattended_ended(3) [OF assms]] by (simp add: ended_def) (simp add: closeCurrentFile_def)
  moreover have files: "sd_files ?t = sd_files s" by simp
  moreover have "uploads ?t = uploads s" by (simp add: uploads_def) (simp add: closeCurrentFile_def)
  moreover note same_files_eq [OF files] waiting_rows_cong [OF files]
  ultimately show ?thesis unfolding served_def by linarith
qed

lemma served_failTransfer:
  assumes "unattended A s"
  shows "served A s (failTransfer env msg s)"
proof -
  let ?t = "fold (skip_waiting env {FileWaiting}) [0..<length (sd_files s)] (closeCurrentFile s)"
  have "ended A (failTransfer env msg s)" using unattended_failTransfer [OF assms] by (simp add: ended_def)
  moreover have "waiting_rows (failTransfer env msg s) \<le> waiting_rows s"
    using waiting_skip [of env "{FileWaiting}" "[0..<length (sd_files s)]" "closeCurrentFile s"] by (simp add: waiting_rows_def)
  moreover have "same_files s (failTransfer env msg s)"
    using same_files_skip [of "closeCurrentFile s" env "{FileWaiting}" "[0..<length (sd_files s)]"] by (simp add: same_files_def)
  ultimately show ?thesis by (simp add: served_def uploads_def)
qed

lemma next_row_waiting: "next_row fs row < length fs \<Longrightarrow> fe_status (fs ! next_row fs row) = FileWaiting"
proof (induction fs row rule: next_row.induct)
  case (1 fs row)
  then show ?case by (cases "row < length fs \<and> fe_status (fs ! row) \<noteq> FileWaiting") (auto simp: next_row.simps [of fs row] split: if_splits)
qed

lemma startNextFile_served:
  "unattended A s \<Longrightarrow> sd_busy s \<Longrightarrow> may_upload s \<Longrightarrow> served A s (startNextFile env s)"
proof (induction env s rule: startNextFile.induct)
  case (1 env s0)
  define s where "s = closeCurrentFile s0"
  define row where "row = next_row (sd_files s) (nat (sd_currentRow s + 1))"
  define s1 where "s1 = s\<lparr>sd_currentRow := int row\<rparr>"
  have u: "unattended A s" unfolding s_def by (rule unattended_ended(3) [OF "1.prems"(1)])
  have busy: "sd_busy s" "may_upload s" "\<not> sd_cancelled s"
    using "1.prems" by (simp_all add: s_def closeCurrentFile_def may_upload_def sd_files_def unattended_def)
  show ?case
  proof (cases "row < length (sd_files s)")
    case False
    then have "startNextFile env s0 = completeTransfer env (closeCurrentFile s0)"
      using busy(3) by (subst startNextFile.simps) (simp add: row_def s_def Let_def)
    with served_completeTransfer [OF "1.prems"(1)] show ?thesis by simp
  next
    case True
    have waiting: "fe_status (sd_files s ! row) = FileWaiting" using next_row_waiting True unfolding row_def by blast
    have u1: "unattended A s1" unfolding s1_def by (rule unattended_ended(5) [OF u])
    have s1: "sd_files s1 = sd_files s0" "sd_busy s1" "may_upload s1" "sd_currentRow s1 = int row" "uploads s1 = uploads s0"
      "waiting_rows s1 = waiting_rows s0"
      using busy by (simp_all add: s1_def s_def closeCurrentFile_def may_upload_def sd_files_def uploads_def waiting_rows_def)
    have files: "sd_files s = sd_files s0" by (simp add: s_def)
    show ?thesis
    proof (cases "n_open env (localPath (sd_files s1 ! row))")
      case open_ok: True
      then have res: "startNextFile env s0 = upload_row env (int row) s1"
        using busy(3) True by (subst startNextFile.simps) (simp add: row_def s_def s1_def Let_def)
      have waiting1: "fe_status (sd_files s1 ! row) = FileWaiting" using waiting by (simp add: s1 files)
      have len: "row < length (sd_files s1)" using True by (simp add: s1 files)
      note up = upload_attended [OF u1 s1(2,3) len waiting1 s1(4)]
      have posted: "uploads (upload_row env (int row) s1) = Suc (uploads s1)"
        by (simp add: upload_row_def Let_def case_prod_unfold uploads_def upload_request_def)
      have "same_files s0 s1" by (rule same_files_eq) (rule s1(1))
      note same = same_files_trans [OF this up(3)]
      obtain rq where "attended A (upload_row env (int row) s1) (sd_nextReply s1) rq (OnUpload (int row))" using up(1) by blast
      with same posted up(2) [of env] s1(5,6) show ?thesis
        unfolding res served_def by (intro conjI disjI2 exI) (assumption | linarith)+
    next
      case no: False
      let ?t = "sd_status env (int row) FileFailed (n_tr env ''Could not open the file'' []) s1"
      have res: "startNextFile env s0 = startNextFile env ?t"
        using busy(3) True no by (subst startNextFile.simps) (simp add: row_def s_def s1_def Let_def)
      have "may_upload ?t"
      proof -
        have "token f \<noteq> []" if "f \<in> set (sd_files ?t)" "fe_status f = FileWaiting" for f
        proof -
          have "f \<in> set (sd_files s1)"
            using that set_update_subset_insert [of "sd_files s1" row] by (fastforce simp: files_status split: if_splits)
          with that(2) s1(3) show ?thesis by (simp add: may_upload_def)
        qed
        with s1(3) show ?thesis by (simp add: may_upload_def)
      qed
      moreover have "unattended A ?t" by (rule unattended_status [OF _ u1]) simp
      ultimately have served: "served A ?t (startNextFile env ?t)"
        using s1(2) "1.IH" [OF s_def _ row_def _ s1_def] busy(3) True no by simp
      have "same_files s0 ?t" by (rule same_files_trans [OF same_files_eq [OF s1(1)] same_files_status])
      moreover have "waiting_rows ?t \<le> waiting_rows s0" using waiting_status(1) [of FileFailed env "int row" "n_tr env ''Could not open the file'' []" s1] s1(6) by simp
      moreover have "uploads ?t = uploads s0" using s1(5) by (simp add: uploads_def)
      ultimately show ?thesis unfolding res by (rule served_after) (rule served)
    qed
  qed
qed

end
