(* ===== verification/Send_Steps.thy ===== *)
theory Send_Steps
  imports Send_Safety
begin

text \<open>
  Every operation of the sending service under its invariant: what a reply, a PIN, a cancel or new
  files make of an attended or an unattended service.
\<close>

section \<open>The answer to the request\<close>

text \<open>The tokens of the answer, row by row.\<close>

definition token_or_skipped :: "SendService \<Rightarrow> nat \<Rightarrow> bool" where
  "token_or_skipped s row \<longleftrightarrow> fe_status (sd_files s ! row) = FileSkipped \<or> token (sd_files s ! row) \<noteq> []"

lemma engine_note [simp]: "engine (fst (note_token env tokens row sn)) = engine (fst sn)"
  by (simp add: note_token_def Let_def split: prod.split)

lemma files_note:
  "row < length (sd_files s) \<Longrightarrow> \<exists>g. sd_files (fst (note_token env tokens row (s, a))) = (sd_files s)[row := g]
     \<and> same_file (sd_files s ! row) g \<and> (fe_status g = FileSkipped \<or> token g \<noteq> [] \<and> fe_status g = fe_status (sd_files s ! row))"
  by (auto simp: note_token_def Let_def files_status files_token same_file_def)

definition noted :: "choices \<Rightarrow> SendService \<Rightarrow> nat \<Rightarrow> SendService \<Rightarrow> bool" where
  "noted A s n t \<longleftrightarrow> unattended A t \<and> same_files s t \<and> waiting_rows t \<le> waiting_rows s \<and> engine t = engine s
     \<and> length (sd_files t) = length (sd_files s) \<and> (\<forall>row < n. token_or_skipped t row)"

lemma noted_Suc:
  assumes "noted A s n t" "n < length (sd_files s)"
  shows "noted A s (Suc n) (fst (note_token env tokens n (t, a)))"
proof -
  let ?u = "fst (note_token env tokens n (t, a))"
  have n: "n < length (sd_files t)" and t: "unattended A t" "same_files s t" "waiting_rows t \<le> waiting_rows s" "engine t = engine s"
    "length (sd_files t) = length (sd_files s)" "\<And>row. row < n \<Longrightarrow> token_or_skipped t row"
    using assms by (auto simp: noted_def)
  obtain g where g: "sd_files ?u = (sd_files t)[n := g]" "same_file (sd_files t ! n) g"
      "fe_status g = FileSkipped \<or> token g \<noteq> [] \<and> fe_status g = fe_status (sd_files t ! n)"
    using files_note [OF n, of env tokens a] by blast
  have same: "same_files t ?u" unfolding same_files_def g(1) by (rule same_files_update [OF g(2)])
  have still: "no_row_moving ?u" if "no_row_moving t"
    using that g(3) n set_update_subset_insert [of "sd_files t" n g] by (force simp: no_row_moving_def g(1))
  have "waiting_rows ?u \<le> waiting_rows t"
    using waiting_update [OF n, of g] g(3) by (auto simp: waiting_rows_def g(1) split: if_splits)
  moreover have "token_or_skipped ?u row" if "row < Suc n" for row
    using that t(6) g(3) n by (cases "row = n") (auto simp: token_or_skipped_def g(1))
  moreover have "engine ?u = engine s" using t(4) by simp
  moreover have "unattended A ?u" by (rule unattended_cong [OF _ same still t(1)]) simp
  moreover note same_files_trans [OF t(2) same]
  ultimately show ?thesis using t(3,5) g(1) by (simp add: noted_def)
qed

lemma noted_fold:
  assumes "unattended A s" "n \<le> length (sd_files s)"
  shows "noted A s n (fst (fold (note_token env tokens) [0..<n] (s, a)))"
  using assms(2)
proof (induction n)
  case 0
  show ?case using assms(1) by (simp add: noted_def)
next
  case (Suc n)
  obtain t b where t: "fold (note_token env tokens) [0..<n] (s, a) = (t, b)" by fastforce
  with Suc have "noted A s n t" by simp
  from noted_Suc [OF this, of env tokens b] Suc.prems t show ?case by simp
qed

lemma noted_may_upload:
  assumes "noted A s (length (sd_files s)) t" "sd_sessionId s \<noteq> []"
  shows "may_upload t"
proof -
  have "token f \<noteq> []" if "f \<in> set (sd_files t)" "fe_status f = FileWaiting" for f
    using that assms(1) by (auto simp: noted_def token_or_skipped_def in_set_conv_nth)
  moreover have "sd_sessionId t \<noteq> []" using assms engine_session by (metis noted_def)
  ultimately show ?thesis by (simp add: may_upload_def)
qed

lemma uploads_engine: "engine t = engine s \<Longrightarrow> uploads t = uploads s"
  by (simp add: uploads_def engine_def)

lemma served_nothing:
  assumes "unattended A s" "sd_currentFile s = None"
  shows "served A s (nothing_to_send env s)"
proof -
  have "ended A (nothing_to_send env s)" using unattended_nothing [OF assms(1)] assms(2) by (simp add: ended_def)
  moreover have "sd_files (nothing_to_send env s) = sd_files s" "uploads (nothing_to_send env s) = uploads s"
    by (simp_all add: uploads_def)
  ultimately show ?thesis using same_files_eq waiting_rows_cong unfolding served_def by (metis order_refl)
qed

lemma onAccepted_served:
  assumes "unattended A s" "sd_busy s" "sd_currentFile s = None"
  shows "served A s (onAccepted env rp s)"
proof (cases "\<exists>response. j_parse (n_net env) (rp_body rp) = Some (JObject response)")
  case False
  then show ?thesis using served_failTransfer [OF assms(1)]
    by (auto simp: onAccepted_def Let_def split: option.split json.split)
next
  case True
  then obtain response where resp: "j_parse (n_net env) (rp_body rp) = Some (JObject response)" ..
  define s1 where "s1 = s\<lparr>sd_sessionId := to_string (jvalue response ''sessionId'')\<rparr>"
  define tokens where "tokens = to_object (jvalue response ''files'')"
  obtain s2 accepted where f: "fold (note_token env tokens) [0..<length (sd_files s1)] (s1, 0) = (s2, accepted)" by fastforce
  have u1: "unattended A s1" unfolding s1_def by (rule unattended_ended(4) [OF assms(1)])
  have s1: "sd_files s1 = sd_files s" "uploads s1 = uploads s" "sd_busy s1 = sd_busy s" "sd_currentFile s1 = sd_currentFile s"
    by (simp_all add: s1_def uploads_def)
  have lift: "served A s t" if "served A s1 t" for t
    using served_after [OF same_files_eq [OF s1(1)] _ s1(2) that] waiting_rows_cong [OF s1(1)] by simp
  consider (bad) "sd_sessionId s1 = [] \<or> tokens = []" | (none) "sd_sessionId s1 \<noteq> []" "tokens \<noteq> []" "accepted = 0"
    | (go) "sd_sessionId s1 \<noteq> []" "tokens \<noteq> []" "accepted \<noteq> 0" by blast
  then show ?thesis
  proof cases
    case bad
    then have "onAccepted env rp s = failTransfer env (n_tr env ''%1 sent an unreadable reply'' [dev_alias (sd_peer s)]) s1"
      by (simp add: onAccepted_def Let_def resp flip: s1_def tokens_def)
    then show ?thesis using lift [OF served_failTransfer [OF u1]] by simp
  next
    case none
    then have res: "onAccepted env rp s = nothing_to_send env s2"
      by (simp add: onAccepted_def Let_def resp f flip: s1_def tokens_def)
    have n: "noted A s1 (length (sd_files s1)) s2" using noted_fold [OF u1 order_refl, of env tokens 0] f by simp
    then have "served A s2 (nothing_to_send env s2)"
      using served_nothing [of A s2] engine_file [of s2 s1] assms(3) s1(4) by (simp add: noted_def)
    with n have "served A s1 (nothing_to_send env s2)"
      using served_after [of s1 s2] uploads_engine [of s2 s1] by (simp add: noted_def)
    then show ?thesis unfolding res by (rule lift)
  next
    case go
    let ?t = "(sd_state env Active [] s2)\<lparr>sd_currentRow := -1\<rparr>"
    have res: "onAccepted env rp s = startNextFile env ?t"
      using go by (simp add: onAccepted_def Let_def resp f flip: s1_def tokens_def)
    have n: "noted A s1 (length (sd_files s1)) s2" using noted_fold [OF u1 order_refl, of env tokens 0] f by simp
    have e: "engine s2 = engine s1" and ok: "unattended A s2" "same_files s1 s2" "waiting_rows s2 \<le> waiting_rows s1" using n by (simp_all add: noted_def)
    have files: "sd_files ?t = sd_files s2" by simp
    have "may_upload ?t" using noted_may_upload [OF n go(1)] files by (simp add: may_upload_def)
    moreover have "unattended A ?t" by (intro unattended_ended(5) unattended_state ok(1))
    moreover have "sd_busy ?t" using engine_busy [OF e] assms(2) s1(3) by simp
    ultimately have "served A ?t (startNextFile env ?t)" by (rule startNextFile_served [rotated -1])
    moreover have "same_files s1 ?t" by (rule same_files_trans [OF ok(2) same_files_eq [OF files]])
    moreover have "waiting_rows ?t \<le> waiting_rows s1" using ok(3) waiting_rows_cong [OF files] by simp
    moreover have "uploads ?t = uploads s1" using uploads_engine [OF e] by (simp add: uploads_def)
    ultimately show ?thesis unfolding res by (intro lift served_after [of s1 ?t])
  qed
qed

section \<open>Replies\<close>

definition answered_state :: "nat \<Rightarrow> SendService \<Rightarrow> SendService" where
  "answered_state k s = s\<lparr>sd_inFlight := AList.delete k (sd_inFlight s), sd_reply := None\<rparr>"

lemma answered_state_simps [simp]:
  "sd_files (answered_state k s) = sd_files s" "sd_busy (answered_state k s) = sd_busy s" "sd_reply (answered_state k s) = None"
  "sd_cancelled (answered_state k s) = sd_cancelled s" "sd_currentFile (answered_state k s) = sd_currentFile s"
  "sd_currentRow (answered_state k s) = sd_currentRow s" "sd_posted (answered_state k s) = sd_posted s"
  "sd_peer (answered_state k s) = sd_peer s" "sd_sessionId (answered_state k s) = sd_sessionId s"
  "sd_signals (answered_state k s) = sd_signals s" "sd_transfer (answered_state k s) = sd_transfer s"
  "uploads (answered_state k s) = uploads s" "waiting_rows (answered_state k s) = waiting_rows s"
  "same_files s (answered_state k s)" "may_upload (answered_state k s) = may_upload s"
  by (simp_all add: answered_state_def sd_files_def uploads_def waiting_rows_def same_files_def may_upload_def list_all2_same)

lemma attendedD:
  assumes "attended A s k rq slot"
  shows "sd_reply s = Some k" "map_of (sd_inFlight s) k = Some (rq, slot)" "sd_busy s" "\<not> sd_cancelled s"
    "\<forall>rq \<in> set (sd_posted s). fine_request A rq" "chosen A s" "only_notices (\<lambda>_. True) (answered_state k s)"
  using assms by (auto simp: attended_def only_notices_def answered_state_def delete_conv')

lemma attended_prepare:
  assumes "attended A s k rq OnPrepare"
  shows "unattended A (answered_state k s)" "sd_currentFile s = None"
proof -
  have "chosen A (answered_state k s)" using attendedD(6) [OF assms] by (simp add: chosen_def)
  then show "unattended A (answered_state k s)" "sd_currentFile s = None"
    using assms attendedD(7) [OF assms] by (auto simp: attended_def unattended_def no_row_moving_def)
qed

lemma attended_upload:
  assumes "attended A s k rq (OnUpload (int j))" "st \<noteq> FileTransferring"
  shows "unattended A (sd_status env (int j) st err (answered_state k s))" "sd_currentRow s = int j" "j < length (sd_files s)"
    "fe_status (sd_files s ! j) = FileTransferring" "may_upload s"
proof -
  let ?t = "sd_status env (int j) st err (answered_state k s)"
  have u: "uploading s j rq" using assms(1) by (auto simp: attended_def)
  then show row: "sd_currentRow s = int j" "j < length (sd_files s)" "fe_status (sd_files s ! j) = FileTransferring" "may_upload s"
    by (simp_all add: uploading_def)
  have "chosen A (answered_state k s)" using attendedD(6) [OF assms(1)] by (simp add: chosen_def)
  then have "chosen A ?t" by (rule chosen_cong [rotated -1]) simp_all
  moreover have "only_notices (\<lambda>_. True) ?t = only_notices (\<lambda>_. True) (answered_state k s)" by (rule only_notices_cong) simp_all
  moreover have "fe_status (sd_files ?t ! i) \<noteq> FileTransferring" if "i < length (sd_files s)" for i
    using u assms(2) that by (cases "i = j") (simp_all add: files_status uploading_def)
  then have "no_row_moving ?t" by (auto simp: no_row_moving_def in_set_conv_nth)
  ultimately show "unattended A ?t" using attendedD [OF assms(1)] \<open>no_row_moving ?t\<close> by (simp add: unattended_def)
qed

lemma may_upload_status:
  assumes "st \<noteq> FileWaiting" "may_upload s"
  shows "may_upload (sd_status env row st err s)"
proof -
  have "token f \<noteq> []" if "f \<in> set (sd_files (sd_status env row st err s))" "fe_status f = FileWaiting" for f
  proof -
    have "f \<in> set (sd_files s)"
      using that assms(1) set_update_subset_insert [of "sd_files s" "nat row"] by (fastforce simp: files_status split: if_splits)
    with that(2) assms(2) show ?thesis by (simp add: may_upload_def)
  qed
  with assms(2) show ?thesis by (simp add: may_upload_def)
qed

text \<open>The end of an upload is always a step on.\<close>

lemma onUpload_served:
  assumes "attended A s k rq (OnUpload (int j))"
  shows "served A s (onUploadFinished env k rp (s\<lparr>sd_inFlight := AList.delete k (sd_inFlight s)\<rparr>))"
proof -
  define t where "t = answered_state k s"
  have alive: "sd_reply s = Some k" "\<not> sd_cancelled s" "sd_busy s" using attendedD [OF assms] by simp_all
  note row = attended_upload(2-5) [OF assms, of FileDone]
  have served: "served A s u" if st: "st \<noteq> FileTransferring" "st \<noteq> FileWaiting" and u: "served A (sd_status env (int j) st err t) u" for st err u
  proof (rule served_after [OF _ _ _ u])
    show "same_files s (sd_status env (int j) st err t)"
      using same_files_trans [of s t "sd_status env (int j) st err t"] by (simp add: t_def)
    show "waiting_rows (sd_status env (int j) st err t) \<le> waiting_rows s"
      using waiting_status(1) [OF st(2), of env "int j" err t] by (simp add: t_def)
    show "uploads (sd_status env (int j) st err t) = uploads s" using uploads_engine [of "sd_status env (int j) st err t" t] by (simp add: t_def)
  qed
  have next_file: "served A s (startNextFile env (sd_status env (int j) st err t))" if "st \<noteq> FileTransferring" "st \<noteq> FileWaiting" for st err
  proof (rule served [OF that], rule startNextFile_served)
    show "unattended A (sd_status env (int j) st err t)" unfolding t_def by (rule attended_upload(1) [OF assms that(1)])
    show "may_upload (sd_status env (int j) st err t)" by (rule may_upload_status [OF that(2)]) (simp add: t_def row)
  qed (simp add: t_def alive)
  have failed: "served A s (failTransfer env msg (sd_status env (int j) FileFailed err t))" for msg err
    by (rule served [of FileFailed err]) (simp_all add: t_def served_failTransfer [OF attended_upload(1) [OF assms]])
  have reduce: "(if sd_reply (s\<lparr>sd_inFlight := fl\<rparr>) = Some k then s\<lparr>sd_inFlight := fl, sd_reply := None\<rparr> else s\<lparr>sd_inFlight := fl\<rparr>)
      = s\<lparr>sd_inFlight := fl, sd_reply := None\<rparr>" for fl using alive by simp
  show ?thesis
    unfolding onUploadFinished_def Let_def reduce
    using next_file failed row(1) alive unfolding t_def [unfolded answered_state_def] by (simp add: answered_state_def)
qed

text \<open>The answer to the request: a step on, or the wait for a PIN.\<close>

lemma unattended_quiet:
  assumes "attended A s k rq OnPrepare" and "t = sd_state env st err (answered_state k s)"
  shows "unattended A t" "sd_currentFile t = None" "sd_busy t" "sd_files t = sd_files s" "uploads t = uploads s"
  using unattended_state [OF attended_prepare(1) [OF assms(1)]] attended_prepare(2) [OF assms(1)] attendedD(3) [OF assms(1)] assms(2)
  by (simp_all add: uploads_def)

definition onward :: "choices \<Rightarrow> SendService \<Rightarrow> SendService \<Rightarrow> bool" where
  "onward A s t \<longleftrightarrow> served A s t \<or>
     (unattended A t \<and> sd_currentFile t = None \<and> sd_busy t \<and> sd_files t = sd_files s \<and> uploads t = uploads s)"

lemma onPrepare_served:
  assumes "attended A s k rq OnPrepare"
  shows "onward A s (onPrepareFinished env k rp (s\<lparr>sd_inFlight := AList.delete k (sd_inFlight s)\<rparr>))"
proof -
  define t where "t = answered_state k s"
  have alive: "sd_reply s = Some k" "\<not> sd_cancelled s" "sd_busy s" using attendedD [OF assms] by simp_all
  have u: "unattended A t" and closed: "sd_currentFile t = None" unfolding t_def using attended_prepare [OF assms] by simp_all
  have served: "served A s v" if "served A t v" for v
    by (rule served_after [OF _ _ _ that]) (simp_all add: t_def)
  have reduce: "(if sd_reply (s\<lparr>sd_inFlight := fl\<rparr>) = Some k then s\<lparr>sd_inFlight := fl, sd_reply := None\<rparr> else s\<lparr>sd_inFlight := fl\<rparr>)
      = s\<lparr>sd_inFlight := fl, sd_reply := None\<rparr>" for fl using alive by simp
  let ?declined = "sd_emit (SendFinished (qs ''declined'') 0) (sd_emit Declined (sd_emit BusyChanged ((sd_state env Cancelled [] t)\<lparr>sd_busy := False\<rparr>)))"
  have "unattended A ?declined" by (intro unattendeds u)
  then have "ended A ?declined" using closed by (simp add: ended_def)
  moreover have "sd_files ?declined = sd_files t" "uploads ?declined = uploads t" by (simp_all add: uploads_def)
  ultimately have "served A t ?declined" using same_files_eq waiting_rows_cong unfolding served_def by (metis order_refl)
  then have declined: "onward A s ?declined" by (simp add: onward_def served)
  let ?pin = "sd_emit (PinRequired (sd_pinAttempted t)) (sd_state env Idle [] t)"
  have "unattended A ?pin" by (intro unattendeds u)
  then have pin: "onward A s ?pin" using closed alive by (simp add: onward_def t_def uploads_def)
  have others: "onward A s (failTransfer env msg t)" "onward A s (onAccepted env rp t)" "onward A s (nothing_to_send env t)" for msg
    using served served_failTransfer [OF u] served_nothing [OF u closed] onAccepted_served [OF u _ closed] alive
    by (simp_all add: onward_def t_def)
  show ?thesis
    unfolding onPrepareFinished_def Let_def reduce
    using declined pin others alive unfolding t_def [unfolded answered_state_def] by (simp add: answered_state_def)
qed

end
