(* ===== verification/Send_Run.thy ===== *)
theory Send_Run
  imports Send_Steps
begin

text \<open>
  Runs of the sending service. A run is polite when a PIN is submitted only while no reply is
  awaited: the page asks for it when \<open>pinRequired\<close> arrives, \<open>submitPin\<close> itself does not check.
\<close>

fun polite :: "(send_env \<times> sd_event) list \<Rightarrow> SendService \<Rightarrow> bool" where
  "polite [] s = True"
| "polite ((env, e) # evs) s =
     ((case e of SubmitPin pin \<Rightarrow> sd_reply s = None | _ \<Rightarrow> True) \<and> polite evs (sd_step env e s))"

text \<open>What the person chose in a run: the device and the files.\<close>

fun choice_of :: "send_env \<times> sd_event \<Rightarrow> (DeviceInfo \<times> qstring set) option" where
  "choice_of (env, SendFiles device paths) = Some (peer_of device, set (map (localPathOf (n_sys env)) paths))"
| "choice_of (env, e) = None"

definition choices_of :: "(send_env \<times> sd_event) list \<Rightarrow> choices" where
  "choices_of evs = {c. \<exists>e \<in> set evs. choice_of e = Some c}"

section \<open>Small steps of the invariant\<close>

definition rows_seen :: "SendService \<Rightarrow> (qstring \<times> qstring \<times> qstring \<times> FileStatus) list" where
  "rows_seen s = map (\<lambda>f. (fe_id f, localPath f, token f, fe_status f)) (sd_files s)"

lemma rows_seen_nth:
  assumes "rows_seen t = rows_seen s"
  shows "length (sd_files t) = length (sd_files s)"
    "j < length (sd_files s) \<Longrightarrow> fe_id (sd_files t ! j) = fe_id (sd_files s ! j) \<and> localPath (sd_files t ! j) = localPath (sd_files s ! j)
       \<and> token (sd_files t ! j) = token (sd_files s ! j) \<and> fe_status (sd_files t ! j) = fe_status (sd_files s ! j)"
proof -
  show len: "length (sd_files t) = length (sd_files s)" using arg_cong [OF assms, of length] by (simp add: rows_seen_def)
  assume "j < length (sd_files s)"
  with len arg_cong [OF assms, of "\<lambda>xs. xs ! j"]
  show "fe_id (sd_files t ! j) = fe_id (sd_files s ! j) \<and> localPath (sd_files t ! j) = localPath (sd_files s ! j)
       \<and> token (sd_files t ! j) = token (sd_files s ! j) \<and> fe_status (sd_files t ! j) = fe_status (sd_files s ! j)"
    by (simp add: rows_seen_def)
qed

lemma rows_seen_facts:
  assumes "rows_seen t = rows_seen s"
  shows "no_row_moving s \<Longrightarrow> no_row_moving t" "(\<forall>f \<in> set (sd_files s). localPath f \<in> S) \<Longrightarrow> (\<forall>f \<in> set (sd_files t). localPath f \<in> S)"
    "(\<forall>f \<in> set (sd_files s). fe_status f = FileWaiting \<longrightarrow> token f \<noteq> []) \<Longrightarrow> (\<forall>f \<in> set (sd_files t). fe_status f = FileWaiting \<longrightarrow> token f \<noteq> [])"
  unfolding no_row_moving_def all_set_conv_all_nth using rows_seen_nth [OF assms] by simp_all

lemma send_inv_cong:
  assumes e: "engine t = engine s" and r: "rows_seen t = rows_seen s" and s: "send_inv A s"
  shows "send_inv A t"
proof -
  note fields = engineD [OF e]
  have c: "chosen A t" if "chosen A s" using that rows_seen_facts(2) [OF r] fields by (auto simp: chosen_def)
  have n: "only_notices P t = only_notices P s" for P by (rule only_notices_cong) (simp_all add: fields)
  have m: "may_upload t" if "may_upload s" using that rows_seen_facts(3) [OF r] fields by (simp add: may_upload_def)
  have u: "uploading t j rq" if "uploading s j rq" for j rq
    using that m rows_seen_nth [OF r] fields by (simp add: uploading_def)
  have f: "(\<forall>rq \<in> set (sd_posted t). fine_request A rq) = (\<forall>rq \<in> set (sd_posted s). fine_request A rq)" using fields by simp
  from s consider "unattended A s" "sd_currentFile s = None" | k rq slot where "attended A s k rq slot" by (auto simp: send_inv_def)
  then show ?thesis
  proof cases
    case 1
    then have "unattended A t" using c rows_seen_facts(1) [OF r] unfolding unattended_def n f fields by blast
    with 1 fields show ?thesis by (simp add: send_inv_def)
  next
    case 2
    then have "attended A t k rq slot" using c rows_seen_facts(1) [OF r] u unfolding attended_def n f fields by blast
    then show ?thesis by (auto simp: send_inv_def)
  qed
qed

lemma send_inv_ended: "ended A t \<Longrightarrow> send_inv A t"
  by (simp add: send_inv_def ended_def)

lemma send_inv_served: "served A s t \<Longrightarrow> send_inv A t"
  unfolding served_def send_inv_def ended_def by blast

lemma send_inv_onward: "onward A s t \<Longrightarrow> send_inv A t"
  using send_inv_served unfolding onward_def send_inv_def by blast

lemma notices_delete: "only_notices P s \<Longrightarrow> only_notices P (s\<lparr>sd_inFlight := AList.delete k (sd_inFlight s)\<rparr>)"
  by (simp add: only_notices_def delete_conv')

lemma send_inv_notice:
  assumes "send_inv A s" "sd_reply s \<noteq> Some k"
  shows "send_inv A (s\<lparr>sd_inFlight := AList.delete k (sd_inFlight s)\<rparr>)" (is "send_inv A ?t")
proof -
  have c: "chosen A ?t = chosen A s" "no_row_moving ?t = no_row_moving s" "uploading ?t j rq = uploading s j rq" for j rq
    by (simp_all add: chosen_def no_row_moving_def uploading_def may_upload_def)
  from assms(1) consider "unattended A s" "sd_currentFile s = None" | i rq slot where "attended A s i rq slot" by (auto simp: send_inv_def)
  then show ?thesis
  proof cases
    case 1
    then have "unattended A ?t" using notices_delete by (simp add: unattended_def c)
    with 1 show ?thesis by (simp add: send_inv_def)
  next
    case 2
    then have "i \<noteq> k" using assms(2) by (auto simp: attended_def)
    with 2 have "attended A ?t i rq slot" using notices_delete by (auto simp: attended_def c delete_conv')
    then show ?thesis by (auto simp: send_inv_def)
  qed
qed

text \<open>Who is in flight.\<close>

lemma send_inv_flight:
  assumes "send_inv A s" "map_of (sd_inFlight s) k = Some (rq, slot)" "slot \<noteq> OnNotice"
  shows "attended A s k rq slot"
proof -
  from assms(1) consider "unattended A s" | i rq' slot' where "attended A s i rq' slot'" by (auto simp: send_inv_def)
  then show ?thesis
  proof cases
    case 1
    with assms(2,3) show ?thesis by (simp add: unattended_def only_notices_def)
  next
    case 2
    then have "i = k" using assms(2,3) by (auto simp: attended_def only_notices_def)
    with 2 assms(2) show ?thesis by (simp add: attended_def)
  qed
qed

lemma send_inv_awaited: "send_inv A s \<Longrightarrow> sd_reply s = Some k \<Longrightarrow> \<exists>rq slot. attended A s k rq slot \<and> slot \<noteq> OnNotice"
  by (auto simp: send_inv_def unattended_def attended_def)

lemma send_inv_idle: "send_inv A s \<Longrightarrow> \<not> sd_busy s \<Longrightarrow> ended A s"
  by (auto simp: send_inv_def attended_def ended_def)

lemma send_inv_waiting: "send_inv A s \<Longrightarrow> sd_reply s = None \<Longrightarrow> unattended A s \<and> sd_currentFile s = None"
  by (auto simp: send_inv_def attended_def)

section \<open>Steps\<close>

lemma make_entries_rows:
  "f \<in> set (fst (make_entries env i ps r)) \<Longrightarrow> localPath f \<in> localPathOf (n_sys env) ` set ps \<and> fe_status f = FileWaiting"
proof (induction ps arbitrary: i r)
  case (Cons p ps)
  obtain t r1 rest r2 where gen: "generateToken r = (t, r1)" "make_entries env (Suc i) ps r1 = (rest, r2)" by fastforce
  then show ?case
    using Cons.prems Cons.IH [of "Suc i" r1] Cons.IH [of "Suc i" r]
    by (cases "n_files env (localPathOf (n_sys env) p)") (auto simp: Let_def new_FileEntry_def)
qed simp

lemma files_begin [simp]: "sd_files (begin_sending env peer entries s) = entries"
  by (simp add: begin_sending_def on_tm_def sd_files_def begin_transfer_def recomputeTotals_def)

lemma engine_begin [simp]: "engine (begin_sending env peer entries s) = engine s"
  by (simp add: begin_sending_def)

lemmas engine_begin_fields [simp] = engine_begin [THEN engine_reply] engine_begin [THEN engine_file] engine_begin [THEN engine_busy]
  engine_begin [THEN engine_cancelled] engine_begin [THEN engine_flight] engine_begin [THEN engine_next] engine_begin [THEN engine_posted]
  engine_begin [THEN engine_peer]

lemma send_inv_sendFiles:
  assumes "send_inv A s" "(peer_of device, set (map (localPathOf (n_sys env)) paths)) \<in> A"
  shows "send_inv A (sendFiles env device paths s)"
proof -
  define peer where "peer = peer_of device"
  obtain entries r where mk: "make_entries env 0 paths (sd_rng s) = (entries, r)" by fastforce
  define t where "t = sd_state env Requesting [] (begin_sending env peer entries (sd_emit BusyChanged (s\<lparr>sd_rng := r, sd_peer := peer, sd_sessionId := [],
      sd_cancelled := False, sd_pinAttempted := False, sd_busy := True\<rparr>)))"
  consider (same) "sendFiles env device paths s = s" | (rng) "sendFiles env device paths s = s\<lparr>sd_rng := r\<rparr>"
    | (blocked) "\<not> sd_busy s" "sendFiles env device paths s = sd_state env Failed (n_tr env ''This device is blocked'' []) (begin_sending env peer [] s)"
    | (sent) "\<not> sd_busy s" "sendFiles env device paths s = requestUpload [] t"
    using that unfolding t_def sendFiles_def Let_def mk prod.case peer_def [symmetric] by presburger
  then show ?thesis
  proof cases
    case rng
    have "send_inv A (s\<lparr>sd_rng := r\<rparr>)" by (rule send_inv_cong [OF _ _ assms(1)]) (simp_all add: rows_seen_def)
    then show ?thesis using rng by simp
  next
    case blocked
    have i: "ended A s" by (rule send_inv_idle [OF assms(1) blocked(1)])
    have "unattended A (begin_sending env peer [] s)"
      using i only_notices_cong [of "begin_sending env peer [] s" s] by (simp add: ended_def unattended_def no_row_moving_def)
    from unattended_state [OF this] i have "ended A (sendFiles env device paths s)" unfolding blocked ended_def by simp
    then show ?thesis by (rule send_inv_ended)
  next
    case sent
    have i: "ended A s" by (rule send_inv_idle [OF assms(1) sent(1)])
    have rows: "sd_files t = entries" by (simp add: t_def)
    have entries: "localPath f \<in> set (map (localPathOf (n_sys env)) paths)" "fe_status f = FileWaiting" if "f \<in> set entries" for f
      using make_entries_rows [of f env 0 paths "sd_rng s"] that mk by simp_all
    have t: "sd_reply t = sd_reply s" "sd_inFlight t = sd_inFlight s" "sd_nextReply t = sd_nextReply s" "sd_posted t = sd_posted s"
      "sd_currentFile t = sd_currentFile s" "sd_busy t" "\<not> sd_cancelled t" "sd_peer t = peer"
      by (simp_all add: t_def)
    have "chosen A t" unfolding chosen_def rows t(8) using assms(2) entries(1) unfolding peer_def by blast
    moreover have "no_row_moving t" unfolding no_row_moving_def rows using entries(2) by fastforce
    ultimately have "unattended A t" using i only_notices_cong [OF t(2,3)] t by (simp add: ended_def unattended_def)
    then have "\<exists>rq. attended A (requestUpload [] t) (sd_nextReply t) rq OnPrepare"
      by (rule request_attended) (use i t in \<open>simp_all add: ended_def\<close>)
    then show ?thesis unfolding sent send_inv_def by blast
  qed (use assms(1) in simp)
qed

lemma send_inv_submitPin:
  assumes "send_inv A s" "sd_reply s = None"
  shows "send_inv A (submitPin env pin s)"
proof (cases "sd_busy s \<and> pin \<noteq> []")
  case True
  define t where "t = sd_state env Requesting [] (s\<lparr>sd_pinAttempted := True\<rparr>)"
  have "send_inv A t" by (rule send_inv_cong [OF _ _ assms(1)]) (simp_all add: t_def rows_seen_def)
  then have "unattended A t \<and> sd_currentFile t = None" by (rule send_inv_waiting) (simp add: t_def assms)
  moreover have "submitPin env pin s = requestUpload pin t" "sd_busy t" using True by (simp_all add: submitPin_def t_def)
  ultimately show ?thesis using request_attended [of A t pin] by (auto simp: send_inv_def)
qed (use assms in \<open>auto simp: submitPin_def\<close>)

text \<open>A cancel: the aborted reply is taken out, the peer is told, what was not done is skipped.\<close>

definition cancelling :: "choices \<Rightarrow> SendService \<Rightarrow> bool" where
  "cancelling A s \<longleftrightarrow> sd_reply s = None \<and> only_notices (\<lambda>_. True) s \<and> (\<forall>rq \<in> set (sd_posted s). fine_request A rq) \<and> chosen A s"

lemma abort_reply_aborted:
  assumes "send_inv A s" "sd_busy s"
  shows "cancelling A (closeCurrentFile (abort_reply env (s\<lparr>sd_cancelled := True\<rparr>)))"
proof (cases "sd_reply s")
  case None
  have u: "unattended A s" using send_inv_waiting [OF assms(1) None] by simp
  have "only_notices (\<lambda>_. True) (closeCurrentFile (s\<lparr>sd_cancelled := True\<rparr>)) = only_notices (\<lambda>_. True) s"
    by (rule only_notices_cong) (simp_all add: closeCurrentFile_def)
  then show ?thesis using None u assms(2)
    by (simp add: abort_reply_def cancelling_def unattended_def chosen_def) (simp add: closeCurrentFile_def)
next
  case (Some k)
  from send_inv_awaited [OF assms(1) Some] obtain rq slot where a: "attended A s k rq slot" "slot \<noteq> OnNotice" by blast
  note d = attendedD [OF a(1)]
  let ?t = "closeCurrentFile (answered_state k (s\<lparr>sd_cancelled := True\<rparr>))"
  have res: "abort_reply env (s\<lparr>sd_cancelled := True\<rparr>) = answered_state k (s\<lparr>sd_cancelled := True\<rparr>)"
    using d a(2) by (cases slot)
      (simp_all add: abort_reply_def on_finished_def onPrepareFinished_def onUploadFinished_def Let_def answered_state_def)
  have "only_notices (\<lambda>_. True) ?t = only_notices (\<lambda>_. True) (answered_state k s)"
    by (rule only_notices_cong) (simp_all add: closeCurrentFile_def answered_state_def)
  then show ?thesis unfolding res using d by (simp add: cancelling_def chosen_def) (simp add: closeCurrentFile_def)
qed

lemma cancelling_notify:
  assumes "cancelling A s"
  shows "cancelling A (sd_notifyPeer s)"
proof -
  define rq where "rq = \<lparr>rq_url = apiBase (sd_peer s) @ PathCancel, rq_query = [(''sessionId'', sd_sessionId s)],
             rq_identity = own_identity s, rq_policy = PinTo (fingerprint (sd_peer s)), rq_body = NoBody\<rparr>"
  let ?t = "snd (post rq OnNotice s)"
  have c: "chosen A s" using assms by (simp add: cancelling_def)
  then have "fine_request A rq" by (auto simp: fine_request_def request_for_def chosen_def rq_def)
  moreover have "only_notices (\<lambda>_. True) ?t"
    by (rule notices_post(3)) (use assms in \<open>simp_all add: cancelling_def\<close>)
  moreover have "chosen A ?t" using c by (simp add: chosen_def)
  ultimately have "cancelling A ?t" using assms by (simp add: cancelling_def)
  with assms show ?thesis by (simp add: sd_notifyPeer_def rq_def)
qed

lemma skip_moving:
  assumes "n \<le> length (sd_files s)" "FileTransferring \<in> which"
  shows "\<forall>j < n. fe_status (sd_files (fold (skip_waiting env which) [0..<n] s) ! j) \<noteq> FileTransferring"
    and "length (sd_files (fold (skip_waiting env which) [0..<n] s)) = length (sd_files s)"
proof -
  have len: "length (sd_files (fold (skip_waiting env which) rows s)) = length (sd_files s)" for rows
    using same_files_skip [of s env which rows] by (simp add: same_files_def list_all2_lengthD)
  then show "length (sd_files (fold (skip_waiting env which) [0..<n] s)) = length (sd_files s)" .
  show "\<forall>j < n. fe_status (sd_files (fold (skip_waiting env which) [0..<n] s) ! j) \<noteq> FileTransferring"
    using assms(1)
  proof (induction n)
    case (Suc n)
    let ?u = "fold (skip_waiting env which) [0..<n] s"
    have ih: "\<forall>j < n. fe_status (sd_files ?u ! j) \<noteq> FileTransferring" using Suc by simp
    have "fe_status (sd_files (skip_waiting env which n ?u) ! j) \<noteq> FileTransferring" if "j < Suc n" for j
      using that ih Suc.prems len [of "[0..<n]"] assms(2)
      by (cases "j = n") (auto simp: skip_waiting_def files_status)
    then show ?case by simp
  qed simp
qed

lemma send_inv_cancel:
  assumes "send_inv A s"
  shows "send_inv A (sd_cancel env s)"
proof (cases "sd_busy s")
  case True
  define s1 where "s1 = sd_notifyPeer (closeCurrentFile (abort_reply env (s\<lparr>sd_cancelled := True\<rparr>)))"
  define s2 where "s2 = fold (skip_waiting env {FileWaiting, FileTransferring}) [0..<length (sd_files s1)] s1"
  have c: "cancelling A s1" unfolding s1_def by (intro cancelling_notify abort_reply_aborted assms True)
  have "sd_currentFile s1 = None" by (simp add: s1_def sd_notifyPeer_def case_prod_unfold) (simp add: closeCurrentFile_def)
  moreover have e: "engine s2 = engine s1" unfolding s2_def by (rule engine_skip)
  ultimately have closed: "sd_currentFile s2 = None" using engine_file [OF e] by simp
  have still: "no_row_moving s2"
    using skip_moving [of "length (sd_files s1)" s1 "{FileWaiting, FileTransferring}" env]
    by (auto simp: no_row_moving_def in_set_conv_nth s2_def)
  define s3 where "s3 = (if completedCount (sd_transfer (sd_state env Cancelled [] s2)) > 0
      then writeHistory env (sd_state env Cancelled [] s2) else sd_state env Cancelled [] s2)"
  have e3: "engine s3 = engine s1" and f3: "sd_files s3 = sd_files s2" by (simp_all add: s3_def e)
  define t where "t = sd_emit BusyChanged (s3\<lparr>sd_busy := False, sd_sessionId := []\<rparr>)"
  have res: "sd_cancel env s = sd_emit (SendFinished (qs ''cancelled'') (completedCount (sd_transfer t))) t"
    using True by (simp add: sd_cancel_def Let_def t_def s3_def s2_def s1_def)
  have "only_notices (\<lambda>_. True) t = only_notices (\<lambda>_. True) s1"
    using engineD [OF e3] by (intro only_notices_cong) (simp_all add: t_def)
  moreover have "no_row_moving t" using still f3 by (simp add: no_row_moving_def t_def)
  ultimately have "unattended A t" using c engineD [OF e3] by (simp add: unattended_def cancelling_def) (simp add: t_def)
  then have "unattended A (sd_cancel env s)" unfolding res by (rule unattended_emit)
  moreover have "\<not> sd_busy (sd_cancel env s)" "sd_currentFile (sd_cancel env s) = None"
    using closed engine_file [OF e3] engine_file [OF e] unfolding res by (simp_all add: t_def)
  ultimately show ?thesis by (simp add: send_inv_ended ended_def)
qed (simp add: sd_cancel_def assms)

lemma rows_transferred: "rows_seen (on_tm (setFileTransferred row n) s) = rows_seen s"
proof (cases "row_ok row (sd_transfer s)")
  case True
  let ?fs = "m_files (sd_transfer s)"
  let ?g = "\<lambda>f. (fe_id f, localPath f, token f, fe_status f)"
  have row: "nat row < length ?fs" using True by (auto simp: row_ok_def)
  have "map ?g (?fs[nat row := (?fs ! nat row)\<lparr>transferred := x\<rparr>]) = map ?g ?fs" for x
    using row by (simp add: map_update list_update_same_conv)
  then show ?thesis using True
    by (auto simp: rows_seen_def sd_files_def on_tm_def setFileTransferred_def Let_def update_file_def touch_def)
qed (simp add: setFileTransferred_def on_tm_def)

text \<open>The reply that was awaited.\<close>

lemma reply_awaited:
  assumes "attended A s k rq slot" "slot \<noteq> OnNotice"
  shows "onward A s (sd_step env (ReplyDone k rp) s)" "slot = OnUpload j \<Longrightarrow> served A s (sd_step env (ReplyDone k rp) s)"
proof -
  have flight: "map_of (sd_inFlight s) k = Some (rq, slot)" using attendedD [OF assms(1)] by simp
  consider "slot = OnPrepare" | i where "slot = OnUpload (int i)" using assms by (auto simp: attended_def)
  then have "onward A s (sd_step env (ReplyDone k rp) s) \<and> (slot = OnUpload j \<longrightarrow> served A s (sd_step env (ReplyDone k rp) s))"
  proof cases
    case 1
    then show ?thesis using onPrepare_served [of A s k rq] assms(1) flight by (simp add: on_finished_def)
  next
    case 2
    then show ?thesis using onUpload_served [of A s k rq i] assms(1) flight by (simp add: on_finished_def onward_def)
  qed
  then show "onward A s (sd_step env (ReplyDone k rp) s)" "slot = OnUpload j \<Longrightarrow> served A s (sd_step env (ReplyDone k rp) s)"
    by simp_all
qed

lemma send_inv_step:
  assumes "send_inv A s" and "\<And>c. choice_of (env, e) = Some c \<Longrightarrow> c \<in> A" and "\<And>pin. e = SubmitPin pin \<Longrightarrow> sd_reply s = None"
  shows "send_inv A (sd_step env e s)"
proof (cases e)
  case (ReplyDone k rp)
  show ?thesis
  proof (cases "map_of (sd_inFlight s) k")
    case (Some c)
    then obtain rq slot where c: "map_of (sd_inFlight s) k = Some (rq, slot)" by (cases c) simp
    show ?thesis
    proof (cases "slot = OnNotice")
      case True
      have "sd_reply s \<noteq> Some k" using send_inv_awaited [OF assms(1)] c True attendedD(2) by fastforce
      from send_inv_notice [OF assms(1) this] show ?thesis using c True ReplyDone by (simp add: on_finished_def)
    next
      case False
      show ?thesis unfolding ReplyDone by (rule send_inv_onward [OF reply_awaited(1) [OF send_inv_flight [OF assms(1) c False] False]])
    qed
  qed (simp add: ReplyDone assms(1))
next
  case (Progress k n)
  have "send_inv A (on_tm (setFileTransferred row n) s)" for row
    by (rule send_inv_cong [OF _ rows_transferred assms(1)]) simp
  then show ?thesis using assms(1) by (auto simp: Progress split: option.split prod.split reply_slot.split)
next
  case (SsSettings f)
  show ?thesis unfolding SsSettings by (rule send_inv_cong [OF _ _ assms(1)]) (simp_all add: rows_seen_def)
next
  case (SsKnown kd)
  show ?thesis unfolding SsKnown by (rule send_inv_cong [OF _ _ assms(1)]) (simp_all add: rows_seen_def)
qed (use assms in \<open>simp_all add: send_inv_sendFiles send_inv_submitPin send_inv_cancel\<close>)

lemma send_inv_new: "send_inv A (new_SendService st r)"
  by (simp add: send_inv_def unattended_def new_SendService_def only_notices_def no_row_moving_def sd_files_def new_TransferModel_def)

lemma send_inv_run:
  assumes "send_inv A s" "polite evs s" "choices_of evs \<subseteq> A"
  shows "send_inv A (sd_run evs s)"
  using assms
proof (induction evs arbitrary: s)
  case (Cons x evs)
  obtain env e where x: "x = (env, e)" by (cases x)
  have "send_inv A (sd_step env e s)"
    by (rule send_inv_step [OF Cons.prems(1)]) (use Cons.prems(2,3) in \<open>auto simp: x choices_of_def\<close>)
  moreover have "choices_of evs \<subseteq> A" using Cons.prems(3) by (auto simp: choices_of_def)
  ultimately have "send_inv A (sd_run evs (sd_step env e s))" using Cons.IH Cons.prems(2) by (simp add: x)
  then show ?case by (simp add: sd_run_def x)
qed (simp add: sd_run_def)

lemma send_inv_reached: "polite evs (new_SendService st r) \<Longrightarrow> send_inv (choices_of evs) (sd_run evs (new_SendService st r))"
  by (rule send_inv_run [OF send_inv_new _ order_refl])

end
