(* ===== verification/Send_Claims.thy ===== *)
theory Send_Claims
  imports Send_Run
begin

text \<open>
  What a polite run of the sending service guarantees: requests go to the chosen devices only, pinned
  to their fingerprints; every transfer that began ends with one signal; the uploads come to an end;
  a file is shown as done only on the word of the peer that got it.
\<close>

section \<open>One end for every beginning\<close>

fun is_end :: "send_signal \<Rightarrow> bool" where
  "is_end (SendFinished outcome n) = True"
| "is_end x = False"

definition balanced :: "SendService \<Rightarrow> bool" where
  "balanced s \<longleftrightarrow> length (filter ((=) BusyChanged) (sd_signals s))
     = 2 * length (filter is_end (sd_signals s)) + (if sd_busy s then 1 else 0)"

lemma signals_simps [simp]:
  "sd_signals (sd_emit x s) = sd_signals s @ [x]" "sd_signals (on_tm f s) = sd_signals s" "sd_signals (sd_state env st err s) = sd_signals s"
  "sd_signals (sd_status env row fs err s) = sd_signals s" "sd_signals (skip_waiting env which j s) = sd_signals s"
  "sd_signals (closeCurrentFile s) = sd_signals s" "sd_signals (fst (note_token env tokens j sn)) = sd_signals (fst sn)"
  by (simp_all add: sd_emit_def on_tm_def sd_state_def sd_status_def skip_waiting_def closeCurrentFile_def note_token_def Let_def
      split: prod.split)

lemma signals_writeHistory [simp]: "sd_signals (writeHistory env s) = sd_signals s"
  by (simp add: writeHistory_def Let_def split: prod.split)

lemma signals_fold: "(\<And>x t. sd_signals (f x t) = sd_signals t) \<Longrightarrow> sd_signals (fold f xs s) = sd_signals s"
  by (induction xs arbitrary: s) simp_all

lemma signals_note: "sd_signals (fst (fold (note_token env tokens) rows sn)) = sd_signals (fst sn)"
  by (induction rows arbitrary: sn) simp_all

lemma busy_note: "sd_busy (fst (fold (note_token env tokens) rows sn)) = sd_busy (fst sn)"
  by (induction rows arbitrary: sn) (simp_all add: engine_busy [OF engine_note])

lemma balanced_cong: "sd_signals t = sd_signals s \<Longrightarrow> sd_busy t = sd_busy s \<Longrightarrow> balanced s \<Longrightarrow> balanced t"
  by (simp add: balanced_def)

lemma balanced_completeTransfer: "balanced s \<Longrightarrow> sd_busy s \<Longrightarrow> balanced (completeTransfer env s)"
  by (simp add: balanced_def completeTransfer_def Let_def)

lemma balanced_failTransfer: "balanced s \<Longrightarrow> sd_busy s \<Longrightarrow> balanced (failTransfer env msg s)"
  by (simp add: balanced_def failTransfer_def Let_def signals_fold)

lemma balanced_nothing: "balanced s \<Longrightarrow> sd_busy s \<Longrightarrow> balanced (nothing_to_send env s)"
  by (simp add: balanced_def nothing_to_send_def)

lemma balanced_upload_row: "balanced s \<Longrightarrow> balanced (upload_row env row s)"
  by (rule balanced_cong [where s = s]) (simp_all add: upload_row_def Let_def case_prod_unfold)

lemma balanced_requestUpload: "balanced s \<Longrightarrow> balanced (requestUpload pin s)"
  by (rule balanced_cong [where s = s]) (simp_all add: requestUpload_def case_prod_unfold)

lemma balanced_startNextFile: "balanced s \<Longrightarrow> sd_busy s \<Longrightarrow> balanced (startNextFile env s)"
proof (induction env s rule: startNextFile.induct)
  case (1 env s0)
  define s where "s = closeCurrentFile s0"
  define row where "row = next_row (sd_files s) (nat (sd_currentRow s + 1))"
  define s1 where "s1 = s\<lparr>sd_currentRow := int row\<rparr>"
  let ?t = "sd_status env (int row) FileFailed (n_tr env ''Could not open the file'' []) s1"
  have s: "balanced s" "sd_busy s" using "1.prems" by (simp_all add: s_def balanced_def) (simp_all add: closeCurrentFile_def)
  then have t: "balanced s1" "balanced ?t" "sd_busy ?t" by (simp_all add: balanced_def s1_def)
  note ih = "1.IH" [OF s_def _ row_def _ s1_def _ t(2,3)]
  show ?case
    by (subst startNextFile.simps)
      (use s t(1) ih in \<open>auto simp: Let_def balanced_completeTransfer balanced_upload_row simp flip: s_def row_def s1_def\<close>)
qed

lemma balanced_onAccepted:
  assumes "balanced s" "sd_busy s"
  shows "balanced (onAccepted env rp s)"
proof (cases "\<exists>response. j_parse (n_net env) (rp_body rp) = Some (JObject response)")
  case False
  then show ?thesis using balanced_failTransfer [OF assms]
    by (auto simp: onAccepted_def Let_def split: option.split json.split)
next
  case True
  then obtain response where resp: "j_parse (n_net env) (rp_body rp) = Some (JObject response)" ..
  define s1 where "s1 = s\<lparr>sd_sessionId := to_string (jvalue response ''sessionId'')\<rparr>"
  define tokens where "tokens = to_object (jvalue response ''files'')"
  obtain s2 accepted where f: "fold (note_token env tokens) [0..<length (sd_files s1)] (s1, 0) = (s2, accepted)" by fastforce
  have s1: "balanced s1" "sd_busy s1" using assms by (simp_all add: s1_def balanced_def)
  have s2: "balanced s2" "sd_busy s2"
    using s1 signals_note [of env tokens "[0..<length (sd_files s1)]" "(s1, 0)"] busy_note [of env tokens "[0..<length (sd_files s1)]" "(s1, 0)"]
    by (simp_all add: f balanced_def)
  let ?t = "(sd_state env Active [] s2)\<lparr>sd_currentRow := -1\<rparr>"
  have "balanced ?t" "sd_busy ?t" using s2 by (simp_all add: balanced_def)
  from balanced_startNextFile [OF this] balanced_nothing [OF s2] balanced_failTransfer [OF s1] show ?thesis
    by (simp add: onAccepted_def Let_def resp f flip: s1_def tokens_def)
qed

lemma balanced_reply:
  assumes "balanced s" "sd_busy s"
  shows "balanced (on_finished env k slot rp s)"
proof -
  have declined: "balanced (sd_emit (SendFinished a 0) (sd_emit Declined (sd_emit BusyChanged (t\<lparr>sd_busy := False\<rparr>))))"
    if "balanced t" "sd_busy t" for t a
    using that by (simp add: balanced_def)
  have pin: "balanced (sd_emit (PinRequired b) t)" if "balanced t" for t b using that by (simp add: balanced_def)
  have t: "balanced t \<and> sd_busy t" if "sd_signals t = sd_signals s" "sd_busy t = sd_busy s" for t
    using that assms balanced_cong by simp
  note all = balanced_failTransfer balanced_nothing balanced_startNextFile balanced_onAccepted declined pin
  show ?thesis
    using assms t by (cases slot) (auto simp: on_finished_def onPrepareFinished_def onUploadFinished_def Let_def intro!: all)
qed

lemma signals_abort: "sd_cancelled s \<Longrightarrow> sd_signals (abort_reply env s) = sd_signals s \<and> sd_busy (abort_reply env s) = sd_busy s"
  by (auto simp: abort_reply_def on_finished_def onPrepareFinished_def onUploadFinished_def Let_def split: option.split prod.split reply_slot.split)

lemma balanced_cancel:
  assumes "balanced s"
  shows "balanced (sd_cancel env s)"
proof (cases "sd_busy s")
  case True
  have "sd_signals (sd_notifyPeer (closeCurrentFile (abort_reply env (s\<lparr>sd_cancelled := True\<rparr>)))) = sd_signals s"
    using signals_abort [of "s\<lparr>sd_cancelled := True\<rparr>" env] by (simp add: sd_notifyPeer_def)
  with True assms show ?thesis by (simp add: sd_cancel_def Let_def balanced_def signals_fold)
qed (simp add: sd_cancel_def assms)

lemma balanced_sendFiles: "balanced s \<Longrightarrow> balanced (sendFiles env device paths s)"
  by (cases "make_entries env 0 paths (sd_rng s)")
    (simp add: sendFiles_def Let_def balanced_def requestUpload_def begin_sending_def case_prod_unfold)

lemma balanced_step:
  assumes "send_inv A s" "balanced s"
  shows "balanced (sd_step env e s)"
proof (cases e)
  case (SubmitPin pin)
  then show ?thesis using assms(2) by (simp add: submitPin_def balanced_requestUpload balanced_def)
      (simp add: requestUpload_def case_prod_unfold)
next
  case (ReplyDone k rp)
  show ?thesis
  proof (cases "map_of (sd_inFlight s) k")
    case (Some c)
    then obtain rq slot where c: "map_of (sd_inFlight s) k = Some (rq, slot)" by (cases c) simp
    let ?t = "s\<lparr>sd_inFlight := AList.delete k (sd_inFlight s)\<rparr>"
    have t: "balanced ?t" using assms(2) by (simp add: balanced_def)
    show ?thesis
    proof (cases "slot = OnNotice")
      case False
      then have "sd_busy ?t" using attendedD(3) [OF send_inv_flight [OF assms(1) c False]] by simp
      from balanced_reply [OF t this] show ?thesis using c ReplyDone by simp
    qed (use t c ReplyDone in \<open>simp add: on_finished_def\<close>)
  qed (simp add: ReplyDone assms)
next
  case (Progress k n)
  then show ?thesis using assms(2) by (auto simp: balanced_def split: option.split prod.split reply_slot.split)
qed (use assms(2) in \<open>simp_all add: balanced_sendFiles balanced_cancel\<close>, simp_all add: balanced_def)

lemma balanced_run:
  assumes "send_inv A s" "polite evs s" "choices_of evs \<subseteq> A" "balanced s"
  shows "balanced (sd_run evs s)"
  using assms
proof (induction evs arbitrary: s)
  case (Cons x evs)
  obtain env e where x: "x = (env, e)" by (cases x)
  have "send_inv A (sd_step env e s)"
    by (rule send_inv_step [OF Cons.prems(1)]) (use Cons.prems(2,3) in \<open>auto simp: x choices_of_def\<close>)
  moreover have "choices_of evs \<subseteq> A" using Cons.prems(3) by (auto simp: choices_of_def)
  ultimately have "balanced (sd_run evs (sd_step env e s))"
    using Cons.IH Cons.prems(2) balanced_step [OF Cons.prems(1,4)] by (simp add: x)
  then show ?case by (simp add: sd_run_def x)
qed (simp add: sd_run_def)

section \<open>A transfer, evaluated\<close>

text \<open>Two files are offered, the peer accepts both, the first upload is confirmed.\<close>

definition sent_files :: filelib where
  "sent_files p = (if p = qs ''/a'' \<or> p = qs ''/b'' then Some \<lparr>fi_canonical = p, fi_name = drop 1 p, fi_size = 3, fi_mime = []\<rparr> else None)"

definition sent_answer :: json where
  "sent_answer = JObject [(qs ''sessionId'', JString (qs ''s'')),
     (qs ''files'', JObject [(qs ''0-aaaaaaaaaaaa'', JString (qs ''t'')), (qs ''1-aaaaaaaaaaaa'', JString (qs ''u''))])]"

definition sent_env :: send_env where
  "sent_env = \<lparr>n_lib = ascii_qt, n_net = \<lparr>u_target = (\<lambda>_. ([], [])), j_text = (\<lambda>_. []), j_parse = (\<lambda>_. Some sent_answer)\<rparr>,
     n_sys = demo_sys, n_files = sent_files, n_open = (\<lambda>_. True), n_now = 0, n_wall = 0, n_tr = (\<lambda>s _. qs s)\<rparr>"

definition sent_settings :: AppSettings where
  "sent_settings = \<lparr>as_values = [], as_deviceModel = [], as_randomFingerprint = qs ''AA'', as_identity = new_Certificate,
     as_transportError = [], as_signals = []\<rparr>"

definition sent_rng :: rng where
  "sent_rng = \<lparr>r_source = (\<lambda>_ n. Some (replicate (nat n) 170)), r_calls = 0, r_seen = True\<rparr>"

definition sent_device :: "(string, variant) qhash" where
  "sent_device = [(''alias'', VString (qs ''Ann'')), (''address'', VString (qs ''h'')), (''fingerprint'', VString (qs ''BB'')),
     (''port'', VInt 80)]"

definition ok_reply :: reply where
  "ok_reply = \<lparr>rp_error = False, rp_errorString = [], rp_status = 200, rp_body = [], rp_cert = [], rp_errorCerts = [], rp_verified = True\<rparr>"

definition sent_new :: SendService where
  "sent_new = new_SendService sent_settings sent_rng"

definition sent_begin :: "(send_env \<times> sd_event) list" where
  "sent_begin = [(sent_env, SendFiles sent_device [qs ''/a'', qs ''/b'']), (sent_env, ReplyDone 0 ok_reply)]"

definition sent_seen :: "SendService \<Rightarrow> (FileStatus \<times> qstring \<times> qstring) list \<times> bool \<times> nat option \<times> (nat \<times> reply_slot) list \<times> nat" where
  "sent_seen s = (map (\<lambda>f. (fe_status f, fe_id f, token f)) (sd_files s), sd_busy s, sd_reply s,
     map (\<lambda>(k, rq, slot). (k, slot)) (sd_inFlight s), length (sd_posted s))"

lemma sent_midway: "sent_seen (sd_run sent_begin sent_new) =
   ([(FileTransferring, qs ''0-aaaaaaaaaaaa'', qs ''t''), (FileWaiting, qs ''1-aaaaaaaaaaaa'', qs ''u'')], True, Some 1, [(1, OnUpload 0)], 2)"
  by code_simp

lemma sent_polite: "polite sent_begin sent_new"
  by (simp add: sent_begin_def)

section \<open>The claims\<close>

text \<open>
  C10. A transfer that began ends exactly once: in every polite run, whatever the peer answers and whenever
  the person cancels, \<open>busyChanged\<close> is emitted once at the beginning and once at the end of a
  transfer, and \<open>finished\<close> once at its end. While the service is busy exactly one end is outstanding,
  so the page that waits for it is never left hanging and never told of an end twice.
\<close>

theorem send_ends_once:
  assumes "polite evs (new_SendService st r)" and "s = sd_run evs (new_SendService st r)"
  shows "length (filter ((=) BusyChanged) (sd_signals s))
    = 2 * length (filter is_end (sd_signals s)) + (if sd_busy s then 1 else 0)"
proof -
  have "balanced (new_SendService st r)" by (simp add: balanced_def new_SendService_def)
  from balanced_run [OF send_inv_new assms(1) order_refl this] show ?thesis by (simp add: balanced_def assms(2))
qed

theorem send_ends_once_witness:
  "length (filter ((=) BusyChanged) (sd_signals (sd_run sent_begin sent_new)))
     = 2 * length (filter is_end (sd_signals (sd_run sent_begin sent_new))) + 1"
proof -
  have "sd_busy (sd_run sent_begin sent_new)" using sent_midway by (simp add: sent_seen_def)
  then show ?thesis using send_ends_once [OF sent_polite [unfolded sent_new_def] refl] by (simp add: sent_new_def)
qed

text \<open>
  C4. Nothing leaves for anyone but the devices the person chose: every request the service ever posted is
  for the device of one of the \<open>sendFiles\<close> calls and accepts only the certificate of that device's
  fingerprint; a file body is one of the files chosen for that device, goes to its upload path and
  carries a session and a token that the device gave out.
\<close>

theorem files_go_to_the_pinned_peer:
  assumes "polite evs (new_SendService st r)" and "rq \<in> set (sd_posted (sd_run evs (new_SendService st r)))"
  shows "\<exists>env device paths. (env, SendFiles device paths) \<in> set evs
    \<and> request_for (peer_of device) (set (map (localPathOf (n_sys env)) paths)) rq"
proof -
  have "fine_request (choices_of evs) rq"
    using send_inv_reached [OF assms(1)] assms(2) by (auto simp: send_inv_def unattended_def attended_def)
  then obtain p S where ps: "(p, S) \<in> choices_of evs" "request_for p S rq" by (auto simp: fine_request_def)
  from ps(1) obtain env e where e: "(env, e) \<in> set evs" "choice_of (env, e) = Some (p, S)" by (auto simp: choices_of_def)
  then show ?thesis using ps(2) by (cases e) auto
qed

theorem files_go_to_the_pinned_peer_witness:
  "\<exists>rq env device paths. rq \<in> set (sd_posted (sd_run sent_begin sent_new)) \<and> (env, SendFiles device paths) \<in> set sent_begin
     \<and> request_for (peer_of device) (set (map (localPathOf (n_sys env)) paths)) rq"
proof -
  have "length (sd_posted (sd_run sent_begin sent_new)) = 2" using sent_midway by (simp add: sent_seen_def)
  then obtain rq where "rq \<in> set (sd_posted (sd_run sent_begin sent_new))" by (cases "sd_posted (sd_run sent_begin sent_new)") auto
  with files_go_to_the_pinned_peer [OF sent_polite [unfolded sent_new_def]] show ?thesis unfolding sent_new_def by blast
qed

text \<open>The peer answers, once for each entry of the list, whatever request is awaited.\<close>

fun answer_awaited :: "(send_env \<times> reply) list \<Rightarrow> SendService \<Rightarrow> SendService" where
  "answer_awaited [] s = s"
| "answer_awaited ((env, rp) # answers) s =
     answer_awaited answers (case sd_reply s of None \<Rightarrow> s | Some k \<Rightarrow> sd_step env (ReplyDone k rp) s)"

lemma answer_ended: "ended A s \<Longrightarrow> answer_awaited answers s = s"
  by (induction answers s rule: answer_awaited.induct) (simp_all add: ended_def unattended_def)

lemma answers_end:
  assumes "attended A s k rq (OnUpload (int j))" "waiting_rows s < length answers"
  shows "ended A (answer_awaited answers s) \<and> uploads (answer_awaited answers s) \<le> uploads s + waiting_rows s"
  using assms
proof (induction answers arbitrary: s k rq j)
  case (Cons x answers)
  obtain env rp where x: "x = (env, rp)" by (cases x)
  let ?t = "sd_step env (ReplyDone k rp) s"
  have step: "answer_awaited (x # answers) s = answer_awaited answers ?t"
    using attendedD(1) [OF Cons.prems(1)] unfolding x by simp
  have t: "served A s ?t" using reply_awaited(2) [OF Cons.prems(1)] by simp
  show ?case
  proof (cases "ended A ?t")
    case True
    then show ?thesis using t answer_ended [OF True, of answers] unfolding step by (simp add: served_def)
  next
    case False
    then obtain k' rq' i where "attended A ?t k' rq' (OnUpload (int i))" "waiting_rows ?t < waiting_rows s"
      using t unfolding served_def by blast
    with Cons.IH [OF this(1)] Cons.prems(2) t show ?thesis unfolding step served_def by auto
  qed
qed simp

text \<open>Request \<open>rq\<close> uploads row \<open>j\<close> of \<open>s\<close>.\<close>

definition uploads_row :: "SendService \<Rightarrow> nat \<Rightarrow> request \<Rightarrow> bool" where
  "uploads_row s j rq \<longleftrightarrow> j < length (sd_files s) \<and> rq_body rq = FileBody (localPath (sd_files s ! j))
     \<and> (''fileId'', fe_id (sd_files s ! j)) \<in> set (rq_query rq)"

lemma uploads_row_same: "same_files s t \<Longrightarrow> uploads_row t j rq = uploads_row s j rq"
  by (auto simp: uploads_row_def same_files_def same_file_def list_all2_conv_all_nth)

text \<open>Nothing was posted, or the upload of one later row.\<close>

definition one_later :: "SendService \<Rightarrow> SendService \<Rightarrow> bool" where
  "one_later s t \<longleftrightarrow> sd_posted t = sd_posted s \<and> sd_reply t = None
     \<or> (\<exists>j rq. sd_posted t = sd_posted s @ [rq] \<and> sd_reply t \<noteq> None \<and> sd_currentRow t = int j \<and> sd_currentRow s < int j
          \<and> uploads_row s j rq)"

lemma one_later_after:
  assumes "one_later t u" "same_files s t" "sd_posted t = sd_posted s" "sd_currentRow s \<le> sd_currentRow t"
  shows "one_later s u"
  using assms uploads_row_same [OF assms(2)] by (fastforce simp: one_later_def)

lemma one_later_nothing: "sd_posted t = sd_posted s \<Longrightarrow> sd_reply t = None \<Longrightarrow> one_later s t"
  by (simp add: one_later_def)

lemma completeTransfer_quiet: "sd_posted (completeTransfer env s) = sd_posted s" "sd_reply (completeTransfer env s) = sd_reply s"
proof -
  have "sd_posted (writeHistory env t) = sd_posted t" "sd_reply (writeHistory env t) = sd_reply t" for t
    by (simp_all add: writeHistory_def Let_def split: prod.split)
  then show "sd_posted (completeTransfer env s) = sd_posted s" "sd_reply (completeTransfer env s) = sd_reply s"
    by (simp_all add: completeTransfer_def Let_def sd_emit_def sd_state_def on_tm_def)
qed

lemma one_later_upload:
  assumes "row < length (sd_files s)" "sd_currentRow s = int row" "sd_currentRow r < int row" "same_files r s" "sd_posted s = sd_posted r"
  shows "one_later r (upload_row env (int row) s)"
proof -
  have "uploads_row s row rq" if "rq_body rq = FileBody (localPath (sd_files s ! row))" "(''fileId'', fe_id (sd_files s ! row)) \<in> set (rq_query rq)" for rq
    using that assms(1) by (simp add: uploads_row_def)
  then show ?thesis
    using assms unfolding one_later_def uploads_row_same [OF assms(4), symmetric]
    by (auto simp: upload_row_def Let_def post_def upload_request_def sd_status_def on_tm_def files_status [unfolded sd_status_def on_tm_def])
qed

lemma startNextFile_one_later: "sd_reply s = None \<Longrightarrow> one_later s (startNextFile env s)"
proof (induction env s rule: startNextFile.induct)
  case (1 env s0)
  define s where "s = closeCurrentFile s0"
  define row where "row = next_row (sd_files s) (nat (sd_currentRow s + 1))"
  define s1 where "s1 = s\<lparr>sd_currentRow := int row\<rparr>"
  let ?t = "sd_status env (int row) FileFailed (n_tr env ''Could not open the file'' []) s1"
  have eq: "startNextFile env s0 = (if sd_cancelled s then s else if row \<ge> length (sd_files s) then completeTransfer env s
      else if \<not> n_open env (localPath (sd_files s1 ! row)) then startNextFile env ?t else upload_row env (int row) s1)"
    by (subst startNextFile.simps) (simp add: Let_def flip: s_def row_def s1_def)
  have s: "sd_posted s = sd_posted s0" "sd_reply s = None" "sd_files s1 = sd_files s0" "sd_posted s1 = sd_posted s0" "sd_currentRow s = sd_currentRow s0"
    using "1.prems" by (simp_all add: s_def s1_def closeCurrentFile_def sd_files_def)
  have later: "sd_currentRow s0 < int row" using next_row_ge [of "nat (sd_currentRow s + 1)" "sd_files s"] s(5) by (simp add: row_def)
  have same: "same_files s0 s1" "same_files s0 ?t"
    using same_files_status [of s1] s(3) by (simp_all add: same_files_def list_all2_same)
  have t: "sd_posted ?t = sd_posted s0" "sd_reply ?t = None" "sd_currentRow ?t = int row"
    using s by (simp_all add: s1_def sd_status_def on_tm_def)
  have "one_later s0 (startNextFile env ?t)" if "\<not> sd_cancelled s" "\<not> row \<ge> length (sd_files s)" "\<not> n_open env (localPath (sd_files s1 ! row))"
    using "1.IH" [OF s_def that(1) row_def that(2) s1_def that(3) t(2)] one_later_after same(2) t later by simp
  moreover have "one_later s0 (upload_row env (int row) s1)" if "\<not> row \<ge> length (sd_files s)"
    by (rule one_later_upload) (use that s later same in \<open>simp_all add: s1_def\<close>)
  moreover have "one_later s0 s" "one_later s0 (completeTransfer env s)"
    using s completeTransfer_quiet by (simp_all add: one_later_nothing)
  ultimately show ?case unfolding eq by auto
qed

lemma failTransfer_quiet: "sd_posted (failTransfer env m s) = sd_posted s" "sd_reply (failTransfer env m s) = sd_reply s"
proof -
  have w: "sd_posted (writeHistory env t) = sd_posted t" "sd_reply (writeHistory env t) = sd_reply t" for t
    by (simp_all add: writeHistory_def Let_def split: prod.split)
  have "sd_posted (fold (skip_waiting env which) js t) = sd_posted t \<and> sd_reply (fold (skip_waiting env which) js t) = sd_reply t" for which js t
    by (induction js arbitrary: t) (simp_all add: skip_waiting_def sd_status_def on_tm_def)
  then show "sd_posted (failTransfer env m s) = sd_posted s" "sd_reply (failTransfer env m s) = sd_reply s"
    by (simp_all add: failTransfer_def Let_def sd_emit_def sd_state_def on_tm_def w closeCurrentFile_def)
qed

lemma answer_one_later:
  assumes "attended A s k rq (OnUpload (int j))"
  shows "one_later s (sd_step env (ReplyDone k rp) s)"
proof -
  note d = attendedD [OF assms]
  define s1 where "s1 = s\<lparr>sd_inFlight := AList.delete k (sd_inFlight s), sd_reply := None\<rparr>"
  have same: "same_files s (sd_status env row st err s1)" for row st err
    using same_files_status [of s1] by (simp add: same_files_def s1_def sd_files_def)
  have set: "sd_posted (sd_status env row st err s1) = sd_posted s" "sd_reply (sd_status env row st err s1) = None"
    "sd_currentRow (sd_status env row st err s1) = sd_currentRow s" for row st err
    by (simp_all add: s1_def sd_status_def on_tm_def)
  have "one_later s (startNextFile env (sd_status env row st err s1))" for row st err
    by (rule one_later_after [OF startNextFile_one_later [OF set(2)] same set(1)]) (simp add: set, simp add: s1_def)
  moreover have "one_later s (failTransfer env m (sd_status env row st err s1))" for row st err m
    by (rule one_later_nothing) (simp_all add: failTransfer_quiet set, simp_all add: s1_def)
  moreover have "\<not> sd_cancelled s1" using d by (simp add: s1_def)
  ultimately show ?thesis using d by (simp add: on_finished_def onUploadFinished_def Let_def flip: s1_def)
qed

text \<open>What a run of answers uploads: rows further and further down the list.\<close>

lemma answers_upload_rows:
  assumes "attended A s k rq (OnUpload (int j))"
  shows "\<exists>js rqs. sd_posted (answer_awaited answers s) = sd_posted s @ rqs \<and> list_all2 (uploads_row s) js rqs \<and> sorted_wrt (<) (j # js)"
  using assms
proof (induction answers arbitrary: s k rq j)
  case (Cons x answers)
  obtain env rp where x: "x = (env, rp)" by (cases x)
  let ?t = "sd_step env (ReplyDone k rp) s"
  have step: "answer_awaited (x # answers) s = answer_awaited answers ?t"
    using attendedD(1) [OF Cons.prems] unfolding x by simp
  have t: "served A s ?t" using reply_awaited(2) [OF Cons.prems] by simp
  have row: "sd_currentRow s = int j" using Cons.prems by (auto simp: attended_def uploading_def)
  show ?case
  proof (cases "sd_reply ?t")
    case None
    then have "answer_awaited answers ?t = ?t" by (induction answers) auto
    moreover have "sd_posted ?t = sd_posted s" using answer_one_later [OF Cons.prems, of env rp] None by (auto simp: one_later_def)
    ultimately show ?thesis unfolding step by (intro exI [of _ "[]"]) simp
  next
    case (Some k')
    then obtain i rq' where one: "sd_posted ?t = sd_posted s @ [rq']" "sd_currentRow ?t = int i" "j < i" "uploads_row s i rq'"
      using answer_one_later [OF Cons.prems, of env rp] row by (auto simp: one_later_def)
    have "\<not> ended A ?t" using Some by (simp add: ended_def unattended_def)
    then obtain k'' rq'' i' where a: "attended A ?t k'' rq'' (OnUpload (int i'))" using t by (auto simp: served_def)
    then have i: "i' = i" using one(2) by (auto simp: attended_def uploading_def)
    obtain js rqs where ih: "sd_posted (answer_awaited answers ?t) = sd_posted ?t @ rqs" "list_all2 (uploads_row ?t) js rqs" "sorted_wrt (<) (i' # js)"
      using Cons.IH [OF a] by blast
    have "same_files s ?t" using t unfolding served_def by (rule conjunct1)
    then have "uploads_row ?t = uploads_row s" by (intro ext) (rule uploads_row_same)
    with ih(2) one(4) have "list_all2 (uploads_row s) (i # js) (rq' # rqs)" by simp
    moreover have "sorted_wrt (<) (j # i # js)" using ih(3) one(3) unfolding i by fastforce
    moreover have "sd_posted (answer_awaited answers ?t) = sd_posted s @ rq' # rqs" using ih(1) one(1) by simp
    ultimately show ?thesis unfolding step by blast
  qed
qed (auto intro!: exI [of _ "[]"])

text \<open>
  C7. The uploads come to an end, and no file goes out twice: once the upload of a row is under way, as many
  further answers as there are waiting files, and one more, end the transfer, whatever the answers are
  and whichever files cannot be opened; and what is posted until then are the uploads of rows each
  further down the list than the one before, the row under way being the first.
\<close>

theorem uploads_end:
  assumes "polite evs (new_SendService st r)" and "s = sd_run evs (new_SendService st r)"
    and "sd_reply s = Some k" and "map_of (sd_inFlight s) k = Some (rq, OnUpload row)" and "waiting_rows s < length answers"
  shows "\<not> sd_busy (answer_awaited answers s) \<and> sd_reply (answer_awaited answers s) = None
    \<and> no_row_moving (answer_awaited answers s) \<and> uploads (answer_awaited answers s) \<le> uploads s + waiting_rows s
    \<and> (\<exists>js rqs. sd_posted (answer_awaited answers s) = sd_posted s @ rqs \<and> list_all2 (uploads_row s) js rqs
         \<and> sorted_wrt (<) (nat row # js))"
proof -
  have "send_inv (choices_of evs) s" unfolding assms(2) by (rule send_inv_reached [OF assms(1)])
  then have a: "attended (choices_of evs) s k rq (OnUpload row)" by (rule send_inv_flight) (use assms in simp_all)
  moreover obtain j where j: "row = int j" using a by (auto simp: attended_def)
  moreover have "\<exists>js rqs. sd_posted (answer_awaited answers s) = sd_posted s @ rqs \<and> list_all2 (uploads_row s) js rqs
      \<and> sorted_wrt (<) (nat row # js)"
    using answers_upload_rows [OF a [unfolded j]] unfolding j nat_int .
  ultimately show ?thesis using answers_end [of "choices_of evs" s k rq j answers] assms(5)
    by (simp add: ended_def unattended_def)
qed

theorem uploads_end_witness:
  "\<not> sd_busy (answer_awaited [(sent_env, ok_reply), (sent_env, ok_reply)] (sd_run sent_begin sent_new))"
proof -
  let ?s = "sd_run sent_begin sent_new"
  have "sd_reply ?s = Some 1" using sent_midway by (simp add: sent_seen_def)
  moreover have "\<exists>rq. map_of (sd_inFlight ?s) 1 = Some (rq, OnUpload 0)" using sent_midway by (auto simp: sent_seen_def)
  moreover have "waiting_rows ?s < length [(sent_env, ok_reply), (sent_env, ok_reply)]"
  proof -
    have "map fe_status (sd_files ?s) = [FileTransferring, FileWaiting]"
      using arg_cong [OF sent_midway, of "\<lambda>x. map fst (fst x)"] by (simp add: sent_seen_def comp_def)
    then have "length (filter (\<lambda>x. x = FileWaiting) (map fe_status (sd_files ?s))) = 1" by simp
    then show ?thesis by (simp add: waiting_rows_def filter_map comp_def)
  qed
  ultimately show ?thesis using uploads_end [OF sent_polite [unfolded sent_new_def] refl] unfolding sent_new_def by blast
qed

end
