(* ===== verification/Send_Done.thy ===== *)
theory Send_Done
  imports Send_Claims
begin

text \<open>A row is shown as done only by a successful answer to its own upload.\<close>

definition dones :: "SendService \<Rightarrow> nat set" where
  "dones s = {i. i < length (sd_files s) \<and> fe_status (sd_files s ! i) = FileDone}"

lemma dones_eq: "sd_files t = sd_files s \<Longrightarrow> dones t = dones s"
  by (simp add: dones_def)

lemma dones_status: "dones (sd_status env row st err s) \<subseteq> insert (nat row) (dones s)"
  "st \<noteq> FileDone \<Longrightarrow> dones (sd_status env row st err s) \<subseteq> dones s"
  by (auto simp: dones_def files_status nth_list_update split: if_splits)

lemma dones_skip: "dones (fold (skip_waiting env which) rows s) \<subseteq> dones s"
proof (induction rows arbitrary: s)
  case (Cons r rows)
  have "dones (skip_waiting env which r s) \<subseteq> dones s" using dones_status(2) [of FileSkipped env "int r" "[]" s] by (simp add: skip_waiting_def)
  with Cons.IH [of "skip_waiting env which r s"] show ?case by simp
qed simp

lemma dones_ends: "dones (completeTransfer env s) = dones s" "dones (nothing_to_send env s) = dones s"
  "dones (failTransfer env msg s) \<subseteq> dones s"
  using dones_skip [of env "{FileWaiting}" "[0..<length (sd_files s)]" "closeCurrentFile s"] by (simp_all add: dones_def)

lemma dones_closed: "dones (closeCurrentFile s) = dones s" "dones (s\<lparr>sd_currentRow := row\<rparr>) = dones s"
  by (simp_all add: dones_def)

lemma dones_upload_row: "dones (upload_row env row s) \<subseteq> dones s"
proof -
  define s1 where "s1 = sd_status env row FileTransferring [] (s\<lparr>sd_currentFile := Some (localPath (sd_files s ! nat row))\<rparr>)"
  have "dones s1 \<subseteq> dones s" unfolding s1_def
    using dones_status(2) [of FileTransferring env row "[]" "s\<lparr>sd_currentFile := Some (localPath (sd_files s ! nat row))\<rparr>"]
    by (simp add: dones_def)
  moreover have "sd_files (upload_row env row s) = sd_files s1" by (simp add: upload_row_def Let_def case_prod_unfold s1_def)
  ultimately show ?thesis using dones_eq by blast
qed

lemma dones_startNextFile: "dones (startNextFile env s) \<subseteq> dones s"
proof (induction env s rule: startNextFile.induct)
  case (1 env s0)
  define s where "s = closeCurrentFile s0"
  define row where "row = next_row (sd_files s) (nat (sd_currentRow s + 1))"
  define s1 where "s1 = s\<lparr>sd_currentRow := int row\<rparr>"
  let ?t = "sd_status env (int row) FileFailed (n_tr env ''Could not open the file'' []) s1"
  have s: "dones s = dones s0" "dones s1 = dones s0" by (simp_all add: s_def s1_def dones_closed)
  have t: "dones ?t \<subseteq> dones s0" using dones_status(2) [of FileFailed env "int row" "n_tr env ''Could not open the file'' []" s1] s by simp
  note ih = "1.IH" [OF s_def _ row_def _ s1_def]
  show ?case
    by (subst startNextFile.simps)
      (use s t ih dones_upload_row [of env "int row" s1] dones_ends(1) [of env s] in
        \<open>auto simp: Let_def simp flip: s_def row_def s1_def\<close>)
qed

lemma dones_note: "dones (fst (fold (note_token env tokens) rows sn)) \<subseteq> dones (fst sn)"
proof (induction rows arbitrary: sn)
  case (Cons r rows)
  have "dones (on_tm (setFileToken (int r) t) s) \<subseteq> dones s" for t s
    by (auto simp: dones_def files_token nth_list_update split: if_splits)
  then have "dones (fst (note_token env tokens r sn)) \<subseteq> dones (fst sn)"
    using dones_status(2) [of FileSkipped env "int r" "[]" "fst sn"] by (cases sn) (simp add: note_token_def Let_def)
  with Cons.IH [of "note_token env tokens r sn"] show ?case by simp
qed simp

lemma dones_onAccepted: "dones (onAccepted env rp s) \<subseteq> dones s"
proof (cases "\<exists>response. j_parse (n_net env) (rp_body rp) = Some (JObject response)")
  case False
  then show ?thesis using dones_ends(3) by (auto simp: onAccepted_def Let_def split: option.split json.split)
next
  case True
  then obtain response where resp: "j_parse (n_net env) (rp_body rp) = Some (JObject response)" ..
  define s1 where "s1 = s\<lparr>sd_sessionId := to_string (jvalue response ''sessionId'')\<rparr>"
  define tokens where "tokens = to_object (jvalue response ''files'')"
  obtain s2 accepted where f: "fold (note_token env tokens) [0..<length (sd_files s1)] (s1, 0) = (s2, accepted)" by fastforce
  have s1: "dones s1 = dones s" by (simp add: s1_def dones_def)
  have s2: "dones s2 \<subseteq> dones s" using dones_note [of env tokens "[0..<length (sd_files s1)]" "(s1, 0)"] by (simp add: f s1)
  let ?t = "(sd_state env Active [] s2)\<lparr>sd_currentRow := -1\<rparr>"
  have t: "dones ?t = dones s2" by (simp add: dones_def)
  show ?thesis
    using dones_startNextFile [of env ?t] dones_ends(2) [of env s2] dones_ends(3) [of env _ s1] s1 s2 t
    by (auto simp: onAccepted_def Let_def resp f simp flip: s1_def tokens_def)
qed

lemma dones_other:
  "dones (sd_emit x s) = dones s" "dones (sd_state env st err s) = dones s" "dones (s\<lparr>sd_busy := b\<rparr>) = dones s"
  "dones (s\<lparr>sd_reply := r\<rparr>) = dones s" "dones (s\<lparr>sd_inFlight := fl\<rparr>) = dones s" "dones (s\<lparr>sd_cancelled := b\<rparr>) = dones s"
  by (simp_all add: dones_def)

lemma dones_onPrepare: "dones (onPrepareFinished env k rp s) \<subseteq> dones s"
proof -
  define t where "t = (if sd_reply s = Some k then s\<lparr>sd_reply := None\<rparr> else s)"
  have "dones t = dones s" by (simp add: t_def dones_other)
  moreover have "dones (onPrepareFinished env k rp s) \<subseteq> dones t"
    unfolding onPrepareFinished_def Let_def t_def [symmetric]
    using dones_onAccepted [of env rp t] dones_ends(3) [of env _ t] by (simp add: dones_other dones_ends(2))
  ultimately show ?thesis by simp
qed

text \<open>A row that becomes done when an upload finishes is the current one, and the answer says so.\<close>

lemma dones_onUpload:
  assumes "i \<in> dones (onUploadFinished env k rp s)" "i \<notin> dones s"
  shows "\<not> rp_error rp \<and> 200 \<le> rp_status rp \<and> rp_status rp < 300 \<and> i = nat (sd_currentRow s)"
proof -
  define t where "t = (if sd_reply s = Some k then s\<lparr>sd_reply := None\<rparr> else s)"
  have t: "dones t = dones s" "sd_currentRow t = sd_currentRow s" by (simp_all add: t_def dones_other)
  define ok where "ok \<longleftrightarrow> \<not> rp_error rp \<and> 200 \<le> rp_status rp \<and> rp_status rp < 300"
  define done_now where "done_now = startNextFile env (sd_status env (sd_currentRow t) FileDone [] t)"
  have quiet: "dones (startNextFile env (sd_status env row FileFailed err t)) \<subseteq> dones s"
      "dones (failTransfer env msg (sd_status env row FileFailed err t)) \<subseteq> dones s" for row err msg
    using subset_trans [OF dones_startNextFile dones_status(2) [of FileFailed env row err t]]
      subset_trans [OF dones_ends(3) dones_status(2) [of FileFailed env row err t]] t(1) by simp_all
  have "i \<in> dones (if sd_cancelled t then t else if ok then done_now
      else if rp_status rp = 409 then failTransfer env (n_tr env ''%1 stopped the transfer'' [dev_alias (sd_peer t)])
                  (sd_status env (sd_currentRow t) FileFailed (n_tr env ''The transfer was stopped'' []) t)
      else startNextFile env (sd_status env (sd_currentRow t) FileFailed (rp_errorString rp) t))"
    using assms(1) unfolding onUploadFinished_def Let_def t_def [symmetric] ok_def done_now_def .
  then have "ok \<and> i \<in> dones done_now" using assms(2) t(1) subsetD [OF quiet(1)] subsetD [OF quiet(2)] by (auto split: if_splits)
  moreover have "dones done_now \<subseteq> insert (nat (sd_currentRow s)) (dones s)"
    using subset_trans [OF dones_startNextFile dones_status(1) [of env "sd_currentRow t" FileDone "[]" t]] t by (simp add: done_now_def)
  ultimately show ?thesis using assms(2) unfolding ok_def by blast
qed

lemma files_requestUpload [simp]: "sd_files (requestUpload pin s) = sd_files s"
  by (simp add: requestUpload_def case_prod_unfold)

lemma dones_sendFiles: "dones (sendFiles env device paths s) \<subseteq> dones s"
proof -
  obtain entries r where mk: "make_entries env 0 paths (sd_rng s) = (entries, r)" by fastforce
  have fresh: "dones t = {}" if "sd_files t = entries" for t
  proof -
    have "fe_status (entries ! i) = FileWaiting" if "i < length entries" for i
      using make_entries_rows [of "entries ! i" env 0 paths "sd_rng s"] that mk by simp
    then show ?thesis by (simp add: dones_def that)
  qed
  have none: "dones t = {}" if "sd_files t = []" for t using that by (simp add: dones_def)
  show ?thesis unfolding sendFiles_def Let_def mk prod.case by (auto simp: fresh none) (auto simp: dones_def)
qed

lemma dones_cancel: "dones (sd_cancel env s) \<subseteq> dones s"
proof (cases "sd_busy s")
  case True
  have quiet: "dones (on_finished env k slot aborted_reply t) = dones t" if "sd_cancelled t" for k slot t
    using that by (cases slot) (simp_all add: on_finished_def onPrepareFinished_def onUploadFinished_def Let_def dones_other)
  define s1 where "s1 = sd_notifyPeer (closeCurrentFile (abort_reply env (s\<lparr>sd_cancelled := True\<rparr>)))"
  define s2 where "s2 = sd_state env Cancelled [] (fold (skip_waiting env {FileWaiting, FileTransferring}) [0..<length (sd_files s1)] s1)"
  have "dones (abort_reply env (s\<lparr>sd_cancelled := True\<rparr>)) = dones s"
    by (auto simp: abort_reply_def quiet dones_other split: option.split)
  then have "dones s1 = dones s" by (simp add: dones_def sd_notifyPeer_def s1_def)
  then have "dones s2 \<subseteq> dones s" using dones_skip [of env _ _ s1] by (simp add: s2_def dones_other)
  moreover have "sd_files (sd_cancel env s) = sd_files s2" using True by (simp add: sd_cancel_def Let_def s2_def s1_def)
  ultimately show ?thesis using dones_eq by blast
qed (simp add: sd_cancel_def)

lemma dones_progress: "dones (on_tm (setFileTransferred row n) s) = dones s"
  using rows_seen_nth [OF rows_transferred [of row n s]] by (auto simp: dones_def)

lemma polite_append: "polite (xs @ ys) t \<longleftrightarrow> polite xs t \<and> polite ys (sd_run xs t)"
  by (induction xs t rule: polite.induct) (simp_all add: sd_run_def)

text \<open>
  C2. A file is shown as sent only on the word of the peer that was to get it: a row becomes done in no step but the
  answer to the upload of exactly this row, whose body was exactly this file, with a status of 2xx
  and no error, over a connection that was let through (certificate verified or matching the
  pinned fingerprint) or never asked for TLS.
\<close>

theorem only_confirmed_files_done:
  assumes "polite (evs @ [(env, e)]) (new_SendService st r)" and "s = sd_run evs (new_SendService st r)"
    and "i \<in> dones (sd_step env e s)" and "i \<notin> dones s"
  shows "\<exists>k rp rq. e = ReplyDone k rp \<and> map_of (sd_inFlight s) k = Some (rq, OnUpload (int i))
    \<and> rq_body rq = FileBody (localPath (sd_files s ! i)) \<and> \<not> rp_error rp \<and> 200 \<le> rp_status rp \<and> rp_status rp < 300
    \<and> goes_out (n_lib env) rq rp"
proof -
  have inv: "send_inv (choices_of evs) s" unfolding assms(2) using send_inv_reached assms(1) polite_append by blast
  have no: False if "dones (sd_step env e s) \<subseteq> dones s" using that assms(3,4) by blast
  show ?thesis
  proof (cases e)
    case (ReplyDone k rp)
    show ?thesis
    proof (cases "map_of (sd_inFlight s) k")
      case None
      then show ?thesis using no ReplyDone by simp
    next
      case (Some c)
      then obtain rq slot where c: "map_of (sd_inFlight s) k = Some (rq, slot)" by (cases c) simp
      define t where "t = s\<lparr>sd_inFlight := AList.delete k (sd_inFlight s)\<rparr>"
      define rp' where "rp' = answered (n_lib env) rq rp"
      have step: "sd_step env e s = on_finished env k slot rp' t" by (simp add: ReplyDone c t_def rp'_def)
      have t: "dones t = dones s" by (simp add: t_def dones_other)
      have "slot \<noteq> OnNotice" "slot \<noteq> OnPrepare" using no step t dones_onPrepare [of env k rp' t] by (auto simp: on_finished_def)
      then obtain j where a: "attended (choices_of evs) s k rq (OnUpload (int j))" "slot = OnUpload (int j)"
        using send_inv_flight [OF inv c] by (auto simp: attended_def)
      have j: "sd_currentRow t = int j" "rq_body rq = FileBody (localPath (sd_files s ! j))"
        using a(1) by (auto simp: attended_def uploading_def t_def)
      have "i \<in> dones (onUploadFinished env k rp' t)" using assms(3) step a(2) by (simp add: on_finished_def)
      from dones_onUpload [OF this] assms(4) t j(1)
      have ok: "\<not> rp_error rp'" "200 \<le> rp_status rp'" "rp_status rp' < 300" "i = j" by auto
      moreover have "goes_out (n_lib env) rq rp \<and> rp' = rp" unfolding rp'_def by (rule answered_status) (use ok in \<open>simp add: rp'_def\<close>)
      ultimately show ?thesis using c a(2) j(2) ReplyDone by auto
    qed
  next
    case (Progress k n)
    have "dones (sd_step env e s) = dones s" by (auto simp: Progress dones_progress split: option.split prod.split reply_slot.split)
    then show ?thesis using no by simp
  next
    case (SendFiles device paths)
    then show ?thesis using no dones_sendFiles by simp
  next
    case SendCancel
    then show ?thesis using no dones_cancel by simp
  next
    case (SubmitPin pin)
    have "sd_files (sd_step env e s) = sd_files s" by (simp add: SubmitPin submitPin_def)
    then show ?thesis using no dones_eq by blast
  qed (use no in \<open>simp_all add: dones_def\<close>)
qed

lemma sent_confirmed: "map fe_status (sd_files (sd_step sent_env (ReplyDone 1 ok_reply) (sd_run sent_begin sent_new))) = [FileDone, FileTransferring]"
  by code_simp

theorem only_confirmed_files_done_witness:
  "\<exists>k rp rq. ReplyDone 1 ok_reply = ReplyDone k rp \<and> map_of (sd_inFlight (sd_run sent_begin sent_new)) k = Some (rq, OnUpload (int 0))
     \<and> goes_out (n_lib sent_env) rq rp"
proof -
  let ?s = "sd_run sent_begin sent_new" and ?t = "sd_step sent_env (ReplyDone 1 ok_reply) (sd_run sent_begin sent_new)"
  have "polite (sent_begin @ [(sent_env, ReplyDone 1 ok_reply)]) (new_SendService sent_settings sent_rng)"
    using sent_polite by (simp add: polite_append sent_new_def)
  moreover have "0 \<in> dones ?t"
  proof -
    have "length (sd_files ?t) = 2" using arg_cong [OF sent_confirmed, of length] by simp
    moreover have "fe_status (sd_files ?t ! 0) = FileDone"
      using arg_cong [OF sent_confirmed, of "\<lambda>xs. xs ! 0"] calculation by simp
    ultimately show ?thesis by (simp add: dones_def)
  qed
  moreover have "0 \<notin> dones ?s"
  proof -
    have "map fe_status (sd_files ?s) = [FileTransferring, FileWaiting]"
      using arg_cong [OF sent_midway, of "\<lambda>x. map fst (fst x)"] by (simp add: sent_seen_def comp_def)
    then show ?thesis by (auto simp: dones_def map_eq_Cons_conv)
  qed
  ultimately show ?thesis using only_confirmed_files_done [of sent_begin sent_env "ReplyDone 1 ok_reply" sent_settings sent_rng ?s 0]
    unfolding sent_new_def by blast
qed

end
