(* ===== verification/Discovery.thy ===== *)
theory Discovery
  imports Http_Client App_Settings Device_Model
begin

text \<open>
  \<open>src/src/discovery.cpp\<close>: announcements over multicast, the answers to them, registration over HTTP
  and the sweep of the subnet. Replies live in a table by number with the slot that is connected to
  their \<open>finished\<close>. \<open>dc_posted\<close>, \<open>dc_sent\<close> and \<open>dc_answered\<close> log what was posted, what was
  written to the socket and whom \<open>respondTo\<close> answered when.
\<close>

section \<open>State\<close>

definition DeviceMaxAgeSeconds :: int where "DeviceMaxAgeSeconds = 70"
definition ScanWindow :: int where "ScanWindow = 24"
definition ResponseCooldownMs :: int where "ResponseCooldownMs = 10 * 1000"
definition MaxTrackedResponders :: nat where "MaxTrackedResponders = 256"
definition MaxDatagramsPerPass :: nat where "MaxDatagramsPerPass = 32"

datatype dc_signal =
  RunningChanged | ScanningChanged | ManualLookupChanged | ManualLookupFinished bool qstring qstring | PeerAppeared qstring

datatype dc_slot = OnRegister | OnRefreshed | OnManual | OnScan

text \<open>A datagram to the group over an interface (\<open>None\<close>: the default one) or back to a peer.\<close>

datatype sent_datagram = ToGroup "int option" jobject | ToPeer qstring jobject

record Discovery =
  dc_settings :: AppSettings
  dc_devices :: DeviceModel
  dc_socket :: bool
  dc_announceTimer :: bool
  dc_running :: bool
  dc_joinedInterfaces :: "int list"
  dc_lastResponse :: "(qstring, int) qhash"
  dc_scanQueue :: "qstring list"
  dc_scanTotal :: int
  dc_scanDone :: int
  dc_scanInFlight :: int
  dc_scanning :: bool
  dc_manualEndpoint :: qstring
  dc_manualAlias :: qstring
  dc_manualPending :: int
  dc_manualFound :: bool
  dc_pending :: "(bytes option \<times> qstring) list"
  dc_inFlight :: "(nat, request \<times> dc_slot) qhash"
  dc_nextReply :: nat
  dc_posted :: "(request \<times> dc_slot) list"
  dc_sent :: "sent_datagram list"
  dc_answered :: "(qstring \<times> int) list"
  dc_signals :: "dc_signal list"

text \<open>What \<open>QNetworkInterface\<close> says of an interface: up, running, multicast, loopback.\<close>

record iface =
  if_index :: int
  if_up :: bool
  if_running :: bool
  if_multicast :: bool
  if_loopback :: bool

text \<open>
  \<open>QUrl\<close>: the text of scheme, host, port and path, and the parts of a text (the port with its
  default).
\<close>

record urllib =
  url_make :: "qstring \<Rightarrow> qstring \<Rightarrow> int \<Rightarrow> qstring \<Rightarrow> qstring"
  url_scheme :: "qstring \<Rightarrow> qstring"
  url_host :: "qstring \<Rightarrow> qstring"
  url_port :: "qstring \<Rightarrow> int \<Rightarrow> int"

record disc_env =
  v_lib :: qtlib
  v_net :: netlib
  v_url :: urllib
  v_now :: int
  v_wall :: int
  v_known :: "KnownDevices option"
  v_bind :: bool
  v_interfaces :: "iface list"
  v_joins :: "int \<Rightarrow> bool"
  v_writes :: "int \<Rightarrow> bool"
  v_addresses :: "(bool \<times> bool \<times> qstring) list"

definition new_Discovery :: "AppSettings \<Rightarrow> DeviceModel \<Rightarrow> Discovery" where
  "new_Discovery st dm = \<lparr>dc_settings = st, dc_devices = dm, dc_socket = False, dc_announceTimer = False, dc_running = False,
     dc_joinedInterfaces = [], dc_lastResponse = [], dc_scanQueue = [], dc_scanTotal = 0, dc_scanDone = 0, dc_scanInFlight = 0,
     dc_scanning = False, dc_manualEndpoint = [], dc_manualAlias = [], dc_manualPending = 0, dc_manualFound = False,
     dc_pending = [], dc_inFlight = [], dc_nextReply = 0, dc_posted = [], dc_sent = [], dc_answered = [], dc_signals = []\<rparr>"

definition dc_emit :: "dc_signal \<Rightarrow> Discovery \<Rightarrow> Discovery" where
  "dc_emit x s = s\<lparr>dc_signals := dc_signals s @ [x]\<rparr>"

section \<open>Readers\<close>

definition multicastReady :: "Discovery \<Rightarrow> bool" where
  "multicastReady s \<longleftrightarrow> dc_running s \<and> dc_joinedInterfaces s \<noteq> []"

definition scanProgress :: "Discovery \<Rightarrow> int" where
  "scanProgress s = (if \<not> dc_scanning s \<or> dc_scanTotal s \<le> 0 then 0 else dc_scanDone s * 100 div dc_scanTotal s)"

definition localAddresses :: "disc_env \<Rightarrow> qstring list" where
  "localAddresses env = map (\<lambda>(v4, loopback, text). text) (filter (\<lambda>(v4, loopback, text). v4 \<and> \<not> loopback) (v_addresses env))"

definition localAddress :: "disc_env \<Rightarrow> qstring" where
  "localAddress env = (case localAddresses env of [] \<Rightarrow> [] | a # _ \<Rightarrow> a)"

section \<open>Announcing\<close>

definition record_sent :: "sent_datagram \<Rightarrow> Discovery \<Rightarrow> Discovery" where
  "record_sent d s = s\<lparr>dc_sent := dc_sent s @ [d]\<rparr>"

definition join_one :: "disc_env \<Rightarrow> iface \<Rightarrow> Discovery \<Rightarrow> Discovery" where
  "join_one env i s =
     (if \<not> if_up i \<or> \<not> if_running i \<or> \<not> if_multicast i \<or> if_loopback i then s
      else if if_index i \<in> set (dc_joinedInterfaces s) then s
      else if v_joins env (if_index i) then s\<lparr>dc_joinedInterfaces := dc_joinedInterfaces s @ [if_index i]\<rparr> else s)"

definition joinGroups :: "disc_env \<Rightarrow> Discovery \<Rightarrow> Discovery" where
  "joinGroups env s = (if \<not> dc_socket s then s else fold (join_one env) (v_interfaces env) s)"

definition send_one :: "disc_env \<Rightarrow> jobject \<Rightarrow> iface \<Rightarrow> bool \<times> Discovery \<Rightarrow> bool \<times> Discovery" where
  "send_one env payload i acc =
     (let (sentAny, s) = acc
      in if if_index i \<notin> set (dc_joinedInterfaces s) then (sentAny, s)
         else if v_writes env (if_index i) then (True, record_sent (ToGroup (Some (if_index i)) payload) s) else (sentAny, s))"

definition sendAnnouncement :: "disc_env \<Rightarrow> bool \<Rightarrow> Discovery \<Rightarrow> Discovery" where
  "sendAnnouncement env announcing s =
     (if \<not> dc_socket s then s
      else
        let payload = toAnnouncement announcing (self_info (dc_settings s));
            (sentAny, s1) = fold (send_one env payload) (v_interfaces env) (False, s)
        in if sentAny then s1 else record_sent (ToGroup None payload) s1)"

section \<open>Registering with a peer\<close>

definition dc_post :: "request \<Rightarrow> dc_slot \<Rightarrow> Discovery \<Rightarrow> Discovery" where
  "dc_post rq slot s =
     s\<lparr>dc_inFlight := AList.update (dc_nextReply s) (rq, slot) (dc_inFlight s), dc_nextReply := Suc (dc_nextReply s),
       dc_posted := dc_posted s @ [(rq, slot)]\<rparr>"

definition dc_identity :: "Discovery \<Rightarrow> (bytes \<times> bytes) option" where
  "dc_identity s = configure (c_certificate (as_identity (dc_settings s))) (c_key (as_identity (dc_settings s)))"

definition probe_request :: "disc_env \<Rightarrow> qstring \<Rightarrow> int \<Rightarrow> qstring \<Rightarrow> Discovery \<Rightarrow> request" where
  "probe_request env host prt scheme s =
     (let secure = (scheme = qs ''https'')
      in \<lparr>rq_url = url_make (v_url env) scheme host prt (ApiPrefix @ PathRegister), rq_query = [],
           rq_identity = (if secure then dc_identity s else None),
           rq_policy = (if secure then AcceptUnknown else NoHandler),
           rq_body = JsonBody (JObject (toRegisterBody (self_info (dc_settings s))))\<rparr>)"

definition probe :: "disc_env \<Rightarrow> qstring \<Rightarrow> int \<Rightarrow> qstring \<Rightarrow> dc_slot \<Rightarrow> Discovery \<Rightarrow> Discovery" where
  "probe env host prt scheme slot s = dc_post (probe_request env host prt scheme s) slot s"

definition probe_both :: "disc_env \<Rightarrow> qstring \<Rightarrow> int \<Rightarrow> dc_slot \<Rightarrow> Discovery \<Rightarrow> Discovery" where
  "probe_both env host prt slot s = probe env host prt (qs ''http'') slot (probe env host prt (qs ''https'') slot s)"

definition dc_upsert :: "disc_env \<Rightarrow> DeviceInfo \<Rightarrow> Discovery \<Rightarrow> Discovery" where
  "dc_upsert env peer s =
     (let (appeared, dm) = upsert (v_lib env) (v_known env) (v_wall env) peer (dc_devices s); s1 = s\<lparr>dc_devices := dm\<rparr>
      in if appeared then dc_emit (PeerAppeared (dev_alias peer)) s1 else s1)"

text \<open>The peer a reply tells of, reached at the URL of the request.\<close>

definition reached_at :: "disc_env \<Rightarrow> qstring \<Rightarrow> DeviceInfo \<Rightarrow> DeviceInfo" where
  "reached_at env url peer =
     (let p = peer\<lparr>address := url_host (v_url env) url, protocol := url_scheme (v_url env) url\<rparr>
      in if port p \<le> 0 then p\<lparr>port := url_port (v_url env) url DefaultPort\<rparr> else p)"

text \<open>\<open>Some\<close> alias when the reply was believed.\<close>

definition acceptRegisterReply :: "disc_env \<Rightarrow> request \<Rightarrow> reply \<Rightarrow> Discovery \<Rightarrow> qstring option \<times> Discovery" where
  "acceptRegisterReply env rq rp s =
     (if rp_error rp then (None, s)
      else case j_parse (v_net env) (rp_body rp) of
        Some (JObject ob) \<Rightarrow>
          let peer = fromPayload (v_lib env) ob;
              observed = observedFingerprint (v_lib env) (if rp_cert rp = [] then None else Some (rp_cert rp))
          in if \<not> isValid peer \<or> fingerprint peer = settings_fingerprint (dc_settings s) then (None, s)
             else if observed \<noteq> [] \<and> \<not> equalsFold (v_lib env) observed (fingerprint peer) then (None, s)
             else (Some (dev_alias peer), dc_upsert env (reached_at env (rq_url rq) peer) s)
      | _ \<Rightarrow> (None, s))"

definition onRegisterFinished :: "disc_env \<Rightarrow> request \<Rightarrow> reply \<Rightarrow> Discovery \<Rightarrow> Discovery" where
  "onRegisterFinished env rq rp s =
     (if rp_error rp then s
      else case j_parse (v_net env) (rp_body rp) of
        Some (JObject ob) \<Rightarrow>
          let peer = fromPayload (v_lib env) ob
          in if \<not> isValid peer \<or> fingerprint peer = settings_fingerprint (dc_settings s) then s
             else dc_upsert env (reached_at env (rq_url rq) peer) s
      | _ \<Rightarrow> s)"

definition register_request :: "DeviceInfo \<Rightarrow> Discovery \<Rightarrow> request" where
  "register_request peer s =
     \<lparr>rq_url = apiBase peer @ PathRegister, rq_query = [], rq_identity = dc_identity s,
      rq_policy = PinTo (fingerprint peer), rq_body = JsonBody (JObject (toRegisterBody (self_info (dc_settings s))))\<rparr>"

definition postRegister :: "DeviceInfo \<Rightarrow> Discovery \<Rightarrow> Discovery" where
  "postRegister peer s = (if address peer = [] then s else dc_post (register_request peer s) OnRegister s)"

definition dc_registerPeer :: "disc_env \<Rightarrow> jobject \<Rightarrow> qstring \<Rightarrow> Discovery \<Rightarrow> DeviceInfo \<times> Discovery" where
  "dc_registerPeer env payload addr s =
     (let peer = fromPayload (v_lib env) payload;
          s1 = (if isValid peer \<and> fingerprint peer \<noteq> settings_fingerprint (dc_settings s)
                then dc_upsert env (peer\<lparr>address := addr\<rparr>) s else s)
      in (self_info (dc_settings s1), s1))"

section \<open>Devices added by hand\<close>

text \<open>\<open>QString::toInt\<close>, and where \<open>lastIndexOf\<close> finds a colon.\<close>

definition parse_int :: "qtlib \<Rightarrow> qstring \<Rightarrow> int option" where
  "parse_int lib text =
     (let t = trimmed (q_isSpace lib) text; neg = (t \<noteq> [] \<and> hd t = qc (CHR ''-''));
          digits = (if t \<noteq> [] \<and> (neg \<or> hd t = qc (CHR ''+'')) then tl t else t)
      in case (if digits = [] then None else decimal 0 digits) of
           None \<Rightarrow> None
         | Some n \<Rightarrow> let v = (if neg then - int n else int n) in if - (2 ^ 31) \<le> v \<and> v < 2 ^ 31 then Some v else None)"

definition last_colon :: "qstring \<Rightarrow> nat option" where
  "last_colon s = map_option (\<lambda>i. length s - Suc i) (index_where (\<lambda>c. c = qc (CHR '':'')) (rev s))"

definition refresh_one :: "disc_env \<Rightarrow> qstring \<Rightarrow> Discovery \<Rightarrow> Discovery" where
  "refresh_one env endpoint s =
     (case last_colon endpoint of
        None \<Rightarrow> s
      | Some colon \<Rightarrow>
          let host = take colon endpoint; prt = (case parse_int (v_lib env) (drop (Suc colon) endpoint) of Some n \<Rightarrow> n | None \<Rightarrow> 0)
          in if colon = 0 \<or> host = [] \<or> prt \<le> 0 then s else probe_both env host prt OnRefreshed s)"

definition refreshManualDevices :: "disc_env \<Rightarrow> Discovery \<Rightarrow> Discovery" where
  "refreshManualDevices env s = fold (refresh_one env) (manualDevices (dc_settings s)) s"

text \<open>The host and the port a typed address names.\<close>

definition endpoint_of :: "qtlib \<Rightarrow> qstring \<Rightarrow> int \<Rightarrow> qstring \<times> int" where
  "endpoint_of lib addr prt =
     (let host = trimmed (q_isSpace lib) addr
      in case last_colon host of
           None \<Rightarrow> (host, prt)
         | Some colon \<Rightarrow>
             if colon > 0 \<and> qc (CHR ''['') \<notin> set host
             then (case parse_int lib (drop (Suc colon) host) of
                     Some n \<Rightarrow> if 0 < n \<and> n < 65536 then (take colon host, n) else (host, prt)
                   | None \<Rightarrow> (host, prt))
             else (host, prt))"

definition addDeviceAt :: "disc_env \<Rightarrow> qstring \<Rightarrow> int \<Rightarrow> Discovery \<Rightarrow> Discovery" where
  "addDeviceAt env addr prt s =
     (if dc_manualPending s > 0 then s
      else
        let (host0, port0) = endpoint_of (v_lib env) addr prt; host = trimmed (q_isSpace (v_lib env)) host0;
            targetPort = (if port0 \<le> 0 \<or> port0 > 65535 then DefaultPort else port0)
        in if host = [] then s
           else probe_both env host targetPort OnManual
                  (dc_emit ManualLookupChanged
                    (s\<lparr>dc_manualEndpoint := host @ qs '':'' @ number targetPort, dc_manualAlias := [], dc_manualFound := False,
                       dc_manualPending := 2\<rparr>)))"

definition onManualReplyFinished :: "disc_env \<Rightarrow> request \<Rightarrow> reply \<Rightarrow> Discovery \<Rightarrow> Discovery" where
  "onManualReplyFinished env rq rp s0 =
     (let s = s0\<lparr>dc_manualPending := dc_manualPending s0 - 1\<rparr>;
          s1 = (if dc_manualFound s then s
                else case acceptRegisterReply env rq rp s of
                       (None, t) \<Rightarrow> t
                     | (Some name, t) \<Rightarrow>
                         t\<lparr>dc_manualFound := True, dc_manualAlias := name,
                           dc_settings := addManualDevice (v_lib env) (dc_manualEndpoint t) (dc_settings t)\<rparr>)
      in if dc_manualPending s1 > 0 then s1
         else dc_emit (ManualLookupFinished (dc_manualFound s1) (dc_manualEndpoint s1) (dc_manualAlias s1))
                (dc_emit ManualLookupChanged s1))"

section \<open>Running\<close>

definition announce :: "disc_env \<Rightarrow> Discovery \<Rightarrow> Discovery" where
  "announce env s =
     (let s1 = refreshManualDevices env (sendAnnouncement env True (joinGroups env s))
      in s1\<lparr>dc_devices := dm_prune (v_wall env) DeviceMaxAgeSeconds (dc_devices s1)\<rparr>)"

definition bindSocket :: "disc_env \<Rightarrow> Discovery \<Rightarrow> bool \<times> Discovery" where
  "bindSocket env s = (v_bind env, s\<lparr>dc_socket := v_bind env, dc_pending := []\<rparr>)"

text \<open>The two later announcements of the burst are timers: announcements that come on their own.\<close>

definition dc_start :: "disc_env \<Rightarrow> Discovery \<Rightarrow> Discovery" where
  "dc_start env s =
     (if dc_running s then s
      else case bindSocket env s of
        (False, s1) \<Rightarrow> dc_emit RunningChanged (s1\<lparr>dc_running := True, dc_announceTimer := True\<rparr>)
      | (True, s1) \<Rightarrow>
          announce env (dc_emit RunningChanged ((joinGroups env (s1\<lparr>dc_running := True\<rparr>))\<lparr>dc_announceTimer := True\<rparr>)))"

definition dc_stop :: "Discovery \<Rightarrow> Discovery" where
  "dc_stop s =
     (if \<not> dc_running s then s
      else dc_emit RunningChanged
             (s\<lparr>dc_announceTimer := False, dc_socket := False, dc_pending := [], dc_joinedInterfaces := [], dc_running := False,
                dc_devices := dm_clear (dc_devices s)\<rparr>))"

definition dc_refresh :: "disc_env \<Rightarrow> Discovery \<Rightarrow> Discovery" where
  "dc_refresh env s = (if \<not> dc_running s then dc_start env s else announce env s)"

section \<open>Hearing\<close>

definition cooling :: "int \<Rightarrow> qstring \<Rightarrow> Discovery \<Rightarrow> bool" where
  "cooling now a s = (case map_of (dc_lastResponse s) a of Some t \<Rightarrow> now - t < ResponseCooldownMs | None \<Rightarrow> False)"

definition respondTo :: "disc_env \<Rightarrow> DeviceInfo \<Rightarrow> Discovery \<Rightarrow> Discovery" where
  "respondTo env peer s =
     (if cooling (v_now env) (address peer) s then s
      else
        let table = (if length (dc_lastResponse s) \<ge> MaxTrackedResponders then [] else dc_lastResponse s);
            s1 = s\<lparr>dc_lastResponse := AList.update (address peer) (v_now env) table,
                   dc_answered := dc_answered s @ [(address peer, v_now env)]\<rparr>;
            s2 = (if dc_socket s1 then record_sent (ToPeer (address peer) (toAnnouncement False (self_info (dc_settings s1)))) s1
                  else s1)
        in postRegister peer s2)"

definition handlePayload :: "disc_env \<Rightarrow> jobject \<Rightarrow> qstring \<Rightarrow> Discovery \<Rightarrow> Discovery" where
  "handlePayload env payload addr s =
     (let peer = (fromPayload (v_lib env) payload)\<lparr>address := addr\<rparr>
      in if \<not> isValid peer then s
         else if fingerprint peer = settings_fingerprint (dc_settings s) then s
         else let s1 = dc_upsert env peer s
              in if to_bool False (jvalue payload ''announce'') then respondTo env peer s1 else s1)"

text \<open>One pass over the socket: \<open>None\<close> is a datagram that cannot be read.\<close>

definition read_one :: "disc_env \<Rightarrow> bytes option \<times> qstring \<Rightarrow> Discovery \<Rightarrow> Discovery" where
  "read_one env d s =
     (let (content, sender) = d
      in case content of
           None \<Rightarrow> s
         | Some datagram \<Rightarrow>
             if datagram = [] then s
             else case j_parse (v_net env) datagram of
                    Some (JObject ob) \<Rightarrow>
                      handlePayload env ob (if startsWith (qs ''::ffff:'') sender then drop 7 sender else sender) s
                  | _ \<Rightarrow> s)"

definition readDatagrams :: "disc_env \<Rightarrow> Discovery \<Rightarrow> Discovery" where
  "readDatagrams env s =
     (if \<not> dc_socket s then s
      else fold (read_one env) (take MaxDatagramsPerPass (dc_pending s))
             (s\<lparr>dc_pending := drop MaxDatagramsPerPass (dc_pending s)\<rparr>))"

section \<open>The sweep of the subnet\<close>

definition last_dot :: "qstring \<Rightarrow> nat option" where
  "last_dot s = map_option (\<lambda>i. length s - Suc i) (index_where (\<lambda>c. c = qc (CHR ''.'')) (rev s))"

definition add_prefix :: "qstring \<Rightarrow> qstring list \<Rightarrow> qstring list" where
  "add_prefix a known =
     (case last_dot a of
        None \<Rightarrow> known
      | Some d \<Rightarrow> if d = 0 \<or> take (Suc d) a \<in> set known then known else known @ [take (Suc d) a])"

definition sweep_of :: "qstring list \<Rightarrow> qstring list" where
  "sweep_of mine =
     concat (map (\<lambda>net. concat (map (\<lambda>h. let a = net @ number h
        in if a \<in> set mine then [] else [qs ''https://'' @ a, qs ''http://'' @ a]) [1..254]))
       (fold add_prefix mine []))"

definition finishScan :: "Discovery \<Rightarrow> Discovery" where
  "finishScan s = dc_emit ScanningChanged (s\<lparr>dc_scanning := False, dc_scanTotal := 0, dc_scanDone := 0\<rparr>)"

definition pump_one :: "disc_env \<Rightarrow> Discovery \<Rightarrow> Discovery" where
  "pump_one env s =
     (let target = hd (dc_scanQueue s); s1 = s\<lparr>dc_scanQueue := tl (dc_scanQueue s)\<rparr>;
          s2 = probe env (url_host (v_url env) target) (settings_port (dc_settings s1)) (url_scheme (v_url env) target) OnScan s1
      in s2\<lparr>dc_scanInFlight := dc_scanInFlight s2 + 1\<rparr>)"

function pump_loop :: "disc_env \<Rightarrow> Discovery \<Rightarrow> Discovery" where
  "pump_loop env s =
     (if dc_scanning s \<and> dc_scanInFlight s < ScanWindow \<and> dc_scanQueue s \<noteq> [] then pump_loop env (pump_one env s) else s)"
  by auto
termination
  by (relation "measure (\<lambda>(env, s). length (dc_scanQueue s))") (auto simp: pump_one_def Let_def probe_def dc_post_def)

declare pump_loop.simps [simp del]

definition pumpScanQueue :: "disc_env \<Rightarrow> Discovery \<Rightarrow> Discovery" where
  "pumpScanQueue env s =
     (let s1 = pump_loop env s
      in if dc_scanning s1 \<and> dc_scanQueue s1 = [] \<and> dc_scanInFlight s1 = 0 then finishScan s1 else s1)"

definition scanSubnet :: "disc_env \<Rightarrow> Discovery \<Rightarrow> Discovery" where
  "scanSubnet env s =
     (if dc_scanning s then s
      else
        let queue = sweep_of (localAddresses env)
        in if queue = [] then s\<lparr>dc_scanQueue := []\<rparr>
           else pumpScanQueue env (dc_emit ScanningChanged
                  (s\<lparr>dc_scanQueue := queue, dc_scanTotal := int (length queue), dc_scanDone := 0, dc_scanInFlight := 0,
                     dc_scanning := True\<rparr>)))"

definition onScanReplyFinished :: "disc_env \<Rightarrow> request \<Rightarrow> reply \<Rightarrow> Discovery \<Rightarrow> Discovery" where
  "onScanReplyFinished env rq rp s =
     (let s1 = s\<lparr>dc_scanInFlight := dc_scanInFlight s - 1, dc_scanDone := dc_scanDone s + 1\<rparr>
      in pumpScanQueue env (dc_emit ScanningChanged (snd (acceptRegisterReply env rq rp s1))))"

definition cancelScan :: "Discovery \<Rightarrow> Discovery" where
  "cancelScan s =
     (if \<not> dc_scanning s then s
      else let s1 = s\<lparr>dc_scanQueue := []\<rparr> in if dc_scanInFlight s1 = 0 then finishScan s1 else s1)"

section \<open>Discovery as one machine\<close>

definition dc_finished :: "disc_env \<Rightarrow> request \<Rightarrow> dc_slot \<Rightarrow> reply \<Rightarrow> Discovery \<Rightarrow> Discovery" where
  "dc_finished env rq slot rp s =
     (case slot of
        OnRegister \<Rightarrow> onRegisterFinished env rq rp s
      | OnRefreshed \<Rightarrow> snd (acceptRegisterReply env rq rp s)
      | OnManual \<Rightarrow> onManualReplyFinished env rq rp s
      | OnScan \<Rightarrow> onScanReplyFinished env rq rp s)"

datatype dc_event =
    DcStart | DcStop | DcRefresh | DcAnnounce
  | DcDatagrams "(bytes option \<times> qstring) list"
  | DcRegister jobject qstring
  | DcScan | DcCancelScan
  | DcAddDevice qstring int
  | DcReply nat reply
  | DcSettings "AppSettings \<Rightarrow> AppSettings"

text \<open>\<open>DcDatagrams\<close> is a \<open>readyRead\<close> with the datagrams that have arrived since the last one.\<close>

fun dc_step :: "disc_env \<Rightarrow> dc_event \<Rightarrow> Discovery \<Rightarrow> Discovery" where
  "dc_step env DcStart s = dc_start env s"
| "dc_step env DcStop s = dc_stop s"
| "dc_step env DcRefresh s = dc_refresh env s"
| "dc_step env DcAnnounce s = announce env s"
| "dc_step env (DcDatagrams ds) s = readDatagrams env (if dc_socket s then s\<lparr>dc_pending := dc_pending s @ ds\<rparr> else s)"
| "dc_step env (DcRegister payload addr) s = snd (dc_registerPeer env payload addr s)"
| "dc_step env DcScan s = scanSubnet env s"
| "dc_step env DcCancelScan s = cancelScan s"
| "dc_step env (DcAddDevice addr prt) s = addDeviceAt env addr prt s"
| "dc_step env (DcReply k rp) s =
     (case map_of (dc_inFlight s) k of
        None \<Rightarrow> s
      | Some (rq, slot) \<Rightarrow>
          dc_finished env rq slot (answered (v_lib env) rq rp) (s\<lparr>dc_inFlight := AList.delete k (dc_inFlight s)\<rparr>))"
| "dc_step env (DcSettings f) s = s\<lparr>dc_settings := f (dc_settings s)\<rparr>"

definition dc_run :: "(disc_env \<times> dc_event) list \<Rightarrow> Discovery \<Rightarrow> Discovery" where
  "dc_run evs s = fold (\<lambda>(env, e). dc_step env e) evs s"

end
