(* ===== verification/Discovery_Demo.thy ===== *)
theory Discovery_Demo
  imports Discovery
begin

text \<open>
  A small network, evaluated: every parameter of the model is a concrete function. The digest tells
  the certificate \<open>[1]\<close> from all others; every document names the fingerprint \<open>01\<close>, asks for an
  answer and gives port 80; every URL is on \<open>h\<close>, port 8080.
\<close>

definition net_offer :: jobject where
  "net_offer = [(qs ''fingerprint'', JString (qs ''01'')), (qs ''announce'', JBool True), (qs ''port'', JDouble 80)]"

definition net_env :: disc_env where
  "net_env = \<lparr>v_lib = one_hash_qt, v_net = \<lparr>u_target = (\<lambda>_. ([], [])), j_text = (\<lambda>_. []), j_parse = (\<lambda>_. Some (JObject net_offer))\<rparr>,
     v_url = \<lparr>url_make = (\<lambda>scheme host prt path. scheme @ qs '':'' @ host), url_scheme = (\<lambda>_. qs ''https''), url_host = (\<lambda>_. qs ''h''),
       url_port = (\<lambda>_ _. 8080)\<rparr>,
     v_now = 0, v_wall = 0, v_known = None, v_bind = True, v_interfaces = [], v_joins = (\<lambda>_. True), v_writes = (\<lambda>_. True),
     v_addresses = [(True, False, qs ''x.y'')]\<rparr>"

definition net_settings :: AppSettings where
  "net_settings = \<lparr>as_values = [], as_deviceModel = [], as_randomFingerprint = qs ''AA'', as_identity = new_Certificate,
     as_transportError = [], as_signals = []\<rparr>"

definition net_new :: Discovery where
  "net_new = new_Discovery net_settings empty_devices"

definition net_reply :: reply where
  "net_reply = \<lparr>rp_error = False, rp_errorString = [], rp_status = 200, rp_body = [], rp_cert = [1], rp_errorCerts = [], rp_verified = False\<rparr>"

definition net_manual :: Discovery where
  "net_manual = dc_step net_env (DcAddDevice (qs ''h'') 80) net_new"

definition net_seen :: "Discovery \<Rightarrow> (qstring \<times> qstring \<times> int) list" where
  "net_seen s = map (\<lambda>d. (fingerprint d, address d, port d)) (m_devices (dc_devices s))"

lemma net_introduced: "net_seen (dc_step net_env (DcReply 0 net_reply) net_manual) = [(qs ''01'', qs ''h'', 80)]"
  by code_simp

lemma net_asked: "map (\<lambda>(k, rq, slot). (k, slot)) (dc_inFlight net_manual) = [(0, OnManual), (1, OnManual)]"
  by code_simp

lemma net_registered: "net_seen (dc_step net_env (DcRegister net_offer (qs ''g'')) net_new) = [(qs ''01'', qs ''g'', 80)]"
  by code_simp

lemma net_answered: "dc_answered (dc_run [(net_env, DcStart), (net_env, DcDatagrams [(Some [1], qs ''g''), (Some [1], qs ''g'')])] net_new) = [(qs ''g'', 0)]"
  by code_simp

end
