(* ===== verification/Discovery_Sweep.thy ===== *)
theory Discovery_Sweep
  imports Discovery_Demo
begin

text \<open>
  The sweep of the subnet comes to an end: its counters are exact, at most 24 requests are out, and
  every answer brings the end one step closer.
\<close>

section \<open>The part of the state a sweep works on\<close>

definition is_scan :: "nat \<times> request \<times> dc_slot \<Rightarrow> bool" where
  "is_scan x \<longleftrightarrow> snd (snd x) = OnScan"

definition scans :: "Discovery \<Rightarrow> (nat, request \<times> dc_slot) qhash" where
  "scans s = filter is_scan (dc_inFlight s)"

definition sweep :: "Discovery \<Rightarrow> qstring list \<times> int \<times> int \<times> int \<times> bool \<times> (nat, request \<times> dc_slot) qhash" where
  "sweep s = (dc_scanQueue s, dc_scanTotal s, dc_scanDone s, dc_scanInFlight s, dc_scanning s, scans s)"

definition table_ok :: "Discovery \<Rightarrow> bool" where
  "table_ok s \<longleftrightarrow> distinct (map fst (dc_inFlight s)) \<and> (\<forall>k \<in> fst ` set (dc_inFlight s). k < dc_nextReply s)"

text \<open>What leaves the sweep alone.\<close>

definition spares :: "Discovery \<Rightarrow> Discovery \<Rightarrow> bool" where
  "spares s t \<longleftrightarrow> (table_ok s \<longrightarrow> table_ok t \<and> sweep t = sweep s)"

lemma spares_refl [intro, simp]: "spares s s"
  by (simp add: spares_def)

lemma spares_trans: "spares a b \<Longrightarrow> spares b c \<Longrightarrow> spares a c"
  by (simp add: spares_def)

lemma spares_same:
  "dc_inFlight t = dc_inFlight s \<Longrightarrow> dc_nextReply t = dc_nextReply s \<Longrightarrow> dc_scanQueue t = dc_scanQueue s
    \<Longrightarrow> dc_scanTotal t = dc_scanTotal s \<Longrightarrow> dc_scanDone t = dc_scanDone s \<Longrightarrow> dc_scanInFlight t = dc_scanInFlight s
    \<Longrightarrow> dc_scanning t = dc_scanning s \<Longrightarrow> spares s t"
  by (simp add: spares_def table_ok_def sweep_def scans_def)

lemma spares_fold: "(\<And>x t. spares t (f x t)) \<Longrightarrow> spares s (fold f xs s)"
  by (induction xs arbitrary: s) (auto intro: spares_trans)

lemma update_fresh: "k \<notin> fst ` set xs \<Longrightarrow> AList.update k v xs = xs @ [(k, v)]"
  by (induction xs) auto

lemma post_table:
  assumes "table_ok s"
  shows "table_ok (dc_post rq slot s)" "dc_inFlight (dc_post rq slot s) = dc_inFlight s @ [(dc_nextReply s, rq, slot)]"
proof -
  have fresh: "dc_nextReply s \<notin> fst ` set (dc_inFlight s)" using assms by (auto simp: table_ok_def)
  then have eq: "AList.update (dc_nextReply s) (rq, slot) (dc_inFlight s) = dc_inFlight s @ [(dc_nextReply s, rq, slot)]"
    by (rule update_fresh)
  then show "dc_inFlight (dc_post rq slot s) = dc_inFlight s @ [(dc_nextReply s, rq, slot)]" by (simp add: dc_post_def)
  show "table_ok (dc_post rq slot s)" using assms fresh by (auto simp: table_ok_def dc_post_def eq intro: less_SucI)
qed

lemma spares_post: "slot \<noteq> OnScan \<Longrightarrow> spares s (dc_post rq slot s)"
  using post_table [of s rq slot] by (auto simp: spares_def sweep_def scans_def is_scan_def) (simp_all add: dc_post_def)

section \<open>Everything else spares the sweep\<close>

lemma spares_emit: "spares s (dc_emit x s)" "spares s (record_sent d s)" "spares s (s\<lparr>dc_devices := dm\<rparr>)" "spares s (s\<lparr>dc_settings := st\<rparr>)"
  by (rule spares_same; simp add: dc_emit_def record_sent_def)+

lemma spares_then: "spares s t \<Longrightarrow> spares s (dc_emit x t)" "spares s t \<Longrightarrow> spares s (record_sent d t)"
  by (erule spares_trans, rule spares_emit)+

lemma spares_joinGroups: "spares s (joinGroups env s)"
proof -
  have "spares t (join_one env i t)" for i t
    by (auto simp: join_one_def intro: spares_same)
  then show ?thesis by (simp add: joinGroups_def spares_fold)
qed

lemma spares_sendAnnouncement: "spares s (sendAnnouncement env b s)"
proof -
  have one: "spares s (snd acc) \<Longrightarrow> spares s (snd (send_one env payload i acc))" for payload i acc
    by (cases acc) (auto simp: send_one_def intro: spares_trans spares_emit)
  have "spares s (snd acc) \<Longrightarrow> spares s (snd (fold (send_one env payload) is acc))" for payload "is" acc
    by (induction "is" arbitrary: acc) (simp_all add: one)
  from this [of "(False, s)"] show ?thesis
    by (simp add: sendAnnouncement_def Let_def case_prod_unfold spares_then)
qed

lemma spares_probe: "slot \<noteq> OnScan \<Longrightarrow> spares s (probe env host prt scheme slot s)"
  by (simp add: probe_def spares_post)

lemma spares_probe_both: "slot \<noteq> OnScan \<Longrightarrow> spares s (probe_both env host prt slot s)"
  unfolding probe_both_def by (rule spares_trans [OF spares_probe spares_probe])

lemma spares_upsert: "spares s (dc_upsert env peer s)"
  by (auto simp: dc_upsert_def Let_def case_prod_unfold intro: spares_trans spares_emit)

lemma spares_accept: "spares s (snd (acceptRegisterReply env rq rp s))"
  by (auto simp: acceptRegisterReply_def Let_def spares_upsert split: option.split json.split)

lemma spares_onRegister: "spares s (onRegisterFinished env rq rp s)"
  by (auto simp: onRegisterFinished_def Let_def spares_upsert split: option.split json.split)

lemma spares_postRegister: "spares s (postRegister peer s)"
  by (simp add: postRegister_def spares_post)

lemma spares_refreshManual: "spares s (refreshManualDevices env s)"
proof -
  have "spares t (refresh_one env endpoint t)" for endpoint t
    by (auto simp: refresh_one_def Let_def spares_probe_both split: option.split)
  then show ?thesis by (simp add: refreshManualDevices_def spares_fold)
qed

lemma spares_announce: "spares s (announce env s)"
  unfolding announce_def Let_def
  by (rule spares_trans [OF spares_joinGroups spares_trans [OF spares_sendAnnouncement spares_trans [OF spares_refreshManual spares_emit(3)]]])

lemma spares_start: "spares s (dc_start env s)"
proof -
  let ?s1 = "s\<lparr>dc_socket := v_bind env, dc_pending := []\<rparr>"
  have "spares s (joinGroups env (?s1\<lparr>dc_running := True\<rparr>))"
    by (rule spares_trans [OF spares_same spares_joinGroups]) simp_all
  then have "spares s ((joinGroups env (?s1\<lparr>dc_running := True\<rparr>))\<lparr>dc_announceTimer := True\<rparr>)"
    by (rule spares_trans) (rule spares_same, simp_all)
  then have "spares s (announce env (dc_emit RunningChanged ((joinGroups env (?s1\<lparr>dc_running := True\<rparr>))\<lparr>dc_announceTimer := True\<rparr>)))"
    by (rule spares_trans [OF spares_then(1) spares_announce])
  moreover have "spares s (dc_emit RunningChanged (?s1\<lparr>dc_running := True, dc_announceTimer := True\<rparr>))"
    by (rule spares_then(1)) (rule spares_same, simp_all)
  ultimately show ?thesis by (cases "v_bind env") (simp_all add: dc_start_def bindSocket_def)
qed

lemma spares_stop: "spares s (dc_stop s)"
  unfolding dc_stop_def by (auto intro!: spares_trans [OF spares_same spares_emit(1)])

lemma spares_respondTo: "spares s (respondTo env peer s)"
proof (cases "cooling (v_now env) (address peer) s")
  case False
  define u where "u = s\<lparr>dc_lastResponse := AList.update (address peer) (v_now env)
       (if length (dc_lastResponse s) \<ge> MaxTrackedResponders then [] else dc_lastResponse s),
     dc_answered := dc_answered s @ [(address peer, v_now env)]\<rparr>"
  have u: "spares s u" unfolding u_def by (rule spares_same) simp_all
  have "spares s (if dc_socket u then record_sent d u else u)" for d using u spares_then(2) by simp
  then show ?thesis using False unfolding respondTo_def Let_def u_def [symmetric] by (simp add: spares_trans [OF _ spares_postRegister])
qed (simp add: respondTo_def)

lemma spares_handlePayload: "spares s (handlePayload env payload addr s)"
  by (auto simp: handlePayload_def Let_def intro: spares_trans spares_upsert spares_respondTo)

lemma spares_readDatagrams: "spares s (readDatagrams env s)"
proof -
  have "spares t (read_one env d t)" for d t
    by (cases d) (auto simp: read_one_def spares_handlePayload split: option.split json.split)
  then have "spares (s\<lparr>dc_pending := p\<rparr>) (fold (read_one env) ds (s\<lparr>dc_pending := p\<rparr>))" for p ds by (rule spares_fold)
  moreover have "spares s (s\<lparr>dc_pending := p\<rparr>)" for p by (rule spares_same) simp_all
  ultimately have "spares s (fold (read_one env) ds (s\<lparr>dc_pending := p\<rparr>))" for p ds using spares_trans by blast
  then show ?thesis by (simp add: readDatagrams_def)
qed

lemma spares_addDeviceAt: "spares s (addDeviceAt env addr prt s)"
proof -
  have "spares s (probe_both env host p OnManual (dc_emit ManualLookupChanged
      (s\<lparr>dc_manualEndpoint := e, dc_manualAlias := [], dc_manualFound := False, dc_manualPending := 2\<rparr>)))" for host p e
    by (rule spares_trans [OF spares_trans [OF spares_same spares_emit(1)] spares_probe_both]) simp_all
  then show ?thesis by (simp add: addDeviceAt_def Let_def case_prod_unfold)
qed

lemma spares_onManual: "spares s (onManualReplyFinished env rq rp s)"
proof -
  define t where "t = s\<lparr>dc_manualPending := dc_manualPending s - 1\<rparr>"
  have t: "spares s t" unfolding t_def by (rule spares_same) simp_all
  obtain found u where acc: "acceptRegisterReply env rq rp t = (found, u)" by fastforce
  have u: "spares s u" using spares_trans [OF t] spares_accept [of t env rq rp] by (simp add: acc)
  have v: "spares u (u\<lparr>dc_manualFound := True, dc_manualAlias := name, dc_settings := st\<rparr>)" for name st by (rule spares_same) simp_all
  have ends: "spares s (if dc_manualPending w > 0 then w else dc_emit x (dc_emit y w))" if "spares s w" for w x y
    using that spares_trans [OF that] spares_trans [OF spares_emit(1) spares_emit(1)] by simp
  show ?thesis unfolding onManualReplyFinished_def Let_def t_def [symmetric] acc prod.case
    by (rule ends) (auto split: option.split intro: t u spares_trans [OF u v])
qed

section \<open>The invariant\<close>

definition sweep_left :: "Discovery \<Rightarrow> nat" where
  "sweep_left s = length (dc_scanQueue s) + length (scans s)"

text \<open>The counters, and what they say while a sweep runs and when none does.\<close>

definition counted :: "Discovery \<Rightarrow> bool" where
  "counted s \<longleftrightarrow> table_ok s \<and> dc_scanInFlight s = int (length (scans s)) \<and> length (scans s) \<le> nat ScanWindow
     \<and> 0 \<le> dc_scanDone s \<and> (dc_scanning s \<longrightarrow> dc_scanDone s + int (sweep_left s) \<le> dc_scanTotal s)"

definition sweep_inv :: "Discovery \<Rightarrow> bool" where
  "sweep_inv s \<longleftrightarrow> counted s \<and> (if dc_scanning s then scans s \<noteq> [] else scans s = [] \<and> dc_scanQueue s = [])"

lemma sweep_fields:
  assumes "sweep t = sweep s"
  shows "dc_scanQueue t = dc_scanQueue s" "dc_scanTotal t = dc_scanTotal s" "dc_scanDone t = dc_scanDone s"
    "dc_scanInFlight t = dc_scanInFlight s" "dc_scanning t = dc_scanning s" "scans t = scans s" "sweep_left t = sweep_left s"
  using assms by (simp_all add: sweep_def sweep_left_def)

lemma spares_counted: "spares s t \<Longrightarrow> counted s \<Longrightarrow> counted t \<and> sweep t = sweep s"
  using sweep_fields [of t s] by (simp add: spares_def counted_def)

lemma spares_inv: "spares s t \<Longrightarrow> sweep_inv s \<Longrightarrow> sweep_inv t"
  using spares_counted [of s t] sweep_fields [of t s] by (simp add: sweep_inv_def)

lemma pump_one_counted:
  assumes "counted s" "dc_scanning s" "dc_scanInFlight s < ScanWindow" "dc_scanQueue s \<noteq> []"
  shows "counted (pump_one env s)" "dc_scanning (pump_one env s)" "sweep_left (pump_one env s) = sweep_left s"
proof -
  define s1 where "s1 = s\<lparr>dc_scanQueue := tl (dc_scanQueue s)\<rparr>"
  obtain rq where t: "pump_one env s = (dc_post rq OnScan s1)\<lparr>dc_scanInFlight := dc_scanInFlight s + 1\<rparr>"
    by (simp add: pump_one_def Let_def probe_def s1_def dc_post_def)
  have ok: "table_ok s1" using assms(1) by (simp add: counted_def table_ok_def s1_def)
  have scans: "scans (pump_one env s) = scans s @ [(dc_nextReply s, rq, OnScan)]"
    using post_table(2) [OF ok, of rq OnScan] by (simp add: t scans_def is_scan_def s1_def)
  have fields: "dc_scanQueue (pump_one env s) = tl (dc_scanQueue s)" "dc_scanTotal (pump_one env s) = dc_scanTotal s"
    "dc_scanDone (pump_one env s) = dc_scanDone s" "dc_scanInFlight (pump_one env s) = dc_scanInFlight s + 1"
    "dc_scanning (pump_one env s) = dc_scanning s"
    by (simp_all add: t dc_post_def s1_def)
  have "table_ok (pump_one env s)" using post_table(1) [OF ok, of rq OnScan] by (simp add: t table_ok_def)
  moreover show left: "sweep_left (pump_one env s) = sweep_left s"
    using assms(4) by (cases "dc_scanQueue s") (simp_all add: sweep_left_def scans fields(1))
  ultimately show "counted (pump_one env s)" using assms(1,3) by (simp add: counted_def fields scans)
  show "dc_scanning (pump_one env s)" using assms(2) fields(5) by simp
qed

lemma pump_loop_counted:
  assumes "counted s" "dc_scanning s"
  shows "counted (pump_loop env s) \<and> dc_scanning (pump_loop env s) \<and> sweep_left (pump_loop env s) = sweep_left s
    \<and> (dc_scanQueue (pump_loop env s) = [] \<or> dc_scanInFlight (pump_loop env s) \<ge> ScanWindow)"
  using assms
proof (induction env s rule: pump_loop.induct)
  case (1 env s)
  show ?case
  proof (cases "dc_scanInFlight s < ScanWindow \<and> dc_scanQueue s \<noteq> []")
    case True
    note one = pump_one_counted [OF "1.prems" conjunct1 [OF True] conjunct2 [OF True], of env]
    have "pump_loop env s = pump_loop env (pump_one env s)" using True "1.prems"(2) by (subst pump_loop.simps) simp
    with "1.IH" [OF _ one(1,2)] True "1.prems"(2) one(3) show ?thesis by simp
  next
    case False
    then have "pump_loop env s = s" by (subst pump_loop.simps) auto
    with False "1.prems" show ?thesis by auto
  qed
qed

lemma pumpScanQueue_inv:
  assumes "counted s" "dc_scanning s"
  shows "sweep_inv (pumpScanQueue env s)" "sweep_left (pumpScanQueue env s) = sweep_left s"
    "dc_scanning (pumpScanQueue env s) \<longleftrightarrow> sweep_left s \<noteq> 0"
proof -
  define t where "t = pump_loop env s"
  have t: "counted t" "dc_scanning t" "sweep_left t = sweep_left s" "dc_scanQueue t = [] \<or> dc_scanInFlight t \<ge> ScanWindow"
    using pump_loop_counted [OF assms, of env] by (simp_all add: t_def)
  have count: "dc_scanInFlight t = int (length (scans t))" using t(1) by (simp add: counted_def)
  have res: "pumpScanQueue env s = (if dc_scanQueue t = [] \<and> dc_scanInFlight t = 0 then finishScan t else t)"
    using t(2) by (simp add: pumpScanQueue_def Let_def t_def)
  have "sweep_inv (pumpScanQueue env s) \<and> sweep_left (pumpScanQueue env s) = sweep_left s
    \<and> (dc_scanning (pumpScanQueue env s) \<longleftrightarrow> sweep_left s \<noteq> 0)"
  proof (cases "dc_scanQueue t = [] \<and> dc_scanInFlight t = 0")
    case True
    have f: "scans (finishScan t) = scans t" "dc_scanQueue (finishScan t) = dc_scanQueue t" "\<not> dc_scanning (finishScan t)"
      "dc_scanDone (finishScan t) = 0" "dc_scanInFlight (finishScan t) = dc_scanInFlight t" "table_ok (finishScan t) = table_ok t"
      by (simp_all add: finishScan_def dc_emit_def scans_def table_ok_def)
    have "scans t = []" using True count by simp
    with True t f show ?thesis by (simp add: res sweep_inv_def counted_def sweep_left_def)
  next
    case False
    have "scans t \<noteq> []"
    proof
      assume "scans t = []"
      with count have "dc_scanInFlight t = 0" by simp
      with t(4) False show False by (simp add: ScanWindow_def)
    qed
    with False t show ?thesis by (auto simp: res sweep_inv_def sweep_left_def)
  qed
  then show "sweep_inv (pumpScanQueue env s)" "sweep_left (pumpScanQueue env s) = sweep_left s"
    "dc_scanning (pumpScanQueue env s) \<longleftrightarrow> sweep_left s \<noteq> 0" by simp_all
qed

lemma scanSubnet_inv:
  assumes "sweep_inv s"
  shows "sweep_inv (scanSubnet env s)"
proof (cases "dc_scanning s")
  case False
  define queue where "queue = sweep_of (localAddresses env)"
  show ?thesis
  proof (cases "queue = []")
    case True
    then have "scanSubnet env s = s\<lparr>dc_scanQueue := []\<rparr>" using False by (simp add: scanSubnet_def queue_def)
    then show ?thesis using assms False by (simp add: sweep_inv_def counted_def table_ok_def scans_def)
  next
    case ne: False
    let ?t = "dc_emit ScanningChanged (s\<lparr>dc_scanQueue := queue, dc_scanTotal := int (length queue), dc_scanDone := 0,
      dc_scanInFlight := 0, dc_scanning := True\<rparr>)"
    have res: "scanSubnet env s = pumpScanQueue env ?t" using False ne by (simp add: scanSubnet_def Let_def queue_def)
    have "scans s = []" using assms False by (simp add: sweep_inv_def)
    then have "counted ?t" using assms by (simp add: sweep_inv_def counted_def table_ok_def scans_def dc_emit_def sweep_left_def)
    moreover have "dc_scanning ?t" by (simp add: dc_emit_def)
    ultimately show ?thesis unfolding res by (rule pumpScanQueue_inv(1))
  qed
qed (simp add: scanSubnet_def assms)

lemma cancelScan_inv:
  assumes "sweep_inv s"
  shows "sweep_inv (cancelScan s)"
proof (cases "dc_scanning s")
  case True
  then have "scans s \<noteq> []" "counted s" using assms by (simp_all add: sweep_inv_def)
  moreover from this have "dc_scanInFlight s \<noteq> 0" by (simp add: counted_def)
  ultimately show ?thesis using True by (auto simp: cancelScan_def sweep_inv_def counted_def table_ok_def scans_def sweep_left_def)
qed (simp add: cancelScan_def assms)

section \<open>Answers\<close>

lemma one_key: "distinct (map fst xs) \<Longrightarrow> (k, v) \<in> set xs \<Longrightarrow> length (filter (\<lambda>x. fst x = k) xs) = 1"
proof (induction xs)
  case (Cons x xs)
  show ?case
  proof (cases "fst x = k")
    case True
    have "fst y \<noteq> fst x" if "y \<in> set xs" for y using Cons.prems(1) that by (metis distinct.simps(2) imageI list.map(2) list.set_map)
    with True have "filter (\<lambda>x. fst x = k) xs = []" by (simp add: filter_empty_conv)
    with True show ?thesis by simp
  next
    case False
    with Cons.prems have "(k, v) \<in> set xs" by auto
    with Cons False show ?thesis by simp
  qed
qed simp

lemma delete_table:
  assumes "table_ok s" "map_of (dc_inFlight s) k = Some (rq, slot)"
  shows "table_ok (s\<lparr>dc_inFlight := AList.delete k (dc_inFlight s)\<rparr>)"
    and "slot \<noteq> OnScan \<Longrightarrow> scans (s\<lparr>dc_inFlight := AList.delete k (dc_inFlight s)\<rparr>) = scans s"
    and "slot = OnScan \<Longrightarrow> Suc (length (scans (s\<lparr>dc_inFlight := AList.delete k (dc_inFlight s)\<rparr>))) = length (scans s)"
proof -
  let ?xs = "dc_inFlight s"
  have d: "distinct (map fst ?xs)" using assms(1) by (simp add: table_ok_def)
  have eq: "AList.delete k ?xs = filter (\<lambda>x. fst x \<noteq> k) ?xs" by (auto simp: AList.delete_eq intro!: filter_cong)
  show "table_ok (s\<lparr>dc_inFlight := AList.delete k ?xs\<rparr>)"
    using assms(1) by (auto simp: table_ok_def eq distinct_map_filter)
  have mem: "(k, rq, slot) \<in> set ?xs" using assms(2) by (rule map_of_SomeD)
  have one: "x = (k, rq, slot)" if "x \<in> set ?xs" "fst x = k" for x
    using that mem d by (metis eq_key_imp_eq_value prod.collapse)
  show "scans (s\<lparr>dc_inFlight := AList.delete k ?xs\<rparr>) = scans s" if "slot \<noteq> OnScan"
    using one that by (auto simp: scans_def eq is_scan_def intro!: filter_cong)
  show "Suc (length (scans (s\<lparr>dc_inFlight := AList.delete k ?xs\<rparr>))) = length (scans s)" if "slot = OnScan"
  proof -
    have "distinct (map fst (filter is_scan ?xs))" "(k, rq, slot) \<in> set (filter is_scan ?xs)"
      using d mem that by (simp_all add: distinct_map_filter is_scan_def)
    then have "length (filter (\<lambda>x. fst x = k) (filter is_scan ?xs)) = 1" by (rule one_key)
    then show ?thesis using sum_length_filter_compl [of "\<lambda>x. fst x = k" "filter is_scan ?xs"]
      by (simp add: scans_def eq conj_commute)
  qed
qed

lemma answer_to_sweep:
  assumes "sweep_inv s" "map_of (dc_inFlight s) k = Some (rq, OnScan)"
  shows "sweep_inv (dc_step env (DcReply k rp) s)" "Suc (sweep_left (dc_step env (DcReply k rp) s)) = sweep_left s"
    "dc_scanning (dc_step env (DcReply k rp) s) \<longleftrightarrow> sweep_left (dc_step env (DcReply k rp) s) \<noteq> 0"
proof -
  define t where "t = s\<lparr>dc_inFlight := AList.delete k (dc_inFlight s)\<rparr>"
  have c: "counted s" and mem: "(k, rq, OnScan) \<in> set (scans s)"
    using assms by (auto simp: sweep_inv_def scans_def is_scan_def map_of_SomeD)
  then have on: "dc_scanning s" using assms(1) by (auto simp: sweep_inv_def split: if_splits)
  have tab: "table_ok s" using c by (simp add: counted_def)
  note del = delete_table(1,3) [OF tab assms(2), folded t_def]
  define u where "u = t\<lparr>dc_scanInFlight := dc_scanInFlight t - 1, dc_scanDone := dc_scanDone t + 1\<rparr>"
  have scans_u: "Suc (length (scans u)) = length (scans s)" using del(2) by (simp add: u_def scans_def)
  have u: "counted u" "dc_scanning u" "Suc (sweep_left u) = sweep_left s"
    using c on scans_u del(1) by (simp_all add: counted_def u_def sweep_left_def table_ok_def t_def)
  define v where "v = dc_emit ScanningChanged (snd (acceptRegisterReply env rq (answered (v_lib env) rq rp) u))"
  have v: "counted v \<and> sweep v = sweep u"
    unfolding v_def by (rule spares_counted [OF spares_then(1) [OF spares_accept] u(1)])
  have step: "dc_step env (DcReply k rp) s = pumpScanQueue env v"
    using assms(2) by (simp add: dc_finished_def onScanReplyFinished_def Let_def v_def u_def t_def)
  have on_v: "dc_scanning v" and left_v: "sweep_left v = sweep_left u" using v u(2) sweep_fields by blast+
  note pump = pumpScanQueue_inv [OF conjunct1 [OF v] on_v, of env]
  show "sweep_inv (dc_step env (DcReply k rp) s)" unfolding step by (rule pump(1))
  show "Suc (sweep_left (dc_step env (DcReply k rp) s)) = sweep_left s" unfolding step using pump(2) left_v u(3) by simp
  show "dc_scanning (dc_step env (DcReply k rp) s) \<longleftrightarrow> sweep_left (dc_step env (DcReply k rp) s) \<noteq> 0"
    unfolding step using pump(2,3) by simp
qed

lemma sweep_inv_step:
  assumes "sweep_inv s"
  shows "sweep_inv (dc_step env e s)"
proof (cases e)
  case (DcReply k rp)
  show ?thesis
  proof (cases "map_of (dc_inFlight s) k")
    case (Some c)
    then obtain rq slot where c: "map_of (dc_inFlight s) k = Some (rq, slot)" by (cases c) simp
    let ?t = "s\<lparr>dc_inFlight := AList.delete k (dc_inFlight s)\<rparr>"
    show ?thesis
    proof (cases "slot = OnScan")
      case False
      have "table_ok s" using assms by (simp add: sweep_inv_def counted_def)
      with delete_table(1,2) [OF this c] False have "spares s ?t" by (simp add: spares_def sweep_def)
      moreover have "spares ?t (dc_finished env rq slot rp' ?t)" for rp'
        using False by (cases slot) (simp_all add: dc_finished_def spares_onRegister spares_accept spares_onManual)
      ultimately have "spares s (dc_step env e s)" using c DcReply by (simp add: spares_trans)
      then show ?thesis by (rule spares_inv) (rule assms)
    qed (use answer_to_sweep(1) [OF assms] c DcReply in simp)
  qed (simp add: DcReply assms)
next
  case (DcDatagrams ds)
  have "spares s (if dc_socket s then s\<lparr>dc_pending := dc_pending s @ ds\<rparr> else s)" by (auto intro: spares_same)
  then have "spares s (dc_step env e s)" using spares_trans [OF _ spares_readDatagrams] by (simp only: DcDatagrams dc_step.simps)
  then show ?thesis by (rule spares_inv) (rule assms)
next
  case (DcRegister payload addr)
  have "spares s (dc_step env e s)" by (auto simp: DcRegister dc_registerPeer_def Let_def spares_upsert)
  then show ?thesis by (rule spares_inv) (rule assms)
next
  case DcRefresh
  have "spares s (dc_step env e s)" by (simp add: DcRefresh dc_refresh_def spares_start spares_announce)
  then show ?thesis by (rule spares_inv) (rule assms)
qed (use assms spares_inv in \<open>simp_all add: spares_inv [OF spares_start] spares_inv [OF spares_stop] spares_inv [OF spares_announce]
    spares_inv [OF spares_addDeviceAt] spares_inv [OF spares_emit(4)] scanSubnet_inv cancelScan_inv\<close>)

lemma sweep_inv_run: "sweep_inv s \<Longrightarrow> sweep_inv (dc_run evs s)"
  by (induction evs arbitrary: s) (auto simp: dc_run_def sweep_inv_step)

lemma sweep_inv_new: "sweep_inv (new_Discovery st dm)"
  by (simp add: sweep_inv_def counted_def new_Discovery_def table_ok_def scans_def ScanWindow_def)

text \<open>Answers to requests of the sweep, each in flight when its answer comes.\<close>

fun scan_answers :: "(disc_env \<times> nat \<times> reply) list \<Rightarrow> Discovery \<Rightarrow> bool" where
  "scan_answers [] s = True"
| "scan_answers ((env, k, rp) # answers) s =
     ((case map_of (dc_inFlight s) k of Some (rq, slot) \<Rightarrow> slot = OnScan | None \<Rightarrow> False)
      \<and> scan_answers answers (dc_step env (DcReply k rp) s))"

definition given :: "(disc_env \<times> nat \<times> reply) list \<Rightarrow> Discovery \<Rightarrow> Discovery" where
  "given answers s = dc_run (map (\<lambda>(env, k, rp). (env, DcReply k rp)) answers) s"

lemma answers_count:
  assumes "sweep_inv s" "dc_scanning s" "scan_answers answers s"
  shows "length answers \<le> sweep_left s \<and> (dc_scanning (given answers s) \<longleftrightarrow> length answers < sweep_left s)"
  using assms
proof (induction answers arbitrary: s)
  case Nil
  then show ?case by (simp add: given_def dc_run_def sweep_inv_def sweep_left_def)
next
  case (Cons x answers)
  obtain env k rp where x: "x = (env, k, rp)" by (cases x)
  let ?t = "dc_step env (DcReply k rp) s"
  obtain rq where k: "map_of (dc_inFlight s) k = Some (rq, OnScan)" and rest: "scan_answers answers ?t"
    using Cons.prems(3) by (auto simp: x split: option.splits)
  note one = answer_to_sweep [OF Cons.prems(1) k, of env rp]
  have step: "given (x # answers) s = given answers ?t" by (simp add: given_def dc_run_def x)
  show ?case
  proof (cases "dc_scanning ?t")
    case True
    with Cons.IH [OF one(1) True rest] one(2) show ?thesis unfolding step by auto
  next
    case False
    then have "scans ?t = []" using one(1) by (simp add: sweep_inv_def)
    have "answers = []"
    proof (cases answers)
      case (Cons y ys)
      then obtain rq' k' where "map_of (dc_inFlight ?t) k' = Some (rq', OnScan)"
        using rest by (cases y) (auto split: option.splits)
      then have "(k', rq', OnScan) \<in> set (scans ?t)" by (simp add: scans_def is_scan_def map_of_SomeD)
      with \<open>scans ?t = []\<close> show ?thesis by simp
    qed simp
    with False one(2,3) show ?thesis unfolding step by (simp add: given_def dc_run_def)
  qed
qed


lemma sweep_starts:
  assumes "sweep_inv s" "\<not> dc_scanning s" "sweep_of (localAddresses env) \<noteq> []"
  shows "dc_scanning (scanSubnet env s)"
proof -
  let ?t = "dc_emit ScanningChanged (s\<lparr>dc_scanQueue := sweep_of (localAddresses env), dc_scanTotal := int (length (sweep_of (localAddresses env))),
      dc_scanDone := 0, dc_scanInFlight := 0, dc_scanning := True\<rparr>)"
  have "counted ?t" using assms(1,2) by (simp add: sweep_inv_def counted_def table_ok_def scans_def dc_emit_def sweep_left_def)
  moreover have "dc_scanning ?t" by (simp add: dc_emit_def)
  ultimately have "dc_scanning (pumpScanQueue env ?t) \<longleftrightarrow> sweep_left ?t \<noteq> 0" by (rule pumpScanQueue_inv(3))
  then show ?thesis using assms(2,3) by (simp add: scanSubnet_def Let_def) (simp add: sweep_left_def dc_emit_def)
qed

lemma net_sweep: "sweep_of (localAddresses net_env) \<noteq> []"
proof -
  have addrs: "localAddresses net_env = [qs ''x.y'']" by (simp add: localAddresses_def net_env_def)
  have "fold add_prefix [qs ''x.y''] [] = [qs ''x.'']" by code_simp
  moreover have "qs ''x.'' @ number 1 \<noteq> qs ''x.y''" by code_simp
  moreover have "(1::int) \<in> set [1..254]" by (simp only: set_upto) simp
  ultimately have "qs ''http://'' @ qs ''x.'' @ number 1 \<in> set (sweep_of [qs ''x.y''])"
    unfolding sweep_of_def set_concat set_map Let_def by (intro UN_I [of "concat _"]) force+
  then show ?thesis unfolding addrs by auto
qed


end
