(* ===== verification/Discovery_Answers.thy ===== *)
theory Discovery_Answers
  imports Discovery_Demo
begin

text \<open>
  How much discovery answers: an announcement is a datagram anybody can forge, so what it makes this
  device send to the address written on it is bounded.
\<close>

section \<open>What only an answer changes\<close>

fun is_to_peer :: "sent_datagram \<Rightarrow> bool" where
  "is_to_peer (ToPeer a payload) = True"
| "is_to_peer (ToGroup i payload) = False"

definition echo :: "Discovery \<Rightarrow> (qstring, int) qhash \<times> (qstring \<times> int) list \<times> sent_datagram list \<times> (request \<times> dc_slot) list" where
  "echo s = (dc_lastResponse s, dc_answered s, filter is_to_peer (dc_sent s), filter (\<lambda>x. snd x = OnRegister) (dc_posted s))"

lemma echo_updates [simp]:
  "echo (dc_emit x s) = echo s" "echo (s\<lparr>dc_devices := dm\<rparr>) = echo s" "echo (s\<lparr>dc_settings := st\<rparr>) = echo s"
  "echo (s\<lparr>dc_pending := p\<rparr>) = echo s" "echo (s\<lparr>dc_inFlight := fl\<rparr>) = echo s" "echo (s\<lparr>dc_scanQueue := q\<rparr>) = echo s"
  "echo (s\<lparr>dc_scanInFlight := n\<rparr>) = echo s" "echo (s\<lparr>dc_manualPending := m\<rparr>) = echo s"
  by (simp_all add: echo_def dc_emit_def)

lemma echo_same:
  "dc_lastResponse t = dc_lastResponse s \<Longrightarrow> dc_answered t = dc_answered s \<Longrightarrow> dc_sent t = dc_sent s \<Longrightarrow> dc_posted t = dc_posted s
    \<Longrightarrow> echo t = echo s"
  by (simp add: echo_def)

lemma echo_fold: "(\<And>x t. echo (f x t) = echo t) \<Longrightarrow> echo (fold f xs s) = echo s"
  by (induction xs arbitrary: s) simp_all

lemma echo_upsert [simp]: "echo (dc_upsert env peer s) = echo s"
  by (simp add: dc_upsert_def Let_def case_prod_unfold)

lemma echo_probe [simp]: "slot \<noteq> OnRegister \<Longrightarrow> echo (probe env host prt scheme slot s) = echo s"
  by (simp add: probe_def dc_post_def echo_def)

lemma echo_probe_both [simp]: "slot \<noteq> OnRegister \<Longrightarrow> echo (probe_both env host prt slot s) = echo s"
  by (simp add: probe_both_def)

lemma echo_joinGroups [simp]: "echo (joinGroups env s) = echo s"
proof -
  have "echo (join_one env i t) = echo t" for i t by (auto simp: join_one_def intro: echo_same)
  then show ?thesis by (simp add: joinGroups_def echo_fold)
qed

lemma echo_sendAnnouncement [simp]: "echo (sendAnnouncement env b s) = echo s"
proof -
  have group: "echo (record_sent (ToGroup i payload) t) = echo t" for i payload t by (simp add: record_sent_def echo_def)
  then have "echo (snd (send_one env payload i acc)) = echo (snd acc)" for payload i acc
    by (cases acc) (simp add: send_one_def)
  then have "echo (snd (fold (send_one env payload) is acc)) = echo (snd acc)" for payload "is" acc
    by (induction "is" arbitrary: acc) simp_all
  then show ?thesis by (simp add: sendAnnouncement_def Let_def case_prod_unfold group)
qed

lemma echo_refreshManual [simp]: "echo (refreshManualDevices env s) = echo s"
proof -
  have "echo (refresh_one env endpoint t) = echo t" for endpoint t by (simp add: refresh_one_def Let_def split: option.split)
  then show ?thesis by (simp add: refreshManualDevices_def echo_fold)
qed

lemma echo_announce [simp]: "echo (announce env s) = echo s"
  by (simp add: announce_def Let_def)

lemma echo_start [simp]: "echo (dc_start env s) = echo s"
proof -
  have a: "echo (t\<lparr>dc_announceTimer := b\<rparr>) = echo t" "echo (t\<lparr>dc_running := b\<rparr>) = echo t"
    "echo (t\<lparr>dc_running := b, dc_announceTimer := b'\<rparr>) = echo t" "echo (t\<lparr>dc_socket := b, dc_pending := p\<rparr>) = echo t" for t b b' p
    by (rule echo_same; simp)+
  show ?thesis by (simp add: dc_start_def bindSocket_def a split: bool.split) (simp add: echo_def)
qed

lemma echo_stop [simp]: "echo (dc_stop s) = echo s"
  by (simp add: dc_stop_def echo_def dc_emit_def)

lemma echo_accept [simp]: "echo (snd (acceptRegisterReply env rq rp s)) = echo s"
  by (simp add: acceptRegisterReply_def Let_def split: option.split json.split)

lemma echo_onRegister [simp]: "echo (onRegisterFinished env rq rp s) = echo s"
  by (simp add: onRegisterFinished_def Let_def split: option.split json.split)

lemma echo_addDeviceAt [simp]: "echo (addDeviceAt env addr prt s) = echo s"
  by (simp add: addDeviceAt_def Let_def case_prod_unfold) (simp add: echo_def)

lemma echo_onManual [simp]: "echo (onManualReplyFinished env rq rp s) = echo s"
proof -
  define t where "t = s\<lparr>dc_manualPending := dc_manualPending s - 1\<rparr>"
  obtain found u where acc: "acceptRegisterReply env rq rp t = (found, u)" by fastforce
  have t: "echo t = echo s" by (simp add: t_def)
  then have u: "echo u = echo s" "echo t = echo s" using echo_accept [of env rq rp t] by (simp_all add: acc)
  have "echo (u\<lparr>dc_manualFound := True, dc_manualAlias := name, dc_settings := st\<rparr>) = echo s" for name st
    using u(1) by (simp add: echo_def)
  with u show ?thesis unfolding onManualReplyFinished_def Let_def t_def [symmetric] acc prod.case by (simp split: option.split)
qed

lemma echo_pump_loop [simp]: "echo (pump_loop env s) = echo s"
proof (induction env s rule: pump_loop.induct)
  case (1 env s)
  have "echo (pump_one env s) = echo s" by (simp add: pump_one_def Let_def)
  with 1 show ?case by (subst pump_loop.simps) simp
qed

lemma echo_finish [simp]: "echo (finishScan s) = echo s"
  by (simp add: finishScan_def) (simp add: echo_def)

lemma echo_pump [simp]: "echo (pumpScanQueue env s) = echo s"
  by (simp add: pumpScanQueue_def Let_def)

lemma echo_scan [simp]: "echo (scanSubnet env s) = echo s" "echo (cancelScan s) = echo s" "echo (onScanReplyFinished env rq rp s) = echo s"
proof -
  show "echo (scanSubnet env s) = echo s" by (simp add: scanSubnet_def Let_def) (simp add: echo_def)
  show "echo (cancelScan s) = echo s" by (simp add: cancelScan_def Let_def)
  have "echo (snd (acceptRegisterReply env rq rp (s\<lparr>dc_scanInFlight := a, dc_scanDone := b\<rparr>))) = echo s" for a b
    by (simp only: echo_accept) (simp add: echo_def)
  then show "echo (onScanReplyFinished env rq rp s) = echo s" by (simp add: onScanReplyFinished_def Let_def)
qed

section \<open>One answer\<close>

definition answers_to :: "qstring \<Rightarrow> (qstring \<times> int) list \<Rightarrow> nat" where
  "answers_to a xs = length (filter (\<lambda>x. fst x = a) xs)"

fun sent_to :: "qstring \<Rightarrow> sent_datagram \<Rightarrow> bool" where
  "sent_to a (ToPeer b payload) = (b = a)"
| "sent_to a (ToGroup i payload) = False"

definition sent_to_count :: "qstring \<Rightarrow> Discovery \<Rightarrow> nat" where
  "sent_to_count a s = length (filter (sent_to a) (dc_sent s))"

definition registrations :: "Discovery \<Rightarrow> nat" where
  "registrations s = length (filter (\<lambda>x. snd x = OnRegister) (dc_posted s))"

definition answered_since :: "int \<Rightarrow> qstring \<Rightarrow> Discovery \<Rightarrow> nat" where
  "answered_since T a s = (case map_of (dc_lastResponse s) a of Some t \<Rightarrow> if T \<le> t then 1 else 0 | None \<Rightarrow> 0)"

text \<open>
  The account of a window that began at \<open>T\<close> in the state \<open>s0\<close>: \<open>n\<close> times the table was forgotten.
\<close>

definition account :: "int \<Rightarrow> qstring \<Rightarrow> Discovery \<Rightarrow> Discovery \<Rightarrow> bool" where
  "account T a s0 s \<longleftrightarrow> (\<exists>new n. dc_answered s = dc_answered s0 @ new
     \<and> length (dc_lastResponse s) + MaxTrackedResponders * n \<le> length (dc_lastResponse s0) + length new
     \<and> answers_to a new \<le> n + answered_since T a s
     \<and> sent_to_count a s \<le> sent_to_count a s0 + answers_to a new \<and> registrations s \<le> registrations s0 + length new)"

lemma sent_to_filter: "filter (sent_to a) xs = filter (sent_to a) (filter is_to_peer xs)"
proof -
  have "sent_to a x \<Longrightarrow> is_to_peer x" for x by (cases x) simp_all
  then show ?thesis by (auto simp: filter_filter intro!: filter_cong)
qed

lemma echo_facts:
  assumes "echo t = echo s"
  shows "dc_lastResponse t = dc_lastResponse s" "dc_answered t = dc_answered s" "sent_to_count a t = sent_to_count a s"
    "registrations t = registrations s" "answered_since T a t = answered_since T a s"
  using assms sent_to_filter [of a "dc_sent t"] sent_to_filter [of a "dc_sent s"]
  by (simp_all add: echo_def sent_to_count_def registrations_def answered_since_def)

lemma account_echo: "echo t = echo s \<Longrightarrow> account T a s0 s \<Longrightarrow> account T a s0 t"
  unfolding account_def using echo_facts [of t s] by simp

lemma account_refl: "account T a s s"
  unfolding account_def by (rule exI [of _ "[]"], rule exI [of _ 0]) (simp add: answers_to_def)

definition small_table :: "Discovery \<Rightarrow> bool" where
  "small_table s \<longleftrightarrow> length (dc_lastResponse s) \<le> MaxTrackedResponders"

lemma respond_effect:
  assumes "\<not> cooling (v_now env) (address peer) s"
  defines "table \<equiv> (if length (dc_lastResponse s) \<ge> MaxTrackedResponders then [] else dc_lastResponse s)"
  shows "dc_lastResponse (respondTo env peer s) = AList.update (address peer) (v_now env) table"
    "dc_answered (respondTo env peer s) = dc_answered s @ [(address peer, v_now env)]"
    "sent_to_count a (respondTo env peer s) \<le> sent_to_count a s + (if address peer = a then 1 else 0)"
    "registrations (respondTo env peer s) \<le> Suc (registrations s)"
  using assms(1) by (simp_all add: respondTo_def Let_def table_def postRegister_def dc_post_def record_sent_def sent_to_count_def registrations_def)

lemma account_respondTo:
  assumes "account T a s0 s" "T \<le> v_now env" "v_now env < T + ResponseCooldownMs"
  shows "account T a s0 (respondTo env peer s)"
proof (cases "cooling (v_now env) (address peer) s")
  case False
  let ?t = "respondTo env peer s" and ?now = "v_now env"
  obtain new n where acc: "dc_answered s = dc_answered s0 @ new"
      "length (dc_lastResponse s) + MaxTrackedResponders * n \<le> length (dc_lastResponse s0) + length new"
      "answers_to a new \<le> n + answered_since T a s"
      "sent_to_count a s \<le> sent_to_count a s0 + answers_to a new" "registrations s \<le> registrations s0 + length new"
    using assms(1) unfolding account_def by blast
  note e = respond_effect [OF False]
  define more where "more = new @ [(address peer, ?now)]"
  have counts: "dc_answered ?t = dc_answered s0 @ more" "length more = Suc (length new)"
    "answers_to a more = answers_to a new + (if address peer = a then 1 else 0)"
    using e(2) acc(1) by (simp_all add: more_def answers_to_def)
  have fresh: "answered_since T a s = 0" if "address peer = a"
  proof (cases "map_of (dc_lastResponse s) a")
    case (Some t)
    then have "\<not> ?now - t < ResponseCooldownMs" using False that by (simp add: cooling_def)
    then show ?thesis using assms(2,3) Some by (simp add: answered_since_def)
  qed (simp add: answered_since_def)
  have now: "answered_since T a ?t = 1" if "address peer = a"
    using that assms(2) e(1) by (simp add: answered_since_def update_conv')
  have rest: "sent_to_count a ?t \<le> sent_to_count a s0 + answers_to a more" "registrations ?t \<le> registrations s0 + length more"
    using e(3) [of a] e(4) acc(4,5) counts by simp_all
  show ?thesis
  proof (cases "length (dc_lastResponse s) \<ge> MaxTrackedResponders")
    case True
    have "length (dc_lastResponse ?t) = 1" using True e(1) by simp
    moreover have "answers_to a more \<le> Suc n + answered_since T a ?t"
      using acc(3) counts(3) fresh now by (cases "address peer = a") (auto simp: answered_since_def split: option.splits if_splits)
    ultimately show ?thesis unfolding account_def using counts(1,2) rest acc(2) True
      by (intro exI [of _ more] exI [of _ "Suc n"]) (simp add: algebra_simps)
  next
    case room: False
    have "length (dc_lastResponse ?t) \<le> Suc (length (dc_lastResponse s))" using room e(1) by (simp add: length_alist_update)
    moreover have "answered_since T a ?t = answered_since T a s" if "address peer \<noteq> a"
      using that room e(1) by (simp add: answered_since_def update_conv')
    ultimately show ?thesis unfolding account_def using counts rest acc(2,3) fresh now
      by (intro exI [of _ more] exI [of _ n]) (cases "address peer = a", simp_all)
  qed
qed (use assms(1) in \<open>simp add: respondTo_def\<close>)

section \<open>Runs\<close>

lemma small_respondTo: "small_table s \<Longrightarrow> small_table (respondTo env peer s)"
  using respond_effect(1) [of env peer s]
  by (cases "cooling (v_now env) (address peer) s") (auto simp: small_table_def respondTo_def length_alist_update MaxTrackedResponders_def)

text \<open>Whatever answers keep and the rest does not touch, a step keeps.\<close>

lemma step_by_answers:
  assumes keeps: "\<And>s t. echo t = echo s \<Longrightarrow> P s \<Longrightarrow> P t"
    and answers: "\<And>s peer. P s \<Longrightarrow> P (respondTo env peer s)" and start: "P s"
  shows "P (dc_step env e s)"
proof -
  have payload: "P (handlePayload env payload addr t)" if "P t" for payload addr t
    using that answers keeps [OF echo_upsert] by (simp add: handlePayload_def Let_def)
  have one: "P (read_one env d t)" if "P t" for d t
    using that payload by (cases d) (auto simp: read_one_def split: option.split json.split)
  have many: "P t \<Longrightarrow> P (fold (read_one env) ds t)" for ds t
    by (induction ds arbitrary: t) (simp_all add: one)
  show ?thesis
  proof (cases e)
    case (DcDatagrams ds)
    have "P (s\<lparr>dc_pending := p\<rparr>)" for p by (rule keeps [OF _ start]) simp
    then show ?thesis using many start by (simp add: DcDatagrams readDatagrams_def)
  next
    case (DcReply k rp)
    have "echo (dc_step env e s) = echo s"
      by (auto simp: DcReply dc_finished_def split: option.split prod.split dc_slot.split)
    then show ?thesis by (rule keeps) (rule start)
  next
    case (DcRegister payload addr)
    have "echo (dc_step env e s) = echo s" by (simp add: DcRegister dc_registerPeer_def Let_def)
    then show ?thesis by (rule keeps) (rule start)
  next
    case DcRefresh
    have "echo (dc_step env e s) = echo s" by (simp add: DcRefresh dc_refresh_def)
    then show ?thesis by (rule keeps) (rule start)
  qed (use keeps [OF _ start] in simp_all)
qed

lemma small_echo: "echo t = echo s \<Longrightarrow> small_table s \<Longrightarrow> small_table t"
  using echo_facts(1) [of t s] by (simp add: small_table_def)

lemma small_run: "small_table s \<Longrightarrow> small_table (dc_run evs s)"
proof (induction evs arbitrary: s)
  case (Cons x evs)
  obtain env e where x: "x = (env, e)" by (cases x)
  have "small_table (dc_step env e s)"
    by (rule step_by_answers [OF small_echo small_respondTo Cons.prems])
  from Cons.IH [OF this] show ?case by (simp add: dc_run_def x)
qed (simp add: dc_run_def)

lemma account_run:
  assumes "account T a s0 s" "\<forall>(env, e) \<in> set evs. T \<le> v_now env \<and> v_now env < T + ResponseCooldownMs"
  shows "account T a s0 (dc_run evs s)"
  using assms
proof (induction evs arbitrary: s)
  case (Cons x evs)
  obtain env e where x: "x = (env, e)" by (cases x)
  have "account T a s0 (dc_step env e s)"
    by (rule step_by_answers [OF account_echo account_respondTo Cons.prems(1)]) (use Cons.prems(2) in \<open>simp_all add: x\<close>)
  from Cons.IH [OF this] Cons.prems(2) show ?case by (simp add: dc_run_def x)
qed (simp add: dc_run_def)

text \<open>
  C13. Forged announcements cannot turn the device into a reflector: within any ten seconds, of the \<open>N\<close> announcements answered
  in all, the answers to one address, and the datagrams sent to it, are at most two and one more for
  every 256 answers; no answer costs more than one datagram and one registration request; and the
  table that remembers the addresses never grows past 256.
\<close>

theorem reflector_bound:
  assumes "s = dc_run before (new_Discovery st dm)" and "t = dc_run evs s"
    and "\<forall>(env, e) \<in> set evs. T \<le> v_now env \<and> v_now env < T + ResponseCooldownMs"
  shows "\<exists>new. dc_answered t = dc_answered s @ new \<and> answers_to a new \<le> 2 + length new div 256
    \<and> sent_to_count a t \<le> sent_to_count a s + (2 + length new div 256)
    \<and> registrations t \<le> registrations s + length new \<and> length (dc_lastResponse t) \<le> 256"
proof -
  have small: "small_table s" unfolding assms(1) by (rule small_run) (simp add: small_table_def new_Discovery_def)
  obtain new n where n: "dc_answered t = dc_answered s @ new"
      "length (dc_lastResponse t) + MaxTrackedResponders * n \<le> length (dc_lastResponse s) + length new"
      "answers_to a new \<le> n + answered_since T a t" "sent_to_count a t \<le> sent_to_count a s + answers_to a new"
      "registrations t \<le> registrations s + length new"
    using account_run [OF account_refl assms(3), of a s] unfolding assms(2) [symmetric] account_def by blast
  have "256 * n \<le> 256 + length new" using n(2) small by (simp add: small_table_def MaxTrackedResponders_def)
  then have "n \<le> 1 + length new div 256" by linarith
  moreover have "answered_since T a t \<le> 1" by (simp add: answered_since_def split: option.split)
  ultimately have "answers_to a new \<le> 2 + length new div 256" using n(3) by linarith
  moreover have "small_table t" unfolding assms(2) by (rule small_run [OF small])
  ultimately show ?thesis using n(1,4,5) by (intro exI [of _ new]) (simp add: small_table_def MaxTrackedResponders_def)
qed

theorem reflector_bound_witness:
  "answers_to (qs ''g'') (dc_answered (dc_run [(net_env, DcStart), (net_env, DcDatagrams [(Some [1], qs ''g''), (Some [1], qs ''g'')])] net_new)) = 1
   \<and> (1::nat) \<le> 2 + 1 div 256"
proof -
  let ?evs = "[(net_env, DcStart), (net_env, DcDatagrams [(Some [1], qs ''g''), (Some [1], qs ''g'')])]"
  have now: "\<forall>(env, e) \<in> set ?evs. 0 \<le> v_now env \<and> v_now env < 0 + ResponseCooldownMs"
    by (simp add: net_env_def ResponseCooldownMs_def)
  have none: "net_new = dc_run [] (new_Discovery net_settings empty_devices)" "dc_answered net_new = []"
    by (simp_all add: dc_run_def net_new_def) (simp add: new_Discovery_def)
  have "\<exists>new. dc_answered (dc_run ?evs net_new) = dc_answered net_new @ new \<and> answers_to (qs ''g'') new \<le> 2 + length new div 256"
    using reflector_bound [OF none(1) refl now, of "qs ''g''"] by blast
  then show ?thesis using net_answered by (auto simp: none(2) answers_to_def)
qed

end
