(* ===== verification/Discovery_Listing.thy ===== *)
theory Discovery_Listing
  imports Discovery_Sweep Discovery_Answers
begin

text \<open>
  What discovery puts into the list of devices: never this device itself; what a probe learns over TLS
  only under the key that answered; and what a registration reply says, unchecked.
\<close>

section \<open>What only an upsert changes\<close>

definition rows_of :: "Discovery \<Rightarrow> DeviceInfo set" where
  "rows_of s = set (m_devices (dc_devices s))"

definition book :: "Discovery \<Rightarrow> DeviceModel \<times> AppSettings" where
  "book s = (dc_devices s, dc_settings s)"

lemma book_updates [simp]:
  "book (dc_emit x s) = book s" "book (record_sent d s) = book s" "book (s\<lparr>dc_pending := p\<rparr>) = book s"
  "book (s\<lparr>dc_inFlight := fl\<rparr>) = book s" "book (s\<lparr>dc_manualPending := m\<rparr>) = book s" "book (dc_post rq slot s) = book s"
  "book (s\<lparr>dc_scanQueue := q\<rparr>) = book s" "book (s\<lparr>dc_scanInFlight := n\<rparr>) = book s"
  by (simp_all add: book_def dc_emit_def record_sent_def dc_post_def)

lemma book_fold: "(\<And>x t. book (f x t) = book t) \<Longrightarrow> book (fold f xs s) = book s"
  by (induction xs arbitrary: s) simp_all

lemma book_probes [simp]: "book (probe env host prt scheme slot s) = book s" "book (probe_both env host prt slot s) = book s"
  by (simp_all add: probe_def probe_both_def)

lemma book_joinGroups [simp]: "book (joinGroups env s) = book s"
proof -
  have "book (join_one env i t) = book t" for i t by (simp add: join_one_def book_def)
  then show ?thesis by (simp add: joinGroups_def book_fold)
qed

lemma book_sendAnnouncement [simp]: "book (sendAnnouncement env b s) = book s"
proof -
  have "book (snd (send_one env payload i acc)) = book (snd acc)" for payload i acc by (cases acc) (simp add: send_one_def)
  then have "book (snd (fold (send_one env payload) is acc)) = book (snd acc)" for payload "is" acc
    by (induction "is" arbitrary: acc) simp_all
  then show ?thesis by (simp add: sendAnnouncement_def Let_def case_prod_unfold)
qed

lemma book_refreshManual [simp]: "book (refreshManualDevices env s) = book s"
proof -
  have "book (refresh_one env endpoint t) = book t" for endpoint t by (simp add: refresh_one_def Let_def split: option.split)
  then show ?thesis by (simp add: refreshManualDevices_def book_fold)
qed

lemma book_respondTo [simp]: "book (respondTo env peer s) = book s"
  by (simp add: respondTo_def Let_def postRegister_def) (simp add: book_def)

lemma book_addDeviceAt [simp]: "book (addDeviceAt env addr prt s) = book s"
  by (simp add: addDeviceAt_def Let_def case_prod_unfold) (simp add: book_def)

lemma book_pump_loop [simp]: "book (pump_loop env s) = book s"
proof (induction env s rule: pump_loop.induct)
  case (1 env s)
  have "book (pump_one env s) = book s" by (simp add: pump_one_def Let_def)
  with 1 show ?case by (subst pump_loop.simps) simp
qed

lemma book_finish [simp]: "book (finishScan s) = book s"
  by (simp add: finishScan_def) (simp add: book_def)

lemma book_pump [simp]: "book (pumpScanQueue env s) = book s"
  by (simp add: pumpScanQueue_def Let_def)

lemma book_scan [simp]: "book (scanSubnet env s) = book s" "book (cancelScan s) = book s"
proof -
  show "book (scanSubnet env s) = book s" by (simp add: scanSubnet_def Let_def) (simp add: book_def)
  show "book (cancelScan s) = book s" by (simp add: cancelScan_def Let_def)
qed

lemma book_fields: "book t = book s \<Longrightarrow> dc_devices t = dc_devices s \<and> dc_settings t = dc_settings s \<and> rows_of t = rows_of s"
  by (simp add: book_def rows_of_def)

lemma upsert_subset: "set (m_devices (snd (upsert lib kn now d dm))) \<subseteq> insert (d\<lparr>lastSeen := Some now\<rparr>) (set (m_devices dm))"
  using set_remove_at_subset [of _ "m_devices dm"] set_update_subset_insert [of "m_devices dm"]
  by (auto simp: upsert_def Let_def dm_remove_def signal_def set_insert_at split: option.split)

lemma rows_upsert: "rows_of (dc_upsert env peer s) \<subseteq> insert (peer\<lparr>lastSeen := Some (v_wall env)\<rparr>) (rows_of s)"
  "dc_settings (dc_upsert env peer s) = dc_settings s"
  using upsert_subset [of "v_lib env" "v_known env" "v_wall env" peer "dc_devices s"]
  by (simp_all add: dc_upsert_def Let_def case_prod_unfold rows_of_def dc_emit_def)

section \<open>This device itself\<close>

definition absent :: "qstring \<Rightarrow> Discovery \<Rightarrow> bool" where
  "absent fp s \<longleftrightarrow> settings_fingerprint (dc_settings s) = fp \<and> (\<forall>d \<in> rows_of s. fingerprint d \<noteq> fp)"

lemma absent_book: "book t = book s \<Longrightarrow> absent fp s \<Longrightarrow> absent fp t"
  using book_fields [of t s] by (simp add: absent_def)

lemma absent_upsert:
  "absent fp s \<Longrightarrow> fingerprint peer \<noteq> settings_fingerprint (dc_settings s) \<Longrightarrow> absent fp (dc_upsert env peer s)"
  using rows_upsert [of env peer s] by (auto simp: absent_def)

lemma absent_fewer:
  "absent fp s \<Longrightarrow> set (m_devices dm) \<subseteq> rows_of s \<Longrightarrow> absent fp (s\<lparr>dc_devices := dm\<rparr>)"
  by (auto simp: absent_def rows_of_def)

lemma fingerprint_addManual: "settings_fingerprint (addManualDevice lib endpoint st) = settings_fingerprint st"
  by (simp add: addManualDevice_def Let_def settings_fingerprint_def isEncrypted_def secureTransport_def flag_def settings_keys)
    (auto simp: tell_def setValue_def)

lemma reached_fields: "fingerprint (reached_at env url peer) = fingerprint peer" "address (reached_at env url peer) = url_host (v_url env) url"
  "protocol (reached_at env url peer) = url_scheme (v_url env) url"
  "0 < port peer \<Longrightarrow> port (reached_at env url peer) = port peer" "isValid (reached_at env url peer) = isValid peer"
  by (simp_all add: reached_at_def Let_def isValid_def)

text \<open>A reply either changes nothing or lists the peer it tells of.\<close>

lemma accept_cases:
  assumes "t = snd (acceptRegisterReply env rq rp s)"
  obtains (refused) "t = s"
    | (believed) ob where "\<not> rp_error rp" "j_parse (v_net env) (rp_body rp) = Some (JObject ob)"
        "isValid (fromPayload (v_lib env) ob)" "fingerprint (fromPayload (v_lib env) ob) \<noteq> settings_fingerprint (dc_settings s)"
        "rp_cert rp = [] \<or> fingerprintOf (v_lib env) (rp_cert rp) = []
          \<or> equalsFold (v_lib env) (fingerprintOf (v_lib env) (rp_cert rp)) (fingerprint (fromPayload (v_lib env) ob))"
        "t = dc_upsert env (reached_at env (rq_url rq) (fromPayload (v_lib env) ob)) s"
  using assms that
  by (auto simp: acceptRegisterReply_def Let_def observedFingerprint_def split: option.splits json.splits if_splits)

lemma absent_accept: "absent fp s \<Longrightarrow> absent fp (snd (acceptRegisterReply env rq rp s))"
  by (rule accept_cases [OF refl, of env rq rp s]) (simp_all add: absent_upsert reached_fields)

lemma absent_onRegister: "absent fp s \<Longrightarrow> absent fp (onRegisterFinished env rq rp s)"
  by (auto simp: onRegisterFinished_def Let_def absent_upsert reached_fields split: option.split json.split)

lemma absent_onManual:
  assumes "absent fp s"
  shows "absent fp (onManualReplyFinished env rq rp s)"
proof -
  define t where "t = s\<lparr>dc_manualPending := dc_manualPending s - 1\<rparr>"
  obtain found u where acc: "acceptRegisterReply env rq rp t = (found, u)" by fastforce
  have t: "absent fp t" using assms by (simp add: t_def absent_def rows_of_def)
  then have u: "absent fp u" using absent_accept [of fp t env rq rp] by (simp add: acc)
  have v: "absent fp (u\<lparr>dc_manualFound := True, dc_manualAlias := name, dc_settings := addManualDevice lib e (dc_settings u)\<rparr>)" for name lib e
    using u by (simp add: absent_def rows_of_def fingerprint_addManual)
  have ends: "absent fp (if dc_manualPending w > 0 then w else dc_emit x (dc_emit y w))" if "absent fp w" for w x y
    using that absent_book [of "dc_emit x (dc_emit y w)" w fp] by simp
  show ?thesis unfolding onManualReplyFinished_def Let_def t_def [symmetric] acc prod.case
    by (rule ends) (simp add: t u v split: option.split)
qed

lemma absent_announce:
  assumes "absent fp s"
  shows "absent fp (announce env s)"
proof -
  define t where "t = refreshManualDevices env (sendAnnouncement env True (joinGroups env s))"
  have "absent fp t" by (rule absent_book [OF _ assms]) (simp add: t_def)
  then have "absent fp (t\<lparr>dc_devices := dm_prune (v_wall env) DeviceMaxAgeSeconds (dc_devices t)\<rparr>)"
    by (rule absent_fewer) (auto simp: rows_of_def prune_filter)
  then show ?thesis by (simp add: announce_def t_def Let_def)
qed

lemma absent_start: "absent fp s \<Longrightarrow> absent fp (dc_start env s)"
proof -
  assume a: "absent fp s"
  let ?s1 = "s\<lparr>dc_socket := v_bind env, dc_pending := []\<rparr>"
  have "book (dc_emit RunningChanged (?s1\<lparr>dc_running := True, dc_announceTimer := True\<rparr>)) = book s" by (simp add: book_def dc_emit_def)
  moreover have "book (dc_emit RunningChanged ((joinGroups env (?s1\<lparr>dc_running := True\<rparr>))\<lparr>dc_announceTimer := True\<rparr>)) = book s"
    using book_joinGroups [of env "?s1\<lparr>dc_running := True\<rparr>"] by (simp add: book_def dc_emit_def)
  ultimately show ?thesis using a absent_book absent_announce
    by (cases "v_bind env") (auto simp: dc_start_def bindSocket_def)
qed

lemma absent_stop: "absent fp s \<Longrightarrow> absent fp (dc_stop s)"
  by (auto simp: dc_stop_def absent_def rows_of_def dc_emit_def dm_clear_def signal_def)

lemma absent_readDatagrams: "absent fp s \<Longrightarrow> absent fp (readDatagrams env s)"
proof -
  have payload: "absent fp (handlePayload env payload addr t)" if "absent fp t" for payload addr t
  proof -
    have "absent fp (respondTo env peer u)" if "absent fp u" for peer u by (rule absent_book [OF _ that]) simp
    with that show ?thesis by (simp add: handlePayload_def Let_def absent_upsert)
  qed
  have one: "absent fp (read_one env d t)" if "absent fp t" for d t
    using that payload by (cases d) (auto simp: read_one_def split: option.split json.split)
  have many: "absent fp t \<Longrightarrow> absent fp (fold (read_one env) ds t)" for ds t
    by (induction ds arbitrary: t) (simp_all add: one)
  assume a: "absent fp s"
  have "absent fp (s\<lparr>dc_pending := p\<rparr>)" for p by (rule absent_book [OF _ a]) simp
  with many a show ?thesis by (simp add: readDatagrams_def)
qed

lemma absent_reply:
  assumes "absent fp s"
  shows "absent fp (dc_finished env rq slot rp s)"
proof (cases slot)
  case OnScan
  define u where "u = s\<lparr>dc_scanInFlight := dc_scanInFlight s - 1, dc_scanDone := dc_scanDone s + 1\<rparr>"
  have "absent fp u" using assms by (simp add: u_def absent_def rows_of_def)
  then have "absent fp (snd (acceptRegisterReply env rq rp u))" by (rule absent_accept)
  then have "absent fp (pumpScanQueue env (dc_emit ScanningChanged (snd (acceptRegisterReply env rq rp u))))"
    by (rule absent_book [rotated]) simp
  then show ?thesis by (simp add: OnScan dc_finished_def onScanReplyFinished_def u_def)
qed (simp_all add: dc_finished_def assms absent_accept absent_onRegister absent_onManual)

lemma absent_step:
  assumes "absent fp s" "\<And>f st. e = DcSettings f \<Longrightarrow> settings_fingerprint (f st) = settings_fingerprint st"
  shows "absent fp (dc_step env e s)"
proof (cases e)
  case (DcReply k rp)
  have "absent fp (s\<lparr>dc_inFlight := fl\<rparr>)" for fl by (rule absent_book [OF _ assms(1)]) simp
  then show ?thesis using assms(1) by (auto simp: DcReply absent_reply split: option.split prod.split)
next
  case (DcDatagrams ds)
  have "absent fp (s\<lparr>dc_pending := p\<rparr>)" for p by (rule absent_book [OF _ assms(1)]) simp
  then show ?thesis using assms(1) by (simp add: DcDatagrams absent_readDatagrams)
next
  case (DcSettings f)
  then show ?thesis using assms by (simp add: absent_def rows_of_def)
next
  case (DcRegister payload addr)
  then show ?thesis using assms(1) absent_upsert [of fp s "(fromPayload (v_lib env) payload)\<lparr>address := addr\<rparr>" env]
    by (auto simp: dc_registerPeer_def Let_def)
qed (use assms(1) absent_book [OF _ assms(1)] in
    \<open>simp_all add: absent_start absent_stop dc_refresh_def absent_announce\<close>)

text \<open>
  C21. While its fingerprint stays the same, this device never appears in its own list: whatever arrives
  (its own announcement looped back by the multicast group, a registration, a reply that names its
  fingerprint) and whichever settings change that leave the fingerprint alone, no row carries it. The
  switch for encryption changes the fingerprint; \<open>toggled_key_is_listed\<close> shows what follows.
\<close>

theorem own_device_never_listed:
  assumes "\<forall>(env, e) \<in> set evs. \<forall>f. e = DcSettings f \<longrightarrow> (\<forall>st. settings_fingerprint (f st) = settings_fingerprint st)"
    and "d \<in> rows_of (dc_run evs (new_Discovery st empty_devices))"
  shows "fingerprint d \<noteq> settings_fingerprint st"
proof -
  have "absent fp s \<Longrightarrow> absent fp (dc_run evs s)" for fp s
    using assms(1)
  proof (induction evs arbitrary: s)
    case (Cons x evs)
    obtain env e where x: "x = (env, e)" by (cases x)
    have "absent fp (dc_step env e s)" by (rule absent_step [OF Cons.prems(1)]) (use Cons.prems(2) in \<open>auto simp: x\<close>)
    with Cons show ?case by (simp add: dc_run_def x)
  qed (simp add: dc_run_def)
  moreover have "absent (settings_fingerprint st) (new_Discovery st empty_devices)"
    by (simp add: absent_def new_Discovery_def rows_of_def empty_devices_def)
  ultimately show ?thesis using assms(2) unfolding absent_def by blast
qed

section \<open>What an introduction proves\<close>

lemma rows_book: "book t = book s \<Longrightarrow> rows_of t = rows_of s"
  using book_fields by blast

lemma rows_accept:
  assumes "d \<in> rows_of (snd (acceptRegisterReply env rq rp s))" "d \<notin> rows_of s"
  obtains ob where "\<not> rp_error rp" "j_parse (v_net env) (rp_body rp) = Some (JObject ob)"
    "rp_cert rp = [] \<or> fingerprintOf (v_lib env) (rp_cert rp) = []
      \<or> equalsFold (v_lib env) (fingerprintOf (v_lib env) (rp_cert rp)) (fingerprint (fromPayload (v_lib env) ob))"
    "d = (reached_at env (rq_url rq) (fromPayload (v_lib env) ob))\<lparr>lastSeen := Some (v_wall env)\<rparr>"
proof (rule accept_cases [OF refl, of env rq rp s])
  assume "snd (acceptRegisterReply env rq rp s) = s"
  with assms show thesis by simp
next
  fix ob
  let ?p = "reached_at env (rq_url rq) (fromPayload (v_lib env) ob)"
  assume b: "\<not> rp_error rp" "j_parse (v_net env) (rp_body rp) = Some (JObject ob)"
    "rp_cert rp = [] \<or> fingerprintOf (v_lib env) (rp_cert rp) = []
      \<or> equalsFold (v_lib env) (fingerprintOf (v_lib env) (rp_cert rp)) (fingerprint (fromPayload (v_lib env) ob))"
    and res: "snd (acceptRegisterReply env rq rp s) = dc_upsert env ?p s"
  have "d = ?p\<lparr>lastSeen := Some (v_wall env)\<rparr>" using assms subsetD [OF rows_upsert(1)] unfolding res by blast
  with that b show thesis by blast
qed

text \<open>The rows a reply to a probe adds come from \<open>acceptRegisterReply\<close>.\<close>

lemma rows_probe_reply:
  assumes "slot \<noteq> OnRegister" "d \<in> rows_of (dc_finished env rq slot rp s)" "d \<notin> rows_of s"
  obtains u where "rows_of u = rows_of s" "d \<in> rows_of (snd (acceptRegisterReply env rq rp u))"
proof (cases slot)
  case OnScan
  define u where "u = s\<lparr>dc_scanInFlight := dc_scanInFlight s - 1, dc_scanDone := dc_scanDone s + 1\<rparr>"
  have "dc_finished env rq slot rp s = pumpScanQueue env (dc_emit ScanningChanged (snd (acceptRegisterReply env rq rp u)))"
    by (simp add: OnScan dc_finished_def onScanReplyFinished_def u_def)
  moreover have "rows_of (pumpScanQueue env (dc_emit ScanningChanged (snd (acceptRegisterReply env rq rp u))))
      = rows_of (snd (acceptRegisterReply env rq rp u))" by (rule rows_book) simp
  ultimately show ?thesis using that [of u] assms(2) by (simp add: u_def rows_of_def)
next
  case OnManual
  define u where "u = s\<lparr>dc_manualPending := dc_manualPending s - 1\<rparr>"
  obtain found v where acc: "acceptRegisterReply env rq rp u = (found, v)" by fastforce
  have u: "rows_of u = rows_of s" by (simp add: u_def rows_of_def)
  have ends: "rows_of (if dc_manualPending w > 0 then w else dc_emit x (dc_emit y w)) = rows_of w" for w x y
    by (simp add: rows_of_def dc_emit_def)
  have "rows_of (dc_finished env rq slot rp s) = (if dc_manualFound u then rows_of u else rows_of v)"
    unfolding OnManual dc_finished_def dc_slot.case onManualReplyFinished_def Let_def u_def [symmetric] acc prod.case
    by (subst ends) (simp add: rows_of_def split: option.split)
  then have "d \<in> rows_of v" using assms(2,3) u by (simp split: if_splits)
  then show ?thesis using that [OF u] by (simp add: acc)
qed (use assms that in \<open>simp_all add: dc_finished_def\<close>)

text \<open>
  C14. An introduction over TLS is believed only under the key that answered it: a device that a reply to a probe (a sweep, a
  manual address or its refresh) puts on the list or updates carries the fingerprint of the very
  certificate the other side presented, case aside, and the address and the transport it was reached
  at, not the ones it claims.
\<close>

theorem introduction_is_checked:
  assumes "map_of (dc_inFlight s) k = Some (rq, slot)" and "slot \<noteq> OnRegister"
    and "fingerprintOf (v_lib env) (rp_cert rp) \<noteq> []"
    and "d \<in> rows_of (dc_step env (DcReply k rp) s)" and "d \<notin> rows_of s"
  shows "equalsFold (v_lib env) (fingerprintOf (v_lib env) (rp_cert rp)) (fingerprint d)
    \<and> address d = url_host (v_url env) (rq_url rq) \<and> protocol d = url_scheme (v_url env) (rq_url rq)"
proof -
  let ?t = "s\<lparr>dc_inFlight := AList.delete k (dc_inFlight s)\<rparr>" and ?rp = "answered (v_lib env) rq rp"
  have same: "rows_of ?t = rows_of s" by (simp add: rows_of_def)
  have cert: "rp_cert ?rp = rp_cert rp" by (simp add: answered_def refused_reply_def)
  have "d \<in> rows_of (dc_finished env rq slot ?rp ?t)" using assms(1,4) by simp
  with same obtain u where u: "rows_of u = rows_of s" "d \<in> rows_of (snd (acceptRegisterReply env rq ?rp u))"
    by (elim rows_probe_reply [OF assms(2)]) (simp_all add: assms(5))
  have "d \<notin> rows_of u" using u(1) assms(5) by simp
  from rows_accept [OF u(2) this] obtain ob where ob:
    "rp_cert ?rp = [] \<or> fingerprintOf (v_lib env) (rp_cert ?rp) = []
      \<or> equalsFold (v_lib env) (fingerprintOf (v_lib env) (rp_cert ?rp)) (fingerprint (fromPayload (v_lib env) ob))"
    "d = (reached_at env (rq_url rq) (fromPayload (v_lib env) ob))\<lparr>lastSeen := Some (v_wall env)\<rparr>" by blast
  moreover have "rp_cert rp \<noteq> []" using assms(3) by (auto simp: fingerprintOf_def)
  ultimately show ?thesis using assms(3) cert by (simp add: reached_fields)
qed

text \<open>
  The port a device was reached at is lost: whatever port a registration reply came from, a reply that
  names no port is listed under port 53317, because the payload reader fills the default in before the
  port of the URL is asked for. A device found at another port (typed in with its port, or swept at
  ours) is from then on addressed where it does not listen.
\<close>

theorem reached_port_is_lost:
  assumes "\<not> rp_error rp" and "j_parse (v_net env) (rp_body rp) = Some (JObject ob)" and "\<not> is_double (jvalue ob ''port'')"
    and "d \<in> rows_of (snd (acceptRegisterReply env rq rp s))" and "d \<notin> rows_of s"
  shows "port d = DefaultPort \<and> address d = url_host (v_url env) (rq_url rq)"
proof -
  have "port (fromPayload (v_lib env) ob) = DefaultPort" using assms(3) by (simp add: fromPayload_fields)
  moreover have "0 < DefaultPort" by (simp add: DefaultPort_def)
  moreover obtain ob' where "j_parse (v_net env) (rp_body rp) = Some (JObject ob')"
    "d = (reached_at env (rq_url rq) (fromPayload (v_lib env) ob'))\<lparr>lastSeen := Some (v_wall env)\<rparr>"
    by (rule rows_accept [OF assms(4,5)]) blast
  ultimately show ?thesis using assms(2) by (simp add: reached_fields)
qed

text \<open>
  C38. The reply to our own registration is believed unchecked: the request that answers an announcement is pinned to the
  announced fingerprint, but its reply is read without comparing the two, so a device that announces
  itself under its own key can answer with the fingerprint of another and is listed under it, at its
  own address. The same reply to a probe is refused.
\<close>

theorem register_reply_is_believed:
  assumes "\<not> rp_error rp" and "j_parse (v_net env) (rp_body rp) = Some (JObject ob)" and "peer = fromPayload (v_lib env) ob"
    and "isValid peer" and "fingerprint peer \<noteq> settings_fingerprint (dc_settings s)" and "url_host (v_url env) (rq_url rq) \<noteq> []"
    and "dm_inv (v_lib env) (dc_devices s)" and "\<not> blocked_by (v_lib env) (v_known env) (fingerprint peer)"
    and "length (m_devices (dc_devices s)) < MaxDevices"
    and "fingerprintOf (v_lib env) (rp_cert rp) \<noteq> []"
    and "\<not> equalsFold (v_lib env) (fingerprintOf (v_lib env) (rp_cert rp)) (fingerprint peer)"
  shows "(\<exists>d \<in> rows_of (onRegisterFinished env rq rp s). fingerprint d = fingerprint peer \<and> address d = url_host (v_url env) (rq_url rq))
    \<and> acceptRegisterReply env rq rp s = (None, s)"
proof -
  let ?p = "reached_at env (rq_url rq) peer"
  have p: "isValid ?p" "address ?p \<noteq> []" "fingerprint ?p = fingerprint peer" using assms(4,6) by (simp_all add: reached_fields)
  have "rows_of (onRegisterFinished env rq rp s) = rows_of (dc_upsert env ?p s)"
    using assms(1-5) by (simp add: onRegisterFinished_def Let_def)
  moreover have "rows_of (dc_upsert env ?p s) = set (m_devices (snd (upsert (v_lib env) (v_known env) (v_wall env) ?p (dc_devices s))))"
    by (simp add: dc_upsert_def Let_def case_prod_unfold rows_of_def dc_emit_def)
  ultimately have "?p\<lparr>lastSeen := Some (v_wall env)\<rparr> \<in> rows_of (onRegisterFinished env rq rp s)"
    using upsert_rows [OF assms(7) p(1,2)] assms(8,9) p(3) by simp
  then have "\<exists>d \<in> rows_of (onRegisterFinished env rq rp s). fingerprint d = fingerprint peer \<and> address d = url_host (v_url env) (rq_url rq)"
    by (rule bexI [rotated]) (simp add: reached_fields)
  moreover have "rp_cert rp \<noteq> []" using assms(10) by (auto simp: fingerprintOf_def)
  then have "acceptRegisterReply env rq rp s = (None, s)"
    using assms by (simp add: acceptRegisterReply_def Let_def observedFingerprint_def)
  ultimately show ?thesis ..
qed

section \<open>Witnesses\<close>

lemma net_rows: "net_seen s = [(fp, a, p)] \<Longrightarrow> \<exists>d. rows_of s = {d} \<and> fingerprint d = fp \<and> address d = a \<and> port d = p"
  by (auto simp: net_seen_def rows_of_def map_eq_Cons_conv)

lemma net_new_rows: "rows_of net_new = {}" "rows_of net_manual = {}"
proof -
  show "rows_of net_new = {}" by (simp add: rows_of_def net_new_def new_Discovery_def empty_devices_def)
  then show "rows_of net_manual = {}" using rows_book [OF book_addDeviceAt [of net_env "qs ''h''" 80 net_new]] by (simp add: net_manual_def)
qed

theorem own_device_never_listed_witness:
  "\<exists>d \<in> rows_of (dc_run [(net_env, DcRegister net_offer (qs ''g''))] net_new). fingerprint d \<noteq> settings_fingerprint net_settings"
proof -
  let ?evs = "[(net_env, DcRegister net_offer (qs ''g''))]"
  obtain d where "d \<in> rows_of (dc_run ?evs net_new)" using net_rows [OF net_registered] by (auto simp: dc_run_def)
  then show ?thesis using own_device_never_listed [of ?evs d net_settings] unfolding net_new_def by auto
qed

lemma net_hash: "fingerprintOf one_hash_qt [1] \<noteq> []"
  by (simp add: fingerprintOf_def sha256Hex_def one_hash_qt_def ascii_qt_def to_hex_def)

theorem introduction_is_checked_witness:
  "\<exists>d \<in> rows_of (dc_step net_env (DcReply 0 net_reply) net_manual). equalsFold one_hash_qt (fingerprintOf one_hash_qt [1]) (fingerprint d)"
proof -
  obtain d where d: "d \<in> rows_of (dc_step net_env (DcReply 0 net_reply) net_manual)" using net_rows [OF net_introduced] by auto
  obtain rq where rq: "map_of (dc_inFlight net_manual) 0 = Some (rq, OnManual)"
    using net_asked by (auto simp: map_eq_Cons_conv)
  have "equalsFold (v_lib net_env) (fingerprintOf (v_lib net_env) (rp_cert net_reply)) (fingerprint d)"
    using introduction_is_checked [OF rq _ _ d] net_hash net_new_rows(2) by (simp add: net_env_def net_reply_def)
  with d show ?thesis by (auto simp: net_env_def net_reply_def)
qed

text \<open>The same network where no document names a port, and one where every document is another's.\<close>

definition portless_env :: disc_env where
  "portless_env = net_env\<lparr>v_net := \<lparr>u_target = (\<lambda>_. ([], [])), j_text = (\<lambda>_. []),
     j_parse = (\<lambda>_. Some (JObject [(qs ''fingerprint'', JString (qs ''01''))]))\<rparr>\<rparr>"

definition other_env :: disc_env where
  "other_env = net_env\<lparr>v_net := \<lparr>u_target = (\<lambda>_. ([], [])), j_text = (\<lambda>_. []),
     j_parse = (\<lambda>_. Some (JObject [(qs ''fingerprint'', JString (qs ''02''))]))\<rparr>\<rparr>"

definition net_request :: request where
  "net_request = \<lparr>rq_url = [], rq_query = [], rq_identity = None, rq_policy = PinTo (qs ''01''), rq_body = NoBody\<rparr>"

lemma portless_seen: "net_seen (snd (acceptRegisterReply portless_env net_request net_reply net_new)) = [(qs ''01'', qs ''h'', DefaultPort)]"
  by code_simp

theorem reached_port_is_lost_witness:
  "\<exists>d \<in> rows_of (snd (acceptRegisterReply portless_env net_request net_reply net_new)).
     port d = DefaultPort \<and> url_port (v_url portless_env) (rq_url net_request) DefaultPort = 8080"
proof -
  obtain d where d: "d \<in> rows_of (snd (acceptRegisterReply portless_env net_request net_reply net_new))"
    using net_rows [OF portless_seen] by auto
  have "port d = DefaultPort"
    using reached_port_is_lost [OF _ _ _ d, of "[(qs ''fingerprint'', JString (qs ''01''))]"] net_new_rows(1)
    by (simp add: portless_env_def net_env_def net_reply_def jvalue_def qs_def)
  with d show ?thesis by (auto simp: portless_env_def net_env_def)
qed

lemma other_peer: "fingerprint (fromPayload one_hash_qt [(qs ''fingerprint'', JString (qs ''02''))]) = qs ''02''"
  by code_simp

lemma other_differs: "\<not> equalsFold one_hash_qt (fingerprintOf one_hash_qt [1]) (qs ''02'')" "settings_fingerprint net_settings \<noteq> qs ''02''"
  by code_simp+

theorem register_reply_is_believed_witness:
  "\<exists>d \<in> rows_of (onRegisterFinished other_env net_request net_reply net_new). fingerprint d = qs ''02''"
proof -
  let ?ob = "[(qs ''fingerprint'', JString (qs ''02''))]"
  have "dm_inv (v_lib other_env) (dc_devices net_new)"
    by (simp add: net_new_def new_Discovery_def dm_inv_empty)
  moreover have "length (m_devices (dc_devices net_new)) < MaxDevices"
    by (simp add: net_new_def new_Discovery_def empty_devices_def MaxDevices_def)
  ultimately show ?thesis
    using register_reply_is_believed [of net_reply other_env ?ob "fromPayload one_hash_qt ?ob" net_new net_request] other_peer other_differs net_hash
    by (simp add: other_env_def net_env_def net_reply_def net_request_def isValid_def net_new_def new_Discovery_def blocked_by_def) auto
qed

section \<open>The switch for encryption\<close>

text \<open>
  Turning encryption off and on again makes the device another one and back, while discovery and the
  list go on: in between its own earlier announcement, looped back by the group, is another device's,
  and it stays in the list.
\<close>

definition own_settings :: AppSettings where
  "own_settings = net_settings\<lparr>as_identity := \<lparr>c_certificate = [1], c_key = [1], c_fingerprint = qs ''01'', c_lastError = []\<rparr>\<rparr>"

definition encryption :: "bool \<Rightarrow> AppSettings \<Rightarrow> AppSettings" where
  "encryption enabled st = (if enabled = secureTransport st then st
     else tell SecureTransportChanged ((setValue KeySecureTransport (VBool enabled) st)\<lparr>as_transportError := (if enabled then [] else as_transportError st)\<rparr>))"

lemma encryption_switch:
  "identity_valid (as_identity st) \<Longrightarrow> fst (setSecureTransport lib ev pem sys made saves store enabled st dr) = encryption enabled st"
  by (simp add: setSecureTransport_def encryption_def ensureIdentity_def setValue_def Let_def)

definition toggled :: Discovery where
  "toggled = dc_run [(net_env, DcStart), (net_env, DcSettings (encryption False)), (net_env, DcDatagrams [(Some [1], qs ''g'')]),
     (net_env, DcSettings (encryption True))] (new_Discovery own_settings empty_devices)"

definition listed_as :: "Discovery \<Rightarrow> qstring \<times> (qstring \<times> qstring \<times> int) list" where
  "listed_as s = (settings_fingerprint (dc_settings s), net_seen s)"

lemma toggled_listed: "listed_as toggled = (qs ''01'', [(qs ''01'', qs ''g'', 80)])"
  by code_simp

theorem toggled_key_is_listed:
  "settings_fingerprint own_settings = qs ''01'' \<and> settings_fingerprint (dc_settings toggled) = qs ''01''
    \<and> net_seen toggled = [(qs ''01'', qs ''g'', 80)]"
proof -
  have "settings_fingerprint own_settings = qs ''01''" by code_simp
  then show ?thesis using toggled_listed by (simp add: listed_as_def)
qed

end
