(* ===== verification/Handshake.thy ===== *)
theory Handshake
  imports Receive_Waiting Receive_Demo Send_Claims
begin

text \<open>
  The handshake between the sender on one device and the receiver on another: what the answer to an
  accepted request grants is what the sender's uploads ask for.
\<close>

section \<open>The tokens of an accepted request\<close>

definition agrees :: "ReceiveService \<Rightarrow> jobject \<Rightarrow> bool" where
  "agrees s ob \<longleftrightarrow> (\<forall>k. map_of ob k = map_option JString (map_of (rs_tokens s) k))"

definition recv_ids :: "ReceiveService \<Rightarrow> qstring list" where
  "recv_ids s = map fe_id (m_files (rs_transfer s))"

definition recv_states :: "ReceiveService \<Rightarrow> FileStatus list" where
  "recv_states s = map fe_status (m_files (rs_transfer s))"

text \<open>What handing out the tokens leaves alone.\<close>

definition same_offer :: "ReceiveService \<Rightarrow> ReceiveService \<Rightarrow> bool" where
  "same_offer s t \<longleftrightarrow> recv_ids t = recv_ids s \<and> recv_states t = recv_states s \<and> rs_sessionId t = rs_sessionId s
     \<and> rs_sessionAddress t = rs_sessionAddress s"

lemma same_offer_file: "same_offer s t \<Longrightarrow> length (m_files (rs_transfer t)) = length (m_files (rs_transfer s))"
  by (metis length_map recv_ids_def same_offer_def)

lemma map_update_same: "f y = f (xs ! i) \<Longrightarrow> i < length xs \<Longrightarrow> map f (xs[i := y]) = map f xs"
  by (metis length_map list_update_id map_update nth_map)

lemma issue_token_row:
  assumes "row < file_count s" "agrees s ob" "issue_token row (s, ob) = (t, ob')"
  shows "same_offer s t \<and> agrees t ob' \<and> dom (map_of (rs_tokens t)) = insert (recv_ids s ! row) (dom (map_of (rs_tokens s)))"
proof -
  obtain tok r where g: "generateToken (rs_rng s) = (tok, r)" by fastforce
  have files: "m_files (rs_transfer t) = (m_files (rs_transfer s))[row := (m_files (rs_transfer s) ! row)\<lparr>token := tok\<rparr>]"
    and tokens: "rs_tokens t = AList.update (recv_ids s ! row) tok (rs_tokens s)" "ob' = json_put (recv_ids s ! row) (JString tok) ob"
    and rest: "rs_sessionId t = rs_sessionId s" "rs_sessionAddress t = rs_sessionAddress s"
    using assms g by (auto simp: issue_token_def Let_def on_transfer_def setFileToken_def row_ok_def file_count_def recv_ids_def row_entry_def
        update_file_def)
  moreover have "agrees t ob'" using assms(2) tokens by (auto simp: agrees_def update_conv')
  moreover have "dom (map_of (rs_tokens t)) = insert (recv_ids s ! row) (dom (map_of (rs_tokens s)))"
    using tokens by (simp add: update_conv' dom_fun_upd)
  ultimately show ?thesis
    using assms(1) by (auto simp: same_offer_def recv_ids_def recv_states_def map_update_same file_count_def)
qed

text \<open>All rows, one after the other.\<close>

lemma issue_tokens:
  assumes "n \<le> file_count s" "agrees s ob" "fold issue_token [0..<n] (s, ob) = (t, ob')"
  shows "same_offer s t \<and> agrees t ob' \<and> dom (map_of (rs_tokens t)) = set (take n (recv_ids s)) \<union> dom (map_of (rs_tokens s))"
  using assms
proof (induction n arbitrary: t ob')
  case (Suc n)
  obtain u ob1 where u: "fold issue_token [0..<n] (s, ob) = (u, ob1)" by fastforce
  then have one: "issue_token n (u, ob1) = (t, ob')" using Suc.prems(3) by simp
  have IH: "same_offer s u" "agrees u ob1" "dom (map_of (rs_tokens u)) = set (take n (recv_ids s)) \<union> dom (map_of (rs_tokens s))"
    using Suc.IH [OF _ assms(2) u] Suc.prems(1) by simp_all
  have n: "n < file_count u" "n < length (recv_ids s)"
    using Suc.prems(1) same_offer_file [OF IH(1)] by (simp_all add: file_count_def recv_ids_def)
  have ids: "recv_ids u = recv_ids s" using IH(1) by (simp add: same_offer_def)
  have "same_offer u t \<and> agrees t ob' \<and> dom (map_of (rs_tokens t)) = insert (recv_ids s ! n) (dom (map_of (rs_tokens u)))"
    using issue_token_row [OF n(1) IH(2) one] ids by simp
  moreover have "set (take (Suc n) (recv_ids s)) = insert (recv_ids s ! n) (set (take n (recv_ids s)))"
    using n(2) by (simp add: take_Suc_conv_app_nth)
  ultimately show ?case using IH by (simp add: same_offer_def)
qed (auto simp: same_offer_def)

section \<open>The first upload\<close>

text \<open>A row that still waits has the token of the answer.\<close>

definition knows :: "jobject \<Rightarrow> FileEntry \<Rightarrow> bool" where
  "knows tokens f \<longleftrightarrow> (fe_status f = FileWaiting \<longrightarrow> token f = to_string (jvalue_at tokens (fe_id f)) \<and> token f \<noteq> [])"

definition send_ids :: "SendService \<Rightarrow> qstring list" where
  "send_ids s = map fe_id (sd_files s)"

lemma send_ids_status [simp]: "send_ids (sd_status env row st err s) = send_ids s"
  by (simp add: send_ids_def files_status map_update_same)

lemma knows_status:
  assumes "st \<noteq> FileWaiting" "\<forall>f \<in> set (sd_files s). knows tokens f"
  shows "\<forall>f \<in> set (sd_files (sd_status env row st err s)). knows tokens f"
  using assms by (auto simp: files_status knows_def dest!: set_update_subset_insert [THEN subsetD])

lemma note_token_row:
  assumes "n < length (sd_files s)" "\<forall>f \<in> set (take n (sd_files s)). knows tokens f" "note_token env tokens n (s, a) = (t, b)"
  shows "send_ids t = send_ids s \<and> sd_sessionId t = sd_sessionId s \<and> sd_reply t = sd_reply s
    \<and> (\<forall>f \<in> set (take (Suc n) (sd_files t)). knows tokens f)"
proof -
  obtain g where g: "sd_files t = (sd_files s)[n := g]" "fe_id g = fe_id (sd_files s ! n)" "knows tokens g"
    using assms(1,3) by (auto simp: note_token_def Let_def files_status files_token knows_def split: if_splits)
  have "sd_sessionId t = sd_sessionId s \<and> sd_reply t = sd_reply s"
    using assms(3) by (auto simp: note_token_def Let_def sd_status_def on_tm_def split: if_splits)
  moreover have "take (Suc n) (sd_files t) = take n (sd_files s) @ [g]"
    using assms(1) g(1) by (simp add: take_Suc_conv_app_nth)
  ultimately show ?thesis using g assms(1,2) by (auto simp: send_ids_def map_update_same)
qed

lemma note_tokens:
  assumes "n \<le> length (sd_files s)" "fold (note_token env tokens) [0..<n] (s, a) = (t, b)"
  shows "send_ids t = send_ids s \<and> sd_sessionId t = sd_sessionId s \<and> sd_reply t = sd_reply s
    \<and> (\<forall>f \<in> set (take n (sd_files t)). knows tokens f)"
  using assms
proof (induction n arbitrary: t b)
  case (Suc n)
  obtain u c where u: "fold (note_token env tokens) [0..<n] (s, a) = (u, c)" by fastforce
  then have one: "note_token env tokens n (u, c) = (t, b)" using Suc.prems(2) by simp
  note IH = Suc.IH [OF _ u]
  have "n < length (sd_files u)" using IH Suc.prems(1) by (metis Suc_leD Suc_le_eq length_map send_ids_def)
  from note_token_row [OF this _ one] IH Suc.prems(1) show ?case by simp
qed simp

text \<open>Request \<open>rq\<close> uploads row \<open>j\<close> of \<open>s\<close> with the token of the answer.\<close>

definition asks_with :: "jobject \<Rightarrow> SendService \<Rightarrow> nat \<Rightarrow> request \<Rightarrow> bool" where
  "asks_with tokens s j rq \<longleftrightarrow> j < length (send_ids s)
     \<and> (let i = send_ids s ! j; t = to_string (jvalue_at tokens i)
        in t \<noteq> [] \<and> rq_query rq = [(''sessionId'', sd_sessionId s), (''fileId'', i), (''token'', t)])"

lemma asks_with_cong: "send_ids t = send_ids s \<Longrightarrow> sd_sessionId t = sd_sessionId s \<Longrightarrow> asks_with tokens t j rq \<Longrightarrow> asks_with tokens s j rq"
  by (simp add: asks_with_def)

lemma upload_row_asks:
  assumes "row < length (sd_files s)" "knows tokens (sd_files s ! row)" "fe_status (sd_files s ! row) = FileWaiting"
  shows "\<exists>k rq. sd_reply (upload_row env (int row) s) = Some k
    \<and> map_of (sd_inFlight (upload_row env (int row) s)) k = Some (rq, OnUpload (int row)) \<and> asks_with tokens s row rq"
proof -
  have "token (sd_files s ! row) = to_string (jvalue_at tokens (fe_id (sd_files s ! row)))" "token (sd_files s ! row) \<noteq> []"
    using assms(2,3) unfolding knows_def by blast+
  with assms(1) show ?thesis
    by (auto simp: upload_row_def Let_def post_def asks_with_def upload_request_def send_ids_def update_conv'
        files_status sd_status_def on_tm_def)
qed

lemma reply_completeTransfer: "sd_reply (completeTransfer env s) = sd_reply s"
proof -
  have "sd_reply (writeHistory env t) = sd_reply t" for t by (simp add: writeHistory_def Let_def split: prod.split)
  then show ?thesis by (simp add: completeTransfer_def Let_def sd_emit_def sd_state_def on_tm_def)
qed

lemma startNextFile_asks:
  assumes "\<forall>f \<in> set (sd_files s). knows tokens f" "sd_reply s = None" "sd_reply (startNextFile env s) = Some k"
  shows "\<exists>rq j. map_of (sd_inFlight (startNextFile env s)) k = Some (rq, OnUpload (int j)) \<and> asks_with tokens s j rq"
  using assms
proof (induction env s arbitrary: k rule: startNextFile.induct)
  case (1 env s0)
  define s where "s = closeCurrentFile s0"
  define row where "row = next_row (sd_files s) (nat (sd_currentRow s + 1))"
  define s1 where "s1 = s\<lparr>sd_currentRow := int row\<rparr>"
  let ?t = "sd_status env (int row) FileFailed (n_tr env ''Could not open the file'' []) s1"
  have eq: "startNextFile env s0 = (if sd_cancelled s then s else if row \<ge> length (sd_files s) then completeTransfer env s
      else if \<not> n_open env (localPath (sd_files s1 ! row)) then startNextFile env ?t else upload_row env (int row) s1)"
    by (subst startNextFile.simps) (simp add: Let_def flip: s_def row_def s1_def)
  have s: "sd_files s = sd_files s0" "send_ids s1 = send_ids s0" "sd_sessionId s1 = sd_sessionId s0" "sd_reply s = None"
    "sd_files s1 = sd_files s0" "sd_reply s1 = None"
    using "1.prems"(2) by (simp_all add: s_def s1_def send_ids_def closeCurrentFile_def)
  have t: "send_ids ?t = send_ids s0" "sd_sessionId ?t = sd_sessionId s0" "sd_reply ?t = None"
    by (simp add: s(2)) (simp_all add: sd_status_def on_tm_def s(3,6))
  consider "row < length (sd_files s)" "\<not> sd_cancelled s" "\<not> n_open env (localPath (sd_files s1 ! row))"
    | "row < length (sd_files s)" "\<not> sd_cancelled s" "n_open env (localPath (sd_files s1 ! row))"
    using "1.prems"(3) s(4) reply_completeTransfer [of env s] unfolding eq by (auto split: if_splits)
  then show ?case
  proof cases
    case 1
    have known: "\<forall>f \<in> set (sd_files ?t). knows tokens f"
      by (rule knows_status) (simp_all add: s(5) "1.prems"(1))
    have "startNextFile env s0 = startNextFile env ?t" using eq 1 by simp
    with "1.IH" [OF s_def _ row_def _ s1_def] 1 known t "1.prems"(3) show ?thesis
      using asks_with_cong [OF t(1,2)] by (metis linorder_not_less)
  next
    case 2
    have "startNextFile env s0 = upload_row env (int row) s1" using eq 2 by simp
    moreover have "fe_status (sd_files s1 ! row) = FileWaiting" "knows tokens (sd_files s1 ! row)"
      using next_row_waiting [of "sd_files s"] 2(1) "1.prems"(1) s(1,5) by (simp_all add: row_def)
    ultimately show ?thesis
      using upload_row_asks [of row s1 tokens env] 2(1) s(1,5) "1.prems"(3) asks_with_cong [OF s(2,3)] by fastforce
  qed
qed

lemma reply_ends: "sd_reply (failTransfer env m s) = sd_reply s" "sd_reply (nothing_to_send env s) = sd_reply s"
proof -
  have w: "sd_reply (writeHistory env t) = sd_reply t" for t by (simp add: writeHistory_def Let_def split: prod.split)
  have f: "sd_reply (fold (skip_waiting env which) xs t) = sd_reply t" for which xs t
    by (induction xs arbitrary: t) (simp_all add: skip_waiting_def sd_status_def on_tm_def)
  show "sd_reply (failTransfer env m s) = sd_reply s" "sd_reply (nothing_to_send env s) = sd_reply s"
    by (simp_all add: failTransfer_def nothing_to_send_def Let_def sd_emit_def sd_state_def on_tm_def closeCurrentFile_def w f)
qed

lemma onAccepted_asks:
  assumes "sd_reply s = None" "sd_reply (onAccepted env rp s) = Some k" "j_parse (n_net env) (rp_body rp) = Some (JObject response)"
  shows "\<exists>rq j. map_of (sd_inFlight (onAccepted env rp s)) k = Some (rq, OnUpload (int j))
    \<and> asks_with (to_object (jvalue response ''files'')) (s\<lparr>sd_sessionId := to_string (jvalue response ''sessionId'')\<rparr>) j rq
    \<and> to_string (jvalue response ''sessionId'') \<noteq> []"
proof -
  define s1 where "s1 = s\<lparr>sd_sessionId := to_string (jvalue response ''sessionId'')\<rparr>"
  define tokens where "tokens = to_object (jvalue response ''files'')"
  obtain s2 accepted where f: "fold (note_token env tokens) [0..<length (sd_files s1)] (s1, 0) = (s2, accepted)" by fastforce
  define s3 where "s3 = (sd_state env Active [] s2)\<lparr>sd_currentRow := -1\<rparr>"
  define out where "out = onAccepted env rp s"
  have out: "out = (if sd_sessionId s1 = [] \<or> tokens = []
      then failTransfer env (n_tr env ''%1 sent an unreadable reply'' [dev_alias (sd_peer s)]) s1
      else if accepted = 0 then nothing_to_send env s2 else startNextFile env s3)"
    unfolding out_def onAccepted_def Let_def assms(3) by (simp flip: s1_def tokens_def add: f s3_def)
  have n: "send_ids s2 = send_ids s1" "sd_sessionId s2 = sd_sessionId s1" "sd_reply s2 = None"
    "\<forall>f \<in> set (take (length (sd_files s1)) (sd_files s2)). knows tokens f"
    using note_tokens [OF order_refl f] assms(1) by (simp_all add: s1_def)
  have files: "sd_files s3 = sd_files s2" "send_ids s3 = send_ids s1" "sd_sessionId s3 = sd_sessionId s1" "sd_reply s3 = None"
    using n by (simp_all add: s3_def send_ids_def)
  have "length (sd_files s2) = length (sd_files s1)" using n(1) by (metis length_map send_ids_def)
  then have known: "\<forall>f \<in> set (sd_files s3). knows tokens f" using n(4) files(1) by simp
  have go: "sd_sessionId s1 \<noteq> []" "out = startNextFile env s3"
    using assms(2) reply_ends n(3) assms(1) unfolding out_def [symmetric] out by (auto simp: s1_def split: if_splits)
  have "\<exists>rq j. map_of (sd_inFlight out) k = Some (rq, OnUpload (int j)) \<and> asks_with tokens s3 j rq"
    using startNextFile_asks [OF known files(4), of env k] assms(2) by (simp flip: go(2) out_def)
  then show ?thesis
    using go(1) asks_with_cong [OF files(2,3)] unfolding out_def [symmetric] s1_def [symmetric] tokens_def [symmetric]
    by (fastforce simp: s1_def)
qed

section \<open>The answer of the receiver\<close>

text \<open>The session as \<open>accept\<close> opens it, and the JSON object it answers.\<close>

definition opened :: "recv_env \<Rightarrow> qstring \<Rightarrow> ReceiveService \<Rightarrow> ReceiveService" where
  "opened env addr s =
     (let (directory, s0) = prepareDirectory env s; (sid, g) = generateToken (rs_rng s0)
      in s0\<lparr>rs_rng := g, rs_sessionId := sid, rs_sessionAddress := addr, rs_sessionDirectory := directory, rs_tokens := []\<rparr>)"

definition granted :: "recv_env \<Rightarrow> qstring \<Rightarrow> ReceiveService \<Rightarrow> jobject" where
  "granted env addr s =
     (let s1 = opened env addr s; (s2, tokens) = fold issue_token [0..<file_count s1] (s1, [])
      in jinsert ''files'' (JObject tokens) (jinsert ''sessionId'' (JString (rs_sessionId s1)) []))"

lemma conns_issue_tokens: "rs_conns (fst (fold issue_token xs so)) = rs_conns (fst so)"
proof (induction xs arbitrary: so)
  case (Cons r xs)
  have "rs_conns (fst (issue_token r so)) = rs_conns (fst so)"
    by (cases so) (simp add: issue_token_def Let_def on_transfer_def split: prod.split)
  with Cons.IH [of "issue_token r so"] show ?case by simp
qed simp

lemma prepareDirectory_keeps_session:
  "rs_conns (snd (prepareDirectory env s)) = rs_conns s" "rs_transfer (snd (prepareDirectory env s)) = rs_transfer s"
  using prepareDirectory_cases [of env s] by (auto simp: set_file_def)

lemma accept_grants:
  assumes "pending_conn r = Some (p, c)" "fst (prepareDirectory env r) \<noteq> []"
  shows "rs_conns (accept env r) p = Some (respondJson (e_net env) (e_now env) 200 (granted env (h_peerAddress c) r) c)"
    and "recv_ids (accept env r) = recv_ids r" "recv_states (accept env r) = recv_states r"
    and "rs_sessionAddress (accept env r) = h_peerAddress c"
    and "rs_sessionId (accept env r) = to_string (jvalue (granted env (h_peerAddress c) r) ''sessionId'')"
    and "agrees (accept env r) (to_object (jvalue (granted env (h_peerAddress c) r) ''files''))"
    and "dom (map_of (rs_tokens (accept env r))) = set (recv_ids r)"
proof -
  obtain directory s0 where d: "prepareDirectory env r = (directory, s0)" by fastforce
  obtain sid g where t: "generateToken (rs_rng s0) = (sid, g)" by fastforce
  define s1 where "s1 = s0\<lparr>rs_rng := g, rs_sessionId := sid, rs_sessionAddress := h_peerAddress c,
    rs_sessionDirectory := directory, rs_tokens := []\<rparr>"
  obtain s2 tokens where f: "fold issue_token [0..<file_count s1] (s1, []) = (s2, tokens)" by fastforce
  define ob where "ob = jinsert ''files'' (JObject tokens) (jinsert ''sessionId'' (JString sid) [])"
  have s1: "opened env (h_peerAddress c) r = s1" by (simp add: opened_def d t s1_def)
  have ob: "granted env (h_peerAddress c) r = ob" unfolding granted_def s1 Let_def f by (simp add: ob_def s1_def)
  have "rs_conns s2 p = rs_conns r p" "rs_transfer s0 = rs_transfer r"
    using conns_issue_tokens [of "[0..<file_count s1]" "(s1, [])", unfolded f] prepareDirectory_keeps_session [of env r]
    by (simp_all add: d s1_def)
  moreover have "rs_conns r p = Some c" using assms(1) by (auto simp: pending_conn_def split: option.splits)
  moreover have a: "accept env r = rs_emit TransferStarted ((on_transfer (setState (e_now env) Active [])
      (on_transfer (setDestination (rs_sessionDirectory (answer_json env p 200 ob s2)))
        ((releasePending (answer_json env p 200 ob s2))\<lparr>rs_acceptTimer := None\<rparr>)))\<lparr>rs_idleTimer := Some (e_now env + SessionIdleMs)\<rparr>)"
    using assms d t f unfolding accept_def s1_def [symmetric] ob_def
    by (simp add: Let_def releasePending_def answer_json_def on_conn_def s1_def split: option.split)
  moreover have "same_offer s1 s2 \<and> agrees s2 tokens \<and> dom (map_of (rs_tokens s2)) = set (recv_ids s1)"
    using issue_tokens [OF order_refl _ f] by (simp add: agrees_def s1_def recv_ids_def file_count_def)
  ultimately show "rs_conns (accept env r) p = Some (respondJson (e_net env) (e_now env) 200 (granted env (h_peerAddress c) r) c)"
    and "recv_ids (accept env r) = recv_ids r" "recv_states (accept env r) = recv_states r"
    and "rs_sessionAddress (accept env r) = h_peerAddress c"
    and "rs_sessionId (accept env r) = to_string (jvalue (granted env (h_peerAddress c) r) ''sessionId'')"
    and "agrees (accept env r) (to_object (jvalue (granted env (h_peerAddress c) r) ''files''))"
    and "dom (map_of (rs_tokens (accept env r))) = set (recv_ids r)"
    by (simp_all add: ob ob_def rs_emit_def on_transfer_def releasePending_def answer_json_def on_conn_def same_offer_def
      agrees_def recv_ids_def recv_states_def s1_def)
qed

text \<open>
  C11. The two ends of the handshake fit: once the receiver accepted, whatever upload the sender
  begins with on the answer is admitted: it names the session, a row of the transfer and the token of
  that row, so from the same address the receiver starts the upload of that very row. The answer on
  the connection is the one the sender is supposed to have read.
\<close>

theorem accepted_upload_is_admitted:
  assumes lib: "qt_ok (e_lib env')" and pending: "pending_conn r = Some (p, c)" "fst (prepareDirectory env r) \<noteq> []"
    and fresh: "FileDone \<notin> set (recv_states r)" and ids: "[] \<notin> set (recv_ids r)"
    and read: "j_parse (n_net senv) (rp_body rp) = Some (JObject (granted env (h_peerAddress c) r))"
    and asks: "sd_reply s = None" "sd_reply (onAccepted senv rp s) = Some k"
  shows "rs_conns (accept env r) p = Some (respondJson (e_net env) (e_now env) 200 (granted env (h_peerAddress c) r) c)
    \<and> (\<exists>rq j. map_of (sd_inFlight (onAccepted senv rp s)) k = Some (rq, OnUpload (int j)) \<and> j < length (send_ids s)
        \<and> (\<forall>u i. h_query u = map (map_prod qs id) (rq_query rq) \<longrightarrow> h_peerAddress u = h_peerAddress c \<longrightarrow>
             (\<exists>row. row < length (recv_ids r) \<and> recv_ids r ! row = send_ids s ! j
                \<and> handleUploadHeaders env' i u (accept env r) = start_upload env' i (int row) (accept env r))))"
proof -
  define ob where "ob = granted env (h_peerAddress c) r"
  define t where "t = accept env r"
  define tokens where "tokens = to_object (jvalue ob ''files'')"
  note g = accept_grants [OF pending, folded ob_def t_def, folded tokens_def]
  obtain rq j where rq: "map_of (sd_inFlight (onAccepted senv rp s)) k = Some (rq, OnUpload (int j))"
    and asked: "asks_with tokens (s\<lparr>sd_sessionId := rs_sessionId t\<rparr>) j rq" and sid: "rs_sessionId t \<noteq> []"
    using onAccepted_asks [OF asks read] unfolding g(5) tokens_def ob_def by blast
  define i where "i = send_ids s ! j"
  define tok where "tok = to_string (jvalue_at tokens i)"
  have ids_s: "send_ids (s\<lparr>sd_sessionId := rs_sessionId t\<rparr>) = send_ids s" by (simp add: send_ids_def sd_files_def)
  have j: "j < length (send_ids s)" and tok: "tok \<noteq> []"
    and query: "rq_query rq = [(''sessionId'', rs_sessionId t), (''fileId'', i), (''token'', tok)]"
    using asked by (simp_all add: asks_with_def Let_def ids_s i_def tok_def)
  have held: "map_of (rs_tokens t) i = Some tok"
    using g(6) tok by (auto simp: agrees_def tok_def jvalue_at_def split: option.splits)
  then have "i \<in> set (recv_ids t)" using g(2,7) by auto
  then obtain row where row: "index_where (\<lambda>f. fe_id f = i) (m_files (rs_transfer t)) = Some row"
    by (cases "index_where (\<lambda>f. fe_id f = i) (m_files (rs_transfer t))") (auto simp: recv_ids_def)
  then have at: "row < length (m_files (rs_transfer t))" "fe_id (m_files (rs_transfer t) ! row) = i"
    using index_where_SomeD by blast+
  have in_row: "row < length (recv_ids r)" "recv_ids r ! row = i" using at unfolding g(2) [symmetric] by (simp_all add: recv_ids_def)
  have "fe_status (row_entry t (int row)) \<noteq> FileDone"
    using fresh at(1) g(3) by (auto simp: row_entry_def recv_states_def in_set_conv_nth) (metis nth_mem list.set_map image_eqI)
  moreover have "i \<noteq> []" using ids nth_mem [OF in_row(1)] in_row(2) by auto
  ultimately have "handleUploadHeaders env' n u t = start_upload env' n (int row) t"
    if "h_query u = map (map_prod qs id) (rq_query rq)" "h_peerAddress u = h_peerAddress c" for u n
    using that lib sid tok held row g(4)
    by (simp add: handleUploadHeaders_def Let_def query query_def indexOfFile_def)
  with rq j in_row g(1) show ?thesis unfolding t_def ob_def i_def by blast
qed

text \<open>A sender and a receiver in the middle of their handshake, evaluated.\<close>

definition meet_sender :: SendService where
  "meet_sender = (sendFiles sent_env sent_device [qs ''/a'', qs ''/b''] sent_new)\<lparr>sd_reply := None\<rparr>"

definition meet_entries :: "FileEntry list" where
  "meet_entries = (let files = to_object (jvalue (offer_of meet_sender) ''files'') in map (make_entry ascii_qt files) (map fst files))"

definition meet_receiver :: ReceiveService where
  "meet_receiver = demo_new\<lparr>rs_pending := Some 0, rs_conns := [0 \<mapsto> new_HttpConnection 0 (qs ''h'') []],
     rs_transfer := begin_transfer 0 Receiving [] (qs ''h'') [] [] meet_entries new_TransferModel\<rparr>"

definition meet_env :: send_env where
  "meet_env = sent_env\<lparr>n_net := \<lparr>u_target = (\<lambda>_. ([], [])), j_text = (\<lambda>_. []),
     j_parse = (\<lambda>_. Some (JObject (granted demo_env (qs ''h'') meet_receiver)))\<rparr>\<rparr>"

lemma meet_pending: "pending_conn meet_receiver = Some (0, new_HttpConnection 0 (qs ''h'') [])"
  by (simp add: pending_conn_def meet_receiver_def)

lemma meet_offered: "map (\<lambda>f. (fe_id f, fe_status f)) meet_entries = [(qs ''0-aaaaaaaaaaaa'', FileWaiting), (qs ''1-aaaaaaaaaaaa'', FileWaiting)]"
  by code_simp

lemma prepareDirectory_same:
  "rs_settings t = rs_settings s \<Longrightarrow> rs_peer t = rs_peer s \<Longrightarrow> rs_files t = rs_files s
    \<Longrightarrow> fst (prepareDirectory env t) = fst (prepareDirectory env s)"
  by (simp add: prepareDirectory_def Let_def)

lemma meet_rows: "recv_ids meet_receiver = [qs ''0-aaaaaaaaaaaa'', qs ''1-aaaaaaaaaaaa'']"
  "recv_states meet_receiver = [FileWaiting, FileWaiting]" "fst (prepareDirectory demo_env meet_receiver) \<noteq> []"
proof -
  have "m_files (rs_transfer meet_receiver) = meet_entries"
    by (simp add: meet_receiver_def begin_transfer_def recomputeTotals_def)
  then show "recv_ids meet_receiver = [qs ''0-aaaaaaaaaaaa'', qs ''1-aaaaaaaaaaaa'']" "recv_states meet_receiver = [FileWaiting, FileWaiting]"
    using meet_offered by (auto simp: recv_ids_def recv_states_def map_eq_Cons_conv)
  have "fst (prepareDirectory demo_env demo_new) = qs ''/d''" by code_simp
  then show "fst (prepareDirectory demo_env meet_receiver) \<noteq> []"
    using prepareDirectory_same [of meet_receiver demo_new demo_env] by (simp add: meet_receiver_def qs_def)
qed

lemma meet_uploads: "sd_reply (onAccepted meet_env ok_reply meet_sender) = Some 1"
  by code_simp

theorem accepted_upload_is_admitted_witness:
  "\<exists>rq j. map_of (sd_inFlight (onAccepted meet_env ok_reply meet_sender)) 1 = Some (rq, OnUpload (int j)) \<and> j < length (send_ids meet_sender)"
proof -
  have addr: "h_peerAddress (new_HttpConnection 0 (qs ''h'') []) = qs ''h''" by (simp add: new_HttpConnection_def)
  have read: "j_parse (n_net meet_env) (rp_body ok_reply)
      = Some (JObject (granted demo_env (h_peerAddress (new_HttpConnection 0 (qs ''h'') [])) meet_receiver))"
    by (simp add: meet_env_def addr)
  have idle: "sd_reply meet_sender = None" by (simp add: meet_sender_def)
  have lib: "qt_ok (e_lib demo_env)" by (simp add: demo_env_def ascii_qt_ok)
  have "[] \<noteq> qs ''0-aaaaaaaaaaaa''" "[] \<noteq> qs ''1-aaaaaaaaaaaa''" by (simp_all add: qs_def)
  then show ?thesis
    using accepted_upload_is_admitted [OF lib meet_pending meet_rows(3) _ _ read idle meet_uploads] meet_rows by fastforce
qed

end
