(* ===== verification/Offer.thy ===== *)
theory Offer
  imports Receive_Endpoints Send_Claims
begin

text \<open>
  The offer a sender makes is the offer a receiver reads: every row of the transfer arrives under its
  own id, with its name and its size, in the order the ids have as keys of a JSON object.
\<close>

section \<open>The ids are different\<close>

lemma nat_digits_inj: "nat_digits m = nat_digits n \<Longrightarrow> m = n"
proof (induction m arbitrary: n rule: nat_digits.induct)
  case (1 m)
  have last_digit: "\<exists>pre. nat_digits k = pre @ [char_of (48 + k mod 10)] \<and> (pre = [] \<longleftrightarrow> k < 10) \<and> (10 \<le> k \<longrightarrow> pre = nat_digits (k div 10))" for k
  proof (cases "k < 10")
    case False
    have "nat_digits (k div 10) \<noteq> []" by (subst nat_digits.simps) simp
    with False show ?thesis by (subst nat_digits.simps) simp
  qed (subst nat_digits.simps, simp)
  have digit: "j mod 10 = k mod 10" if "(char_of (48 + j mod 10 :: nat) :: char) = char_of (48 + k mod 10)" for j k :: nat
  proof -
    have "j mod 10 < 10" "k mod 10 < 10" by simp_all
    then show ?thesis using that arg_cong [OF that, of "of_char :: char \<Rightarrow> nat"] by simp
  qed
  obtain p q where p: "nat_digits m = p @ [char_of (48 + m mod 10)]" "p = [] \<longleftrightarrow> m < 10" "10 \<le> m \<longrightarrow> p = nat_digits (m div 10)"
    and q: "nat_digits n = q @ [char_of (48 + n mod 10)]" "q = [] \<longleftrightarrow> n < 10" "10 \<le> n \<longrightarrow> q = nat_digits (n div 10)"
    using last_digit [of m] last_digit [of n] by blast
  have eq: "p = q" "m mod 10 = n mod 10" using 1(2) p(1) q(1) digit by auto
  show ?case
  proof (cases "m < 10")
    case True
    with eq p(2) q(2) show ?thesis by simp
  next
    case False
    then have "m div 10 = n div 10" using 1(1) eq(1) p(2,3) q(2,3) by auto
    with eq(2) show ?thesis by (metis mult_div_mod_eq)
  qed
qed

lemma number_inj: "number (int m) = number (int n) \<Longrightarrow> m = n"
  using nat_digits_inj by (simp add: number_def qs_eq_iff)

lemma number_no_dash: "qc (CHR ''-'') \<notin> set (number (int k))"
  using number_set [of "qc (CHR ''-'')" k] by (auto simp: qc_def)

definition row_number :: "qstring \<Rightarrow> qstring" where
  "row_number s = takeWhile (\<lambda>c. c \<noteq> qc (CHR ''-'')) s"

lemma row_number_id: "row_number (number (int k) @ qs ''-'' @ t) = number (int k)"
proof -
  have "\<forall>c \<in> set (number (int k)). c \<noteq> qc (CHR ''-'')" using number_no_dash by blast
  then show ?thesis by (simp add: row_number_def qs_def takeWhile_append)
qed

lemma make_entries_numbers:
  "\<exists>js. map (\<lambda>f. row_number (fe_id f)) (fst (make_entries env i ps r)) = map (number \<circ> int) js \<and> sorted_wrt (<) js \<and> (\<forall>j \<in> set js. i \<le> j)"
proof (induction ps arbitrary: i r)
  case (Cons p ps)
  show ?case
  proof (cases "n_files env (localPathOf (n_sys env) p)")
    case None
    obtain js where js: "map (\<lambda>f. row_number (fe_id f)) (fst (make_entries env (Suc i) ps r)) = map (number \<circ> int) js"
      "sorted_wrt (<) js" "\<forall>j \<in> set js. Suc i \<le> j" using Cons.IH by blast
    then have "\<forall>j \<in> set js. i \<le> j" by fastforce
    with js None show ?thesis by (intro exI [of _ js]) simp
  next
    case (Some info)
    obtain t r1 where t: "generateToken r = (t, r1)" by fastforce
    obtain js where js: "map (\<lambda>f. row_number (fe_id f)) (fst (make_entries env (Suc i) ps r1)) = map (number \<circ> int) js"
      "sorted_wrt (<) js" "\<forall>j \<in> set js. Suc i \<le> j" using Cons.IH by blast
    have "sorted_wrt (<) (i # js)" "\<forall>j \<in> set (i # js). i \<le> j" using js(2,3) by fastforce+
    moreover have "map (\<lambda>f. row_number (fe_id f)) (fst (make_entries env i (p # ps) r)) = map (number \<circ> int) (i # js)"
      using Some t js(1) row_number_id [of i] by (simp add: Let_def case_prod_unfold)
    ultimately show ?thesis by blast
  qed
qed simp

lemma make_entries_distinct: "distinct (map fe_id (fst (make_entries env i ps r)))"
proof -
  obtain js where js: "map (\<lambda>f. row_number (fe_id f)) (fst (make_entries env i ps r)) = map (number \<circ> int) js" "sorted_wrt (<) js"
    using make_entries_numbers by blast
  have "distinct js" using js(2) by (simp add: strict_sorted_iff)
  then have "distinct (map (number \<circ> int) js)" using number_inj by (simp add: distinct_map inj_on_def)
  then have "distinct (map row_number (map fe_id (fst (make_entries env i ps r))))" using js(1) by (simp add: comp_def)
  then show ?thesis using distinct_map by blast
qed

section \<open>The offer\<close>

lemma offer_files:
  assumes "distinct (map fe_id (sd_files s))"
  shows "in_key_order (to_object (jvalue (offer_of s) ''files''))
    \<and> set (to_object (jvalue (offer_of s) ''files'')) = (\<lambda>f. (fe_id f, JObject (descriptor_of f))) ` set (sd_files s)"
  using json_put_fold [of fe_id "sd_files s" "[]" "\<lambda>f. JObject (descriptor_of f)"] assms
  by (simp add: offer_of_def in_key_order_def)

lemma offer_info: "to_object (jvalue (offer_of s) ''info'') \<noteq> []"
proof -
  have "json_put k v ob \<noteq> []" for k v ob by (cases ob) (auto split: if_splits)
  then show ?thesis by (simp add: offer_of_def) (simp add: toRegisterBody_def jinsert_def)
qed

definition row_key :: "FileEntry \<Rightarrow> qstring \<times> qstring \<times> int" where
  "row_key f = (fe_id f, fileName f, fe_size f)"

definition sendable :: "FileEntry \<Rightarrow> bool" where
  "sendable f \<longleftrightarrow> fileName f \<noteq> [] \<and> 0 \<le> fe_size f \<and> fe_size f \<le> 2 ^ 53"

lemma make_entry_descriptor:
  assumes "jvalue_at files k = JObject (descriptor_of f)" "sendable f"
  shows "row_key (make_entry lib files k) = row_key f"
proof -
  have "in_int64 (fe_size f)" "double_of_int (fe_size f) = of_int (fe_size f)"
    using assms(2) by (simp_all add: sendable_def in_int64_def)
  with assms show ?thesis
    by (simp add: row_key_def make_entry_def Let_def descriptor_of_def sendable_def)
qed

text \<open>\<open>rows\<close> are the files \<open>fs\<close>, in the order of their ids.\<close>

definition arrived_as :: "FileEntry list \<Rightarrow> FileEntry list \<Rightarrow> bool" where
  "arrived_as fs row_list \<longleftrightarrow> length row_list = length fs \<and> set (map row_key row_list) = set (map row_key fs)
     \<and> sorted_wrt q_before (map fe_id row_list)"

lemma offer_rows:
  assumes "distinct (map fe_id (sd_files s))" "\<forall>f \<in> set (sd_files s). sendable f" "files = to_object (jvalue (offer_of s) ''files'')"
  shows "arrived_as (sd_files s) (map (make_entry lib files) (map fst files))" and "length files = length (sd_files s)"
proof -
  let ?m = "\<lambda>f. (fe_id f, JObject (descriptor_of f))"
  have files: "in_key_order files" "set files = ?m ` set (sd_files s)" using offer_files [OF assms(1)] assms(3) by simp_all
  have keys: "distinct (map fst files)" by (rule in_key_order_distinct [OF files(1)])
  have "card (set files) = length files" using keys by (metis distinct_card distinct_map)
  moreover have "card (?m ` set (sd_files s)) = length (sd_files s)"
    using assms(1) by (subst card_image) (auto simp: distinct_map distinct_card inj_on_def)
  ultimately show len: "length files = length (sd_files s)" using files(2) by simp
  have row: "row_key (make_entry lib files (fe_id f)) = row_key f" if "f \<in> set (sd_files s)" for f
  proof (rule make_entry_descriptor)
    have "(fe_id f, JObject (descriptor_of f)) \<in> set files" using that files(2) by simp
    then show "jvalue_at files (fe_id f) = JObject (descriptor_of f)" using keys by (simp add: jvalue_at_def)
    show "sendable f" using assms(2) that by blast
  qed
  then have id: "fe_id (make_entry lib files (fe_id f)) = fe_id f" if "f \<in> set (sd_files s)" for f
    using that by (simp add: row_key_def)
  have "row_key ` make_entry lib files ` fst ` set files = row_key ` set (sd_files s)"
    unfolding files(2) using row by (simp add: image_image)
  moreover have ids: "map fe_id (map (make_entry lib files) (map fst files)) = map fst files"
    using files(2) id by (auto simp: map_idI)
  ultimately show "arrived_as (sd_files s) (map (make_entry lib files) (map fst files))"
    using files(1) len unfolding arrived_as_def ids by (simp add: in_key_order_def image_image)
qed

lemma make_entries_sendable:
  assumes "\<forall>p info. n_files env p = Some info \<longrightarrow> fi_name info \<noteq> [] \<and> 0 \<le> fi_size info \<and> fi_size info \<le> 2 ^ 53"
  shows "length (fst (make_entries env i ps r)) \<le> length ps \<and> (\<forall>f \<in> set (fst (make_entries env i ps r)). sendable f)"
proof (induction ps arbitrary: i r)
  case (Cons p ps)
  show ?case
  proof (cases "n_files env (localPathOf (n_sys env) p)")
    case None
    then show ?thesis using Cons.IH [of "Suc i" r] by (simp add: le_SucI)
  next
    case (Some info)
    then show ?thesis using Cons.IH [of "Suc i"] assms
      by (simp add: Let_def case_prod_unfold sendable_def)
  qed
qed simp

lemma sendFiles_offers:
  assumes "\<not> sd_busy s" "sd_busy (sendFiles env device paths s)"
  defines "t \<equiv> sendFiles env device paths s"
  shows "\<exists>rq. sd_posted t = sd_posted s @ [rq] \<and> rq_body rq = JsonBody (JObject (offer_of t))"
    and "sd_files t = fst (make_entries env 0 paths (sd_rng s))" "sd_files t \<noteq> []"
proof -
  obtain entries r where mk: "make_entries env 0 paths (sd_rng s) = (entries, r)" by fastforce
  define s1 where "s1 = sd_emit BusyChanged (s\<lparr>sd_rng := r, sd_peer := peer_of device, sd_sessionId := [], sd_cancelled := False,
    sd_pinAttempted := False, sd_busy := True\<rparr>)"
  define s2 where "s2 = sd_state env Requesting [] (begin_sending env (peer_of device) entries s1)"
  have t: "t = requestUpload [] s2 \<and> entries \<noteq> []"
    using assms(1,2) mk unfolding t_def sendFiles_def
    by (auto simp: Let_def s1_def s2_def begin_sending_def on_tm_def sd_state_def split: if_splits)
  have files: "sd_files s2 = entries" by (simp add: s2_def begin_sending_def on_tm_def sd_files_def begin_transfer_def recomputeTotals_def sd_state_def)
  have posted: "sd_posted s2 = sd_posted s" by (simp add: s2_def s1_def begin_sending_def on_tm_def sd_state_def sd_emit_def)
  have same: "sd_files t = sd_files s2" "sd_settings t = sd_settings s2"
    using t by (simp_all add: requestUpload_def post_def Let_def sd_files_def)
  then have "offer_of t = offer_of s2" by (simp add: offer_of_def)
  moreover have "\<exists>rq. sd_posted (requestUpload [] s2) = sd_posted s @ [rq] \<and> rq_body rq = JsonBody (JObject (offer_of s2))"
    by (simp add: requestUpload_def post_def Let_def posted)
  ultimately show "\<exists>rq. sd_posted t = sd_posted s @ [rq] \<and> rq_body rq = JsonBody (JObject (offer_of t))" using t by simp
  show "sd_files t = fst (make_entries env 0 paths (sd_rng s))" "sd_files t \<noteq> []" using same files t mk by simp_all
qed

text \<open>
  C28. The offer a sender makes is the one a receiver reads. Whatever files are chosen, as long as none has
  an empty name or is larger than \<open>2 ^ 53\<close> bytes (which a JSON number still holds exactly), the body of
  the request names its sender and, read back on the other side, gives exactly one row per file, with
  the id, the name and the size of the sender's own row. The rows arrive in the order of their ids as
  strings, not in the order of the sender: of eleven files the last, \<open>10-...\<close>, is the third.
\<close>

theorem offer_is_read_back:
  assumes "\<not> sd_busy s" "sd_busy (sendFiles env device paths s)"
    and "\<forall>p info. n_files env p = Some info \<longrightarrow> fi_name info \<noteq> [] \<and> 0 \<le> fi_size info \<and> fi_size info \<le> 2 ^ 53"
  shows "\<exists>rq body. sd_posted (sendFiles env device paths s) = sd_posted s @ [rq] \<and> rq_body rq = JsonBody (JObject body)
    \<and> to_object (jvalue body ''info'') \<noteq> []
    \<and> (let files = to_object (jvalue body ''files'')
       in files \<noteq> [] \<and> length files \<le> length paths
          \<and> arrived_as (sd_files (sendFiles env device paths s)) (map (make_entry lib files) (map fst files)))"
proof -
  define t where "t = sendFiles env device paths s"
  note offers = sendFiles_offers [OF assms(1,2), folded t_def]
  obtain rq where rq: "sd_posted t = sd_posted s @ [rq]" "rq_body rq = JsonBody (JObject (offer_of t))" using offers(1) by blast
  have distinct: "distinct (map fe_id (sd_files t))" unfolding offers(2) by (rule make_entries_distinct)
  have all: "length (sd_files t) \<le> length paths" "\<forall>f \<in> set (sd_files t). sendable f"
    unfolding offers(2) using make_entries_sendable [OF assms(3)] by blast+
  define files where "files = to_object (jvalue (offer_of t) ''files'')"
  note r = offer_rows [OF distinct all(2) files_def]
  have "files \<noteq> []" "length files \<le> length paths" using r(2) offers(3) all(1) by auto
  moreover have "to_object (jvalue (offer_of t) ''info'') \<noteq> []" by (rule offer_info)
  ultimately show ?thesis using rq r(1) unfolding t_def [symmetric] files_def Let_def by blast
qed

theorem offer_is_read_back_witness:
  "\<exists>rq body. sd_posted (sendFiles sent_env sent_device [qs ''/a'', qs ''/b''] sent_new) = sd_posted sent_new @ [rq]
    \<and> rq_body rq = JsonBody (JObject body) \<and> to_object (jvalue body ''files'') \<noteq> []"
proof -
  have busy: "sd_busy (sendFiles sent_env sent_device [qs ''/a'', qs ''/b''] sent_new)" by code_simp
  have "\<not> sd_busy sent_new" by (simp add: sent_new_def new_SendService_def)
  moreover have "\<forall>p info. n_files sent_env p = Some info \<longrightarrow> fi_name info \<noteq> [] \<and> 0 \<le> fi_size info \<and> fi_size info \<le> 2 ^ 53"
    by (auto simp: sent_env_def sent_files_def qs_def split: if_splits)
  ultimately show ?thesis using offer_is_read_back [OF _ busy, of ascii_qt] unfolding Let_def by blast
qed

end
