(* ===== verification/Application.thy ===== *)
theory Application
  imports Receive_Waiting Receive_Demo Send_Claims Discovery_Demo
begin

text \<open>
  \<open>src/src/harbour-localsend.cpp\<close>: the objects of the application and who shares them. The two services
  and the discovery hold pointers to the same settings, transfer, history and known devices; here the
  shared objects are lent to the one that acts and taken back.
\<close>

section \<open>The objects\<close>

record Client =
  cl_settings :: AppSettings
  cl_transfer :: TransferModel
  cl_history :: HistoryModel
  cl_known :: KnownDevices
  cl_receiver :: ReceiveService
  cl_sender :: SendService
  cl_discovery :: Discovery

text \<open>The constructors; the settings, the history and the known devices have loaded what was stored.\<close>

definition new_Client :: "AppSettings \<Rightarrow> HistoryModel \<Rightarrow> KnownDevices \<Rightarrow> DeviceModel \<Rightarrow> rng \<Rightarrow> rng \<Rightarrow> (qstring \<rightharpoonup> bytes) \<Rightarrow> Client" where
  "new_Client st hist kd dm r1 r2 fs = \<lparr>cl_settings = st, cl_transfer = new_TransferModel, cl_history = hist, cl_known = kd,
     cl_receiver = new_ReceiveService st r1 fs, cl_sender = new_SendService st r2, cl_discovery = new_Discovery st dm\<rparr>"

definition lent_discovery :: "Client \<Rightarrow> Discovery" where
  "lent_discovery a = (cl_discovery a)\<lparr>dc_settings := cl_settings a\<rparr>"

definition by_discovery :: "disc_env \<Rightarrow> (disc_env \<Rightarrow> Discovery \<Rightarrow> Discovery) \<Rightarrow> Client \<Rightarrow> Client" where
  "by_discovery venv f a =
     (let d = f (venv\<lparr>v_known := Some (cl_known a)\<rparr>) (lent_discovery a)
      in a\<lparr>cl_discovery := d, cl_settings := dc_settings d\<rparr>)"

definition lent_receiver :: "Client \<Rightarrow> ReceiveService" where
  "lent_receiver a = (cl_receiver a)\<lparr>rs_settings := cl_settings a, rs_transfer := cl_transfer a,
     rs_history := cl_history a, rs_known := Some (cl_known a)\<rparr>"

text \<open>The receiver calls \<open>Discovery::registerPeer\<close> while it handles a request.\<close>

definition forward_one :: "disc_env \<Rightarrow> jobject \<times> qstring \<Rightarrow> Client \<Rightarrow> Client" where
  "forward_one venv reg a = by_discovery venv (\<lambda>env d. snd (dc_registerPeer env (fst reg) (snd reg) d)) a"

definition by_receiver :: "disc_env \<Rightarrow> (ReceiveService \<Rightarrow> ReceiveService) \<Rightarrow> Client \<Rightarrow> Client" where
  "by_receiver venv f a =
     (let r = f (lent_receiver a); calls = drop (length (rs_registered (cl_receiver a))) (rs_registered r);
          a1 = fold (forward_one venv) calls (a\<lparr>cl_settings := rs_settings r\<rparr>)
      in a1\<lparr>cl_receiver := r, cl_transfer := rs_transfer r, cl_history := rs_history r,
            cl_known := (case rs_known r of Some kd \<Rightarrow> kd | None \<Rightarrow> cl_known a)\<rparr>)"

definition lent_sender :: "Client \<Rightarrow> SendService" where
  "lent_sender a = (cl_sender a)\<lparr>sd_settings := cl_settings a, sd_transfer := cl_transfer a,
     sd_history := cl_history a, sd_known := Some (cl_known a)\<rparr>"

definition by_sender :: "(SendService \<Rightarrow> SendService) \<Rightarrow> Client \<Rightarrow> Client" where
  "by_sender f a =
     (let s = f (lent_sender a)
      in a\<lparr>cl_sender := s, cl_settings := sd_settings s, cl_transfer := sd_transfer s, cl_history := sd_history s,
           cl_known := (case sd_known s of Some kd \<Rightarrow> kd | None \<Rightarrow> cl_known a)\<rparr>)"

section \<open>Starting, and the switch for receiving\<close>

definition start_receiver :: "recv_env \<Rightarrow> disc_env \<Rightarrow> Client \<Rightarrow> Client" where
  "start_receiver renv venv = by_receiver venv (\<lambda>r. snd (startListening renv r))"

definition client_start :: "recv_env \<Rightarrow> disc_env \<Rightarrow> Client \<Rightarrow> Client" where
  "client_start renv venv a =
     (let a1 = (if receiveEnabled (cl_settings a) then start_receiver renv venv a else a)
      in by_discovery venv dc_start a1)"

text \<open>What is connected to the signals of the settings: the lambda of \<open>main\<close> and the receiver's slot.\<close>

definition onReceiveEnabledChanged :: "recv_env \<Rightarrow> disc_env \<Rightarrow> Client \<Rightarrow> Client" where
  "onReceiveEnabledChanged renv venv a =
     (if receiveEnabled (cl_settings a) then by_discovery venv dc_start (start_receiver renv venv a)
      else by_discovery venv (\<lambda>_. dc_stop) (by_receiver venv (stopListening renv) a))"

definition on_setting :: "recv_env \<Rightarrow> disc_env \<Rightarrow> settings_signal \<Rightarrow> Client \<Rightarrow> Client" where
  "on_setting renv venv sig a =
     (if sig = ReceiveEnabledChanged then onReceiveEnabledChanged renv venv a
      else if sig = settings_signal.PortChanged then by_receiver venv (onSettingsChanged renv) a else a)"

definition change_setting :: "recv_env \<Rightarrow> disc_env \<Rightarrow> (AppSettings \<Rightarrow> AppSettings) \<Rightarrow> Client \<Rightarrow> Client" where
  "change_setting renv venv f a =
     (let st = f (cl_settings a)
      in fold (on_setting renv venv) (drop (length (as_signals (cl_settings a))) (as_signals st)) (a\<lparr>cl_settings := st\<rparr>))"

datatype app_event =
    AtReceiver recv_env rs_event
  | AtSender send_env sd_event
  | AtDiscovery dc_event
  | AtSettings recv_env "AppSettings \<Rightarrow> AppSettings"

fun app_step :: "disc_env \<Rightarrow> app_event \<Rightarrow> Client \<Rightarrow> Client" where
  "app_step venv (AtReceiver renv e) a = by_receiver venv (rs_step renv e) a"
| "app_step venv (AtSender senv e) a = by_sender (sd_step senv e) a"
| "app_step venv (AtDiscovery e) a = by_discovery venv (\<lambda>env. dc_step env e) a"
| "app_step venv (AtSettings renv f) a = change_setting renv venv f a"

section \<open>An application, evaluated\<close>

definition app_new :: "AppSettings \<Rightarrow> Client" where
  "app_new st = new_Client st no_history no_devices empty_devices demo_rng sent_rng Map.empty"

definition off_settings :: AppSettings where
  "off_settings = sent_settings\<lparr>as_values := [(KeyReceiveEnabled, VBool False)]\<rparr>"

definition app_on :: Client where
  "app_on = client_start demo_env net_env (app_new sent_settings)"

text \<open>An application in the middle of its first upload.\<close>

definition app_sending :: Client where
  "app_sending = (app_new sent_settings)\<lparr>cl_sender := sd_run sent_begin sent_new, cl_transfer := sd_transfer (sd_run sent_begin sent_new)\<rparr>"

definition at_row :: "SendService \<Rightarrow> int \<times> bool" where
  "at_row s = (sd_currentRow s, sd_cancelled s)"

lemma app_sends: "\<exists>rq. map_of (sd_inFlight (cl_sender app_sending)) 1 = Some (rq, OnUpload 0)"
  "sd_currentRow (cl_sender app_sending) = 0" "\<not> sd_cancelled (cl_sender app_sending)" "\<not> quickSave (cl_settings app_sending)"
proof -
  show "\<exists>rq. map_of (sd_inFlight (cl_sender app_sending)) 1 = Some (rq, OnUpload 0)"
    using sent_midway by (auto simp: sent_seen_def app_sending_def)
  have "at_row (sd_run sent_begin sent_new) = (0, False)" by code_simp
  then show "sd_currentRow (cl_sender app_sending) = 0" "\<not> sd_cancelled (cl_sender app_sending)"
    by (simp_all add: at_row_def app_sending_def)
  show "\<not> quickSave (cl_settings app_sending)"
    by (simp add: app_sending_def app_new_def new_Client_def quickSave_def flag_def setting_def sent_settings_def)
qed

section \<open>The switch\<close>

lemma forward_keeps:
  "cl_receiver (fold (forward_one venv) calls a) = cl_receiver a" "cl_sender (fold (forward_one venv) calls a) = cl_sender a"
  "dc_running (cl_discovery (fold (forward_one venv) calls a)) = dc_running (cl_discovery a)"
  "cl_settings (fold (forward_one venv) calls a) = cl_settings a"
proof -
  have "cl_receiver (forward_one venv c b) = cl_receiver b \<and> cl_sender (forward_one venv c b) = cl_sender b
      \<and> dc_running (cl_discovery (forward_one venv c b)) = dc_running (cl_discovery b)
      \<and> cl_settings (forward_one venv c b) = cl_settings b" for c b
    by (simp add: forward_one_def by_discovery_def lent_discovery_def dc_registerPeer_def dc_upsert_def dc_emit_def Let_def split: prod.split)
  then have "cl_receiver (fold (forward_one venv) calls a) = cl_receiver a \<and> cl_sender (fold (forward_one venv) calls a) = cl_sender a
      \<and> dc_running (cl_discovery (fold (forward_one venv) calls a)) = dc_running (cl_discovery a)
      \<and> cl_settings (fold (forward_one venv) calls a) = cl_settings a"
    by (induction calls arbitrary: a) simp_all
  then show "cl_receiver (fold (forward_one venv) calls a) = cl_receiver a" "cl_sender (fold (forward_one venv) calls a) = cl_sender a"
    "dc_running (cl_discovery (fold (forward_one venv) calls a)) = dc_running (cl_discovery a)"
    "cl_settings (fold (forward_one venv) calls a) = cl_settings a" by blast+
qed

lemma by_receiver_receiver: "cl_receiver (by_receiver venv f a) = f (lent_receiver a)"
  by (simp add: by_receiver_def Let_def)

lemma dc_stop_stopped: "\<not> dc_running (dc_stop d)" "dc_running d \<Longrightarrow> \<not> dc_socket (dc_stop d) \<and> \<not> dc_announceTimer (dc_stop d)"
  by (simp_all add: dc_stop_def dc_emit_def)

lemma stopListening_server: "\<not> server_isListening (rs_server (stopListening env r))"
  by (simp add: stopListening_def rs_emit_def on_server_def server_stop_def server_isListening_def)

lemma set_flag_off:
  assumes "flag k d st"
  shows "flag k d (set_flag k d x False st) = False" "as_signals (set_flag k d x False st) = as_signals st @ [x]"
  using assms by (simp_all add: set_flag_def tell_def flag_def setting_def setValue_def update_conv')

lemma change_setting_off:
  assumes "receiveEnabled (cl_settings a)"
  defines "b \<equiv> a\<lparr>cl_settings := setReceiveEnabled False (cl_settings a)\<rparr>"
  shows "change_setting renv venv (setReceiveEnabled False) a = by_discovery venv (\<lambda>_. dc_stop) (by_receiver venv (stopListening renv) b)"
    and "\<not> receiveEnabled (cl_settings b)"
proof -
  have off: "\<not> receiveEnabled (setReceiveEnabled False (cl_settings a))"
    "as_signals (setReceiveEnabled False (cl_settings a)) = as_signals (cl_settings a) @ [ReceiveEnabledChanged]"
    using assms(1) set_flag_off [of KeyReceiveEnabled True "cl_settings a" ReceiveEnabledChanged]
    by (simp_all add: receiveEnabled_def setReceiveEnabled_def)
  then show "change_setting renv venv (setReceiveEnabled False) a = by_discovery venv (\<lambda>_. dc_stop) (by_receiver venv (stopListening renv) b)"
    by (simp add: change_setting_def on_setting_def onReceiveEnabledChanged_def b_def)
  show "\<not> receiveEnabled (cl_settings b)" using off(1) by (simp add: b_def)
qed

lemma settings_kept [simp]:
  "rs_settings (on_transfer f s) = rs_settings s" "rs_settings (answer env i code s) = rs_settings s"
  "rs_settings (releasePending s) = rs_settings s" "rs_settings (rs_emit x s) = rs_settings s"
  "rs_settings (set_status env row st err s) = rs_settings s" "rs_settings (stop_upload env i s) = rs_settings s"
  "rs_settings (skip_row env r s) = rs_settings s" "rs_settings (record_session env s) = rs_settings s"
  "rs_settings (final_state env fin s) = rs_settings s"
  by (simp_all add: on_transfer_def answer_def on_conn_def releasePending_def rs_emit_def set_status_def stop_upload_def
      closeUpload_def delete_handle_def flush_file_def set_file_def skip_row_def record_session_def final_state_def Let_def split: option.split)

lemma settings_kept_folds [simp]:
  "rs_settings (fold (stop_upload env) ks s) = rs_settings s" "rs_settings (fold (skip_row env) xs s) = rs_settings s"
proof -
  show "rs_settings (fold (stop_upload env) ks s) = rs_settings s" by (induction ks arbitrary: s) simp_all
  show "rs_settings (fold (skip_row env) xs s) = rs_settings s" by (induction xs arbitrary: s) simp_all
qed

lemma finishSession_settings: "rs_settings (finishSession env status s) = rs_settings s"
  by (simp add: finishSession_def Let_def split: option.split)

lemma stopListening_settings: "rs_settings (stopListening env s) = rs_settings s"
  by (simp add: stopListening_def on_server_def finishSession_settings)

text \<open>
  C12. Turning receiving off is complete: whatever is going on, after the switch the setting is off, the
  server no longer listens, discovery no longer runs, answers or announces, and no session and no
  request that waits for an answer is left behind.
\<close>

theorem switch_off_stops:
  assumes "receiveEnabled (cl_settings a)" "server_isListening (rs_server (cl_receiver a))" "pend_ok (cl_receiver a)"
    and "dc_running (cl_discovery a)" "a' = app_step venv (AtSettings renv (setReceiveEnabled False)) a"
  shows "\<not> receiveEnabled (cl_settings a') \<and> \<not> server_isListening (rs_server (cl_receiver a')) \<and> \<not> dc_running (cl_discovery a')
    \<and> \<not> dc_socket (cl_discovery a') \<and> \<not> dc_announceTimer (cl_discovery a')
    \<and> rs_sessionId (cl_receiver a') = [] \<and> rs_pending (cl_receiver a') = None"
proof -
  define b where "b = a\<lparr>cl_settings := setReceiveEnabled False (cl_settings a)\<rparr>"
  define c where "c = by_receiver venv (stopListening renv) b"
  note off = change_setting_off [OF assms(1), folded b_def]
  have a': "a' = by_discovery venv (\<lambda>_. dc_stop) c" using assms(5) off(1) by (simp add: c_def)
  have r: "cl_receiver c = stopListening renv (lent_receiver b)" unfolding c_def by (rule by_receiver_receiver)
  have set_c: "cl_settings c = setReceiveEnabled False (cl_settings a)"
    using forward_keeps(4) by (simp add: c_def by_receiver_def Let_def stopListening_settings lent_receiver_def b_def)
  have run_c: "dc_running (cl_discovery c)"
    using assms(4) forward_keeps(3) by (simp add: c_def by_receiver_def Let_def b_def)
  let ?r = "lent_receiver b"
  have listens: "server_isListening (rs_server ?r)" and pend: "pend_ok ?r"
    using assms(2,3) by (simp_all add: lent_receiver_def b_def pend_ok_def)
  have "clock (stopListening renv ?r) = clock (finishSession renv Scancelled ?r)"
    using listens by (simp add: stopListening_def clock_def rs_emit_def on_server_def)
  then have "rs_sessionId (stopListening renv ?r) = [] \<and> rs_pending (stopListening renv ?r) = None"
    using finishSession_over [OF pend, of renv Scancelled] by (auto simp: clock_def)
  moreover have "cl_discovery a' = dc_stop (lent_discovery c)" "cl_receiver a' = stopListening renv ?r"
    and "cl_settings a' = dc_settings (dc_stop (lent_discovery c))"
    by (simp_all add: a' by_discovery_def Let_def r)
  moreover have "dc_settings (dc_stop (lent_discovery c)) = cl_settings c" "dc_running (lent_discovery c)"
    using run_c by (simp_all add: dc_stop_def dc_emit_def lent_discovery_def)
  ultimately show ?thesis
    using off(2) set_c stopListening_server [of renv ?r] dc_stop_stopped [of "lent_discovery c"] by (simp add: b_def)
qed

lemma sent_grows: "dc_sent (snd (fold (send_one env payload) is acc)) \<noteq> [] \<or> fold (send_one env payload) is acc = acc"
proof (induction "is" arbitrary: acc)
  case (Cons i xs)
  have "dc_sent (snd (send_one env payload i acc)) \<noteq> [] \<or> send_one env payload i acc = acc"
    by (cases acc) (simp add: send_one_def record_sent_def)
  moreover have "dc_sent (snd (fold (send_one env payload) xs b)) \<noteq> []" if "dc_sent (snd b) \<noteq> []" for b
    using Cons.IH [of b] that by auto
  ultimately show ?case using Cons.IH [of acc] by (metis fold_simps(2))
qed simp

lemma announcement_sent: "dc_socket d \<Longrightarrow> dc_sent (sendAnnouncement env x d) \<noteq> []"
  using sent_grows [of env "toAnnouncement x (self_info (dc_settings d))" "v_interfaces env" "(False, d)"]
  by (auto simp: sendAnnouncement_def Let_def record_sent_def split: prod.split)

definition life :: "Discovery \<Rightarrow> bool \<times> AppSettings" where
  "life d = (dc_running d, dc_settings d)"

lemma joined_socket: "dc_socket (joinGroups env d) = dc_socket d" "life (joinGroups env d) = life d"
proof -
  have "dc_socket (join_one env i d) = dc_socket d \<and> life (join_one env i d) = life d" for i d by (simp add: join_one_def life_def)
  then have "dc_socket (fold (join_one env) xs d) = dc_socket d \<and> life (fold (join_one env) xs d) = life d" for xs
    by (induction xs arbitrary: d) simp_all
  then show "dc_socket (joinGroups env d) = dc_socket d" "life (joinGroups env d) = life d" by (simp_all add: joinGroups_def)
qed

lemma refreshed: "dc_sent (refreshManualDevices env d) = dc_sent d" "life (refreshManualDevices env d) = life d"
proof -
  have one: "dc_sent (refresh_one env x d) = dc_sent d \<and> life (refresh_one env x d) = life d" for x d
    by (simp add: refresh_one_def probe_both_def probe_def dc_post_def life_def Let_def split: option.split)
  have "dc_sent (fold (refresh_one env) xs d) = dc_sent d \<and> life (fold (refresh_one env) xs d) = life d" for xs
    by (induction xs arbitrary: d) (simp_all add: one)
  then show "dc_sent (refreshManualDevices env d) = dc_sent d" "life (refreshManualDevices env d) = life d"
    by (simp_all add: refreshManualDevices_def)
qed

lemma announce_life: "life (announce env d) = life d"
proof -
  have one: "life (snd (send_one env p i acc)) = life (snd acc)" for p i acc
    by (cases acc) (simp add: send_one_def record_sent_def life_def)
  have "life (snd (fold (send_one env p) is acc)) = life (snd acc)" for p "is" acc
    by (induction "is" arbitrary: acc) (simp_all add: one)
  moreover have "life (record_sent x d) = life d" for x d by (simp add: record_sent_def life_def)
  ultimately have "life (sendAnnouncement env x d) = life d" for x d
    by (simp add: sendAnnouncement_def Let_def case_prod_unfold)
  moreover have "life (d\<lparr>dc_devices := dm\<rparr>) = life d" for d dm by (simp add: life_def)
  ultimately show ?thesis by (simp add: announce_def Let_def refreshed joined_socket)
qed

lemma announced: "dc_socket d \<Longrightarrow> dc_sent (announce env d) \<noteq> []"
  by (simp add: announce_def Let_def refreshed joined_socket announcement_sent)

lemma started_announces:
  assumes "\<not> dc_running d" "v_bind env"
  shows "life (dc_start env d) = (True, dc_settings d)" "dc_sent (dc_start env d) \<noteq> []"
proof -
  let ?e = "dc_emit RunningChanged ((joinGroups env ((d\<lparr>dc_socket := True, dc_pending := []\<rparr>)\<lparr>dc_running := True\<rparr>))\<lparr>dc_announceTimer := True\<rparr>)"
  have start: "dc_start env d = announce env ?e" using assms by (simp add: dc_start_def bindSocket_def)
  have "life ?e = life (d\<lparr>dc_socket := True, dc_pending := [], dc_running := True\<rparr>)"
    using joined_socket(2) [of env "d\<lparr>dc_socket := True, dc_pending := [], dc_running := True\<rparr>"] by (simp add: dc_emit_def life_def)
  then show "life (dc_start env d) = (True, dc_settings d)" using announce_life [of env ?e] by (simp add: start life_def)
  show "dc_sent (dc_start env d) \<noteq> []"
    unfolding start by (rule announced) (simp add: dc_emit_def joined_socket)
qed

text \<open>
  C37. Only the switch turns discovery off: an application that starts with receiving turned off does
  not listen, but discovery runs, and on a network it announces a device that refuses everything.
\<close>

theorem started_off_still_announces:
  assumes "\<not> receiveEnabled st" "v_bind venv"
  shows "let a = client_start renv venv (new_Client st hist kd dm r1 r2 fs)
    in \<not> server_isListening (rs_server (cl_receiver a)) \<and> dc_running (cl_discovery a) \<and> dc_sent (cl_discovery a) \<noteq> []"
proof -
  define d where "d = lent_discovery (new_Client st hist kd dm r1 r2 fs)"
  have "\<not> dc_running d" by (simp add: d_def lent_discovery_def new_Client_def new_Discovery_def)
  then have "dc_running (dc_start (venv\<lparr>v_known := Some kd\<rparr>) d) \<and> dc_sent (dc_start (venv\<lparr>v_known := Some kd\<rparr>) d) \<noteq> []"
    using started_announces [of d "venv\<lparr>v_known := Some kd\<rparr>"] assms(2) by (simp add: life_def)
  moreover have "\<not> server_isListening (rs_server (new_ReceiveService st r1 fs))"
    by (simp add: new_ReceiveService_def new_HttpServer_def server_isListening_def)
  ultimately show ?thesis
    using assms(1) by (simp add: client_start_def by_discovery_def Let_def d_def) (simp add: new_Client_def)
qed

lemma startListening_listens:
  assumes "\<not> server_isListening (rs_server r)" "e_listen env = Inr"
  shows "server_isListening (rs_server (snd (startListening env r)))" "rs_pending (snd (startListening env r)) = rs_pending r"
    "rs_settings (snd (startListening env r)) = rs_settings r"
  using assms by (auto simp: startListening_def Let_def server_start_def on_server_def rs_emit_def server_isListening_def
      split: prod.split sum.split)

lemma app_on_runs: "receiveEnabled (cl_settings app_on)" "server_isListening (rs_server (cl_receiver app_on))"
  "dc_running (cl_discovery app_on)" "rs_pending (cl_receiver app_on) = None"
proof -
  let ?a = "app_new sent_settings" and ?r = "snd (startListening demo_env (lent_receiver (app_new sent_settings)))"
  let ?b = "start_receiver demo_env net_env ?a"
  have on: "receiveEnabled sent_settings" by code_simp
  then have a: "app_on = by_discovery net_env dc_start ?b" by (simp add: app_on_def client_start_def app_new_def new_Client_def)
  have idle: "\<not> server_isListening (rs_server (lent_receiver ?a))" "rs_pending (lent_receiver ?a) = None"
    by (simp_all add: app_new_def new_Client_def lent_receiver_def new_ReceiveService_def new_HttpServer_def server_isListening_def)
  have "e_listen demo_env = Inr" by (simp add: demo_env_def)
  note listens = startListening_listens [OF idle(1) this]
  have b: "cl_receiver ?b = ?r" "dc_running (cl_discovery ?b) = dc_running (cl_discovery ?a)" "cl_settings ?b = rs_settings ?r"
    by (simp_all add: start_receiver_def by_receiver_def Let_def forward_keeps)
  have "\<not> dc_running (lent_discovery ?b)"
    using b(2) by (simp add: lent_discovery_def app_new_def new_Client_def new_Discovery_def)
  then have "life (cl_discovery app_on) = (True, cl_settings ?b)"
    using started_announces(1) [of "lent_discovery ?b"] by (simp add: a by_discovery_def Let_def net_env_def lent_discovery_def)
  then show "receiveEnabled (cl_settings app_on)" "server_isListening (rs_server (cl_receiver app_on))"
    "dc_running (cl_discovery app_on)" "rs_pending (cl_receiver app_on) = None"
    using b(1,3) listens idle(2) on
    by (simp_all add: a by_discovery_def Let_def life_def) (simp_all add: lent_receiver_def app_new_def new_Client_def)
qed

theorem switch_off_stops_witness:
  "\<not> dc_running (cl_discovery (app_step net_env (AtSettings demo_env (setReceiveEnabled False)) app_on))"
  using switch_off_stops [OF app_on_runs(1,2) _ app_on_runs(3) refl, of net_env demo_env] app_on_runs(4) by (simp add: pend_ok_def)

theorem started_off_still_announces_witness:
  "dc_sent (cl_discovery (client_start demo_env net_env (app_new off_settings))) \<noteq> []"
proof -
  have off: "\<not> receiveEnabled off_settings" by code_simp
  have "v_bind net_env" by (simp add: net_env_def)
  from started_off_still_announces [OF off this] show ?thesis by (simp add: app_new_def Let_def)
qed

section \<open>The one transfer\<close>

definition direction :: "SendService \<Rightarrow> Direction" where
  "direction s = m_direction (sd_transfer s)"

lemma m_direction_kept [simp]:
  "m_direction (setState now st err tm) = m_direction tm" "m_direction (setFileStatus now row x err tm) = m_direction tm"
  by (simp_all add: setState_def setFileStatus_def Let_def)

lemma direction_kept [simp]:
  "direction (sd_status env row fs err s) = direction s" "direction (sd_state env st err s) = direction s"
  "direction (closeCurrentFile s) = direction s" "direction (s\<lparr>sd_currentRow := n\<rparr>) = direction s"
  "direction (sd_emit x s) = direction s" "direction (writeHistory env s) = direction s"
  by (simp_all add: direction_def sd_status_def sd_state_def on_tm_def closeCurrentFile_def sd_emit_def writeHistory_def Let_def
      split: prod.split)

lemma completeTransfer_keeps: "direction (completeTransfer env s) = direction s" "sd_files (completeTransfer env s) = sd_files s"
proof -
  have e: "direction (t\<lparr>sd_known := kd\<rparr>) = direction t" "direction (t\<lparr>sd_busy := bz, sd_sessionId := sid\<rparr>) = direction t"
    for t kd bz sid by (simp_all add: direction_def)
  show "direction (completeTransfer env s) = direction s" "sd_files (completeTransfer env s) = sd_files s"
    by (simp_all add: completeTransfer_def Let_def e)
qed

text \<open>Going on with the next file leaves the rows up to the current one alone.\<close>

definition same_so_far :: "int \<Rightarrow> SendService \<Rightarrow> SendService \<Rightarrow> bool" where
  "same_so_far row s t \<longleftrightarrow> direction t = direction s \<and> (\<forall>i. int i \<le> row \<longrightarrow> sd_files t ! i = sd_files s ! i)"

lemma same_so_far_status: "same_so_far row s t \<Longrightarrow> row < int r \<Longrightarrow> same_so_far row s (sd_status env (int r) fs err t)"
  by (auto simp: same_so_far_def files_status)

lemma startNextFile_same: "same_so_far row s t \<Longrightarrow> row \<le> sd_currentRow t \<Longrightarrow> same_so_far row s (startNextFile env t)"
proof (induction env t rule: startNextFile.induct)
  case (1 env s0)
  define t where "t = closeCurrentFile s0"
  define n where "n = next_row (sd_files t) (nat (sd_currentRow t + 1))"
  define t1 where "t1 = t\<lparr>sd_currentRow := int n\<rparr>"
  let ?u = "sd_status env (int n) FileFailed (n_tr env ''Could not open the file'' []) t1"
  have eq: "startNextFile env s0 = (if sd_cancelled t then t else if n \<ge> length (sd_files t) then completeTransfer env t
      else if \<not> n_open env (localPath (sd_files t1 ! n)) then startNextFile env ?u else upload_row env (int n) t1)"
    by (subst startNextFile.simps) (simp add: Let_def flip: t_def n_def t1_def)
  have t: "same_so_far row s t" "same_so_far row s t1" using "1.prems"(1) by (simp_all add: same_so_far_def t_def t1_def)
  have "row < int n" using next_row_ge [of "nat (sd_currentRow t + 1)" "sd_files t"] "1.prems"(2) by (simp add: n_def t_def)
  then have u: "same_so_far row s ?u" "row \<le> sd_currentRow ?u"
    and up: "same_so_far row s (sd_status env (int n) FileTransferring [] (t1\<lparr>sd_currentFile := cf\<rparr>))" for cf
    using t same_so_far_status by (auto simp: t1_def same_so_far_def direction_def)
  have "same_so_far row s (upload_row env (int n) t1)"
    using up by (simp add: upload_row_def Let_def post_def same_so_far_def direction_def sd_files_def)
  moreover have "same_so_far row s (completeTransfer env t)" using t(1) by (simp add: same_so_far_def completeTransfer_keeps)
  moreover note "1.IH" [OF t_def _ n_def _ t1_def _ u]
  ultimately show ?case unfolding eq using t(1) by auto
qed

lemma opened_request:
  assumes "\<not> quickSave (rs_settings r)" "t = open_request env i info files peer r"
  shows "m_direction (rs_transfer t) = Receiving" "m_files (rs_transfer t) = map (make_entry (e_lib env) files) (map fst files)"
    "rs_files t = rs_files r"
  using assms(1) by (simp_all add: assms(2) open_request_def Let_def on_transfer_def registerPeer_def rs_emit_def begin_transfer_def
      recomputeTotals_def)

text \<open>What \<open>handlePrepareUpload\<close> asks of a request before the person is asked.\<close>

definition admissible :: "recv_env \<Rightarrow> HttpConnection \<Rightarrow> ReceiveService \<Rightarrow> bool" where
  "admissible env conn r \<longleftrightarrow> h_path conn = endpoint PathPrepareUpload
     \<and> receiveEnabled (rs_settings r) \<and> pending_conn r = None \<and> rs_sessionId r = []
     \<and> allow (e_now env) (h_peerAddress conn) (rs_pinAttempts r)
     \<and> checkPin (e_lib env) (e_ev env) (query conn ''pin'') (rs_settings r)
     \<and> (let info = to_object (jvalue (jsonBody (e_net env) conn) ''info'');
             files = to_object (jvalue (jsonBody (e_net env) conn) ''files'');
             peer = fromPayload (e_lib env) info
         in info \<noteq> [] \<and> files \<noteq> [] \<and> length files \<le> MaxFilesPerSession
            \<and> (h_peerCertificate conn \<noteq> []
                 \<longrightarrow> equalsFold (e_lib env) (fingerprintOf (e_lib env) (h_peerCertificate conn)) (fingerprint peer))
            \<and> \<not> is_blocked env (fingerprint peer) r)"

lemma admissible_opens:
  assumes "admissible env conn r"
  shows "\<exists>info peer r1. onRequestReady env i conn r = open_request env i info (to_object (jvalue (jsonBody (e_net env) conn) ''files'')) peer r1
    \<and> rs_settings r1 = rs_settings r \<and> rs_files r1 = rs_files r"
proof -
  let ?r1 = "r\<lparr>rs_pinAttempts := recordSuccess (h_peerAddress conn) (rs_pinAttempts r)\<rparr>"
  have "endpoint PathPrepareUpload \<noteq> endpoint PathInfo" "endpoint PathPrepareUpload \<noteq> PathLegacyInfo"
    "endpoint PathPrepareUpload \<noteq> endpoint PathRegister" by code_simp+
  moreover have "is_blocked env fp ?r1 = is_blocked env fp r" for fp by (simp add: is_blocked_def)
  ultimately have "onRequestReady env i conn r = open_request env i (to_object (jvalue (jsonBody (e_net env) conn) ''info''))
      (to_object (jvalue (jsonBody (e_net env) conn) ''files''))
      ((fromPayload (e_lib env) (to_object (jvalue (jsonBody (e_net env) conn) ''info'')))\<lparr>address := h_peerAddress conn\<rparr>) ?r1"
    using assms by (auto simp: admissible_def onRequestReady_def handlePrepareUpload_def Let_def)
  then show ?thesis by (intro exI conjI) (assumption, simp_all)
qed

text \<open>
  C36. The one transfer is overwritten while it is being used. In the middle of an outgoing upload of row
  \<open>j\<close> a prepare-upload request arrives that the receiver would take at any other time (receiving is on
  and idle, the PIN, the certificate and the body are in order, the sender is not blocked); quick save
  is off, so the person has not answered yet. No check looks at the transfer: the rows are replaced by
  those of the request, and the next successful answer to the upload marks row \<open>j\<close> of the incoming
  transfer as done, although nothing was received and nothing is on the disk.
\<close>

theorem shared_transfer_is_clobbered:
  assumes "map_of (sd_inFlight (cl_sender a)) k = Some (rq, OnUpload (int j))"
    and "sd_currentRow (cl_sender a) = int j" "\<not> sd_cancelled (cl_sender a)"
    and "\<not> rp_error (answered (n_lib senv) rq rp)" "200 \<le> rp_status (answered (n_lib senv) rq rp)" "rp_status (answered (n_lib senv) rq rp) < 300"
    and "admissible renv conn (lent_receiver a)" "\<not> quickSave (cl_settings a)"
    and "files = to_object (jvalue (jsonBody (e_net renv) conn) ''files'')" "j < length files"
    and "b = by_receiver venv (onRequestReady renv i conn) a" "c = app_step venv (AtSender senv (ReplyDone k rp)) b"
  shows "m_direction (cl_transfer c) = Receiving
    \<and> fe_id (m_files (cl_transfer c) ! j) = fe_id (make_entry (e_lib renv) files (fst (files ! j)))
    \<and> fe_status (m_files (cl_transfer c) ! j) = FileDone \<and> localPath (m_files (cl_transfer c) ! j) = []
    \<and> rs_files (cl_receiver c) = rs_files (cl_receiver a)"
proof -
  define r where "r = onRequestReady renv i conn (lent_receiver a)"
  obtain info peer r1 where r: "r = open_request renv i info files peer r1" "rs_settings r1 = cl_settings a" "rs_files r1 = rs_files (cl_receiver a)"
    using admissible_opens [OF assms(7), of i] by (auto simp: r_def assms(9) lent_receiver_def)
  have quiet: "\<not> quickSave (rs_settings r1)" using assms(8) r(2) by simp
  note opened = opened_request [OF quiet r(1)]
  have b: "cl_sender b = cl_sender a" "cl_transfer b = rs_transfer r" "cl_receiver b = r"
    using forward_keeps(2) by (simp_all add: assms(11) by_receiver_def Let_def r_def)
  define s where "s = lent_sender b"
  define t where "t = (let u = s\<lparr>sd_inFlight := AList.delete k (sd_inFlight s)\<rparr> in if sd_reply u = Some k then u\<lparr>sd_reply := None\<rparr> else u)"
  define t1 where "t1 = sd_status senv (int j) FileDone [] t"
  have t: "sd_files t = m_files (rs_transfer r)" "direction t = Receiving" "sd_currentRow t = int j"
    using opened b assms(2) by (simp_all add: t_def s_def lent_sender_def direction_def sd_files_def Let_def)
  have step: "sd_step senv (ReplyDone k rp) s = startNextFile senv t1"
    using assms(1,2,3,4,5,6) b(1)
    by (simp add: s_def lent_sender_def on_finished_def onUploadFinished_def Let_def t1_def t_def)
  have "same_so_far (int j) t1 (startNextFile senv t1)"
    by (rule startNextFile_same) (simp_all add: same_so_far_def t1_def t(3))
  moreover have "cl_transfer c = sd_transfer (startNextFile senv t1)" "cl_receiver c = r"
    using step b(3) by (simp_all add: assms(12) by_sender_def Let_def s_def)
  ultimately have c: "m_direction (cl_transfer c) = direction t1" "m_files (cl_transfer c) ! j = sd_files t1 ! j" "cl_receiver c = r"
    by (simp_all add: same_so_far_def direction_def sd_files_def)
  have "sd_files t1 ! j = (make_entry (e_lib renv) files (fst (files ! j)))\<lparr>fe_status := FileDone, fe_error := [],
      transferred := fe_size (make_entry (e_lib renv) files (fst (files ! j)))\<rparr>"
    using assms(10) by (simp add: t1_def files_status t(1) opened(2))
  moreover have "direction t1 = Receiving" using t(2) by (simp add: t1_def)
  moreover have "rs_files r = rs_files (cl_receiver a)" using opened(3) r(3) by simp
  ultimately show ?thesis using c by (simp add: make_entry_def Let_def new_FileEntry_def)
qed

text \<open>A second peer offers the file of \<open>demo_offer\<close>.\<close>

definition second_peer :: HttpConnection where
  "second_peer = (new_HttpConnection 0 (qs ''h'') [])\<lparr>h_path := endpoint PathPrepareUpload\<rparr>"

lemma second_peer_admissible: "admissible demo_env second_peer (lent_receiver app_sending)"
proof -
  have "admissible demo_env second_peer (lent_receiver (app_new sent_settings))" by code_simp
  moreover have "lent_receiver app_sending = (lent_receiver (app_new sent_settings))\<lparr>rs_transfer := cl_transfer app_sending\<rparr>"
    by (simp add: lent_receiver_def app_sending_def)
  moreover have "pending_conn (r\<lparr>rs_transfer := x\<rparr>) = pending_conn r" for r :: ReceiveService and x
    by (simp add: pending_conn_def split: option.split)
  then have "admissible env conn (r\<lparr>rs_transfer := x\<rparr>) = admissible env conn r" for env conn r x
    by (simp add: admissible_def is_blocked_def)
  ultimately show ?thesis by (simp only:)
qed

theorem shared_transfer_is_clobbered_witness:
  "fe_status (m_files (cl_transfer (app_step net_env (AtSender sent_env (ReplyDone 1 ok_reply))
     (by_receiver net_env (onRequestReady demo_env 0 second_peer) app_sending))) ! 0) = FileDone"
proof -
  obtain rq where rq: "map_of (sd_inFlight (cl_sender app_sending)) 1 = Some (rq, OnUpload (int 0))"
    "\<not> rp_error (answered (n_lib sent_env) rq ok_reply)" "rp_status (answered (n_lib sent_env) rq ok_reply) = 200"
    using app_sends(1) by (auto simp: answered_def goes_out_def ok_reply_def)
  have "sd_currentRow (cl_sender app_sending) = int 0" using app_sends(2) by simp
  moreover have "0 < length (to_object (jvalue (jsonBody (e_net demo_env) second_peer) ''files''))" by code_simp
  ultimately show ?thesis
    using shared_transfer_is_clobbered [OF rq(1) _ app_sends(3) rq(2) _ _ second_peer_admissible app_sends(4) refl _ refl refl] rq(3) by simp
qed

end
