(* ===== verification/Spec2Isabelle.thy ===== *)
theory Spec2Isabelle
  imports App_Settings Device_Model Known_Devices Rate_Limiter Transfer_Model Http_Body Http_Server
    History_Model File_Url Device_Look Receive_Waiting Receive_Endpoints Send_Done Discovery_Listing
    Handshake Offer Application
begin

text \<open>
  \<^bold>\<open>What this is.\<close> A model of \<open>harbour-localsend\<close>, a LocalSend v2 client: two devices on
  one network find each other, one asks to send files, the other asks its user, and the files
  travel over HTTP or HTTPS. The program is the C++ of \<open>src/src\<close> and two JavaScript libraries of
  \<open>src/qml/components\<close>. Every definition that models code is listed with the lines it translates in the
  manifest; the theorems named \<open>C1\<close> to \<open>C40\<close> there are preceded by their statement in words.

  \<^bold>\<open>How the parts interact.\<close> \<open>HttpServer\<close> accepts sockets and builds an \<open>HttpConnection\<close> on
  each; the connection parses one request and calls the slots of \<open>ReceiveService\<close>, which routes it,
  keeps the one session in the shared \<open>TransferModel\<close>, writes files through \<open>HashingFile\<close>, asks
  \<open>RateLimiter\<close>, \<open>KnownDevices\<close> and \<open>AppSettings\<close> and logs to \<open>HistoryModel\<close>. \<open>Discovery\<close> fills
  \<open>DeviceModel\<close>. \<open>SelectionModel\<close> collects the files that \<open>SendService\<close> offers to a device of the
  list, over requests that \<open>TlsClient\<close> pins. The private files go through \<open>SecureStore\<close> and
  \<open>Crypto\<close>.

  \<^bold>\<open>Theories.\<close>
  \<^item> \<open>Prelude\<close>, \<open>Platform\<close>: UTF-16 strings, bytes, JSON values (an object keeps its members sorted by
    key, as \<open>QJsonObject\<close> does), \<open>qint64\<close>, hash tables, and the record \<open>qtlib\<close> of library functions with what is relied on of them (\<open>qt_ok\<close>).
  \<^item> \<open>Crypto\<close> (\<open>crypto.cpp\<close>), \<open>Secure_Store\<close> (\<open>securestore.cpp\<close>, \<open>certificate.cpp\<close>, the comparison of
    \<open>tlsclient.cpp\<close>): round trips of the store, a blob never read as another's, the identity survives a
    restart.
  \<^item> \<open>Protocol\<close>, \<open>Device_Info\<close>, \<open>App_Settings\<close>, \<open>Known_Devices\<close>, \<open>Device_Model\<close>,
    \<open>Rate_Limiter\<close>, \<open>Transfer_Model\<close>, \<open>History_Model\<close>: one theory per source file of that name. Each has
    its record, its operations in the order of the source, its invariant and what its operations
    promise.
  \<^item> \<open>Http_Connection\<close>, \<open>Http_Body\<close>, \<open>Http_Server\<close> (\<open>httpserver.cpp\<close>): the connection as a
    state machine over the slots of its owner; \<open>Http_Invariant\<close> holds the two locales through which an
    owner's invariant and its contract give facts about every event.
  \<^item> \<open>Receive_State\<close>, \<open>Receive_Service\<close> (\<open>receiveservice.cpp\<close>, \<open>hashingfile.cpp\<close>): state and
    handlers. \<open>Receive_Frame\<close>, \<open>Receive_Slots\<close>, \<open>Receive_Contract\<close>, \<open>Receive_Events\<close> prove once
    what every handler leaves alone and that an invariant over the few changes of the locale
    \<open>service_inv\<close> survives every event; \<open>Receive_Safety\<close>, \<open>Receive_Kept\<close>, \<open>Receive_Waiting\<close>
    instantiate it, \<open>Receive_Claims\<close> and \<open>Receive_Endpoints\<close> state the results, \<open>Receive_Demo\<close> is a
    whole transfer, evaluated.
  \<^item> \<open>Selection_Model\<close> (\<open>selectionmodel.cpp\<close>), \<open>Http_Client\<close> (\<open>tlsclient.cpp\<close> and the requests),
    \<open>Send_Service\<close> (\<open>sendservice.cpp\<close>); \<open>Send_Safety\<close>, \<open>Send_Steps\<close>, \<open>Send_Run\<close>, \<open>Send_Claims\<close>,
    \<open>Send_Done\<close>: at most one reply is awaited, requests go to the chosen device only and pinned, a
    transfer ends once, the uploads come to an end with no file uploaded twice, only an answered upload
    is done. What the pin decides, and that it is not asked about a certificate the library verified by
    itself, is in \<open>Http_Client\<close>.
  \<^item> \<open>Discovery\<close> (\<open>discovery.cpp\<close>); \<open>Discovery_Demo\<close>, \<open>Discovery_Sweep\<close>, \<open>Discovery_Answers\<close>,
    \<open>Discovery_Listing\<close>: the sweep ends, forged announcements cause a bounded number of answers, what
    enters the list, and how the switch for encryption lets the own key in.
  \<^item> \<open>Handshake\<close>, \<open>Offer\<close>: sender and receiver together: the offer is read back (in the order of its ids), the tokens
    handed out are the ones the uploads name, and those uploads are admitted. \<open>Application\<close>
    (\<open>harbour-localsend.cpp\<close>): the objects of one application and what they share, the start, the
    switch for receiving; here two error behaviours of the composition show.
  \<^item> \<open>Js_Numbers\<close>, \<open>Formatting\<close> (\<open>Formatting.js\<close>), \<open>File_Url\<close>, \<open>Device_Look\<close>
    (\<open>DeviceLook.js\<close>): doubles as rationals rounded to 53 bits, what the pages print; a URL of \<open>fileUrl\<close>
    read back with \<open>decodeURIComponent\<close> of the language.

  \<^bold>\<open>How code becomes definitions.\<close> A class is a record with the source's member names (a prefix
  where two classes share one), a method a function on it, a signal an entry of a log or a slot of its
  owner. A pointer to a connection or a reply is its number in a table. Timers are deadlines, network
  answers and expiries are events; a run is a list of events, each with an environment (clock, disk
  answers, random draws, translations) of its own. \<open>qint64\<close> arithmetic wraps in \<open>wrap64\<close>.

  \<^bold>\<open>Loops.\<close> Recursion is structural or has its measure proved: the body readers of a connection
  (bytes left in the buffer), \<open>pump_loop\<close> of the sweep (addresses left), \<open>next_row\<close> and
  \<open>startNextFile\<close> (rows left), the doubling of a backoff (distance to its cap). There is no fuel;
  \<open>tries\<close> are the numbers 2 to 999 that \<open>reserveFilePath\<close> tries before it gives up.

  \<^bold>\<open>Parameters.\<close> Code outside the repository is an argument: Qt's text, URL and JSON conversions
  (\<open>qtlib\<close>, \<open>netlib\<close>), OpenSSL (\<open>evp\<close> and the fields of the environments), the Sailfish Secrets
  daemon, file facts (\<open>filelib\<close>), the operating system's answers. What is assumed of them is a named
  hypothesis (\<open>qt_ok\<close> and the like) with a concrete instance in each witness.

  \<^bold>\<open>Readings of the source to know.\<close> A socket closed by a handler reports its disconnection as a
  later event. Uploads are visited in table order where \<open>QHash\<close> leaves the order open. Other programs
  may create files that were absent, not change the ones there. The \<open>Content-Length\<close> header of an
  outgoing upload is not modelled. A run of the sender is \<open>polite\<close> when a PIN is submitted only while no
  reply is awaited: \<open>submitPin\<close> does not check, the page does.

  \<^bold>\<open>Not modelled.\<close> The QML pages and the translations (no logic of the protocol), the construction of
  the X.509 certificate inside OpenSSL, the D-Bus traffic of the secrets daemon (its answers are
  parameters), and of \<open>main\<close> the view, its context and the translator.
\<close>

end
